(* ===== verification/Prelude.thy ===== *)
theory Prelude
  imports
    Main
    "HOL-Library.AList"
    "HOL-Library.Multiset"
    "HOL-Library.FSet"
    "HOL-Library.Char_ord"
    "HOL-Library.List_Lexorder"
    "HOL-Library.Product_Lexorder"
begin

text \<open>
  Shared vocabulary of the development: the HOL types that stand for the Python values the
  services exchange, Python's insertion-ordered dictionaries as association lists, the truth
  value of optional strings, and the generic lemmas on association lists, sums and
  stable sorting that the component theories use.

  Conventions. A Python \<open>str\<close> is a HOL \<open>string\<close>; its characters are the code points below
  256, ordered by code point as Python orders them. Python integers are unbounded and become
  \<open>int\<close>. An aware \<open>datetime\<close> is the instant it denotes, in microseconds since the epoch
  (equality, order and hashing of aware datetimes depend on nothing else); a
  \<open>timedelta(seconds=n)\<close> is \<open>n * 1000000\<close>. A Python \<open>set\<close> or \<open>frozenset\<close> is an \<open>fset\<close>:
  finite and equal exactly when the elements are.
\<close>

section \<open>Types\<close>

type_synonym instant = int
type_synonym ('k, 'v) dict = "('k \<times> 'v) list"

named_theorems dict_simps \<open>lookup, update and key facts about insertion-ordered dictionaries\<close>
named_theorems queue_simps \<open>facts about bounded queues and their contents\<close>

definition us_per_s :: int where
  "us_per_s = 1000000"

lemma us_per_s_pos [simp]: "0 < us_per_s"
  by (simp add: us_per_s_def)

section \<open>Truth values and the operator or\<close>

text \<open>\<open>None\<close> and the empty string are false; \<open>a or b\<close> is \<open>a\<close> when \<open>a\<close> is true and \<open>b\<close> otherwise.\<close>

definition truthy :: "string option \<Rightarrow> bool" where
  "truthy s = (case s of None \<Rightarrow> False | Some t \<Rightarrow> t \<noteq> [])"

definition py_or :: "string option \<Rightarrow> string option \<Rightarrow> string option" where
  "py_or a b = (if truthy a then a else b)"

lemma truthy_simps [simp]: "\<not> truthy None" "truthy (Some t) \<longleftrightarrow> t \<noteq> []"
  by (simp_all add: truthy_def)

lemma py_or_simps [simp]:
  "py_or None b = b" "py_or (Some []) b = b" "py_or (Some (c # cs)) b = Some (c # cs)"
  by (simp_all add: py_or_def)

lemma py_or_truthy: "truthy a \<Longrightarrow> py_or a b = a"
  by (simp add: py_or_def)

section \<open>Exceptions\<close>

text \<open>
  A call that may raise returns \<open>Inl e\<close> for the exception and \<open>Inr v\<close> for the value; \<open>fold_r\<close>
  is a loop whose body may raise, which ends the loop.
\<close>

datatype py_error = KeyError | ValueError | TypeError | AttributeError | IndexError | ZeroDivisionError | RuntimeError | CsvError

definition bind_r :: "'e + 'a \<Rightarrow> ('a \<Rightarrow> 'e + 'b) \<Rightarrow> 'e + 'b" where
  "bind_r m f = (case m of Inl e \<Rightarrow> Inl e | Inr v \<Rightarrow> f v)"

lemma bind_r_simps [simp]: "bind_r (Inl e) f = Inl e" "bind_r (Inr v) f = f v"
  by (simp_all add: bind_r_def)

lemma bind_r_Inr: "bind_r m f = Inr w \<longleftrightarrow> (\<exists>v. m = Inr v \<and> f v = Inr w)"
  by (cases m) auto

fun fold_r :: "('s \<Rightarrow> 'a \<Rightarrow> 'e + 's) \<Rightarrow> 's \<Rightarrow> 'a list \<Rightarrow> 'e + 's" where
  "fold_r f s [] = Inr s"
| "fold_r f s (x # xs) = bind_r (f s x) (\<lambda>s1. fold_r f s1 xs)"

lemma fold_r_total:
  "(\<And>s x. x \<in> set xs \<Longrightarrow> f s x = Inr (g s x)) \<Longrightarrow> fold_r f s xs = Inr (foldl g s xs)"
  by (induction xs arbitrary: s) auto

definition lookup_r :: "('k, 'v) dict \<Rightarrow> 'k \<Rightarrow> py_error + 'v" where
  "lookup_r d k = (case map_of d k of None \<Rightarrow> Inl KeyError | Some v \<Rightarrow> Inr v)"

section \<open>Insertion-ordered dictionaries\<close>

text \<open>
  \<open>d[k] = v\<close> is \<^const>\<open>AList.update\<close>: it overwrites in place when the key is there and appends
  otherwise, which is the iteration order of a Python dict. \<open>dict_alter k v0 f d\<close> is
  \<open>d.setdefault(k, v0)\<close> followed by the in-place change \<open>f\<close> of the object found there.
\<close>

primrec dict_alter :: "'k \<Rightarrow> 'v \<Rightarrow> ('v \<Rightarrow> 'v) \<Rightarrow> ('k, 'v) dict \<Rightarrow> ('k, 'v) dict" where
  "dict_alter k v0 f [] = [(k, f v0)]"
| "dict_alter k v0 f (p # d) = (if fst p = k then (k, f (snd p)) # d else p # dict_alter k v0 f d)"

definition dict_get :: "('k, 'v) dict \<Rightarrow> 'k \<Rightarrow> 'v \<Rightarrow> 'v" where
  "dict_get d k v0 = (case map_of d k of None \<Rightarrow> v0 | Some v \<Rightarrow> v)"

definition dict_sum :: "('v \<Rightarrow> 'n) \<Rightarrow> ('k, 'v) dict \<Rightarrow> 'n::comm_monoid_add" where
  "dict_sum m d = sum_list (map (\<lambda>p. m (snd p)) d)"

lemma dict_sum_simps [simp]:
  "dict_sum m [] = 0" "dict_sum m (p # d) = m (snd p) + dict_sum m d"
  "dict_sum m (d @ e) = dict_sum m d + dict_sum m e"
  by (simp_all add: dict_sum_def)

lemma map_of_dict_alter [dict_simps]:
  "map_of (dict_alter k v0 f d) = (map_of d)(k \<mapsto> f (dict_get d k v0))"
  by (induction d) (auto simp: dict_get_def fun_eq_iff)

lemma dict_get_alter [dict_simps]:
  "dict_get (dict_alter k v0 f d) u v = (if u = k then f (dict_get d k v0) else dict_get d u v)"
  by (simp add: dict_get_def map_of_dict_alter)

lemma dict_get_simps [simp]:
  "dict_get [] k v = v"
  "dict_get ((k', w) # d) k v = (if k' = k then w else dict_get d k v)"
  by (simp_all add: dict_get_def)

lemma keys_dict_alter [dict_simps]:
  "map fst (dict_alter k v0 f d) = (if k \<in> fst ` set d then map fst d else map fst d @ [k])"
  by (induction d) auto

lemma distinct_dict_alter [simp]:
  "distinct (map fst (dict_alter k v0 f d)) \<longleftrightarrow> distinct (map fst d)"
  by (induction d) (auto simp: keys_dict_alter)

lemma dom_dict_alter [dict_simps]: "fst ` set (dict_alter k v0 f d) = insert k (fst ` set d)"
  by (induction d) auto

lemma set_dict_alter:
  "distinct (map fst d) \<Longrightarrow>
   set (dict_alter k v0 f d) = {p \<in> set d. fst p \<noteq> k} \<union> {(k, f (dict_get d k v0))}"
  by (induction d) (auto simp: dict_get_def rev_image_eqI split: option.splits)

lemma in_dict_alterD:
  "p \<in> set (dict_alter k v0 f d) \<Longrightarrow> p \<in> set d \<or> (\<exists>v. p = (k, f v) \<and> (v = v0 \<or> (k, v) \<in> set d))"
  by (induction d) (auto split: if_splits)

text \<open>
  An additive measure of the values grows by \<open>\<delta>\<close> when the altered object's measure does and
  a fresh object measures 0.
\<close>

lemma sum_list_dict_alter:
  fixes m :: "'k \<times> 'v \<Rightarrow> 'n::comm_monoid_add"
  assumes "\<And>v. m (k, f v) = m (k, v) + \<delta>" and "m (k, v0) = 0"
  shows "sum_list (map m (dict_alter k v0 f d)) = sum_list (map m d) + \<delta>"
  by (induction d) (auto simp: assms ac_simps)

lemma dict_sum_alter:
  fixes m :: "'v \<Rightarrow> 'n::comm_monoid_add"
  assumes "\<And>v. m (f v) = m v + \<delta>" and "m v0 = 0"
  shows "dict_sum m (dict_alter k v0 f d) = dict_sum m d + \<delta>"
  unfolding dict_sum_def by (rule sum_list_dict_alter) (simp_all add: assms)

text \<open>
  Grouping: folding \<open>dict_alter\<close> over a list of items leaves, under each key that occurs, the
  fold of the items with that key, and the keys in order of first occurrence.
\<close>

lemma filter_key_empty: "key \<notin> k ` set xs \<Longrightarrow> filter (\<lambda>x. k x = key) xs = []"
  by (auto simp: filter_empty_conv)

lemma map_of_group:
  "map_of (foldl (\<lambda>d x. dict_alter (k x) (z (k x)) (f x) d) [] xs) key =
     (if key \<in> k ` set xs then Some (foldl (\<lambda>v x. f x v) (z key) (filter (\<lambda>x. k x = key) xs))
      else None)"
proof (induction xs rule: rev_induct)
  case (snoc x xs)
  let ?d = "foldl (\<lambda>d x. dict_alter (k x) (z (k x)) (f x) d) [] xs"
  have "dict_get ?d key (z key) = foldl (\<lambda>v x. f x v) (z key) (filter (\<lambda>x. k x = key) xs)"
    using snoc filter_key_empty[of key k xs] by (auto simp: dict_get_def)
  with snoc show ?case by (auto simp: map_of_dict_alter)
qed simp

lemma dict_get_group:
  "dict_get (foldl (\<lambda>d x. dict_alter (k x) (z (k x)) (f x) d) [] xs) key (z key) =
     foldl (\<lambda>v x. f x v) (z key) (filter (\<lambda>x. k x = key) xs)"
  using filter_key_empty[of key k xs] by (auto simp: dict_get_def map_of_group)

lemma distinct_group [simp]:
  "distinct (map fst (foldl (\<lambda>d x. dict_alter (k x) (z x) (f x) d) [] xs))"
  by (induction xs rule: rev_induct) simp_all

lemma dom_group [dict_simps]:
  "fst ` set (foldl (\<lambda>d x. dict_alter (k x) (z x) (f x) d) [] xs) = k ` set xs"
  by (induction xs rule: rev_induct) (simp_all add: dom_dict_alter)

text \<open>\<open>{k(x): v(x) for x in xs}\<close> and the loops that write it: the last item with a key wins.\<close>

lemma map_of_update_fold:
  "map_of (foldl (\<lambda>d x. AList.update (k x) (v x) d) [] xs) key =
     map_option v (find (\<lambda>x. k x = key) (rev xs))"
  by (induction xs rule: rev_induct) (simp_all add: update_conv')

text \<open>Listing the items of every key that occurs, key by key, lists every item once.\<close>

lemma mset_concat_keys:
  assumes "distinct ks" and "k ` set xs \<subseteq> set ks"
  shows "mset (concat (map (\<lambda>d. filter (\<lambda>x. k x = d) xs) ks)) = mset xs"
proof -
  have "mset (concat (map (\<lambda>d. filter (\<lambda>x. k x = d) xs) ks)) = filter_mset (\<lambda>x. k x \<in> set ks) (mset xs)"
    using assms(1)
  proof (induction ks)
    case (Cons d ks)
    have "filter_mset (\<lambda>x. k x = d \<or> k x \<in> set ks) (mset xs) =
        filter_mset (\<lambda>x. k x = d) (mset xs) + filter_mset (\<lambda>x. k x \<in> set ks) (mset xs)"
      using Cons.prems by (induction xs) auto
    with Cons show ?case by simp
  qed simp
  also have "\<dots> = mset xs" using assms(2) by (intro filter_mset_eq_conv[THEN iffD2]) auto
  finally show ?thesis .
qed

text \<open>Splitting a sum over a dictionary by a predicate on the keys, whatever the key order used.\<close>

lemma sum_list_sort: "sum_list (map m (sort xs)) = (sum_list (map m xs) :: 'n::comm_monoid_add)"
  by (metis mset_map mset_sort sum_mset_sum_list)

lemma sum_list_partition:
  "sum_list (map m (filter P xs)) + sum_list (map m (filter (\<lambda>x. \<not> P x) xs)) =
   (sum_list (map m xs) :: 'n::comm_monoid_add)"
  by (induction xs) (auto simp: ac_simps)

lemma sum_list_keys:
  fixes m :: "'k \<times> 'v \<Rightarrow> 'n::comm_monoid_add"
  assumes "distinct (map fst d)"
  shows "sum_list (map (\<lambda>k. m (k, dict_get d k v0)) (filter P (map fst d))) =
         sum_list (map m (filter (\<lambda>p. P (fst p)) d))"
proof -
  have "map (\<lambda>k. m (k, dict_get d k v0)) (filter P (map fst d)) =
        map (\<lambda>p. m (fst p, dict_get d (fst p) v0)) (filter (\<lambda>p. P (fst p)) d)"
    by (simp add: filter_map comp_def)
  also have "\<dots> = map m (filter (\<lambda>p. P (fst p)) d)"
    using assms by (auto simp: dict_get_def)
  finally show ?thesis by simp
qed

lemma dict_sum_update_fresh:
  "k \<notin> fst ` set d \<Longrightarrow> dict_sum m (AList.update k v d) = dict_sum m d + m v"
  by (induction d) (auto simp: ac_simps)

lemma dict_sum_delete:
  fixes m :: "'v \<Rightarrow> 'n::comm_monoid_add"
  shows "distinct (map fst d) \<Longrightarrow> map_of d k = Some v \<Longrightarrow>
    m v + dict_sum m (AList.delete k d) = dict_sum m d"
proof (induction d)
  case (Cons p d)
  show ?case
  proof (cases "fst p = k")
    case True
    with Cons.prems have "AList.delete k d = d" by auto
    with True Cons.prems show ?thesis by (cases p) auto
  next
    case False
    with Cons.prems have "map_of d k = Some v" by (cases p) auto
    with Cons have "m v + dict_sum m (AList.delete k d) = dict_sum m d" by auto
    with False show ?thesis by (cases p) (auto simp: add.left_commute)
  qed
qed simp

section \<open>Stable sorting by a key\<close>

text \<open>\<open>sorted(xs, key=k)\<close> is \<^const>\<open>sort_key\<close>, which is stable as Python's sort is.\<close>

lemma find_sort_key_least:
  assumes "find P (sort_key k xs) = Some x"
  shows "x \<in> set xs \<and> P x \<and> (\<forall>y\<in>set xs. P y \<longrightarrow> k x \<le> k y)"
proof -
  obtain i where i: "i < length (sort_key k xs)" "P (sort_key k xs ! i)" "x = sort_key k xs ! i"
    "\<forall>j<i. \<not> P (sort_key k xs ! j)"
    using assms by (auto simp: find_Some_iff)
  have "k x \<le> k y" if y: "y \<in> set xs" "P y" for y
  proof -
    from y obtain j where j: "j < length (sort_key k xs)" "y = sort_key k xs ! j"
      by (metis in_set_conv_nth set_sort)
    with i y have "i \<le> j" using leI by blast
    then have "map k (sort_key k xs) ! i \<le> map k (sort_key k xs) ! j"
      using j sorted_sort_key[of k xs] by (auto simp: sorted_iff_nth_mono)
    with i j show ?thesis by simp
  qed
  with i show ?thesis by (metis nth_mem set_sort)
qed

lemma find_sort_key_None: "find P (sort_key k xs) = None \<longleftrightarrow> (\<forall>x\<in>set xs. \<not> P x)"
  by (auto simp: find_None_iff)

end
