(* ===== verification/Event_Types.thy ===== *)
theory Event_Types
  imports Prelude
begin

text \<open>
  The events on the Redis streams: \<open>common/src/ztna_common/event_types.py\<close>. Both are
  \<open>TypedDict\<close>s there and records here, field by field.
\<close>

record flow_event =
  fe_ts :: instant
  fe_src_ip :: string
  fe_src_port :: int
  fe_dst_ip :: string
  fe_dst_port :: int
  fe_proto :: int
  fe_bytes :: int
  fe_packets :: int
  fe_action :: "string option"
  fe_fqdn :: "string option"
  fe_app_id :: "string option"
  fe_source :: string
  fe_raw_id :: "string option"

record identity_event =
  ie_ts :: instant
  ie_src_ip :: string
  ie_user_upn :: string
  ie_source :: string
  ie_event_type :: string
  ie_confidence :: int
  ie_ttl_seconds :: int
  ie_mac :: "string option"
  ie_raw_id :: "string option"

end
