(* ===== verification/Py_String.thy ===== *)
theory Py_String
  imports Prelude
begin

text \<open>
  The string operations of Python that the services call: case folding, stripping, splitting,
  replacing, decimal reading and printing. Characters are the code points below 256; case,
  white space and digit classes are those that Python gives to these code points.
\<close>

section \<open>Character classes\<close>

definition code :: "char \<Rightarrow> nat" where
  "code c = of_char c"

definition is_digit :: "char \<Rightarrow> bool" where
  "is_digit c \<longleftrightarrow> 48 \<le> code c \<and> code c \<le> 57"

definition digit_val :: "char \<Rightarrow> nat" where
  "digit_val c = code c - 48"

definition is_space :: "char \<Rightarrow> bool" where
  "is_space c \<longleftrightarrow> 9 \<le> code c \<and> code c \<le> 13 \<or> 28 \<le> code c \<and> code c \<le> 32 \<or> code c = 133 \<or> code c = 160"

text \<open>Upper case below 256: A to Z, and the accented capitals except the multiplication sign.\<close>

definition is_upper :: "char \<Rightarrow> bool" where
  "is_upper c \<longleftrightarrow> 65 \<le> code c \<and> code c \<le> 90 \<or> 192 \<le> code c \<and> code c \<le> 222 \<and> code c \<noteq> 215"

definition lower_char :: "char \<Rightarrow> char" where
  "lower_char c = (if is_upper c then char_of (code c + 32) else c)"

lemma code_char_of: "n < 256 \<Longrightarrow> code (char_of n) = n"
  by (simp add: code_def take_bit_eq_mod)

lemma char_of_code [simp]: "char_of (code c) = c"
  by (simp add: code_def)

lemma code_inject: "code c = code d \<longleftrightarrow> c = d"
  by (metis char_of_code)

lemma lower_char_idem [simp]: "lower_char (lower_char c) = lower_char c"
  by (auto simp: lower_char_def is_upper_def code_char_of)

definition lower :: "string \<Rightarrow> string" where
  "lower s = map lower_char s"

lemma lower_idem [simp]: "lower (lower s) = lower s"
  by (simp add: lower_def)

lemma length_lower [simp]: "length (lower s) = length s"
  by (simp add: lower_def)

section \<open>Stripping and splitting\<close>

definition strip_where :: "(char \<Rightarrow> bool) \<Rightarrow> string \<Rightarrow> string" where
  "strip_where p s = rev (dropWhile p (rev (dropWhile p s)))"

abbreviation strip :: "string \<Rightarrow> string" where
  "strip \<equiv> strip_where is_space"

definition rstrip_where :: "(char \<Rightarrow> bool) \<Rightarrow> string \<Rightarrow> string" where
  "rstrip_where p s = rev (dropWhile p (rev s))"

text \<open>\<open>s.split(c)\<close> for a one-character separator: never empty, one more piece than separators.\<close>

fun split_on :: "'a \<Rightarrow> 'a list \<Rightarrow> 'a list list" where
  "split_on c [] = [[]]"
| "split_on c (x # xs) = (if x = c then [] # split_on c xs
     else case split_on c xs of [] \<Rightarrow> [[x]] | p # ps \<Rightarrow> (x # p) # ps)"

fun join_with :: "'a list \<Rightarrow> 'a list list \<Rightarrow> 'a list" where
  "join_with sep [] = []"
| "join_with sep [p] = p"
| "join_with sep (p # q # ps) = p @ sep @ join_with sep (q # ps)"

lemma split_on_ne [simp]: "split_on c s \<noteq> []"
  by (induction s) (auto split: list.splits)

lemma join_split [simp]: "join_with [c] (split_on c s) = s"
proof (induction s)
  case (Cons x s)
  obtain p ps where "split_on c s = p # ps" using split_on_ne by (meson list.exhaust)
  with Cons show ?case by (cases ps) auto
qed simp

lemma split_on_none: "c \<notin> set s \<Longrightarrow> split_on c s = [s]"
  by (induction s) auto

lemma split_on_append: "c \<notin> set p \<Longrightarrow> split_on c (p @ c # s) = p # split_on c s"
  by (induction p) auto

lemma split_join:
  "ps \<noteq> [] \<Longrightarrow> \<forall>p\<in>set ps. c \<notin> set p \<Longrightarrow> split_on c (join_with [c] ps) = ps"
  by (induction ps rule: induct_list012) (auto simp: split_on_none split_on_append)

text \<open>\<open>s.partition(c)\<close>: before, whether the separator was found, after.\<close>

definition partition_on :: "char \<Rightarrow> string \<Rightarrow> string \<times> bool \<times> string" where
  "partition_on c s = (case dropWhile (\<lambda>x. x \<noteq> c) s of
     [] \<Rightarrow> (s, False, []) | _ # rest \<Rightarrow> (takeWhile (\<lambda>x. x \<noteq> c) s, True, rest))"

text \<open>\<open>s.replace(old, new)\<close> for a non-empty \<open>old\<close>: leftmost occurrences that do not overlap.\<close>

definition starts_with :: "string \<Rightarrow> string \<Rightarrow> bool" where
  "starts_with p s \<longleftrightarrow> take (length p) s = p"

definition ends_with :: "string \<Rightarrow> string \<Rightarrow> bool" where
  "ends_with p s \<longleftrightarrow> length p \<le> length s \<and> drop (length s - length p) s = p"

fun replace_in :: "nat \<Rightarrow> string \<Rightarrow> string \<Rightarrow> string \<Rightarrow> string" where
  "replace_in skip old new [] = []"
| "replace_in skip old new (c # s) =
     (if 0 < skip then replace_in (skip - 1) old new s
      else if starts_with old (c # s) then new @ replace_in (length old - 1) old new s
      else c # replace_in 0 old new s)"

definition replace :: "string \<Rightarrow> string \<Rightarrow> string \<Rightarrow> string" where
  "replace s old new = replace_in 0 old new s"

lemma starts_with_iff: "starts_with p s \<longleftrightarrow> (\<exists>q. s = p @ q)"
  unfolding starts_with_def by (metis append_eq_conv_conj append_take_drop_id)

lemma starts_with_long: "length p \<le> length s \<Longrightarrow> starts_with p (s @ t) \<longleftrightarrow> starts_with p s"
  by (simp add: starts_with_def)

lemma starts_with_append: "starts_with p s \<Longrightarrow> starts_with p (s @ t)"
  by (auto simp: starts_with_iff)

lemma ends_with_iff: "ends_with p s \<longleftrightarrow> (\<exists>q. s = q @ p)"
  by (metis append_eq_conv_conj append_take_drop_id diff_le_self ends_with_def length_append
      length_drop le_add2 add_diff_cancel_right')

section \<open>Searching a text\<close>

fun find_sub :: "string \<Rightarrow> string \<Rightarrow> nat option" where
  "find_sub p [] = (if p = [] then Some 0 else None)"
| "find_sub p (c # s) = (if starts_with p (c # s) then Some 0 else map_option Suc (find_sub p s))"

definition after_first :: "string \<Rightarrow> string \<Rightarrow> string" where
  "after_first p s = (case find_sub p s of None \<Rightarrow> s | Some i \<Rightarrow> drop (i + length p) s)"

text \<open>\<open>p in s\<close>\<close>

definition contains :: "string \<Rightarrow> string \<Rightarrow> bool" where
  "contains p s \<longleftrightarrow> find_sub p s \<noteq> None"

lemma contains_simps [simp]:
  "contains p [] \<longleftrightarrow> p = []" "contains p (c # s) \<longleftrightarrow> starts_with p (c # s) \<or> contains p s"
  by (simp_all add: contains_def)

lemma contains_append: "contains p s \<Longrightarrow> contains p (s @ t)"
proof (induction s)
  case Nil
  then show ?case by (cases t) (auto simp: starts_with_def)
next
  case (Cons c s)
  then show ?case using starts_with_append[of p "c # s" t] by auto
qed

lemma find_sub_tag:
  "find_sub p (tag @ p) = Some (length tag) \<Longrightarrow> p \<noteq> [] \<Longrightarrow> find_sub p (tag @ p @ s) = Some (length tag)"
proof (induction tag)
  case Nil
  then show ?case by (cases p) (simp_all add: starts_with_def)
next
  case (Cons c tag)
  have "\<not> starts_with p (c # tag @ p)" using Cons.prems by (auto split: if_splits)
  moreover have "starts_with p ((c # tag @ p) @ s) = starts_with p (c # tag @ p)"
    by (rule starts_with_long) simp
  ultimately show ?case using Cons by (auto split: if_splits)
qed

lemma find_sub_skip: "c \<notin> set a \<Longrightarrow> find_sub (c # p) (a @ b) = None \<longleftrightarrow> find_sub (c # p) b = None"
  by (induction a) (auto simp: starts_with_def)

lemma find_sub_none: "c \<in> set p \<Longrightarrow> c \<notin> set s \<Longrightarrow> find_sub p s = None"
proof (induction s)
  case (Cons x s)
  have "\<not> starts_with p (x # s)"
  proof
    assume "starts_with p (x # s)"
    then obtain q where "x # s = p @ q" by (auto simp: starts_with_iff)
    then have "c \<in> set (x # s)" using Cons.prems(1) by simp
    with Cons.prems(2) show False by blast
  qed
  with Cons show ?case by simp
qed auto

lemma find_sub_some: "p \<noteq> [] \<Longrightarrow> find_sub p (a @ p @ b) \<noteq> None"
proof (induction a)
  case Nil
  then show ?case by (cases p) (simp_all add: starts_with_def)
qed simp

section \<open>Decimal numbers\<close>

definition dec_val :: "string \<Rightarrow> nat" where
  "dec_val s = foldl (\<lambda>n c. 10 * n + digit_val c) 0 s"

definition max_str_digits :: nat where
  "max_str_digits = 4300"

text \<open>Digits with single underscores between them.\<close>

fun digits_ok :: "bool \<Rightarrow> string \<Rightarrow> bool" where
  "digits_ok prev [] = prev"
| "digits_ok prev (c # s) =
     (if is_digit c then digits_ok True s else c = CHR ''_'' \<and> prev \<and> digits_ok False s)"

definition unsigned_int :: "string \<Rightarrow> nat option" where
  "unsigned_int s = (if digits_ok False s then
      let ds = filter (\<lambda>c. c \<noteq> CHR ''_'') s in
      if length ds \<le> max_str_digits then Some (dec_val ds) else None
    else None)"

text \<open>\<open>int(s)\<close> for a string; \<open>None\<close> is \<open>ValueError\<close>.\<close>

definition py_int :: "string \<Rightarrow> int option" where
  "py_int s = (case strip s of
      [] \<Rightarrow> None
    | c # r \<Rightarrow> if c = CHR ''-'' then map_option (\<lambda>n. - int n) (unsigned_int r)
        else if c = CHR ''+'' then map_option int (unsigned_int r)
        else map_option int (unsigned_int (c # r)))"

fun show_nat :: "nat \<Rightarrow> string" where
  "show_nat n = (if n < 10 then [char_of (48 + n)]
     else show_nat (n div 10) @ [char_of (48 + n mod 10)])"

declare show_nat.simps [simp del]

definition show_int :: "int \<Rightarrow> string" where
  "show_int i = (if i < 0 then CHR ''-'' # show_nat (nat (- i)) else show_nat (nat i))"

lemma digit_char: "d < 10 \<Longrightarrow> is_digit (char_of (48 + d)) \<and> digit_val (char_of (48 + d)) = d"
  by (simp add: is_digit_def digit_val_def code_char_of)

lemma show_nat_ne [simp]: "show_nat n \<noteq> []"
  by (subst show_nat.simps) simp

lemma show_nat_digits: "c \<in> set (show_nat n) \<Longrightarrow> is_digit c"
proof (induction n rule: show_nat.induct)
  case (1 n)
  show ?case
    using "1.IH" "1.prems" digit_char[of n] digit_char[of "n mod 10"]
    by (subst (asm) show_nat.simps) (auto split: if_splits)
qed

lemma dec_val_snoc [simp]: "dec_val (s @ [c]) = 10 * dec_val s + digit_val c"
  by (simp add: dec_val_def)

lemma dec_val_show [simp]: "dec_val (show_nat n) = n"
proof (induction n rule: show_nat.induct)
  case (1 n)
  show ?case
  proof (cases "n < 10")
    case True
    then have "show_nat n = [char_of (48 + n)]" by (simp add: show_nat.simps)
    then show ?thesis using digit_char[OF True] by (simp add: dec_val_def)
  next
    case False
    then have "show_nat n = show_nat (n div 10) @ [char_of (48 + n mod 10)]"
      by (subst show_nat.simps) simp
    then show ?thesis using 1 False digit_char[of "n mod 10"] by simp
  qed
qed

lemma digits_ok_all: "\<forall>c\<in>set s. is_digit c \<Longrightarrow> digits_ok b s \<longleftrightarrow> s \<noteq> [] \<or> b"
  by (induction s arbitrary: b) auto

lemma digit_not_space: "is_digit c \<Longrightarrow> \<not> is_space c \<and> c \<noteq> CHR ''_'' \<and> c \<noteq> CHR ''-'' \<and> c \<noteq> CHR ''+''"
  by (auto simp: is_digit_def is_space_def code_def)

lemma unsigned_digits:
  "s \<noteq> [] \<Longrightarrow> \<forall>c\<in>set s. is_digit c \<Longrightarrow> length s \<le> max_str_digits \<Longrightarrow> unsigned_int s = Some (dec_val s)"
  using digit_not_space by (auto simp: unsigned_int_def digits_ok_all Let_def filter_id_conv)

lemma strip_none:
  assumes "s \<noteq> []" and "\<not> p (hd s)" and "\<not> p (last s)"
  shows "strip_where p s = s"
proof -
  have "dropWhile p s = s" using assms by (cases s) auto
  moreover have "dropWhile p (rev s) = rev s" using assms by (cases "rev s") (auto simp: last_rev hd_rev)
  ultimately show ?thesis by (simp add: strip_where_def)
qed

lemma py_int_digits:
  assumes "s \<noteq> []" and "\<forall>c\<in>set s. is_digit c" and "length s \<le> max_str_digits"
  shows "py_int s = Some (int (dec_val s))"
proof -
  have "strip s = s" using assms digit_not_space by (intro strip_none) auto
  then show ?thesis
    using assms unsigned_digits[OF assms] digit_not_space by (auto simp: py_int_def split: list.splits)
qed

text \<open>Printing and reading an integer is the identity (below the digit limit of \<open>int\<close>).\<close>

lemma py_int_show_int:
  assumes "length (show_int i) \<le> max_str_digits"
  shows "py_int (show_int i) = Some i"
proof (cases "i < 0")
  case False
  then show ?thesis
    using py_int_digits[of "show_nat (nat i)"] show_nat_digits assms by (simp add: show_int_def)
next
  case True
  let ?s = "show_nat (nat (- i))"
  have "strip (CHR ''-'' # ?s) = CHR ''-'' # ?s"
    using show_nat_digits[of "last ?s" "nat (- i)"] digit_not_space
    by (intro strip_none) (auto simp: is_space_def code_def)
  then show ?thesis
    using True assms unsigned_digits[of ?s] show_nat_digits by (auto simp: show_int_def py_int_def)
qed

lemma length_show_nat: "0 < k \<Longrightarrow> n < 10 ^ k \<Longrightarrow> length (show_nat n) \<le> k"
proof (induction k arbitrary: n)
  case (Suc k)
  show ?case
  proof (cases "n < 10")
    case False
    with Suc.prems have "0 < k" by (cases k) auto
    moreover have "n div 10 < 10 ^ k" using Suc.prems by (simp add: less_mult_imp_div_less mult.commute)
    ultimately show ?thesis using Suc.IH[of "n div 10"] False by (subst show_nat.simps) simp
  qed (subst show_nat.simps, simp)
qed simp

lemma show_int_short: "\<bar>i\<bar> < 10 ^ 30 \<Longrightarrow> length (show_int i) \<le> max_str_digits"
proof -
  assume "\<bar>i\<bar> < 10 ^ 30"
  then have "nat \<bar>i\<bar> < 10 ^ 30" by (simp add: nat_less_iff)
  then have "length (show_nat (nat \<bar>i\<bar>)) \<le> 30" by (intro length_show_nat) simp_all
  then show ?thesis by (auto simp: show_int_def max_str_digits_def abs_if split: if_splits)
qed

lemma show_int_not: "\<not> is_digit c \<Longrightarrow> c \<noteq> CHR ''-'' \<Longrightarrow> c \<notin> set (show_int n)"
  using show_nat_digits by (auto simp: show_int_def split: if_splits)

lemma length_int: "\<bar>n\<bar> < 10 ^ 30 \<Longrightarrow> length (show_int n) \<le> 4300"
  using show_int_short[of n] by (simp add: max_str_digits_def)

end
