(* ===== verification/Fortigate.thy ===== *)
theory Fortigate
  imports Event_Types Py_String
begin

text \<open>
  The FortiGate syslog parser: \<open>flow-ingest/src/flow_ingest/adapters/fortigate_adapter.py\<close>, with the
  POSIX lexer of the standard module \<open>shlex\<close> that it calls. The current time is the parameter \<open>now\<close>.
\<close>

section \<open>shlex.split\<close>

text \<open>
  The state of the lexer: between words, in a word, in a quotation, or after a backslash
  (remembering whether that was in a quotation).
\<close>

datatype sh_state = SSpace | SWord | SQuote char | SEsc "char option"

definition sh_white :: "char \<Rightarrow> bool" where
  "sh_white c \<longleftrightarrow> c = CHR '' '' \<or> code c = 9 \<or> code c = 10 \<or> code c = 13"

definition dquote :: char where "dquote = CHR 0x22"
definition squote :: char where "squote = CHR 0x27"
definition backslash :: char where "backslash = CHR 0x5C"

definition sh_quote :: "char \<Rightarrow> bool" where
  "sh_quote c \<longleftrightarrow> c = dquote \<or> c = squote"

definition sh_emit :: "string \<Rightarrow> bool \<Rightarrow> string list option \<Rightarrow> string list option" where
  "sh_emit tok quoted rest = (if tok \<noteq> [] \<or> quoted then map_option ((#) tok) rest else rest)"

text \<open>\<open>shlex st tok quoted s\<close>: the tokens of the rest \<open>s\<close>; \<open>None\<close> is \<open>ValueError\<close>.\<close>

fun shlex :: "sh_state \<Rightarrow> string \<Rightarrow> bool \<Rightarrow> string \<Rightarrow> string list option" where
  "shlex SSpace tok quoted [] = sh_emit tok quoted (Some [])"
| "shlex SWord tok quoted [] = sh_emit tok quoted (Some [])"
| "shlex (SQuote q) tok quoted [] = None"
| "shlex (SEsc e) tok quoted [] = None"
| "shlex SSpace tok quoted (c # s) =
     (if sh_white c then sh_emit tok quoted (shlex SSpace [] False s)
      else if c = backslash then shlex (SEsc None) tok quoted s
      else if sh_quote c then shlex (SQuote c) tok quoted s
      else shlex SWord [c] quoted s)"
| "shlex SWord tok quoted (c # s) =
     (if sh_white c then sh_emit tok quoted (shlex SSpace [] False s)
      else if sh_quote c then shlex (SQuote c) tok quoted s
      else if c = backslash then shlex (SEsc None) tok quoted s
      else shlex SWord (tok @ [c]) quoted s)"
| "shlex (SQuote q) tok quoted (c # s) =
     (if c = q then shlex SWord tok True s
      else if c = backslash \<and> q = dquote then shlex (SEsc (Some q)) tok True s
      else shlex (SQuote q) (tok @ [c]) True s)"
| "shlex (SEsc e) tok quoted (c # s) =
     (case e of
        None \<Rightarrow> shlex SWord (tok @ [c]) quoted s
      | Some q \<Rightarrow> shlex (SQuote q)
          (if c \<noteq> backslash \<and> c \<noteq> q then tok @ [backslash, c] else tok @ [c]) quoted s)"

definition shlex_split :: "string \<Rightarrow> string list option" where
  "shlex_split s = shlex SSpace [] False s"

section \<open>The parser\<close>

text \<open>\<open>re.compile(r"^<\d+>").sub("", line)\<close>\<close>

definition strip_pri :: "string \<Rightarrow> string" where
  "strip_pri line = (case line of
      [] \<Rightarrow> []
    | c # s \<Rightarrow>
        if c = CHR ''<'' then
          (let ds = takeWhile is_digit s; r = dropWhile is_digit s in
           if ds \<noteq> [] \<and> r \<noteq> [] \<and> hd r = CHR ''>'' then tl r else line)
        else line)"

definition kv_add :: "(string, string) dict \<Rightarrow> string \<Rightarrow> (string, string) dict" where
  "kv_add d tok = (case partition_on CHR ''='' tok of (k, found, v) \<Rightarrow>
     if found then AList.update k v d else d)"

definition kv :: "string \<Rightarrow> (string, string) dict option" where
  "kv line = map_option (foldl kv_add []) (shlex_split (strip (strip_pri line)))"

definition int_field :: "(string, string) dict \<Rightarrow> string \<Rightarrow> int option" where
  "int_field d k = (case map_of d k of None \<Rightarrow> Some 0 | Some s \<Rightarrow> py_int s)"

definition or_none :: "string option \<Rightarrow> string option" where
  "or_none s = (if truthy s then s else None)"

definition fortigate_event :: "instant \<Rightarrow> (string, string) dict \<Rightarrow> flow_event option" where
  "fortigate_event now d =
     (case (map_of d ''srcip'', int_field d ''srcport'', map_of d ''dstip'', int_field d ''dstport'',
         int_field d ''proto'', int_field d ''sentbyte'', int_field d ''rcvdbyte'',
         int_field d ''sentpkt'', int_field d ''rcvdpkt'') of
        (Some src, Some sport, Some dst, Some dport, Some pr, Some sb, Some rb, Some spk, Some rpk) \<Rightarrow>
          Some \<lparr>fe_ts = now, fe_src_ip = src, fe_src_port = sport, fe_dst_ip = dst, fe_dst_port = dport,
            fe_proto = pr, fe_bytes = sb + rb, fe_packets = spk + rpk,
            fe_action = Some (dict_get d ''action'' ''close''), fe_fqdn = or_none (map_of d ''hostname''),
            fe_app_id = or_none (map_of d ''app''), fe_source = ''fortigate'', fe_raw_id = map_of d ''logid''\<rparr>
      | _ \<Rightarrow> None)"

definition fortigate_parse :: "instant \<Rightarrow> string \<Rightarrow> flow_event option" where
  "fortigate_parse now line =
     (case kv line of None \<Rightarrow> None | Some d \<Rightarrow>
      if map_of d ''type'' \<noteq> Some ''traffic'' then None
      else if map_of d ''subtype'' \<noteq> Some ''forward'' then None
      else if map_of d ''status'' \<noteq> Some ''close'' then None
      else fortigate_event now d)"

section \<open>Rendering and reading back\<close>

text \<open>
  A FortiGate line as the device writes it: \<open>key="value"\<close> or \<open>key=value\<close> pairs separated by spaces, after a
  priority tag; \<open>q\<close> says for a key whether its value is quoted. Quoted values may hold anything but a double quote or a
  backslash, bare ones no blanks or quotes either.
\<close>

definition plain_key :: "string \<Rightarrow> bool" where
  "plain_key k \<longleftrightarrow> k \<noteq> [] \<and> list_all (\<lambda>c. \<not> is_space c \<and> \<not> sh_white c \<and> \<not> sh_quote c \<and> c \<noteq> backslash \<and> c \<noteq> CHR ''='') k"

definition plain_value :: "string \<Rightarrow> bool" where
  "plain_value v \<longleftrightarrow> dquote \<notin> set v \<and> backslash \<notin> set v"

definition bare_value :: "string \<Rightarrow> bool" where
  "bare_value v \<longleftrightarrow> list_all (\<lambda>c. \<not> is_space c \<and> \<not> sh_white c \<and> \<not> sh_quote c \<and> c \<noteq> backslash) v"

definition pair_ok :: "(string \<Rightarrow> bool) \<Rightarrow> string \<times> string \<Rightarrow> bool" where
  "pair_ok q p \<longleftrightarrow> plain_key (fst p) \<and> (if q (fst p) then plain_value (snd p) else bare_value (snd p))"

definition render_pair :: "(string \<Rightarrow> bool) \<Rightarrow> string \<times> string \<Rightarrow> string" where
  "render_pair q p = fst p @ CHR ''='' # (if q (fst p) then dquote # snd p @ [dquote] else snd p)"

definition render :: "(string \<Rightarrow> bool) \<Rightarrow> (string \<times> string) list \<Rightarrow> string" where
  "render q ps = join_with '' '' (map (render_pair q) ps)"

lemma quote_consts [simp]:
  "dquote \<noteq> backslash" "backslash \<noteq> dquote" "sh_quote dquote" "\<not> sh_white dquote" "\<not> sh_white (CHR ''='')"
  "CHR ''='' \<noteq> backslash" "\<not> sh_quote (CHR ''='')" "sh_white (CHR '' '')"
  by (simp_all add: dquote_def backslash_def sh_quote_def sh_white_def squote_def code_def)

lemma shlex_key:
  "list_all (\<lambda>c. \<not> sh_white c \<and> \<not> sh_quote c \<and> c \<noteq> backslash) k \<Longrightarrow>
   shlex SWord tok quoted (k @ s) = shlex SWord (tok @ k) quoted s"
  by (induction k arbitrary: tok) auto

lemma shlex_value:
  "plain_value v \<Longrightarrow> shlex (SQuote dquote) tok quoted (v @ dquote # s) = shlex SWord (tok @ v) True s"
  unfolding plain_value_def by (induction v arbitrary: tok quoted) auto

lemma shlex_pair:
  assumes "pair_ok q p"
  shows "shlex SSpace [] False (render_pair q p @ s) = shlex SWord (fst p @ CHR ''='' # snd p) (q (fst p)) s"
proof -
  obtain k v where p: "p = (k, v)" by (cases p)
  obtain c k' where k: "k = c # k'" using assms by (cases k) (auto simp: p pair_ok_def plain_key_def)
  let ?w = "list_all (\<lambda>c. \<not> sh_white c \<and> \<not> sh_quote c \<and> c \<noteq> backslash)"
  have w: "?w (k' @ [CHR ''=''])" "\<not> q k \<Longrightarrow> ?w v"
    using assms by (auto simp: p pair_ok_def plain_key_def bare_value_def k list_all_iff)
  show ?thesis
    using assms shlex_key[OF w(1), of "[c]" False "dquote # v @ dquote # s"]
      shlex_key[OF w(1), of "[c]" False "v @ s"] shlex_key[OF w(2), of "k @ [CHR ''='']" False s]
    by (auto simp: render_pair_def p k pair_ok_def plain_key_def shlex_value)
qed

lemma shlex_render:
  "\<forall>p \<in> set ps. pair_ok q p \<Longrightarrow> shlex_split (render q ps) = Some (map (\<lambda>p. fst p @ CHR ''='' # snd p) ps)"
proof (induction ps rule: induct_list012)
  case 1
  then show ?case by (simp add: shlex_split_def render_def sh_emit_def)
next
  case (2 p)
  then show ?case
    using shlex_pair[of q p "[]"] by (simp add: shlex_split_def render_def sh_emit_def)
next
  case (3 p r ps)
  then show ?case
    using shlex_pair[of q p "CHR '' '' # render q (r # ps)"]
    by (simp add: shlex_split_def render_def sh_emit_def)
qed

lemma kv_add_pair: "CHR ''='' \<notin> set k \<Longrightarrow> kv_add d (k @ CHR ''='' # v) = AList.update k v d"
proof -
  assume k: "CHR ''='' \<notin> set k"
  then have "dropWhile (\<lambda>x. x \<noteq> CHR ''='') (k @ CHR ''='' # v) = CHR ''='' # v"
    "takeWhile (\<lambda>x. x \<noteq> CHR ''='') (k @ CHR ''='' # v) = k"
    by (subst dropWhile_append2, auto) (subst takeWhile_append2, auto)
  then show ?thesis by (simp add: kv_add_def partition_on_def)
qed

lemma render_ends:
  assumes "ps \<noteq> []" and "\<forall>p \<in> set ps. pair_ok q p"
  shows "render q ps \<noteq> []" "\<not> is_space (hd (render q ps))" "\<not> is_space (last (render q ps))"
proof -
  obtain p qs where p: "ps = p # qs" using assms(1) by (cases ps) auto
  obtain c k where k: "fst p = c # k" "\<not> is_space c"
    using assms(2) by (cases "fst p") (auto simp: p pair_ok_def plain_key_def)
  have "\<exists>t. render q ps = c # t" by (cases qs) (simp_all add: p render_def render_pair_def k)
  with k show "render q ps \<noteq> []" "\<not> is_space (hd (render q ps))" by auto
  have l: "\<not> is_space (last (render_pair q p))" "render_pair q p \<noteq> []" if "pair_ok q p" for p
    using that
    by (cases "snd p" rule: rev_cases,
        auto simp: render_pair_def pair_ok_def bare_value_def dquote_def is_space_def code_def split: if_splits)
  have "\<not> is_space (last (join_with '' '' (map (render_pair q) xs)))"
    if "xs \<noteq> []" "\<forall>p \<in> set xs. pair_ok q p" for xs
    using that
  proof (induction xs rule: induct_list012)
    case (3 x y zs)
    have "join_with '' '' (map (render_pair q) (y # zs)) \<noteq> []" using 3(4) l(2) by (cases zs) auto
    then show ?case using 3 by simp
  qed (auto simp: l)
  with assms show "\<not> is_space (last (render q ps))" by (simp add: render_def)
qed

lemma strip_pri_tag:
  "ds \<noteq> [] \<Longrightarrow> \<forall>c \<in> set ds. is_digit c \<Longrightarrow> strip_pri (CHR ''<'' # ds @ CHR ''>'' # s) = s"
  by (simp add: strip_pri_def Let_def takeWhile_tail is_digit_def code_def dropWhile_append3)

lemma plain_key_no_eq: "plain_key k \<Longrightarrow> CHR ''='' \<notin> set k"
  by (auto simp: plain_key_def list_all_iff)

lemma kv_tagged:
  assumes "ps \<noteq> []" and "\<forall>p \<in> set ps. pair_ok q p"
  shows "\<exists>d. kv (CHR ''<'' # show_nat n @ CHR ''>'' # render q ps) = Some d \<and>
    (\<forall>k. map_of d k = map_option snd (find (\<lambda>p. fst p = k) (rev ps)))"
proof -
  have p: "strip_pri (CHR ''<'' # show_nat n @ CHR ''>'' # render q ps) = render q ps"
    by (rule strip_pri_tag) (simp, blast intro: show_nat_digits)
  have st: "strip (render q ps) = render q ps"
    by (rule strip_none) (use render_ends[OF assms] in auto)
  have "foldl kv_add d (map (\<lambda>p. fst p @ CHR ''='' # snd p) qs) = foldl (\<lambda>d p. AList.update (fst p) (snd p) d) d qs"
    if "\<forall>p \<in> set qs. pair_ok q p" for d qs
    using that by (induction qs arbitrary: d) (simp_all add: kv_add_pair plain_key_no_eq pair_ok_def)
  then have "kv (CHR ''<'' # show_nat n @ CHR ''>'' # render q ps) =
      Some (foldl (\<lambda>d p. AList.update (fst p) (snd p) d) [] ps)"
    using assms(2) by (simp add: kv_def p st shlex_render)
  then show ?thesis by (simp add: map_of_update_fold)
qed

lemma show_int_bare: "bare_value (show_int i)"
proof -
  have "c \<in> set (show_nat n) \<Longrightarrow> \<not> is_space c \<and> \<not> sh_white c \<and> \<not> sh_quote c \<and> c \<noteq> backslash" for c n
    using show_nat_digits[of c n] by (auto simp: is_digit_def code_def sh_quote_def is_space_def sh_white_def dquote_def squote_def backslash_def)
  then show ?thesis
    by (fastforce simp: bare_value_def show_int_def list_all_iff is_space_def sh_white_def sh_quote_def dquote_def squote_def backslash_def code_def)
qed

lemma bare_plain: "bare_value v \<Longrightarrow> plain_value v"
  by (auto simp: bare_value_def plain_value_def list_all_iff)

lemma show_int_ok [simp]: "pair_ok q (k, show_int i) \<longleftrightarrow> plain_key k"
  using show_int_bare bare_plain by (simp add: pair_ok_def)

section \<open>Properties\<close>

text \<open>The fields of the log line of a closed session, of which \<open>sent\<close> bytes and \<open>sentpkt\<close> packets left the client.\<close>

definition traffic_fields :: "flow_event \<Rightarrow> int \<Rightarrow> int \<Rightarrow> (string \<times> string) list" where
  "traffic_fields ev sent sentpkt =
     [(''logid'', the (fe_raw_id ev)), (''type'', ''traffic''), (''subtype'', ''forward''), (''status'', ''close''),
      (''srcip'', fe_src_ip ev), (''srcport'', show_int (fe_src_port ev)),
      (''dstip'', fe_dst_ip ev), (''dstport'', show_int (fe_dst_port ev)),
      (''proto'', show_int (fe_proto ev)), (''action'', the (fe_action ev)),
      (''sentbyte'', show_int sent), (''rcvdbyte'', show_int (fe_bytes ev - sent)),
      (''sentpkt'', show_int sentpkt), (''rcvdpkt'', show_int (fe_packets ev - sentpkt)),
      (''hostname'', the (fe_fqdn ev)), (''app'', the (fe_app_id ev))]"

definition event_ok :: "flow_event \<Rightarrow> bool" where
  "event_ok ev \<longleftrightarrow> fe_source ev = ''fortigate'' \<and> truthy (fe_fqdn ev) \<and> truthy (fe_app_id ev) \<and>
     fe_action ev \<noteq> None \<and> fe_raw_id ev \<noteq> None"

definition log_line :: "(string \<Rightarrow> bool) \<Rightarrow> nat \<Rightarrow> (string \<times> string) list \<Rightarrow> string" where
  "log_line q pri ps = CHR ''<'' # show_nat pri @ CHR ''>'' # render q ps"

lemma find_rev_distinct:
  "distinct (map fst ps) \<Longrightarrow> (k, v) \<in> set ps \<Longrightarrow> map_option snd (find (\<lambda>p. fst p = k) (rev ps)) = Some v"
proof (induction ps rule: rev_induct)
  case (snoc p ps)
  then show ?case by (cases p) (auto simp: image_iff)
qed simp

lemma log_line_read:
  assumes "event_ok ev" and "set (traffic_fields ev sent sentpkt) \<subseteq> set ps" and "distinct (map fst ps)"
    and "\<forall>p \<in> set ps. pair_ok q p" and "list_all (\<lambda>i. \<bar>i\<bar> < 10 ^ 30) [fe_src_port ev, fe_dst_port ev, fe_proto ev,
      sent, fe_bytes ev - sent, sentpkt, fe_packets ev - sentpkt]"
  shows "fortigate_parse now (log_line q pri ps) = Some (ev\<lparr>fe_ts := now\<rparr>)"
proof -
  have "ps \<noteq> []" using assms(2) by (auto simp: traffic_fields_def)
  then obtain d where d: "kv (log_line q pri ps) = Some d"
    "\<And>k. map_of d k = map_option snd (find (\<lambda>p. fst p = k) (rev ps))"
    using kv_tagged[OF _ assms(4), of pri] by (auto simp: log_line_def)
  have f: "map_of d k = Some v" if "(k, v) \<in> set (traffic_fields ev sent sentpkt)" for k v
    using find_rev_distinct[OF assms(3)] that assms(2) d(2) by auto
  have n: "length (show_int i) \<le> max_str_digits" if "i \<in> {fe_src_port ev, fe_dst_port ev, fe_proto ev,
      sent, fe_bytes ev - sent, sentpkt, fe_packets ev - sentpkt}" for i
    by (rule show_int_short) (use assms(5) that in auto)
  have ints: "int_field d ''srcport'' = Some (fe_src_port ev)" "int_field d ''dstport'' = Some (fe_dst_port ev)"
    "int_field d ''proto'' = Some (fe_proto ev)" "int_field d ''sentbyte'' = Some sent"
    "int_field d ''rcvdbyte'' = Some (fe_bytes ev - sent)" "int_field d ''sentpkt'' = Some sentpkt"
    "int_field d ''rcvdpkt'' = Some (fe_packets ev - sentpkt)"
    unfolding int_field_def by (simp_all add: f traffic_fields_def py_int_show_int n)
  have texts: "map_of d ''type'' = Some ''traffic''" "map_of d ''subtype'' = Some ''forward''"
    "map_of d ''status'' = Some ''close''" "map_of d ''srcip'' = Some (fe_src_ip ev)"
    "map_of d ''dstip'' = Some (fe_dst_ip ev)" "map_of d ''action'' = fe_action ev"
    "map_of d ''hostname'' = fe_fqdn ev" "map_of d ''app'' = fe_app_id ev" "map_of d ''logid'' = fe_raw_id ev"
    using assms(1) by (auto simp: f traffic_fields_def event_ok_def truthy_def split: option.splits)
  show ?thesis
    using d(1) ints texts assms(1)
    by (auto simp: fortigate_parse_def fortigate_event_def dict_get_def or_none_def event_ok_def)
qed

text \<open>
  C25: reading back a FortiGate session log. For a closed session, whatever the texts of its fields
  (quoted ones may hold spaces, equal signs and apostrophes, but no double quote or backslash; bare ones no blanks or quotes either),
  whatever further fields the line has, in whatever order, and whatever
  its priority tag and numbers (below thirty digits), the parser returns exactly the event that the line describes, with the bytes and
  packets of both directions added up.
\<close>

theorem fortigate_roundtrip:
  assumes "event_ok ev" and "set (traffic_fields ev sent sentpkt) \<subseteq> set ps" and "distinct (map fst ps)"
    and "\<forall>p \<in> set ps. pair_ok q p" and "list_all (\<lambda>i. \<bar>i\<bar> < 10 ^ 30) [fe_src_port ev, fe_dst_port ev, fe_proto ev,
      sent, fe_bytes ev - sent, sentpkt, fe_packets ev - sentpkt]"
  shows "fortigate_parse now (log_line q pri ps) = Some (ev\<lparr>fe_ts := now\<rparr>)"
  using assms by (rule log_line_read)

definition session_event :: flow_event where
  "session_event = \<lparr>fe_ts = 0, fe_src_ip = ''10.0.0.1'', fe_src_port = 50000, fe_dst_ip = ''10.1.2.3'',
     fe_dst_port = 443, fe_proto = 6, fe_bytes = 900, fe_packets = 9, fe_action = Some ''close'',
     fe_fqdn = Some ''crm.example'', fe_app_id = Some ''HTTPS App'', fe_source = ''fortigate'',
     fe_raw_id = Some ''13''\<rparr>"

lemmas word_classes = plain_key_def plain_value_def bare_value_def is_space_def sh_white_def sh_quote_def dquote_def squote_def
  backslash_def code_def

theorem fortigate_roundtrip_witness:
  "fortigate_parse 7 (log_line (\<lambda>k. k = ''app'') 134 ((''devname'', ''fw'') # traffic_fields session_event 300 4)) =
     Some (session_event\<lparr>fe_ts := 7\<rparr>)"
proof (rule fortigate_roundtrip)
  show "event_ok session_event" by (simp add: event_ok_def session_event_def)
  show "set (traffic_fields session_event 300 4) \<subseteq> set ((''devname'', ''fw'') # traffic_fields session_event 300 4)" by auto
  show "distinct (map fst ((''devname'', ''fw'') # traffic_fields session_event 300 4))" by (simp add: traffic_fields_def)
  show "\<forall>p \<in> set ((''devname'', ''fw'') # traffic_fields session_event 300 4). pair_ok (\<lambda>k. k = ''app'') p"
    using show_int_bare by (simp add: traffic_fields_def session_event_def pair_ok_def) (simp add: word_classes)
  show "list_all (\<lambda>i. \<bar>i\<bar> < 10 ^ 30) [fe_src_port session_event, fe_dst_port session_event,
      fe_proto session_event, 300, fe_bytes session_event - 300, 4, fe_packets session_event - 4]"
    by (simp add: session_event_def)
qed

end
