(* ===== verification/Datetime.thy ===== *)
theory Datetime
  imports Py_String
begin

text \<open>
  Dates and times of the module \<open>datetime\<close> as the services use them: the calendar, the ISO 8601 texts that
  \<open>isoformat\<close> writes and \<open>fromisoformat\<close> reads, and \<open>strptime\<close> for numeric formats. An aware \<open>datetime\<close> is its
  instant and is written in UTC; a text without an offset is read in UTC, the local time of the containers.
  \<open>None\<close> is \<open>ValueError\<close>.
\<close>

section \<open>The calendar\<close>

definition is_leap :: "int \<Rightarrow> bool" where
  "is_leap y \<longleftrightarrow> y mod 4 = 0 \<and> (y mod 100 \<noteq> 0 \<or> y mod 400 = 0)"

definition days_before_year :: "int \<Rightarrow> int" where
  "days_before_year year = (let y = year - 1 in y * 365 + y div 4 - y div 100 + y div 400)"

definition month_days :: "int list" where
  "month_days = [31, 28, 31, 30, 31, 30, 31, 31, 30, 31, 30, 31]"

definition days_in_month :: "bool \<Rightarrow> int \<Rightarrow> int" where
  "days_in_month leap m = month_days ! nat (m - 1) + (if m = 2 \<and> leap then 1 else 0)"

definition days_before_month :: "bool \<Rightarrow> int \<Rightarrow> int" where
  "days_before_month leap m = sum_list (take (nat (m - 1)) month_days) + (if 2 < m \<and> leap then 1 else 0)"

definition date_ok :: "int \<Rightarrow> int \<Rightarrow> int \<Rightarrow> bool" where
  "date_ok y m d \<longleftrightarrow> 1 \<le> y \<and> y \<le> 9999 \<and> 1 \<le> m \<and> m \<le> 12 \<and> 1 \<le> d \<and> d \<le> days_in_month (is_leap y) m"

definition ymd2ord :: "int \<Rightarrow> int \<Rightarrow> int \<Rightarrow> int" where
  "ymd2ord y m d = days_before_year y + days_before_month (is_leap y) m + d"

text \<open>The month and the day of the month of a day of the year, counted from zero.\<close>

definition month_of :: "bool \<Rightarrow> int \<Rightarrow> int \<times> int" where
  "month_of leap n =
     (let m = (n + 50) div 32; p = days_before_month leap m in
      if n < p then (m - 1, n - (p - days_in_month leap (m - 1)) + 1) else (m, n - p + 1))"

definition ord2ymd :: "int \<Rightarrow> int \<times> int \<times> int" where
  "ord2ymd ordn =
     (let n0 = ordn - 1; n400 = n0 div 146097; a = n0 mod 146097;
          n100 = a div 36524; b = a mod 36524;
          n4 = b div 1461; c = b mod 1461;
          n1 = c div 365; n = c mod 365;
          year = n400 * 400 + 1 + n100 * 100 + n4 * 4 + n1
      in if n1 = 4 \<or> n100 = 4 then (year - 1, 12, 31)
         else (year, month_of (n1 = 3 \<and> (n4 \<noteq> 24 \<or> n100 = 3)) n))"

lemma month_cases:
  fixes m :: int
  assumes "1 \<le> m" and "m \<le> 12"
  shows "m \<in> {1, 2, 3, 4, 5, 6, 7, 8, 9, 10, 11, 12}"
  using assms by simp presburger

lemma days_in_month_simps [simp]:
  "days_in_month l 1 = 31" "days_in_month l 2 = (if l then 29 else 28)" "days_in_month l 3 = 31" "days_in_month l 4 = 30"
  "days_in_month l 5 = 31" "days_in_month l 6 = 30" "days_in_month l 7 = 31" "days_in_month l 8 = 31"
  "days_in_month l 9 = 30" "days_in_month l 10 = 31" "days_in_month l 11 = 30" "days_in_month l 12 = 31"
  by (simp_all add: days_in_month_def month_days_def)

lemma days_before_month_simps [simp]:
  "days_before_month l 1 = 0" "days_before_month l 2 = 31" "days_before_month l 3 = (if l then 60 else 59)"
  "days_before_month l 4 = (if l then 91 else 90)" "days_before_month l 5 = (if l then 121 else 120)"
  "days_before_month l 6 = (if l then 152 else 151)" "days_before_month l 7 = (if l then 182 else 181)"
  "days_before_month l 8 = (if l then 213 else 212)" "days_before_month l 9 = (if l then 244 else 243)"
  "days_before_month l 10 = (if l then 274 else 273)" "days_before_month l 11 = (if l then 305 else 304)"
  "days_before_month l 12 = (if l then 335 else 334)"
  by (simp_all add: days_before_month_def month_days_def)

lemma month_of_ok:
  assumes "0 \<le> n" and "n < (if leap then 366 else 365)" and "month_of leap n = (m, d)"
  shows "1 \<le> m \<and> m \<le> 12 \<and> 1 \<le> d \<and> d \<le> days_in_month leap m \<and> days_before_month leap m + d = n + 1"
proof -
  define k where "k = (n + 50) div 32"
  have b: "32 * k \<le> n + 50" "n + 50 < 32 * k + 32" by (auto simp: k_def)
  then have "1 \<le> k" "k \<le> 12" using assms by (auto split: if_splits)
  then have "k \<in> {1, 2, 3, 4, 5, 6, 7, 8, 9, 10, 11, 12}" by (rule month_cases)
  then show ?thesis using b assms by (auto simp: month_of_def Let_def simp flip: k_def split: if_splits)
qed

lemma year_parts:
  fixes e f g h :: int
  assumes "0 \<le> f" "f \<le> 3" "0 \<le> g" "g \<le> 24" "0 \<le> h" "h \<le> 3"
  shows "days_before_year (400 * e + 100 * f + 4 * g + h + 1) = 146097 * e + 36524 * f + 1461 * g + 365 * h"
    and "is_leap (400 * e + 100 * f + 4 * g + h + 1) \<longleftrightarrow> h = 3 \<and> (g \<noteq> 24 \<or> f = 3)"
proof -
  let ?y = "400 * e + 100 * f + 4 * g + h"
  have d: "(k * q + r) div k = q" if "0 \<le> r" "r < k" for k q r :: int using that by simp
  have "?y div 4 = 100 * e + 25 * f + g" "?y div 100 = 4 * e + f" "?y div 400 = e"
    using d[of h 4 "100 * e + 25 * f + g"] d[of "4 * g + h" 100 "4 * e + f"] d[of "100 * f + 4 * g + h" 400 e] assms
    by (simp_all add: algebra_simps)
  then show "days_before_year (?y + 1) = 146097 * e + 36524 * f + 1461 * g + 365 * h"
    by (simp add: days_before_year_def)
  have m: "(k * q + r) mod k = 0 \<longleftrightarrow> r = k" if "0 < r" "r \<le> k" for k q r :: int
    using that by (cases "r = k") auto
  have "(?y + 1) mod 4 = 0 \<longleftrightarrow> h + 1 = 4" "(?y + 1) mod 100 = 0 \<longleftrightarrow> 4 * g + h + 1 = 100"
    "(?y + 1) mod 400 = 0 \<longleftrightarrow> 100 * f + 4 * g + h + 1 = 400"
    using m[of "h + 1" 4 "100 * e + 25 * f + g"] m[of "4 * g + h + 1" 100 "4 * e + f"]
      m[of "100 * f + 4 * g + h + 1" 400 e] assms by (simp_all add: algebra_simps)
  moreover have "h + 1 = 4 \<longleftrightarrow> h = 3" "4 * g + h + 1 = 100 \<longleftrightarrow> h = 3 \<and> g = 24" "100 * f + 4 * g + h + 1 = 400 \<longleftrightarrow> h = 3 \<and> g = 24 \<and> f = 3"
    using assms by linarith+
  ultimately show "is_leap (?y + 1) \<longleftrightarrow> h = 3 \<and> (g \<noteq> 24 \<or> f = 3)" unfolding is_leap_def by (simp only:) argo
qed

text \<open>The day count and the date determine each other.\<close>

lemma ord2ymd_ok:
  assumes "1 \<le> n" and "n \<le> 3652059" and "ord2ymd n = (y, m, d)"
  shows "date_ok y m d \<and> ymd2ord y m d = n"
proof -
  define e a where "e = (n - 1) div 146097" and "a = (n - 1) mod 146097"
  define f b where "f = a div 36524" and "b = a mod 36524"
  define g c where "g = b div 1461" and "c = b mod 1461"
  define h r where "h = c div 365" and "r = c mod 365"
  have eqs: "n - 1 = 146097 * e + a" "a = 36524 * f + b" "b = 1461 * g + c" "c = 365 * h + r"
    by (simp_all add: e_def a_def f_def b_def g_def c_def h_def r_def)
  have "0 \<le> a" "a < 146097" "0 \<le> b" "b < 36524" "0 \<le> c" "c < 1461" "0 \<le> r" "r < 365"
    by (simp_all add: a_def b_def c_def r_def)
  note bounds = this
  have q: "0 \<le> e" "e \<le> 24" "0 \<le> f" "f \<le> 4" "0 \<le> g" "g \<le> 24" "0 \<le> h" "h \<le> 4"
    using eqs bounds assms(1,2) by linarith+
  have n: "n - 1 = 146097 * e + 36524 * f + 1461 * g + 365 * h + r" using eqs by linarith
  have rest: "f = 4 \<Longrightarrow> g = 0 \<and> h = 0 \<and> r = 0" "h = 4 \<Longrightarrow> r = 0 \<and> g \<noteq> 24 \<and> f \<le> 3"
    using eqs bounds q by linarith+
  have def: "ord2ymd n = (if h = 4 \<or> f = 4 then (e * 400 + f * 100 + g * 4 + h, 12, 31)
      else (e * 400 + 1 + f * 100 + g * 4 + h, month_of (h = 3 \<and> (g \<noteq> 24 \<or> f = 3)) r))"
    by (simp add: ord2ymd_def Let_def e_def f_def a_def g_def h_def r_def b_def c_def)
  consider "f = 4" "g = 0" "h = 0" "r = 0" | "h = 4" "f \<le> 3" "r = 0" "g \<noteq> 24" | "h \<le> 3" "f \<le> 3"
  proof (cases "f = 4")
    case True
    then show thesis using that(1) rest by blast
  next
    case False
    then have "f \<le> 3" using q by linarith
    then show thesis using that(2,3) rest q by (cases "h = 4") auto
  qed
  then show ?thesis
  proof cases
    case 1
    then show ?thesis using year_parts[of 3 24 3 e] assms(2,3) n q by (auto simp: def ymd2ord_def date_ok_def algebra_simps)
  next
    case 2
    then show ?thesis using year_parts[of f g 3 e] assms(2,3) n q by (auto simp: def ymd2ord_def date_ok_def algebra_simps)
  next
    case 3
    let ?l = "h = 3 \<and> (g \<noteq> 24 \<or> f = 3)"
    have y: "y = 400 * e + 100 * f + 4 * g + h + 1" and md: "month_of ?l r = (m, d)" using 3 assms(3) by (auto simp: def)
    note p = year_parts[of f g h e, folded y]
    have "y \<le> 9999" using n bounds q 3 assms(2) unfolding y by linarith
    moreover have "1 \<le> y" using q unfolding y by linarith
    moreover have "is_leap y = ?l" "days_before_year y = n - 1 - r" using p 3 q n by simp_all
    moreover have "r < (if ?l then 366 else 365)" using bounds by simp
    note month_of_ok[OF bounds(7) this md]
    ultimately show ?thesis unfolding ymd2ord_def date_ok_def by simp
  qed
qed

section \<open>Instants and their fields\<close>

record datetime =
  dt_year :: int
  dt_month :: int
  dt_day :: int
  dt_hour :: int
  dt_minute :: int
  dt_second :: int
  dt_microsecond :: int

definition us_per_day :: int where
  "us_per_day = 86400000000"

definition epoch_ord :: int where
  "epoch_ord = 719163"

definition fields_ok :: "datetime \<Rightarrow> bool" where
  "fields_ok d \<longleftrightarrow> date_ok (dt_year d) (dt_month d) (dt_day d) \<and> 0 \<le> dt_hour d \<and> dt_hour d < 24 \<and>
     0 \<le> dt_minute d \<and> dt_minute d < 60 \<and> 0 \<le> dt_second d \<and> dt_second d < 60 \<and>
     0 \<le> dt_microsecond d \<and> dt_microsecond d < 1000000"

definition utc_instant :: "datetime \<Rightarrow> instant" where
  "utc_instant d = (ymd2ord (dt_year d) (dt_month d) (dt_day d) - epoch_ord) * us_per_day +
     ((dt_hour d * 60 + dt_minute d) * 60 + dt_second d) * us_per_s + dt_microsecond d"

definition utc_fields :: "instant \<Rightarrow> datetime" where
  "utc_fields t =
     (let r = t mod us_per_day; s = r div us_per_s in
      case ord2ymd (t div us_per_day + epoch_ord) of (y, m, d) \<Rightarrow>
        \<lparr>dt_year = y, dt_month = m, dt_day = d, dt_hour = s div 3600, dt_minute = s div 60 mod 60,
         dt_second = s mod 60, dt_microsecond = r mod us_per_s\<rparr>)"

text \<open>The instants between \<open>datetime.min\<close> and \<open>datetime.max\<close>.\<close>

definition representable :: "instant \<Rightarrow> bool" where
  "representable t \<longleftrightarrow> (1 - epoch_ord) * us_per_day \<le> t \<and> t < (3652060 - epoch_ord) * us_per_day"

lemma utc_fields_ok:
  assumes "representable t"
  shows "fields_ok (utc_fields t)" and "utc_instant (utc_fields t) = t"
proof -
  define r s where "r = t mod us_per_day" and "s = r div 1000000"
  have r: "0 \<le> r" "r < us_per_day" "t = t div us_per_day * us_per_day + r"
    by (simp_all add: r_def us_per_day_def)
  have "r < 86400 * 1000000" using r(2) by (simp add: us_per_day_def)
  then have s: "0 \<le> s" "s < 86400" "r = s * 1000000 + r mod 1000000"
    using r(1) by (simp_all add: s_def pos_imp_zdiv_nonneg_iff div_less_iff_less_mult)
  have "s div 3600 = s div 60 div 60" by (simp add: zdiv_zmult2_eq[of 60, simplified])
  then have t: "(s div 3600 * 60 + s div 60 mod 60) * 60 + s mod 60 = s" by (simp only: div_mult_mod_eq)
  obtain y m d where ymd: "ord2ymd (t div us_per_day + epoch_ord) = (y, m, d)" by (metis prod_cases3)
  have days_in_range: "1 \<le> q + epoch_ord \<and> q + epoch_ord \<le> 3652059" if "t = q * us_per_day + r" for q
    using that assms r(1,2) unfolding representable_def epoch_ord_def us_per_day_def by auto
  have "1 \<le> t div us_per_day + epoch_ord" "t div us_per_day + epoch_ord \<le> 3652059"
    using days_in_range[OF r(3)] by blast+
  note o = ord2ymd_ok[OF this ymd]
  have f: "utc_fields t = \<lparr>dt_year = y, dt_month = m, dt_day = d, dt_hour = s div 3600, dt_minute = s div 60 mod 60,
      dt_second = s mod 60, dt_microsecond = r mod 1000000\<rparr>"
    by (simp add: utc_fields_def Let_def ymd us_per_s_def flip: r_def s_def)
  have "0 \<le> s div 3600" "s div 3600 < 24" using s(1,2) by (simp_all add: pos_imp_zdiv_nonneg_iff div_less_iff_less_mult)
  then show "fields_ok (utc_fields t)" using o unfolding f fields_ok_def by simp
  show "utc_instant (utc_fields t) = t"
    using o r(3) s(3) unfolding f utc_instant_def us_per_s_def datetime.simps t by simp
qed

section \<open>ISO 8601 texts\<close>

text \<open>A decimal with leading zeros.\<close>

definition pad :: "nat \<Rightarrow> int \<Rightarrow> string" where
  "pad w n = (let s = show_nat (nat n) in replicate (w - length s) CHR ''0'' @ s)"

definition isoformat :: "instant \<Rightarrow> string" where
  "isoformat t = (let d = utc_fields t in
     pad 4 (dt_year d) @ ''-'' @ pad 2 (dt_month d) @ ''-'' @ pad 2 (dt_day d) @ ''T'' @
     pad 2 (dt_hour d) @ '':'' @ pad 2 (dt_minute d) @ '':'' @ pad 2 (dt_second d) @
     (if dt_microsecond d = 0 then [] else ''.'' @ pad 6 (dt_microsecond d)) @ ''+00:00'')"

text \<open>The number that the first \<open>n\<close> characters denote, all of which must be digits, and the rest.\<close>

definition digits :: "nat \<Rightarrow> string \<Rightarrow> (int \<times> string) option" where
  "digits n s = (if n \<le> length s \<and> list_all is_digit (take n s) then Some (int (dec_val (take n s)), drop n s) else None)"

definition iso_separator :: "string \<Rightarrow> nat option" where
  "iso_separator s = (let n = length s in
     if n < 7 then None
     else if n = 7 then Some 7
     else if s ! 4 = CHR ''-'' then
       if s ! 5 = CHR ''W'' then
         if 8 < n \<and> s ! 8 = CHR ''-'' then
           if n = 9 then None else if 10 < n \<and> is_digit (s ! 10) then Some 8 else Some 10
         else Some 8
       else Some 10
     else if s ! 4 = CHR ''W'' then
       let idx = 7 + length (takeWhile is_digit (drop 7 s)) in
       if idx < 9 then Some idx else if even idx then Some 7 else Some 8
     else Some 8)"

definition isoweek1monday :: "int \<Rightarrow> int" where
  "isoweek1monday y = (let first = ymd2ord y 1 1; wd = (first + 6) mod 7; mon = first - wd in
     if 3 < wd then mon + 7 else mon)"

definition isoweek_date :: "int \<Rightarrow> int \<Rightarrow> int \<Rightarrow> (int \<times> int \<times> int) option" where
  "isoweek_date y week day =
     (let wd = ymd2ord y 1 1 mod 7; long = wd = 4 \<or> (wd = 3 \<and> is_leap y) in
      if 1 \<le> y \<and> y \<le> 9999 \<and> (0 < week \<and> week < 53 \<or> week = 53 \<and> long) \<and> 0 < day \<and> day < 8
      then Some (ord2ymd (isoweek1monday y + (week - 1) * 7 + (day - 1))) else None)"

definition parse_isodate :: "string \<Rightarrow> (int \<times> int \<times> int) option" where
  "parse_isodate s =
     (case digits 4 s of None \<Rightarrow> None | Some (y, r) \<Rightarrow>
      let dash = take 1 r = ''-''; r1 = (if dash then tl r else r) in
      if take 1 r1 = ''W'' then
        (case digits 2 (tl r1) of None \<Rightarrow> None | Some (w, r2) \<Rightarrow>
         if r2 = [] then isoweek_date y w 1
         else if (take 1 r2 = ''-'') \<noteq> dash then None
         else (case digits 1 (if dash then tl r2 else r2) of None \<Rightarrow> None | Some (d, _) \<Rightarrow> isoweek_date y w d))
      else
        (case digits 2 r1 of None \<Rightarrow> None | Some (m, r2) \<Rightarrow>
         if (take 1 r2 = ''-'') \<noteq> dash then None
         else (case digits 2 (if dash then tl r2 else r2) of None \<Rightarrow> None | Some (d, _) \<Rightarrow> Some (y, m, d))))"

text \<open>Up to six digits of a fraction count; all must be digits.\<close>

definition parse_fraction :: "string \<Rightarrow> int option" where
  "parse_fraction s =
     (if s \<noteq> [] \<and> list_all is_digit s
      then Some (int (dec_val (take 6 s)) * 10 ^ (6 - length (take 6 s))) else None)"

definition parse_hms :: "string \<Rightarrow> (int \<times> int \<times> int \<times> int) option" where
  "parse_hms s =
     (case digits 2 s of None \<Rightarrow> None | Some (h, r) \<Rightarrow>
      if r = [] then Some (h, 0, 0, 0) else
      let colon = hd r = CHR '':'' in
      case digits 2 (if colon then tl r else r) of None \<Rightarrow> None | Some (m, r1) \<Rightarrow>
      if r1 = [] then Some (h, m, 0, 0)
      else if colon \<and> hd r1 \<noteq> CHR '':'' then None else
      case digits 2 (if colon then tl r1 else r1) of None \<Rightarrow> None | Some (sec, r2) \<Rightarrow>
      if r2 = [] then Some (h, m, sec, 0)
      else if hd r2 \<noteq> CHR ''.'' \<and> hd r2 \<noteq> CHR '','' then None
      else map_option (\<lambda>us. (h, m, sec, us)) (parse_fraction (tl r2)))"

text \<open>The time of day and the offset from UTC in microseconds.\<close>

definition is_offset_mark :: "char \<Rightarrow> bool" where
  "is_offset_mark c \<longleftrightarrow> c = CHR ''+'' \<or> c = CHR ''-'' \<or> c = CHR ''Z''"

definition parse_offset :: "string \<Rightarrow> int option" where
  "parse_offset s = (case s of
      [] \<Rightarrow> Some 0
    | c # r \<Rightarrow>
        if c = CHR ''Z'' then (if r = [] then Some 0 else None)
        else if length r \<in> {0, 1, 3} then None
        else (case parse_hms r of None \<Rightarrow> None | Some (h, m, sec, us) \<Rightarrow>
          let td = ((h * 60 + m) * 60 + sec) * us_per_s + us in
          if td < us_per_day then Some (if c = CHR ''-'' then - td else td) else None))"

definition fromisoformat :: "string \<Rightarrow> instant option" where
  "fromisoformat s =
     (case iso_separator s of None \<Rightarrow> None | Some i \<Rightarrow>
      case parse_isodate (take i s) of None \<Rightarrow> None | Some (y, mo, d) \<Rightarrow>
      let ts = drop (i + 1) s in
      case (if ts = [] then Some (0, 0, 0, 0) else parse_hms (takeWhile (\<lambda>c. \<not> is_offset_mark c) ts)) of
        None \<Rightarrow> None | Some (h, mi, sec, us) \<Rightarrow>
      case parse_offset (dropWhile (\<lambda>c. \<not> is_offset_mark c) ts) of None \<Rightarrow> None | Some off \<Rightarrow>
      let dt = \<lparr>dt_year = y, dt_month = mo, dt_day = d, dt_hour = h, dt_minute = mi, dt_second = sec, dt_microsecond = us\<rparr> in
      if fields_ok dt then Some (utc_instant dt - off) else None)"

section \<open>Reading what was written\<close>

lemma pad_digit: "c \<in> set (pad w n) \<Longrightarrow> is_digit c"
  using show_nat_digits by (auto simp: pad_def Let_def is_digit_def code_def)

lemma length_pad: "0 < w \<Longrightarrow> n < 10 ^ w \<Longrightarrow> length (pad w n) = w"
  using length_show_nat[of w "nat n"] by (simp add: pad_def Let_def nat_less_iff)

lemma dec_val_zeros: "dec_val (replicate k CHR ''0'' @ s) = dec_val s"
proof -
  have "foldl (\<lambda>n c. 10 * n + digit_val c) 0 (replicate k CHR ''0'') = 0"
    by (induction k) (simp_all add: digit_val_def code_def)
  then show ?thesis by (simp add: dec_val_def)
qed

lemma dec_val_pad: "0 \<le> n \<Longrightarrow> int (dec_val (pad w n)) = n"
  by (simp add: pad_def Let_def dec_val_zeros)

lemma digits_pad: "0 < w \<Longrightarrow> 0 \<le> n \<Longrightarrow> n < 10 ^ w \<Longrightarrow> digits w (pad w n @ r) = Some (n, r)"
  using pad_digit by (simp add: digits_def length_pad dec_val_pad list_all_iff)

lemma fraction_pad: "0 \<le> n \<Longrightarrow> n < 10 ^ 6 \<Longrightarrow> parse_fraction (pad 6 n) = Some n"
  using pad_digit length_pad[of 6 n] by (auto simp: parse_fraction_def dec_val_pad list_all_iff)

lemma pad_no_mark: "\<forall>c \<in> set (pad w n). \<not> is_offset_mark c"
  using pad_digit by (fastforce simp: is_offset_mark_def is_digit_def code_def)

lemma parse_isodate_pad:
  assumes "0 \<le> y" "y < 10000" "0 \<le> m" "m < 100" "0 \<le> d" "d < 100"
  shows "parse_isodate (pad 4 y @ ''-'' @ pad 2 m @ ''-'' @ pad 2 d) = Some (y, m, d)"
proof -
  have "take 1 (pad 2 m @ s) \<noteq> ''W''" for s
    using pad_digit[of "hd (pad 2 m)" 2 m] length_pad[of 2 m] assms
    by (cases "pad 2 m") (auto simp: is_digit_def code_def)
  then show ?thesis
    using assms digits_pad[of 4 y] digits_pad[of 2 m] digits_pad[of 2 d "[]"] by (simp add: parse_isodate_def)
qed

lemma parse_hms_pad:
  assumes "0 \<le> h" "h < 100" "0 \<le> m" "m < 100" "0 \<le> s" "s < 100" "0 \<le> u" "u < 1000000"
  shows "parse_hms (pad 2 h @ '':'' @ pad 2 m @ '':'' @ pad 2 s @ (if u = 0 then [] else ''.'' @ pad 6 u)) = Some (h, m, s, u)"
  using assms digits_pad[of 2 h] digits_pad[of 2 m] digits_pad[of 2 s] fraction_pad[of u]
    digits_pad[of 2 s "[]"] by (simp add: parse_hms_def)

text \<open>\<open>fromisoformat\<close> reads back every text of \<open>isoformat\<close>.\<close>

theorem iso_roundtrip:
  assumes "representable t"
  shows "fromisoformat (isoformat t) = Some t"
proof -
  obtain d where d: "d = utc_fields t" by simp
  let ?date = "pad 4 (dt_year d) @ ''-'' @ pad 2 (dt_month d) @ ''-'' @ pad 2 (dt_day d)"
  let ?time = "pad 2 (dt_hour d) @ '':'' @ pad 2 (dt_minute d) @ '':'' @ pad 2 (dt_second d) @
     (if dt_microsecond d = 0 then [] else ''.'' @ pad 6 (dt_microsecond d))"
  have ok: "fields_ok d" and t: "utc_instant d = t" using utc_fields_ok[OF assms] by (simp_all add: d)
  have "days_in_month (is_leap (dt_year d)) (dt_month d) \<le> 31" if "1 \<le> dt_month d" "dt_month d \<le> 12"
    using month_cases[OF that] by auto
  then have b: "0 \<le> dt_year d" "dt_year d < 10000" "0 \<le> dt_month d" "dt_month d < 100" "0 \<le> dt_day d" "dt_day d < 100"
    "0 \<le> dt_hour d" "dt_hour d < 100" "0 \<le> dt_minute d" "dt_minute d < 100" "0 \<le> dt_second d" "dt_second d < 100"
    "0 \<le> dt_microsecond d" "dt_microsecond d < 1000000"
    using ok by (auto simp: fields_ok_def date_ok_def)
  have i: "isoformat t = ?date @ CHR ''T'' # (?time @ ''+00:00'')" by (simp add: isoformat_def Let_def d)
  have len: "length ?date = 10" using b by (simp add: length_pad)
  have e: "\<lparr>dt_year = dt_year d, dt_month = dt_month d, dt_day = dt_day d, dt_hour = dt_hour d, dt_minute = dt_minute d,
      dt_second = dt_second d, dt_microsecond = dt_microsecond d\<rparr> = d" by (cases d) simp
  have cut: "take 10 (p @ c # q) = p \<and> drop (10 + 1) (p @ c # q) = q" if "length p = 10" for p q :: string and c
    using that by simp
  have "pad 2 (dt_month d) ! 0 \<noteq> CHR ''W''"
    using pad_digit[OF nth_mem, of 0 2 "dt_month d"] length_pad[of 2 "dt_month d"] b
    by (auto simp: is_digit_def code_def)
  then have "isoformat t ! 4 = CHR ''-''" "isoformat t ! 5 \<noteq> CHR ''W''" "7 < length (isoformat t)"
    using len b(1-4) unfolding i by (simp_all add: nth_append length_pad)
  then have "iso_separator (isoformat t) = Some 10" by (simp add: iso_separator_def Let_def)
  moreover have "takeWhile (\<lambda>c. \<not> is_offset_mark c) (?time @ ''+00:00'') = ?time"
    "dropWhile (\<lambda>c. \<not> is_offset_mark c) (?time @ ''+00:00'') = ''+00:00''"
    using pad_no_mark by (auto simp: takeWhile_append dropWhile_append is_offset_mark_def)
  moreover have "parse_offset ''+00:00'' = Some 0" by code_simp
  moreover have "take 10 (isoformat t) = ?date" "drop (10 + 1) (isoformat t) = ?time @ ''+00:00''"
    using cut[OF len, of "CHR ''T''" "?time @ ''+00:00''"] unfolding i by blast+
  ultimately show ?thesis
    using parse_isodate_pad[OF b(1-6)] parse_hms_pad[OF b(7-14)] ok t by (simp add: fromisoformat_def Let_def e)
qed

section \<open>Numeric formats\<close>

text \<open>
  \<open>strptime\<close> turns the format into a regular expression and takes its first match, which must cover the text.
  \<open>directive\<close> gives the alternatives of a directive in the order in which the expression tries them, as
  numbers with the text that remains; other characters match themselves in either case and white space matches any
  amount of it.
\<close>

definition two_digits :: "nat \<Rightarrow> nat \<Rightarrow> string \<Rightarrow> (int \<times> string) list" where
  "two_digits lo hi s = (case digits 2 s of None \<Rightarrow> [] | Some (n, r) \<Rightarrow> if int lo \<le> n \<and> n \<le> int hi then [(n, r)] else [])"

definition one_digit :: "nat \<Rightarrow> string \<Rightarrow> (int \<times> string) list" where
  "one_digit lo s = (case digits 1 s of None \<Rightarrow> [] | Some (n, r) \<Rightarrow> if int lo \<le> n then [(n, r)] else [])"

definition directive :: "char \<Rightarrow> string \<Rightarrow> (int \<times> string) list" where
  "directive k s =
     (if k = CHR ''Y'' then (case digits 4 s of None \<Rightarrow> [] | Some p \<Rightarrow> [p])
      else if k = CHR ''m'' then two_digits 1 12 s @ one_digit 1 s
      else if k = CHR ''d'' then two_digits 1 31 s @ one_digit 1 s @ (if take 1 s = '' '' then one_digit 1 (tl s) else [])
      else if k = CHR ''H'' then two_digits 0 23 s @ one_digit 0 s
      else if k = CHR ''M'' then two_digits 0 59 s @ one_digit 0 s
      else if k = CHR ''S'' then two_digits 0 61 s @ one_digit 0 s
      else [])"

definition skip_spaces :: "string \<Rightarrow> string list" where
  "skip_spaces s = map (\<lambda>i. drop i s) (rev [1..<Suc (length (takeWhile is_space s))])"

fun match_format :: "string \<Rightarrow> string \<Rightarrow> ((char \<times> int) list \<times> string) list" where
  "match_format [] s = [([], s)]"
| "match_format (c # f) s =
     (if c = CHR ''%'' then (case f of
         [] \<Rightarrow> []
       | k # f1 \<Rightarrow> concat (map (\<lambda>(n, r). map (\<lambda>(vs, rest). ((k, n) # vs, rest)) (match_format f1 r)) (directive k s)))
      else if is_space c then concat (map (match_format f) (skip_spaces s))
      else (case s of [] \<Rightarrow> [] | x # r \<Rightarrow> if lower_char x = lower_char c then match_format f r else []))"

definition strptime_utc :: "string \<Rightarrow> string \<Rightarrow> instant option" where
  "strptime_utc fmt s = (case match_format fmt s of
      [] \<Rightarrow> None
    | (vs, rest) # _ \<Rightarrow>
        let v = (\<lambda>k d. case map_of vs k of None \<Rightarrow> d | Some n \<Rightarrow> n);
            dt = \<lparr>dt_year = v (CHR ''Y'') 1900, dt_month = v (CHR ''m'') 1, dt_day = v (CHR ''d'') 1, dt_hour = v (CHR ''H'') 0,
              dt_minute = v (CHR ''M'') 0, dt_second = v (CHR ''S'') 0, dt_microsecond = 0\<rparr>
        in if rest = [] \<and> fields_ok dt then Some (utc_instant dt) else None)"

lemma two_digits_pad:
  "int lo \<le> n \<Longrightarrow> n \<le> int hi \<Longrightarrow> n < 100 \<Longrightarrow> two_digits lo hi (pad 2 n @ r) = [(n, r)]"
  using digits_pad[of 2 n r] by (simp add: two_digits_def)

text \<open>
  \<open>strftime\<close> on the same directives; as in the C library, the year is not padded.
\<close>

fun strftime :: "string \<Rightarrow> datetime \<Rightarrow> string" where
  "strftime [] d = []"
| "strftime [c] d = [c]"
| "strftime (c # k # f) d =
     (if c = CHR ''%'' then
        (if k = CHR ''Y'' then show_int (dt_year d)
         else if k = CHR ''m'' then pad 2 (dt_month d)
         else if k = CHR ''d'' then pad 2 (dt_day d)
         else if k = CHR ''H'' then pad 2 (dt_hour d)
         else if k = CHR ''M'' then pad 2 (dt_minute d)
         else if k = CHR ''S'' then pad 2 (dt_second d)
         else [c, k]) @ strftime f d
      else c # strftime (k # f) d)"

text \<open>The first way to match a format.\<close>

definition matches_first :: "string \<Rightarrow> string \<Rightarrow> (char \<times> int) list \<Rightarrow> bool" where
  "matches_first f s vs \<longleftrightarrow> (\<exists>more. match_format f s = (vs, []) # more)"

lemma matches_nil: "matches_first [] [] []"
  by (simp add: matches_first_def)

lemma matches_directive:
  "directive k s = (n, r) # alts \<Longrightarrow> matches_first f r vs \<Longrightarrow> matches_first (CHR ''%'' # k # f) s ((k, n) # vs)"
  by (auto simp: matches_first_def)

lemma matches_literal:
  "matches_first f r vs \<Longrightarrow> c \<noteq> CHR ''%'' \<Longrightarrow> \<not> is_space c \<Longrightarrow> matches_first (c # f) (c # r) vs"
  by (simp add: matches_first_def)

lemma matches_blank:
  "matches_first f r vs \<Longrightarrow> r \<noteq> [] \<Longrightarrow> \<not> is_space (hd r) \<Longrightarrow> matches_first (CHR '' '' # f) (CHR '' '' # r) vs"
  by (cases r) (auto simp: matches_first_def skip_spaces_def is_space_def code_def)

lemma pad_starts: "pad w n @ r \<noteq> [] \<and> \<not> is_space (hd (pad w n @ r))"
proof -
  have ne: "pad w n \<noteq> []" by (simp add: pad_def Let_def)
  then have "is_digit (hd (pad w n))" using pad_digit hd_in_set by blast
  with ne show ?thesis using digit_not_space by auto
qed

lemma dec_val_bound: "\<forall>c \<in> set s. is_digit c \<Longrightarrow> dec_val s < 10 ^ length s"
proof (induction s rule: rev_induct)
  case (snoc c s)
  then have "digit_val c < 10" "dec_val s < 10 ^ length s" by (auto simp: is_digit_def digit_val_def)
  then show ?case by simp
qed (simp add: dec_val_def)

lemma directive_pad:
  "1000 \<le> n \<Longrightarrow> n \<le> 9999 \<Longrightarrow> \<exists>a. directive (CHR ''Y'') (show_int n @ r) = (n, r) # a"
  "1 \<le> n \<Longrightarrow> n \<le> 12 \<Longrightarrow> \<exists>a. directive (CHR ''m'') (pad 2 n @ r) = (n, r) # a"
  "1 \<le> n \<Longrightarrow> n \<le> 31 \<Longrightarrow> \<exists>a. directive (CHR ''d'') (pad 2 n @ r) = (n, r) # a"
  "0 \<le> n \<Longrightarrow> n < 24 \<Longrightarrow> \<exists>a. directive (CHR ''H'') (pad 2 n @ r) = (n, r) # a"
  "0 \<le> n \<Longrightarrow> n < 60 \<Longrightarrow> \<exists>a. directive (CHR ''M'') (pad 2 n @ r) = (n, r) # a"
  "0 \<le> n \<Longrightarrow> n < 60 \<Longrightarrow> \<exists>a. directive (CHR ''S'') (pad 2 n @ r) = (n, r) # a"
proof -
  assume n: "1000 \<le> n" "n \<le> 9999"
  have "10 ^ 3 \<le> nat n" using n by simp
  moreover have "nat n < 10 ^ length (show_nat (nat n))"
    using dec_val_bound[of "show_nat (nat n)"] show_nat_digits by auto
  ultimately have "(10::nat) ^ 3 < 10 ^ length (show_nat (nat n))" by linarith
  then have "3 < length (show_nat (nat n))" by (rule power_less_imp_less_exp[rotated]) simp
  then have "pad 4 n = show_int n" using n by (simp add: pad_def show_int_def Let_def)
  then show "\<exists>a. directive (CHR ''Y'') (show_int n @ r) = (n, r) # a" using n digits_pad[of 4 n r] by (simp add: directive_def)
qed (simp_all add: directive_def two_digits_pad)

definition stamp_format :: string where
  "stamp_format = ''%Y/%m/%d %H:%M:%S''"

lemma strptime_strftime:
  assumes "fields_ok d" and "1000 \<le> dt_year d" and "dt_microsecond d = 0"
  shows "strptime_utc stamp_format (strftime stamp_format d) = Some (utc_instant d)"
proof -
  have r: "1 \<le> dt_month d" "dt_month d \<le> 12" "1 \<le> dt_day d" "dt_day d \<le> 31" "dt_year d \<le> 9999"
    "0 \<le> dt_hour d" "dt_hour d < 24" "0 \<le> dt_minute d" "dt_minute d < 60" "0 \<le> dt_second d" "dt_second d < 60"
    using assms(1) month_cases[of "dt_month d"] by (auto simp: fields_ok_def date_ok_def split: if_splits)
  have sp: "\<not> is_space (CHR ''/'')" "\<not> is_space (CHR '':'')" by (simp_all add: is_space_def code_def)
  obtain a1 a2 a3 a4 a5 a6 where a: "\<And>r. directive (CHR ''Y'') (show_int (dt_year d) @ r) = (dt_year d, r) # a1 r"
    "\<And>r. directive (CHR ''m'') (pad 2 (dt_month d) @ r) = (dt_month d, r) # a2 r"
    "\<And>r. directive (CHR ''d'') (pad 2 (dt_day d) @ r) = (dt_day d, r) # a3 r"
    "\<And>r. directive (CHR ''H'') (pad 2 (dt_hour d) @ r) = (dt_hour d, r) # a4 r"
    "\<And>r. directive (CHR ''M'') (pad 2 (dt_minute d) @ r) = (dt_minute d, r) # a5 r"
    "\<And>r. directive (CHR ''S'') (pad 2 (dt_second d) @ r) = (dt_second d, r) # a6 r"
    using directive_pad r assms(2) by metis
  note a6 = a(6)[of "[]", simplified]
  have "matches_first stamp_format (strftime stamp_format d)
    [(CHR ''Y'', dt_year d), (CHR ''m'', dt_month d), (CHR ''d'', dt_day d), (CHR ''H'', dt_hour d),
     (CHR ''M'', dt_minute d), (CHR ''S'', dt_second d)]"
    by (simp add: stamp_format_def)
      (intro matches_directive[OF a(1)] matches_directive[OF a(2)] matches_directive[OF a(3)] matches_directive[OF a(4)]
        matches_directive[OF a(5)] matches_directive[OF a6] matches_literal matches_blank matches_nil sp; simp add: pad_starts)
  moreover have "\<lparr>dt_year = dt_year d, dt_month = dt_month d, dt_day = dt_day d, dt_hour = dt_hour d, dt_minute = dt_minute d,
      dt_second = dt_second d, dt_microsecond = 0\<rparr> = d" using assms(3) by simp
  ultimately show ?thesis using assms(1) by (auto simp: matches_first_def strptime_utc_def Let_def)
qed

lemma year_after_epoch:
  assumes "representable t" and "0 \<le> t"
  shows "1000 \<le> dt_year (utc_fields t)"
proof (rule ccontr)
  let ?d = "utc_fields t"
  assume "\<not> 1000 \<le> dt_year ?d"
  then have y: "1 \<le> dt_year ?d" "dt_year ?d \<le> 999" using utc_fields_ok(1)[OF assms(1)] by (simp_all add: fields_ok_def date_ok_def)
  have "days_before_month b m + k \<le> 366" if "1 \<le> m" "m \<le> 12" "k \<le> days_in_month b m" for b m k
    using that month_cases[of m] by (auto split: if_splits)
  then have "days_before_month (is_leap (dt_year ?d)) (dt_month ?d) + dt_day ?d \<le> 366"
    using utc_fields_ok(1)[OF assms(1)] by (simp add: fields_ok_def date_ok_def)
  moreover have "days_before_year (dt_year ?d) \<le> 998 * 365 + 998"
  proof -
    define z where "z = dt_year ?d - 1"
    have "0 \<le> z" "z \<le> 998" using y by (simp_all add: z_def)
    then have "z div 4 \<le> 249" "0 \<le> z div 100" "z div 400 \<le> 2"
      using zdiv_mono1[of z 998 4] zdiv_mono1[of z 998 400] by (simp_all add: pos_imp_zdiv_nonneg_iff)
    then show ?thesis using \<open>z \<le> 998\<close> by (simp add: days_before_year_def Let_def flip: z_def)
  qed
  ultimately have "ymd2ord (dt_year ?d) (dt_month ?d) (dt_day ?d) < epoch_ord" by (simp add: ymd2ord_def epoch_ord_def)
  moreover have "((dt_hour ?d * 60 + dt_minute ?d) * 60 + dt_second ?d) * us_per_s + dt_microsecond ?d < us_per_day"
    using utc_fields_ok(1)[OF assms(1)] by (simp add: fields_ok_def us_per_s_def us_per_day_def)
  ultimately have "utc_instant ?d < 0" by (simp add: utc_instant_def us_per_day_def)
  then show False using utc_fields_ok(2)[OF assms(1)] assms(2) by simp
qed

end
