(* ===== verification/Csv.thy ===== *)
theory Csv
  imports Py_String "HOL-Library.AList"
begin

text \<open>
  The standard module \<open>csv\<close> as the code uses it: \<open>reader\<close> in the default dialect, over texts whose lines end with a line feed, and \<open>DictReader\<close>.
\<close>

section \<open>csv.reader\<close>

datatype csv_state = StartRecord | StartField | InField | InQuoted | QuoteInQuoted | EatCrnl

type_synonym csv_conf = "csv_state \<times> string \<times> string list"

definition csv_limit :: nat where
  "csv_limit = 131072"

definition csv_q :: char where "csv_q = CHR 0x22"
definition csv_nl :: char where "csv_nl = CHR 0x0A"
definition csv_cr :: char where "csv_cr = CHR 0x0D"

abbreviation is_eol :: "char \<Rightarrow> bool" where
  "is_eol c \<equiv> c = csv_nl \<or> c = csv_cr"

definition csv_add :: "csv_state \<Rightarrow> string \<Rightarrow> string list \<Rightarrow> char \<Rightarrow> py_error + csv_conf" where
  "csv_add st cur fs c = (if csv_limit \<le> length cur then Inl CsvError else Inr (st, cur @ [c], fs))"

text \<open>One character, following the C implementation; the end of a line is a pseudo character.\<close>

definition csv_char :: "csv_conf \<Rightarrow> char \<Rightarrow> py_error + csv_conf" where
  "csv_char conf c = (case conf of (st, cur, fs) \<Rightarrow>
     (let start_field =
        (if is_eol c then Inr (EatCrnl, [], fs @ [cur])
         else if c = csv_q then Inr (InQuoted, cur, fs)
         else if c = CHR '','' then Inr (StartField, [], fs @ [cur])
         else csv_add InField cur fs c)
      in case st of
        StartRecord \<Rightarrow> if is_eol c then Inr (EatCrnl, cur, fs) else start_field
      | StartField \<Rightarrow> start_field
      | InField \<Rightarrow>
          if is_eol c then Inr (EatCrnl, [], fs @ [cur])
          else if c = CHR '','' then Inr (StartField, [], fs @ [cur])
          else csv_add InField cur fs c
      | InQuoted \<Rightarrow> if c = csv_q then Inr (QuoteInQuoted, cur, fs) else csv_add InQuoted cur fs c
      | QuoteInQuoted \<Rightarrow>
          if c = csv_q then csv_add InQuoted cur fs c
          else if c = CHR '','' then Inr (StartField, [], fs @ [cur])
          else if is_eol c then Inr (EatCrnl, [], fs @ [cur])
          else csv_add InField cur fs c
      | EatCrnl \<Rightarrow> if is_eol c then Inr (EatCrnl, cur, fs) else Inl CsvError))"

definition csv_eol :: "csv_conf \<Rightarrow> csv_conf" where
  "csv_eol conf = (case conf of (st, cur, fs) \<Rightarrow>
     (case st of
        StartRecord \<Rightarrow> conf
      | InQuoted \<Rightarrow> conf
      | EatCrnl \<Rightarrow> (StartRecord, cur, fs)
      | _ \<Rightarrow> (StartRecord, [], fs @ [cur])))"

definition csv_finish :: "csv_conf \<Rightarrow> string list option" where
  "csv_finish conf = (case conf of (st, cur, fs) \<Rightarrow> if cur \<noteq> [] \<or> st = InQuoted then Some (fs @ [cur]) else None)"

text \<open>The next row and the rest of the text; \<open>fresh\<close>: no character of the current line was read.\<close>

fun csv_loop :: "csv_conf \<Rightarrow> bool \<Rightarrow> string \<Rightarrow> py_error + (string list \<times> string) option" where
  "csv_loop conf fresh [] =
     (let row = (if fresh then csv_finish conf
        else let conf1 = csv_eol conf in if fst conf1 = StartRecord then Some (snd (snd conf1)) else csv_finish conf1)
      in Inr (map_option (\<lambda>r. (r, [])) row))"
| "csv_loop conf fresh (c # s) =
     bind_r (csv_char conf c) (\<lambda>conf1.
       if c = csv_nl then
         (let conf2 = csv_eol conf1 in
          if fst conf2 = StartRecord then Inr (Some (snd (snd conf2), s)) else csv_loop conf2 True s)
       else csv_loop conf1 False s)"

definition csv_next :: "string \<Rightarrow> py_error + (string list \<times> string) option" where
  "csv_next s = csv_loop (StartRecord, [], []) True s"

text \<open>\<open>next(csv.reader(io.StringIO(s)), None)\<close>\<close>

definition csv_first :: "string \<Rightarrow> py_error + string list option" where
  "csv_first s = bind_r (csv_next s) (\<lambda>r. Inr (map_option fst r))"

text \<open>All rows.\<close>

lemma csv_loop_shorter: "csv_loop conf fresh s = Inr (Some (row, rest)) \<Longrightarrow> length rest \<le> length s \<and> (s \<noteq> [] \<longrightarrow> length rest < length s)"
proof (induction conf fresh s rule: csv_loop.induct)
  case (2 conf fresh c s)
  then obtain conf1 where c: "csv_char conf c = Inr conf1" by (auto simp: bind_r_Inr)
  show ?case
  proof (cases "c = csv_nl")
    case True
    then show ?thesis using "2.IH"(1)[of "csv_eol conf1" conf1] "2.prems" c by (cases "fst (csv_eol conf1) = StartRecord") (auto simp: Let_def)
  next
    case False
    then show ?thesis using "2.IH"(2)[of conf1] "2.prems" c by auto
  qed
qed simp

lemma csv_next_shorter: "csv_next s = Inr (Some (row, rest)) \<Longrightarrow> length rest < length s"
  using csv_loop_shorter[of "(StartRecord, [], [])" True s row rest] by (cases s) (auto simp: csv_next_def csv_finish_def)

function csv_rows :: "string \<Rightarrow> py_error + string list list" where
  "csv_rows s = (case csv_next s of
      Inl e \<Rightarrow> Inl e
    | Inr None \<Rightarrow> Inr []
    | Inr (Some (row, rest)) \<Rightarrow> bind_r (csv_rows rest) (\<lambda>rows. Inr (row # rows)))"
  by auto

termination
  by (relation "measure length") (auto simp: csv_next_shorter)

declare csv_rows.simps [simp del]

text \<open>
  \<open>csv.DictReader\<close>: the first row names the columns, blank rows are skipped, a short row is filled with \<open>None\<close>. The surplus of a long row is
  left out: it has the key \<open>None\<close>, which no statement names.
\<close>

definition dict_row :: "string list \<Rightarrow> string list \<Rightarrow> (string, string option) dict" where
  "dict_row names row = foldl (\<lambda>d (k, v). AList.update k v d) [] (zip names (map Some row @ replicate (length names - length row) None))"

definition dict_reader :: "string \<Rightarrow> py_error + (string, string option) dict list" where
  "dict_reader s = bind_r (csv_rows s) (\<lambda>rows. Inr (case rows of [] \<Rightarrow> []
     | names # rest \<Rightarrow> map (dict_row names) (filter (\<lambda>r. r \<noteq> []) rest)))"

section \<open>Writing and reading a row\<close>

text \<open>
  A row as a CSV writer produces it: a field in quotes, with quotes doubled, or bare when it holds
  no comma, quote or line end.
\<close>

definition quote_field :: "string \<Rightarrow> string" where
  "quote_field f = [csv_q] @ concat (map (\<lambda>c. if c = csv_q then [csv_q, csv_q] else [c]) f) @ [csv_q]"

definition bare_ok :: "string \<Rightarrow> bool" where
  "bare_ok f \<longleftrightarrow> (\<forall>c \<in> set f. c \<noteq> CHR '','' \<and> c \<noteq> csv_q \<and> \<not> is_eol c)"

definition write_field :: "bool \<times> string \<Rightarrow> string" where
  "write_field p = (if fst p then quote_field (snd p) else snd p)"

definition field_ok :: "bool \<times> string \<Rightarrow> bool" where
  "field_ok p \<longleftrightarrow> length (snd p) \<le> csv_limit \<and> (fst p \<or> bare_ok (snd p))"

definition write_row :: "(bool \<times> string) list \<Rightarrow> string" where
  "write_row ps = join_with '','' (map write_field ps)"

text \<open>What follows a row.\<close>

definition row_end :: "string \<Rightarrow> bool" where
  "row_end t \<longleftrightarrow> t = [] \<or> (\<exists>s. t = csv_nl # s)"

lemma csv_consts [simp]:
  "csv_q \<noteq> csv_nl" "csv_q \<noteq> csv_cr" "csv_nl \<noteq> csv_q" "csv_cr \<noteq> csv_q" "csv_q \<noteq> CHR '',''" "CHR '','' \<noteq> csv_q"
  "CHR '','' \<noteq> csv_nl" "CHR '','' \<noteq> csv_cr" "csv_nl \<noteq> CHR '',''" "csv_cr \<noteq> CHR '',''"
  by (simp_all add: csv_q_def csv_nl_def csv_cr_def)

lemma csv_bare:
  "bare_ok f \<Longrightarrow> length cur + length f \<le> csv_limit \<Longrightarrow> f \<noteq> [] \<or> \<not> fresh \<Longrightarrow>
   csv_loop (InField, cur, fs) fresh (f @ s) = csv_loop (InField, cur @ f, fs) False s"
  by (induction f arbitrary: cur fresh) (auto simp: bare_ok_def csv_char_def csv_add_def)

lemma csv_quoted_body:
  "length cur + length f \<le> csv_limit \<Longrightarrow>
   csv_loop (InQuoted, cur, fs) fresh (concat (map (\<lambda>c. if c = csv_q then [csv_q, csv_q] else [c]) f) @ csv_q # s) =
   csv_loop (QuoteInQuoted, cur @ f, fs) False s"
proof (induction f arbitrary: cur fresh)
  case Nil
  then show ?case by (simp add: csv_char_def)
next
  case (Cons c f)
  have l: "\<not> csv_limit \<le> length cur" "length (cur @ [c]) + length f \<le> csv_limit" using Cons.prems by simp_all
  show ?case
    using l(1) Cons.IH[OF l(2)]
    by (cases "c = csv_q"; cases "c = csv_nl") (simp_all add: csv_char_def csv_add_def csv_eol_def)
qed

text \<open>One written field from the start of a field, followed by a comma or by the end.\<close>

lemma csv_field:
  assumes "field_ok p" and "st = StartField \<or> st = StartRecord"
  shows "csv_loop (st, [], fs) fresh (write_field p @ CHR '','' # s) = csv_loop (StartField, [], fs @ [snd p]) False s"
    and "fst p \<or> snd p \<noteq> [] \<or> \<not> fresh \<and> st = StartField \<Longrightarrow> row_end t \<Longrightarrow>
      csv_loop (st, [], fs) fresh (write_field p @ t) = Inr (Some (fs @ [snd p], tl t))"
proof -
  obtain q f where p: "p = (q, f)" by (cases p)
  have len: "length f \<le> csv_limit" using assms(1) by (simp add: p field_ok_def)
  have quoted: "csv_loop (st, [], fs) fresh (quote_field f @ s) = csv_loop (QuoteInQuoted, f, fs) False s" for s
    using assms(2) csv_quoted_body[of "[]" f fs False s] len
    by (elim disjE) (simp_all add: quote_field_def csv_char_def)
  have bare: "csv_loop (st, [], fs) fresh (c # r @ s) = csv_loop (InField, c # r, fs) False s"
    if "f = c # r" "bare_ok f" for c r s
  proof -
    have "c \<noteq> CHR '',''" "c \<noteq> csv_q" "c \<noteq> csv_nl" "c \<noteq> csv_cr" using that by (simp_all add: bare_ok_def)
    then have "csv_loop (st, [], fs) fresh (c # r @ s) = csv_loop (InField, [c], fs) False (r @ s)"
      using assms(2) by (elim disjE) (simp_all add: csv_char_def csv_add_def csv_limit_def)
    then show ?thesis using csv_bare[of r "[c]" False fs s] that len by (simp add: bare_ok_def)
  qed
  show "csv_loop (st, [], fs) fresh (write_field p @ CHR '','' # s) = csv_loop (StartField, [], fs @ [snd p]) False s"
  proof (cases q)
    case True
    then show ?thesis using quoted[of "CHR '','' # s"] by (simp add: p write_field_def csv_char_def)
  next
    case False
    then have "bare_ok f" using assms(1) by (simp add: p field_ok_def)
    then show ?thesis
      using False bare[of _ _ "CHR '','' # s"] assms(2)
      by (cases f; elim disjE) (simp_all add: p write_field_def csv_char_def)
  qed
  show "csv_loop (st, [], fs) fresh (write_field p @ t) = Inr (Some (fs @ [snd p], tl t))"
    if "fst p \<or> snd p \<noteq> [] \<or> \<not> fresh \<and> st = StartField" "row_end t"
  proof (cases q)
    case True
    then show ?thesis using quoted[of t] that(2) by (auto simp: p write_field_def csv_eol_def csv_char_def row_end_def)
  next
    case False
    then have "bare_ok f" using assms(1) by (simp add: p field_ok_def)
    then show ?thesis
      using False bare[of _ _ t] that
      by (cases f) (auto simp: p write_field_def csv_eol_def csv_char_def row_end_def)
  qed
qed

lemma csv_fields:
  "\<forall>p \<in> set ps. field_ok p \<Longrightarrow> ps \<noteq> [] \<Longrightarrow> row_end t \<Longrightarrow>
   csv_loop (StartField, [], fs) False (write_row ps @ t) = Inr (Some (fs @ map snd ps, tl t))"
proof (induction ps arbitrary: fs rule: induct_list012)
  case (2 p)
  then show ?case using csv_field(2)[of p StartField False t fs] by (simp add: write_row_def)
next
  case (3 p q ps)
  then show ?case using csv_field(1)[of p StartField fs False "write_row (q # ps) @ t"] by (simp add: write_row_def)
qed simp

lemma csv_next_row:
  assumes "\<forall>p \<in> set ps. field_ok p" and "2 \<le> length ps" and "row_end t"
  shows "csv_next (write_row ps @ t) = Inr (Some (map snd ps, tl t))"
proof -
  obtain p q qs where ps: "ps = p # q # qs" using assms(2) by (cases ps; cases "tl ps") auto
  show ?thesis
    using csv_field(1)[of p StartRecord "[]" True "write_row (q # qs) @ t"] csv_fields[of "q # qs" t "[snd p]"] assms(1,3)
    by (simp add: ps csv_next_def write_row_def)
qed

lemma csv_first_row: "\<forall>p \<in> set ps. field_ok p \<Longrightarrow> 2 \<le> length ps \<Longrightarrow> csv_first (write_row ps) = Inr (Some (map snd ps))"
  using csv_next_row[of ps "[]"] by (simp add: csv_first_def row_end_def)

definition write_rows :: "(bool \<times> string) list list \<Rightarrow> string" where
  "write_rows rows = concat (map (\<lambda>ps. write_row ps @ [csv_nl]) rows)"

lemma csv_rows_back:
  "\<forall>ps \<in> set rows. 2 \<le> length ps \<and> (\<forall>p \<in> set ps. field_ok p) \<Longrightarrow> csv_rows (write_rows rows) = Inr (map (map snd) rows)"
proof (induction rows)
  case Nil
  then show ?case by (simp add: write_rows_def csv_rows.simps csv_next_def csv_finish_def)
next
  case (Cons ps rows)
  have "csv_next (write_row ps @ csv_nl # write_rows rows) = Inr (Some (map snd ps, write_rows rows))"
    using csv_next_row[of ps "csv_nl # write_rows rows"] Cons.prems by (simp add: row_end_def)
  moreover have "write_rows (ps # rows) = write_row ps @ csv_nl # write_rows rows" by (simp add: write_rows_def)
  ultimately show ?case using Cons by (subst csv_rows.simps) simp
qed

lemma bare_ok_int: "bare_ok (show_int n)"
proof -
  have "\<not> is_digit (CHR '','')" "\<not> is_digit csv_q" "\<not> is_digit csv_nl" "\<not> is_digit csv_cr"
    by (simp_all add: is_digit_def code_def csv_q_def csv_nl_def csv_cr_def)
  then show ?thesis using show_int_not[of _ n] by (auto simp: bare_ok_def csv_q_def csv_nl_def csv_cr_def)
qed

end
