(* ===== verification/Palo_Alto.thy ===== *)
theory Palo_Alto
  imports Event_Types Datetime Csv
begin

text \<open>
  The Palo Alto syslog parser: \<open>flow-ingest/src/flow_ingest/adapters/palo_alto_adapter.py\<close>. \<open>datetime.now\<close> is the parameter
  \<open>now\<close>.
\<close>

section \<open>The parser\<close>

definition proto_by_name :: "(string, int) dict" where
  "proto_by_name = [(''tcp'', 6), (''udp'', 17), (''icmp'', 1)]"

definition proto_of :: "string \<Rightarrow> int" where
  "proto_of val = (let v = lower (strip val) in
     case map_of proto_by_name v of Some n \<Rightarrow> n | None \<Rightarrow> (case py_int v of Some n \<Rightarrow> n | None \<Rightarrow> 0))"

definition pan_ts :: "instant \<Rightarrow> string \<Rightarrow> instant" where
  "pan_ts now s = (case strptime_utc ''%Y/%m/%d %H:%M:%S'' s of Some t \<Rightarrow> t
     | None \<Rightarrow> (case strptime_utc ''%Y-%m-%dT%H:%M:%SZ'' s of Some t \<Rightarrow> t | None \<Rightarrow> now))"

definition int_or_0 :: "string \<Rightarrow> int option" where
  "int_or_0 s = (if s = [] then Some 0 else py_int s)"

definition nonempty :: "string \<Rightarrow> string option" where
  "nonempty s = (if s = [] then None else Some s)"

definition min_pan_csv_fields :: nat where
  "min_pan_csv_fields = 32"

text \<open>The row with its columns; \<open>None\<close> also where \<open>fields[32]\<close> raises \<open>IndexError\<close>, which is caught.\<close>

definition csv_event :: "instant \<Rightarrow> string list \<Rightarrow> flow_event option" where
  "csv_event now fs =
     (case (int_or_0 (fs ! 24), int_or_0 (fs ! 25), int_or_0 (fs ! 31),
         (if 32 < length fs then int_or_0 (fs ! 32) else None)) of
        (Some sport, Some dport, Some bs, Some pk) \<Rightarrow>
          Some \<lparr>fe_ts = pan_ts now (fs ! 6), fe_src_ip = fs ! 7, fe_src_port = sport,
            fe_dst_ip = fs ! 8, fe_dst_port = dport, fe_proto = proto_of (fs ! 29), fe_bytes = bs,
            fe_packets = pk, fe_action = Some (fs ! 30), fe_fqdn = None, fe_app_id = nonempty (fs ! 14),
            fe_source = ''palo_alto'', fe_raw_id = None\<rparr>
      | _ \<Rightarrow> None)"

definition parse_csv :: "instant \<Rightarrow> string \<Rightarrow> py_error + flow_event option" where
  "parse_csv now line =
     bind_r (csv_first (after_first '': '' line)) (\<lambda>row.
       Inr (case row of None \<Rightarrow> None | Some fs \<Rightarrow>
         if length fs < min_pan_csv_fields \<or> fs ! 3 \<noteq> ''TRAFFIC'' then None
         else if fs ! 4 \<noteq> ''end'' then None
         else csv_event now fs))"

definition leef_pair :: "(string, string) dict \<Rightarrow> string \<Rightarrow> (string, string) dict" where
  "leef_pair d pair = (case partition_on CHR ''='' pair of (k, found, v) \<Rightarrow>
     if found then AList.update (strip k) (strip v) d else d)"

definition leef_default :: "(string, string) dict \<Rightarrow> string \<Rightarrow> (string, string) dict" where
  "leef_default d segment = (case partition_on CHR ''='' segment of (k, found, v) \<Rightarrow>
     if found then dict_alter (strip k) (strip v) id d else d)"

definition leef_kvs :: "string list \<Rightarrow> (string, string) dict" where
  "leef_kvs parts =
     foldl leef_default
       (foldl (\<lambda>d seg. foldl leef_pair d (split_on (CHR 0x09) seg)) [] (drop 5 parts)) parts"

definition int_kv :: "(string, string) dict \<Rightarrow> string \<Rightarrow> int option" where
  "int_kv d k = (case map_of d k of None \<Rightarrow> Some 0 | Some s \<Rightarrow> py_int s)"

definition leef_event :: "instant \<Rightarrow> (string, string) dict \<Rightarrow> flow_event option" where
  "leef_event now d =
     (case (map_of d ''src'', int_kv d ''srcPort'', map_of d ''dst'', int_kv d ''dstPort'',
         int_kv d ''bytesTotal'', int_kv d ''packetsTotal'') of
        (Some src, Some sport, Some dst, Some dport, Some bs, Some pk) \<Rightarrow>
          Some \<lparr>fe_ts = now, fe_src_ip = src, fe_src_port = sport, fe_dst_ip = dst, fe_dst_port = dport,
            fe_proto = proto_of (dict_get d ''proto'' ''tcp''), fe_bytes = bs, fe_packets = pk,
            fe_action = Some (dict_get d ''action'' ''allow''), fe_fqdn = nonempty (dict_get d ''hostname'' []),
            fe_app_id = nonempty (dict_get d ''app'' []), fe_source = ''palo_alto'', fe_raw_id = None\<rparr>
      | _ \<Rightarrow> None)"

definition parse_leef :: "instant \<Rightarrow> string \<Rightarrow> flow_event option" where
  "parse_leef now line = (case find_sub ''LEEF:'' line of None \<Rightarrow> None | Some i \<Rightarrow>
     let parts = split_on CHR ''|'' (drop i line) in
     if length parts < 6 then None else leef_event now (leef_kvs parts))"

definition palo_alto_parse :: "instant \<Rightarrow> string \<Rightarrow>
    py_error + flow_event option" where
  "palo_alto_parse now line =
     (if find_sub ''LEEF:'' line \<noteq> None \<and> find_sub ''Palo Alto Networks'' line \<noteq> None
      then Inr (parse_leef now line)
      else if find_sub ''TRAFFIC'' line \<noteq> None then parse_csv now line
      else Inr None)"

section \<open>Reading a row\<close>

lemma parse_csv_row:
  assumes "find_sub '': '' (tag @ '': '') = Some (length tag)" and "\<forall>p \<in> set ps. field_ok p"
    and "min_pan_csv_fields \<le> length ps" and "snd (ps ! 3) = ''TRAFFIC''" and "snd (ps ! 4) = ''end''"
  shows "parse_csv now (tag @ '': '' @ write_row ps) = Inr (csv_event now (map snd ps))"
proof -
  have l: "2 \<le> length ps" "32 \<le> length ps" using assms(3) by (simp_all add: min_pan_csv_fields_def)
  have "after_first '': '' (tag @ '': '' @ write_row ps) = write_row ps"
    using find_sub_tag[OF assms(1), of "write_row ps"] by (simp add: after_first_def)
  with csv_first_row[OF assms(2) l(1)] assms(3-5) l show ?thesis
    by (simp add: parse_csv_def min_pan_csv_fields_def)
qed

section \<open>Properties\<close>

text \<open>
  Reading back a PAN-OS session row. A TRAFFIC row of a finished session, written as CSV with any
  of its fields quoted (texts may hold commas, quotes and line breaks), behind a syslog prefix that
  ends with the first colon and space of the line, is parsed to the flow with its columns: addresses,
  ports, protocol, bytes, packets, action and application.
\<close>

theorem pan_csv_roundtrip:
  fixes ps :: "(bool \<times> string) list"
  defines "col \<equiv> (\<lambda>i. snd (ps ! i))"
  assumes "find_sub '': '' (tag @ '': '') = Some (length tag)" and "\<forall>p \<in> set ps. field_ok p"
    and "33 \<le> length ps" and "col 3 = ''TRAFFIC''" and "col 4 = ''end''"
    and "col 24 = show_int sport" and "col 25 = show_int dport" and "col 31 = show_int bs" and "col 32 = show_int pk"
    and "list_all (\<lambda>i. \<bar>i\<bar> < 10 ^ 30) [sport, dport, bs, pk]"
  shows "parse_csv now (tag @ '': '' @ write_row ps) =
    Inr (Some \<lparr>fe_ts = pan_ts now (col 6), fe_src_ip = col 7, fe_src_port = sport, fe_dst_ip = col 8,
      fe_dst_port = dport, fe_proto = proto_of (col 29), fe_bytes = bs, fe_packets = pk,
      fe_action = Some (col 30), fe_fqdn = None, fe_app_id = nonempty (col 14), fe_source = ''palo_alto'',
      fe_raw_id = None\<rparr>)"
proof -
  have i: "int_or_0 (show_int n) = Some n" if "\<bar>n\<bar> < 10 ^ 30" for n
  proof -
    have "show_int n \<noteq> []" by (simp add: show_int_def)
    then show ?thesis using py_int_show_int[OF show_int_short[OF that]] by (simp add: int_or_0_def)
  qed
  have "int_or_0 (col 24) = Some sport" "int_or_0 (col 25) = Some dport"
    "int_or_0 (col 31) = Some bs" "int_or_0 (col 32) = Some pk"
    using assms(7-11) i by simp_all
  with assms(4) have "csv_event now (map snd ps) = Some \<lparr>fe_ts = pan_ts now (col 6), fe_src_ip = col 7,
      fe_src_port = sport, fe_dst_ip = col 8, fe_dst_port = dport, fe_proto = proto_of (col 29), fe_bytes = bs,
      fe_packets = pk, fe_action = Some (col 30), fe_fqdn = None, fe_app_id = nonempty (col 14),
      fe_source = ''palo_alto'', fe_raw_id = None\<rparr>"
    by (simp add: csv_event_def col_def)
  then show ?thesis
    using parse_csv_row[OF assms(2,3)] assms(4-6) by (simp add: col_def min_pan_csv_fields_def)
qed

definition demo_row :: "(bool \<times> string) list" where
  "demo_row = map (Pair False) ([''1'', ''2026/04/22 10:00:00'', ''007'', ''TRAFFIC'', ''end'', ''0'', ''now'',
     ''10.0.0.1'', ''10.1.2.3'', [], [], ''rule'', [], [], ''ssl''] @ replicate 9 [] @ [''5'', ''443'', [], [], [],
     ''tcp'', ''allow'', ''900'', ''9''])"

lemma show_small: "show_int 5 = ''5'' \<and> show_int 443 = ''443'' \<and> show_int 900 = ''900'' \<and> show_int 9 = ''9''"
  by code_simp

theorem pan_csv_roundtrip_witness:
  "\<exists>ev. parse_csv 7 (''fw'' @ '': '' @ write_row demo_row) = Inr (Some ev) \<and>
     fe_dst_port ev = 443 \<and> fe_bytes ev = 900"
proof -
  have t: "find_sub '': '' (''fw'' @ '': '') = Some (length ''fw'')" by (simp add: starts_with_def)
  have r: "\<forall>p \<in> set demo_row. field_ok p"
    by (simp add: demo_row_def field_ok_def bare_ok_def csv_limit_def csv_q_def csv_nl_def csv_cr_def)
  show ?thesis
    using pan_csv_roundtrip[OF t r, where sport = 5 and dport = 443 and bs = 900 and pk = 9 and now = 7]
    by (simp add: demo_row_def show_small eval_nat_numeral)
qed

text \<open>
  A row of exactly the required minimum is never usable. The length check admits rows of 32
  fields, but the packet count is read from column 32, which such a row does not have: for every such
  row, whatever it holds, the parser returns nothing.
\<close>

theorem minimum_row_rejected:
  assumes "length fs = min_pan_csv_fields"
  shows "csv_event now fs = None"
  using assms by (simp add: csv_event_def min_pan_csv_fields_def split: option.splits)

theorem minimum_row_rejected_witness: "csv_event 0 (replicate 32 ''x'') = None"
  by (rule minimum_row_rejected) (simp add: min_pan_csv_fields_def)

end
