(* ===== verification/Bounded_Queue.thy ===== *)
theory Bounded_Queue
  imports Prelude
begin

text \<open>
  The bounded \<open>asyncio.Queue\<close> that connects the stages, and the contract of the
  drop-oldest insertion that three places of the code share: the syslog receiver's
  \<open>_enqueue\<close>, the windower's emission and the correlator's \<open>_demux\<close>.
\<close>

section \<open>asyncio.Queue\<close>

text \<open>A queue with \<open>maxsize <= 0\<close> is unbounded.\<close>

record 'a aqueue =
  maxsize :: int
  items :: "'a list"

datatype queue_error = QueueFull | QueueEmpty

definition queue_full :: "'a aqueue \<Rightarrow> bool" where
  "queue_full q \<longleftrightarrow> 0 < maxsize q \<and> maxsize q \<le> int (length (items q))"

definition put_nowait :: "'a aqueue \<Rightarrow> 'a \<Rightarrow> queue_error + 'a aqueue" where
  "put_nowait q x =
     (if queue_full q then Inl QueueFull else Inr (q\<lparr>items := items q @ [x]\<rparr>))"

definition get_nowait :: "'a aqueue \<Rightarrow> queue_error + ('a \<times> 'a aqueue)" where
  "get_nowait q =
     (case items q of [] \<Rightarrow> Inl QueueEmpty | x # xs \<Rightarrow> Inr (x, q\<lparr>items := xs\<rparr>))"

lemma queue_full_tl:
  "queue_full q \<Longrightarrow> int (length (items q)) \<le> maxsize q \<Longrightarrow> \<not> queue_full (q\<lparr>items := tl (items q)\<rparr>)"
  by (auto simp: queue_full_def)

lemma get_nowait_full: "queue_full q \<Longrightarrow>
  get_nowait q = Inr (hd (items q), q\<lparr>items := tl (items q)\<rparr>)"
  by (cases "items q") (auto simp: queue_full_def get_nowait_def)

section \<open>Drop-oldest insertion as an interface\<close>

text \<open>
  A state that carries a bounded buffer: \<open>contents\<close> reads the buffer, \<open>cap\<close> its capacity and
  \<open>enq\<close> inserts. The laws: insertion appends while there is room and otherwise first
  discards the oldest entry; the capacity does not change.
\<close>

definition keep_last :: "nat \<Rightarrow> 'a list \<Rightarrow> 'a list" where
  "keep_last n xs = drop (length xs - n) xs"

lemma length_keep_last [simp]: "length (keep_last n xs) = min n (length xs)"
  by (auto simp: keep_last_def)

lemma keep_last_short [simp]: "length xs \<le> n \<Longrightarrow> keep_last n xs = xs"
  by (simp add: keep_last_def)

lemma in_set_keep_last_snoc: "0 < n \<Longrightarrow> x \<in> set (keep_last n (xs @ [x]))"
  by (simp add: keep_last_def)

lemma keep_last_snoc:
  "0 < n \<Longrightarrow> keep_last n (keep_last n xs @ [x]) = keep_last n (xs @ [x])"
  by (cases "n \<le> length xs") (auto simp: keep_last_def Suc_diff_le)

lemma keep_last_append:
  "0 < n \<Longrightarrow> keep_last n (keep_last n xs @ ys) = keep_last n (xs @ ys)"
proof (induction ys rule: rev_induct)
  case Nil
  then show ?case by (simp add: keep_last_def)
next
  case (snoc y ys)
  have "keep_last n (keep_last n xs @ ys @ [y]) = keep_last n (keep_last n (keep_last n xs @ ys) @ [y])"
    using snoc.prems keep_last_snoc[of n "keep_last n xs @ ys" y] by simp
  also have "\<dots> = keep_last n (keep_last n (xs @ ys) @ [y])"
    using snoc by simp
  also have "\<dots> = keep_last n (xs @ ys @ [y])"
    using snoc.prems keep_last_snoc[of n "xs @ ys" y] by simp
  finally show ?case .
qed

locale drop_oldest =
  fixes enq :: "'q \<Rightarrow> 'a \<Rightarrow> 'q"
    and contents :: "'q \<Rightarrow> 'a list"
    and cap :: "'q \<Rightarrow> int"
  assumes enq_room: "int (length (contents q)) < cap q \<Longrightarrow> contents (enq q x) = contents q @ [x]"
    and enq_full: "0 < cap q \<Longrightarrow> int (length (contents q)) = cap q \<Longrightarrow>
      contents (enq q x) = tl (contents q) @ [x]"
    and cap_enq: "cap (enq q x) = cap q"
begin

definition bounded :: "'q \<Rightarrow> bool" where
  "bounded q \<longleftrightarrow> 0 < cap q \<and> int (length (contents q)) \<le> cap q"

lemma enq_keep_last:
  assumes "bounded q"
  shows "contents (enq q x) = keep_last (nat (cap q)) (contents q @ [x])"
proof (cases "int (length (contents q)) < cap q")
  case True
  then show ?thesis by (simp add: enq_room keep_last_def nat_less_iff)
next
  case False
  with assms have full: "0 < cap q" "int (length (contents q)) = cap q"
    by (auto simp: bounded_def)
  then have "nat (cap q) = length (contents q)" by simp
  with full show ?thesis
    by (cases "contents q") (auto simp: enq_full keep_last_def)
qed

lemma bounded_enq: "bounded q \<Longrightarrow> bounded (enq q x)"
  by (auto simp: bounded_def cap_enq enq_keep_last[unfolded bounded_def])

lemma cap_foldl [simp]: "cap (foldl enq q xs) = cap q"
  by (induction xs arbitrary: q) (auto simp: cap_enq)

lemma bounded_foldl: "bounded q \<Longrightarrow> bounded (foldl enq q xs)"
  by (induction xs arbitrary: q) (auto intro: bounded_enq)

text \<open>After any burst the buffer holds exactly the newest \<open>cap\<close> entries, in arrival order.\<close>

lemma contents_foldl:
  assumes "bounded q"
  shows "contents (foldl enq q xs) = keep_last (nat (cap q)) (contents q @ xs)"
proof (induction xs rule: rev_induct)
  case Nil
  from assms show ?case by (auto simp: bounded_def)
next
  case (snoc x xs)
  have "0 < nat (cap q)" using assms by (simp add: bounded_def)
  with snoc show ?case
    using enq_keep_last[OF bounded_foldl[OF assms], of xs x]
    by (simp add: keep_last_snoc)
qed

lemma newest_kept: "bounded q \<Longrightarrow> x \<in> set (contents (enq q x))"
  by (simp add: enq_keep_last in_set_keep_last_snoc bounded_def)

end

text \<open>The receiver and the windower also count what they discard.\<close>

locale counting_drop_oldest = drop_oldest enq contents cap
  for enq :: "'q \<Rightarrow> 'a \<Rightarrow> 'q" and contents :: "'q \<Rightarrow> 'a list" and cap :: "'q \<Rightarrow> int" +
  fixes drops :: "'q \<Rightarrow> int"
  assumes drops_room: "int (length (contents q)) < cap q \<Longrightarrow> drops (enq q x) = drops q"
    and drops_full: "0 < cap q \<Longrightarrow> int (length (contents q)) = cap q \<Longrightarrow>
      drops (enq q x) = drops q + 1"
begin

text \<open>Nothing is lost uncounted: arrivals are either still buffered or counted as drops.\<close>

lemma drops_balance:
  assumes "bounded q"
  shows "int (length (contents (foldl enq q xs))) + drops (foldl enq q xs) =
         int (length (contents q)) + drops q + int (length xs)"
proof (induction xs rule: rev_induct)
  case (snoc x xs)
  let ?p = "foldl enq q xs"
  have b: "bounded ?p" by (rule bounded_foldl[OF assms])
  show ?case
  proof (cases "int (length (contents ?p)) < cap ?p")
    case True
    then show ?thesis
      using snoc by (simp add: enq_room drops_room del: cap_foldl)
  next
    case False
    then have f: "int (length (contents ?p)) = cap ?p" and c: "0 < cap ?p"
      using b by (auto simp: bounded_def simp del: cap_foldl)
    then have "length (contents ?p) \<noteq> 0" by linarith
    then show ?thesis
      using snoc f c enq_full[OF c f] drops_full[OF c f]
      by (simp del: cap_foldl)
  qed
qed simp

lemma drops_mono: "bounded q \<Longrightarrow> drops q \<le> drops (foldl enq q xs)"
  using drops_balance[of q xs] contents_foldl[of q xs]
  by (auto simp: bounded_def keep_last_def)

end

end
