(* ===== verification/Syslog_Receiver.thy ===== *)
theory Syslog_Receiver
  imports Bounded_Queue Py_String
begin

text \<open>
  The syslog receiver shared by the ingest services: \<open>common/src/ztna_common/syslog_receiver.py\<close>.
  Bytes are characters; \<open>bytes.decode("utf-8", errors="replace")\<close>, which never raises, is the
  parameter \<open>dec\<close>, about which nothing is assumed.
\<close>

section \<open>State and the bounded queue\<close>

type_synonym message = "string \<times> string"

record receiver =
  rc_queue :: "message aqueue"
  rc_drops :: int

definition new_receiver :: "int \<Rightarrow> receiver" where
  "new_receiver queue_max = \<lparr>rc_queue = \<lparr>maxsize = queue_max, items = []\<rparr>, rc_drops = 0\<rparr>"

definition enqueue :: "receiver \<Rightarrow> message \<Rightarrow> receiver" where
  "enqueue rc msg = (case put_nowait (rc_queue rc) msg of
     Inr q \<Rightarrow> rc\<lparr>rc_queue := q\<rparr>
   | Inl _ \<Rightarrow>
       let q1 = (case get_nowait (rc_queue rc) of Inl _ \<Rightarrow> rc_queue rc | Inr (_, q) \<Rightarrow> q);
           rc1 = rc\<lparr>rc_queue := q1, rc_drops := rc_drops rc + 1\<rparr>
       in (case put_nowait q1 msg of Inl _ \<Rightarrow> rc1 | Inr q2 \<Rightarrow> rc1\<lparr>rc_queue := q2\<rparr>))"

section \<open>Framing\<close>

definition is_ascii_space :: "char \<Rightarrow> bool" where
  "is_ascii_space c \<longleftrightarrow> 9 \<le> code c \<and> code c \<le> 13 \<or> code c = 32"

text \<open>\<open>int(b)\<close> for bytes: as for a text, with the ASCII white space only.\<close>

definition bytes_int :: "string \<Rightarrow> int option" where
  "bytes_int s = (case strip_where is_ascii_space s of
      [] \<Rightarrow> None
    | c # r \<Rightarrow> if c = CHR ''-'' then map_option (\<lambda>n. - int n) (unsigned_int r)
        else if c = CHR ''+'' then map_option int (unsigned_int r)
        else map_option int (unsigned_int (c # r)))"

definition find_byte :: "char \<Rightarrow> string \<Rightarrow> nat option" where
  "find_byte c s = (let i = length (takeWhile (\<lambda>x. x \<noteq> c) s) in if i < length s then Some i else None)"

definition nl :: char where "nl = CHR 0x0A"
definition cr :: char where "cr = CHR 0x0D"
definition sp :: char where "sp = CHR 0x20"

text \<open>
  One turn of the loop of \<open>_drain_buffer\<close> on a non-empty buffer: \<open>None\<close> is \<open>return buf\<close>; otherwise
  the body to enqueue, if any, and the rest of the buffer.
\<close>

definition drain_step :: "string \<Rightarrow> (string option \<times> string) option" where
  "drain_step buf =
     (if is_digit (hd buf) then
        (case find_byte sp buf of
           None \<Rightarrow> None
         | Some i \<Rightarrow>
             let len = (case bytes_int (take i buf) of None \<Rightarrow> -1 | Some n \<Rightarrow> n) in
             if 0 \<le> len \<and> int i + 1 + len \<le> int (length buf)
             then Some (Some (take (nat len) (drop (i + 1) buf)), drop (i + 1 + nat len) buf)
             else None)
      else
        (case find_byte nl buf of
           None \<Rightarrow> None
         | Some i \<Rightarrow>
             let line = rstrip_where (\<lambda>c. c = cr) (take i buf) in
             Some (if line \<noteq> [] then Some line else None, drop (i + 1) buf)))"

lemma drain_step_shorter: "buf \<noteq> [] \<Longrightarrow> drain_step buf = Some (m, rest) \<Longrightarrow> length rest < length buf"
  by (auto simp: drain_step_def Let_def split: if_splits option.splits)

function drain :: "string \<Rightarrow> string list \<times> string" where
  "drain buf = (if buf = [] then ([], [])
     else case drain_step buf of
         None \<Rightarrow> ([], buf)
       | Some (m, rest) \<Rightarrow> (case drain rest of (ms, r) \<Rightarrow> (case m of None \<Rightarrow> ms | Some x \<Rightarrow> x # ms, r)))"
  by pat_completeness auto
termination
  by (relation "measure length") (auto simp: drain_step_shorter)

declare drain.simps [simp del]

definition drain_buffer :: "(string \<Rightarrow> string) \<Rightarrow> string \<Rightarrow> string \<Rightarrow> receiver \<Rightarrow> string \<times> receiver" where
  "drain_buffer dec buf peer rc = (case drain buf of (ms, r) \<Rightarrow>
     (r, foldl (\<lambda>s m. enqueue s (peer, dec m)) rc ms))"

text \<open>A connection: each chunk read is appended to the buffer, which is then drained.\<close>

definition handle_tcp_client :: "(string \<Rightarrow> string) \<Rightarrow> string \<Rightarrow> receiver \<Rightarrow> string list \<Rightarrow> string \<times> receiver" where
  "handle_tcp_client dec peer rc chunks =
     foldl (\<lambda>(buf, s) chunk. drain_buffer dec (buf @ chunk) peer s) ([], rc) chunks"

definition datagram_received :: "(string \<Rightarrow> string) \<Rightarrow> receiver \<Rightarrow> string \<Rightarrow> string \<Rightarrow> receiver" where
  "datagram_received dec rc data addr =
     (let line = dec (rstrip_where (\<lambda>c. c = cr \<or> c = nl) data) in
      if line = [] then rc else enqueue rc (addr, line))"

section \<open>The queue is a counting drop-oldest buffer\<close>

abbreviation rc_contents :: "receiver \<Rightarrow> message list" where
  "rc_contents rc \<equiv> items (rc_queue rc)"

abbreviation rc_cap :: "receiver \<Rightarrow> int" where
  "rc_cap rc \<equiv> maxsize (rc_queue rc)"

lemma enqueue_room:
  "\<not> queue_full (rc_queue rc) \<Longrightarrow>
   enqueue rc m = rc\<lparr>rc_queue := (rc_queue rc)\<lparr>items := rc_contents rc @ [m]\<rparr>\<rparr>"
  by (simp add: enqueue_def put_nowait_def)

lemma enqueue_full:
  "queue_full (rc_queue rc) \<Longrightarrow> int (length (rc_contents rc)) \<le> rc_cap rc \<Longrightarrow>
   enqueue rc m = rc\<lparr>rc_queue := (rc_queue rc)\<lparr>items := tl (rc_contents rc) @ [m]\<rparr>, rc_drops := rc_drops rc + 1\<rparr>"
  using queue_full_tl[of "rc_queue rc"] by (simp add: enqueue_def put_nowait_def get_nowait_full Let_def)

interpretation rq: counting_drop_oldest enqueue rc_contents rc_cap rc_drops
proof (standard, goal_cases)
  case (1 q x)
  then show ?case by (simp add: enqueue_room queue_full_def)
next
  case (2 q x)
  then show ?case by (simp add: enqueue_full queue_full_def)
next
  case (3 q x)
  then show ?case
    by (auto simp: enqueue_def put_nowait_def get_nowait_def Let_def split: list.splits)
next
  case (4 q x)
  then show ?case by (simp add: enqueue_room queue_full_def)
next
  case (5 q x)
  then show ?case by (simp add: enqueue_full queue_full_def)
qed

section \<open>Framing does not depend on segmentation\<close>

lemma find_byte_append: "find_byte c s = Some i \<Longrightarrow> find_byte c (s @ t) = Some i \<and> i < length s"
proof -
  assume "find_byte c s = Some i"
  then have i: "i = length (takeWhile (\<lambda>x. x \<noteq> c) s)" "i < length s"
    by (auto simp: find_byte_def Let_def split: if_splits)
  have "takeWhile (\<lambda>x. x \<noteq> c) s = s" if "c \<notin> set s"
    unfolding takeWhile_eq_all_conv using that by blast
  with i have "c \<in> set s" by fastforce
  then have "takeWhile (\<lambda>x. x \<noteq> c) (s @ t) = takeWhile (\<lambda>x. x \<noteq> c) s"
    by (intro takeWhile_append1) auto
  with i show ?thesis by (simp add: find_byte_def Let_def)
qed

lemma drain_step_append:
  assumes "buf \<noteq> []" and "drain_step buf = Some (m, rest)"
  shows "drain_step (buf @ t) = Some (m, rest @ t)"
proof (cases "is_digit (hd buf)")
  case True
  then obtain i where i: "find_byte sp buf = Some i"
    using assms(2) by (auto simp: drain_step_def split: option.splits)
  note f = find_byte_append[OF i, of t]
  show ?thesis
    using assms i f True by (auto simp: drain_step_def Let_def split: if_splits)
next
  case False
  then obtain i where i: "find_byte nl buf = Some i"
    using assms(2) by (auto simp: drain_step_def split: option.splits)
  note f = find_byte_append[OF i, of t]
  show ?thesis
    using assms i f False by (auto simp: drain_step_def Let_def)
qed

lemma drain_append:
  "drain (buf @ t) = (case drain buf of (ms, r) \<Rightarrow> case drain (r @ t) of (ms2, r2) \<Rightarrow> (ms @ ms2, r2))"
proof (induction buf rule: drain.induct)
  case (1 buf)
  show ?case
  proof (cases "buf = []")
    case True
    then show ?thesis by (simp add: drain.simps[of "[]"] split: prod.splits)
  next
    case ne: False
    show ?thesis
    proof (cases "drain_step buf")
      case None
      then have "drain buf = ([], buf)" using ne by (simp add: drain.simps[of buf])
      then show ?thesis by (simp split: prod.splits)
    next
      case (Some p)
      then obtain m rest where p: "drain_step buf = Some (m, rest)" by (cases p) auto
      have "drain (rest @ t) = (case drain rest of (ms, r) \<Rightarrow> case drain (r @ t) of (ms2, r2) \<Rightarrow> (ms @ ms2, r2))"
        using "1.IH"[OF ne p] by simp
      then show ?thesis
        using ne p drain_step_append[OF ne p, of t]
        by (subst drain.simps, subst (2) drain.simps) (auto split: prod.splits option.splits)
    qed
  qed
qed

lemma handle_tcp_drain:
  "handle_tcp_client dec peer rc chunks =
     (snd (drain (concat chunks)), foldl (\<lambda>s m. enqueue s (peer, dec m)) rc (fst (drain (concat chunks))))"
proof (induction chunks rule: rev_induct)
  case Nil
  then show ?case by (simp add: handle_tcp_client_def drain.simps[of "[]"])
next
  case (snoc c chunks)
  then show ?case
    using drain_append[of "concat chunks" c]
    by (simp add: handle_tcp_client_def drain_buffer_def split: prod.splits)
qed

section \<open>Frames\<close>

text \<open>The two framings of syslog over TCP, as a sender writes them.\<close>

datatype frame = Counted string | Line string bool

fun frame_body :: "frame \<Rightarrow> string" where
  "frame_body (Counted b) = b"
| "frame_body (Line l crlf) = l"

fun encode_frame :: "frame \<Rightarrow> string" where
  "encode_frame (Counted b) = show_nat (length b) @ [sp] @ b"
| "encode_frame (Line l crlf) = l @ (if crlf then [cr] else []) @ [nl]"

fun frame_ok :: "frame \<Rightarrow> bool" where
  "frame_ok (Counted b) \<longleftrightarrow> length (show_nat (length b)) \<le> max_str_digits"
| "frame_ok (Line l crlf) \<longleftrightarrow> l \<noteq> [] \<and> \<not> is_digit (hd l) \<and> nl \<notin> set l \<and> last l \<noteq> cr"

lemma find_byte_first: "c \<notin> set s \<Longrightarrow> find_byte c (s @ c # t) = Some (length s)"
proof -
  assume "c \<notin> set s"
  then have "takeWhile (\<lambda>x. x \<noteq> c) (s @ c # t) = s" by (subst takeWhile_append2) auto
  then show ?thesis by (simp add: find_byte_def Let_def)
qed

lemma digit_not_sp: "is_digit c \<Longrightarrow> \<not> is_ascii_space c \<and> c \<noteq> sp \<and> c \<noteq> CHR ''-'' \<and> c \<noteq> CHR ''+''"
  by (auto simp: is_digit_def is_ascii_space_def sp_def code_def)

lemma bytes_int_show:
  assumes "length (show_nat n) \<le> max_str_digits"
  shows "bytes_int (show_nat n) = Some (int n)"
proof -
  have d: "\<forall>c \<in> set (show_nat n). is_digit c" using show_nat_digits by blast
  have "strip_where is_ascii_space (show_nat n) = show_nat n"
    using d digit_not_sp by (intro strip_none) auto
  moreover obtain c r where c: "show_nat n = c # r" by (meson list.exhaust show_nat_ne)
  moreover have "c \<noteq> CHR ''-''" "c \<noteq> CHR ''+''" using d c digit_not_sp[of c] by auto
  ultimately show ?thesis
    using unsigned_digits[OF show_nat_ne d assms] dec_val_show[of n] by (simp add: bytes_int_def)
qed

lemma rstrip_cr: "l \<noteq> [] \<Longrightarrow> last l \<noteq> cr \<Longrightarrow> rstrip_where (\<lambda>c. c = cr) (l @ (if b then [cr] else [])) = l"
  by (cases l rule: rev_cases) (auto simp: rstrip_where_def)

lemma cr_nl [simp]: "cr \<noteq> nl" "nl \<noteq> cr"
  by (simp_all add: cr_def nl_def)

lemma drain_step_frame:
  assumes "frame_ok f"
  shows "drain_step (encode_frame f @ rest) = Some (Some (frame_body f), rest)"
proof (cases f)
  case (Counted b)
  let ?n = "show_nat (length b)"
  have d: "c \<in> set ?n \<Longrightarrow> is_digit c" for c by (rule show_nat_digits)
  then have "sp \<notin> set ?n" using digit_not_sp by blast
  then have f: "find_byte sp (?n @ sp # b @ rest) = Some (length ?n)" by (rule find_byte_first)
  have h: "is_digit (hd (?n @ sp # b @ rest))" using d[of "hd ?n"] by (simp add: hd_append)
  show ?thesis
    using f h bytes_int_show[of "length b"] assms Counted by (simp add: drain_step_def)
next
  case (Line l crlf)
  let ?l = "l @ (if crlf then [cr] else [])"
  have ok: "l \<noteq> []" "\<not> is_digit (hd l)" "nl \<notin> set l" "last l \<noteq> cr" using assms Line by auto
  then have "nl \<notin> set ?l" by (auto split: if_splits)
  then have f: "find_byte nl (?l @ nl # rest) = Some (length ?l)" by (rule find_byte_first)
  have "\<not> is_digit (hd (?l @ nl # rest))" using ok by (simp add: hd_append)
  then have "drain_step (?l @ nl # rest) =
      Some (Some (rstrip_where (\<lambda>c. c = cr) ?l), rest)"
    using f rstrip_cr[OF ok(1,4), of crlf] ok(1) unfolding drain_step_def
    by (simp only: if_False option.case Let_def) simp
  then show ?thesis using rstrip_cr[OF ok(1,4), of crlf] Line by simp
qed

lemma encode_ne: "frame_ok f \<Longrightarrow> encode_frame f \<noteq> []"
  by (cases f) auto

lemma drain_frames:
  "\<forall>f \<in> set fs. frame_ok f \<Longrightarrow> drain (concat (map encode_frame fs) @ tail) =
     (case drain tail of (ms, r) \<Rightarrow> (map frame_body fs @ ms, r))"
proof (induction fs)
  case (Cons f fs)
  have "encode_frame f @ concat (map encode_frame fs) @ tail \<noteq> []" using Cons.prems encode_ne by auto
  moreover have "drain_step (encode_frame f @ concat (map encode_frame fs) @ tail) =
      Some (Some (frame_body f), concat (map encode_frame fs) @ tail)"
    using Cons.prems by (intro drain_step_frame) simp
  ultimately show ?case
    using Cons by (subst drain.simps) (auto split: prod.splits)
qed (simp split: prod.splits)

section \<open>Datagrams\<close>

text \<open>A sequence of datagrams with their senders.\<close>

definition receive_all :: "(string \<Rightarrow> string) \<Rightarrow> receiver \<Rightarrow> (string \<times> string) list \<Rightarrow> receiver" where
  "receive_all dec rc ds = foldl (\<lambda>r (addr, data). datagram_received dec r data addr) rc ds"

text \<open>A line as a datagram: its sender, the line and the line end after it.\<close>

definition datagram_ok :: "(string \<Rightarrow> string) \<Rightarrow> string \<times> string \<times> string \<Rightarrow> bool" where
  "datagram_ok dec d = (case d of (addr, line, eol) \<Rightarrow>
     line \<noteq> [] \<and> last line \<notin> {cr, nl} \<and> set eol \<subseteq> {cr, nl} \<and> dec line = line)"

definition wire :: "string \<times> string \<times> string \<Rightarrow> string \<times> string" where
  "wire d = (case d of (addr, line, eol) \<Rightarrow> (addr, line @ eol))"

definition message_of :: "string \<times> string \<times> string \<Rightarrow> message" where
  "message_of d = (case d of (addr, line, eol) \<Rightarrow> (addr, line))"

lemma rstrip_suffix:
  "line \<noteq> [] \<Longrightarrow> \<not> P (last line) \<Longrightarrow> \<forall>c \<in> set eol. P c \<Longrightarrow> rstrip_where P (line @ eol) = line"
  by (cases line rule: rev_cases) (auto simp: rstrip_where_def dropWhile_append)

lemma receive_all_enqueues:
  "\<forall>d \<in> set ds. datagram_ok dec d \<Longrightarrow> receive_all dec rc (map wire ds) = foldl enqueue rc (map message_of ds)"
proof (induction ds arbitrary: rc)
  case (Cons d ds)
  obtain addr line eol where d: "d = (addr, line, eol)" by (cases d)
  have "rstrip_where (\<lambda>c. c = cr \<or> c = nl) (line @ eol) = line"
    by (rule rstrip_suffix) (use Cons.prems in \<open>auto simp: d datagram_ok_def\<close>)
  then have "datagram_received dec rc (line @ eol) addr = enqueue rc (addr, line)"
    using Cons.prems by (simp add: d datagram_ok_def datagram_received_def Let_def)
  then show ?case using Cons by (simp add: receive_all_def d wire_def message_of_def)
qed (simp add: receive_all_def)

section \<open>Properties\<close>

text \<open>
  C20: segmentation does not matter. What a connection delivers, and in what order, depends only on
  the bytes it carried: however TCP cuts them into chunks, the receiver ends as if it had drained
  them all at once.
\<close>

theorem tcp_segmentation:
  "handle_tcp_client dec peer rc chunks = handle_tcp_client dec peer rc [concat chunks]"
  by (simp add: handle_tcp_drain)

text \<open>
  C19: framing round trip. Any sequence of octet-counted messages and of lines (non-empty, without a
  line feed, not starting with a digit, ended by LF or CRLF), sent in any chunks, arrives
  complete, in order and with nothing left in the buffer: after it the queue has gained exactly the
  messages, if it has room.
\<close>

theorem framing_roundtrip:
  assumes "\<forall>f \<in> set fs. frame_ok f" and "concat chunks = concat (map encode_frame fs)"
    and "int (length (rc_contents rc)) + int (length fs) \<le> rc_cap rc" and "0 < rc_cap rc"
  shows "fst (handle_tcp_client dec peer rc chunks) = [] \<and>
    rc_contents (snd (handle_tcp_client dec peer rc chunks)) =
      rc_contents rc @ map (\<lambda>f. (peer, dec (frame_body f))) fs"
proof -
  let ?ms = "map (\<lambda>f. (peer, dec (frame_body f))) fs"
  have d: "drain (concat (map encode_frame fs)) = (map frame_body fs, [])"
    using drain_frames[OF assms(1), of "[]"] by (simp add: drain.simps[of "[]"])
  have f: "foldl (\<lambda>s m. enqueue s (peer, dec m)) rc (map frame_body fs) = foldl enqueue rc ?ms"
    by (induction fs arbitrary: rc) simp_all
  have "rc_contents (foldl enqueue rc ?ms) = keep_last (nat (rc_cap rc)) (rc_contents rc @ ?ms)"
    using assms(3,4) by (intro rq.contents_foldl) (simp add: rq.bounded_def)
  also have "\<dots> = rc_contents rc @ ?ms" using assms(3) by (intro keep_last_short) simp
  finally show ?thesis by (simp add: handle_tcp_drain assms(2) d f)
qed

theorem framing_roundtrip_witness:
  "rc_contents (snd (handle_tcp_client id ''10.0.0.9'' (new_receiver 5)
     [''3 ab'', [CHR ''c'', CHR ''x'', nl]])) = [(''10.0.0.9'', ''abc''), (''10.0.0.9'', ''x'')]"
proof -
  have s: "show_nat 3 = ''3''" by code_simp
  have "concat [''3 ab'', [CHR ''c'', CHR ''x'', nl]] = concat (map encode_frame [Counted ''abc'', Line ''x'' False])"
    by (simp add: s sp_def numeral_3_eq_3[symmetric])
  from framing_roundtrip[OF _ this, of "new_receiver 5" id "''10.0.0.9''"] show ?thesis
    by (simp add: s new_receiver_def max_str_digits_def is_digit_def code_def cr_def nl_def numeral_3_eq_3[symmetric])
qed

text \<open>
  A line that starts with a digit can block its connection for good. If the bytes up to the
  first space start with a digit but are no integer, as in a line that begins with a date, then
  nothing is delivered any more on that connection, whatever is sent after it, and the buffer keeps
  every byte.
\<close>

theorem digit_line_blocks:
  assumes "buf \<noteq> []" and "is_digit (hd buf)" and "find_byte sp buf = Some i"
    and "bytes_int (take i buf) = None"
  shows "drain_buffer dec (buf @ later) peer rc = (buf @ later, rc)"
proof -
  have f: "find_byte sp (buf @ later) = Some i" "i < length buf"
    using find_byte_append[OF assms(3)] by auto
  have "drain_step (buf @ later) = None"
    using assms f by (simp add: drain_step_def Let_def)
  then have "drain (buf @ later) = ([], buf @ later)"
    using assms(1) by (simp add: drain.simps[of "buf @ later"])
  then show ?thesis by (simp add: drain_buffer_def)
qed

theorem digit_line_blocks_witness:
  "drain_buffer id (''2026-04-22 up'' @ [nl] @ ''ok'' @ [nl]) ''10.0.0.9'' (new_receiver 5) =
     (''2026-04-22 up'' @ [nl] @ ''ok'' @ [nl], new_receiver 5)"
proof -
  have f: "find_byte sp ''2026-04-22 up'' = Some 10" by (simp add: find_byte_def sp_def Let_def)
  have b: "bytes_int (take 10 ''2026-04-22 up'') = None"
    by (simp add: bytes_int_def strip_where_def is_ascii_space_def unsigned_int_def is_digit_def code_def)
  show ?thesis
    using digit_line_blocks[OF _ _ f b, of id "[nl] @ ''ok'' @ [nl]" "''10.0.0.9''" "new_receiver 5"]
    by (simp add: is_digit_def code_def)
qed

text \<open>
  The receive queue under load. From any state within its bound, after any burst the queue holds
  the newest \<open>queue_max\<close> messages in order of arrival, and the drop counter has grown by exactly the
  number of messages discarded.
\<close>

theorem receiver_burst:
  assumes "0 < rc_cap rc" and "int (length (rc_contents rc)) \<le> rc_cap rc"
  shows "rc_contents (foldl enqueue rc ms) = keep_last (nat (rc_cap rc)) (rc_contents rc @ ms) \<and>
    rc_drops (foldl enqueue rc ms) = rc_drops rc +
      max 0 (int (length (rc_contents rc)) + int (length ms) - rc_cap rc)"
proof -
  have b: "rq.bounded rc" using assms by (simp add: rq.bounded_def)
  from rq.contents_foldl[OF b, of ms] rq.drops_balance[OF b, of ms] assms show ?thesis
    by (auto simp: min_def max_def nat_le_iff split: if_splits)
qed

theorem receiver_burst_witness:
  "rc_drops (foldl enqueue (new_receiver 1) [(''a'', ''x''), (''b'', ''y''), (''c'', ''z'')]) = 2"
  using receiver_burst[of "new_receiver 1" "[(''a'', ''x''), (''b'', ''y''), (''c'', ''z'')]"]
  by (simp add: new_receiver_def)

end
