(* ===== verification/Identity_Index.thy ===== *)
theory Identity_Index
  imports Datetime
begin

text \<open>
  Which user held an address at an instant:
  \<open>correlator/src/correlator/pipeline/identity_index.py\<close>.

  The interval tree comes from the package \<open>intervaltree\<close>; it is a parameter \<open>T\<close> of the
  operations, a record of the calls the code makes, and \<open>interval_tree_laws T\<close> states what the
  package documents about them.  An event is the dictionary read from the stream: a missing key is
  \<open>None\<close>. The float timestamps of the code are exact on the instants of the years 2004 to
  2038 (a double has a quarter of a microsecond there), so the model compares instants.
\<close>

section \<open>The interval tree interface\<close>

record binding =
  b_user_upn :: string
  b_confidence :: int
  b_source :: string
  b_t_start :: instant

record interval =
  iv_begin :: instant
  iv_end :: instant
  iv_data :: binding

record 't itree =
  it_empty :: 't
  it_addi :: "'t \<Rightarrow> instant \<Rightarrow> instant \<Rightarrow> binding \<Rightarrow> py_error + 't"
  it_clear :: "'t \<Rightarrow> 't"
  it_list :: "'t \<Rightarrow> interval list"
  it_remove :: "'t \<Rightarrow> interval \<Rightarrow> py_error + 't"
  it_at :: "'t \<Rightarrow> instant \<Rightarrow> interval list"
  it_len :: "'t \<Rightarrow> int"

text \<open>
  The documented behaviour: a tree is a set of intervals, half open; null intervals are
  refused; removing a member succeeds; indexing with a point gives the intervals that contain it.
\<close>

definition interval_tree_laws :: "'t itree \<Rightarrow> bool" where
  "interval_tree_laws T \<longleftrightarrow>
     it_list T (it_empty T) = [] \<and>
     (\<forall>t. distinct (it_list T t) \<and> it_len T t = int (length (it_list T t))) \<and>
     (\<forall>t b e d. b < e \<longrightarrow> (\<exists>t1. it_addi T t b e d = Inr t1 \<and>
        set (it_list T t1) = insert \<lparr>iv_begin = b, iv_end = e, iv_data = d\<rparr> (set (it_list T t)))) \<and>
     (\<forall>t b e d. e \<le> b \<longrightarrow> it_addi T t b e d = Inl ValueError) \<and>
     (\<forall>t. it_list T (it_clear T t) = []) \<and>
     (\<forall>t iv. iv \<in> set (it_list T t) \<longrightarrow> (\<exists>t1. it_remove T t iv = Inr t1 \<and>
        set (it_list T t1) = set (it_list T t) - {iv})) \<and>
     (\<forall>t p. set (it_at T t p) = {iv \<in> set (it_list T t). iv_begin iv \<le> p \<and> p < iv_end iv})"

section \<open>State and operations\<close>

datatype raw_ts = TsText string | TsTime instant

record identity_dict =
  id_ts :: "raw_ts option"
  id_src_ip :: "string option"
  id_user_upn :: "string option"
  id_source :: "string option"
  id_event_type :: "string option"
  id_confidence :: "int option"
  id_ttl_seconds :: "int option"

record 't identity_index =
  ix_trees :: "(string, 't) dict"

record identity_hit =
  hit_user_upn :: string
  hit_confidence :: int
  hit_source :: string
  hit_t_start :: instant
  hit_ttl_remaining :: int

definition new_identity_index :: "'t identity_index" where
  "new_identity_index = \<lparr>ix_trees = []\<rparr>"

definition key_r :: "'a option \<Rightarrow> py_error + 'a" where
  "key_r x = (case x of None \<Rightarrow> Inl KeyError | Some v \<Rightarrow> Inr v)"

definition replace_Z :: "string \<Rightarrow> string" where
  "replace_Z s = concat (map (\<lambda>c. if c = CHR ''Z'' then ''+00:00'' else [c]) s)"

definition ev_ts :: "identity_dict \<Rightarrow> py_error + instant" where
  "ev_ts ev = bind_r (key_r (id_ts ev)) (\<lambda>raw. case raw of
      TsText s \<Rightarrow> (case fromisoformat (replace_Z s) of None \<Rightarrow> Inl ValueError | Some t \<Rightarrow> Inr t)
    | TsTime t \<Rightarrow> Inr t)"

definition is_stop :: "identity_dict \<Rightarrow> bool" where
  "is_stop ev \<longleftrightarrow> id_event_type ev = Some ''nac-auth-stop'' \<or>
     (case id_ttl_seconds ev of None \<Rightarrow> 0 | Some n \<Rightarrow> n) = 0"

text \<open>\<open>for iv in list(tree): if p(iv): tree.remove(iv)\<close>\<close>

definition remove_where :: "'t itree \<Rightarrow> (interval \<Rightarrow> bool) \<Rightarrow> 't \<Rightarrow> py_error + 't" where
  "remove_where T p t =
     fold_r (\<lambda>t1 iv. if p iv then it_remove T t1 iv else Inr t1) t (it_list T t)"

definition invalidate :: "'t itree \<Rightarrow> 't identity_index \<Rightarrow> string \<Rightarrow> string option \<Rightarrow>
    't identity_index \<times> (py_error + unit)" where
  "invalidate T ix ip user =
     (case map_of (ix_trees ix) ip of
        None \<Rightarrow> (ix, Inr ())
      | Some t \<Rightarrow>
          if it_len T t = 0 then (ix, Inr ())
          else (case user of
              None \<Rightarrow> (ix\<lparr>ix_trees := AList.update ip (it_clear T t) (ix_trees ix)\<rparr>, Inr ())
            | Some u \<Rightarrow> (case remove_where T (\<lambda>iv. b_user_upn (iv_data iv) = u) t of
                  Inl e \<Rightarrow> (ix, Inl e)
                | Inr t1 \<Rightarrow> (ix\<lparr>ix_trees := AList.update ip t1 (ix_trees ix)\<rparr>, Inr ()))))"

definition ev_binding :: "identity_dict \<Rightarrow> instant \<Rightarrow> py_error + binding" where
  "ev_binding ev t = bind_r (key_r (id_user_upn ev)) (\<lambda>u. bind_r (key_r (id_confidence ev)) (\<lambda>c.
     bind_r (key_r (id_source ev)) (\<lambda>s.
       Inr \<lparr>b_user_upn = u, b_confidence = c, b_source = s, b_t_start = t\<rparr>)))"

text \<open>
  \<open>insert\<close> returns the state also when it raises: the tree of the address is created before
  the fields of the binding are read and before \<open>addi\<close> checks the interval.
\<close>

definition insert_event :: "'t itree \<Rightarrow> 't identity_index \<Rightarrow>
    identity_dict \<Rightarrow> 't identity_index \<times> (py_error + unit)" where
  "insert_event T ix ev =
     (case key_r (id_src_ip ev) of Inl e \<Rightarrow> (ix, Inl e) | Inr ip \<Rightarrow>
      case ev_ts ev of Inl e \<Rightarrow> (ix, Inl e) | Inr t \<Rightarrow>
      if is_stop ev then invalidate T ix ip (id_user_upn ev)
      else case key_r (id_ttl_seconds ev) of Inl e \<Rightarrow> (ix, Inl e) | Inr ttl \<Rightarrow>
        let ix1 = ix\<lparr>ix_trees := dict_alter ip (it_empty T) id (ix_trees ix)\<rparr>;
            tree = dict_get (ix_trees ix1) ip (it_empty T)
        in case bind_r (ev_binding ev t) (\<lambda>b. it_addi T tree t (t + ttl * us_per_s) b) of
             Inl e \<Rightarrow> (ix1, Inl e)
           | Inr t1 \<Rightarrow> (ix1\<lparr>ix_trees := AList.update ip t1 (ix_trees ix1)\<rparr>, Inr ()))"

definition hit_key :: "interval \<Rightarrow> int \<times> int" where
  "hit_key i = (- b_confidence (iv_data i), - b_t_start (iv_data i))"

definition hit_of :: "instant \<Rightarrow> interval \<Rightarrow> identity_hit" where
  "hit_of at iv = (let b = iv_data iv in
     \<lparr>hit_user_upn = b_user_upn b, hit_confidence = b_confidence b, hit_source = b_source b,
      hit_t_start = b_t_start b, hit_ttl_remaining = (iv_end iv - at) div us_per_s\<rparr>)"

definition resolve :: "'t itree \<Rightarrow> 't identity_index \<Rightarrow> string \<Rightarrow> instant \<Rightarrow>
    't identity_index \<times> (py_error + identity_hit option)" where
  "resolve T ix ip at =
     (case map_of (ix_trees ix) ip of
        None \<Rightarrow> (ix, Inr None)
      | Some t \<Rightarrow>
          if it_len T t = 0 then (ix, Inr None)
          else (case remove_where T (\<lambda>iv. iv_end iv \<le> at) t of
              Inl e \<Rightarrow> (ix, Inl e)
            | Inr t1 \<Rightarrow>
                if it_len T t1 = 0 then (ix\<lparr>ix_trees := AList.delete ip (ix_trees ix)\<rparr>, Inr None)
                else (ix\<lparr>ix_trees := AList.update ip t1 (ix_trees ix)\<rparr>,
                  Inr (case sort_key hit_key (it_at T t1 at) of
                      [] \<Rightarrow> None | iv # _ \<Rightarrow> Some (hit_of at iv)))))"

definition index_size :: "'t itree \<Rightarrow> 't identity_index \<Rightarrow> int" where
  "index_size T ix = sum_list (map (\<lambda>p. it_len T (snd p)) (ix_trees ix))"

section \<open>Abstract contents\<close>

text \<open>
  What the index stands for: the intervals held per address. The reference operations work on
  these sets and never evict; \<open>resolves_to S at r\<close> is the resolution rule of the docstring.
\<close>

definition held_at :: "'t itree \<Rightarrow> 't identity_index \<Rightarrow> string \<Rightarrow> interval set" where
  "held_at T ix ip = (case map_of (ix_trees ix) ip of None \<Rightarrow> {} | Some t \<Rightarrow> set (it_list T t))"

definition live :: "interval set \<Rightarrow> instant \<Rightarrow> interval set" where
  "live S at = {iv \<in> S. iv_begin iv \<le> at \<and> at < iv_end iv}"

definition resolves_to :: "interval set \<Rightarrow> instant \<Rightarrow> identity_hit option \<Rightarrow> bool" where
  "resolves_to S at r \<longleftrightarrow> (case r of
      None \<Rightarrow> live S at = {}
    | Some h \<Rightarrow> (\<exists>iv \<in> live S at. h = hit_of at iv \<and>
        (\<forall>jv \<in> live S at. b_confidence (iv_data jv) < b_confidence (iv_data iv) \<or>
           b_confidence (iv_data jv) = b_confidence (iv_data iv) \<and>
           b_t_start (iv_data jv) \<le> b_t_start (iv_data iv))))"

definition spec_insert :: "identity_dict \<Rightarrow> (string \<Rightarrow> interval set) \<Rightarrow>
    string \<Rightarrow> interval set" where
  "spec_insert ev S =
     (case id_src_ip ev of None \<Rightarrow> S | Some ip \<Rightarrow>
      case ev_ts ev of Inl _ \<Rightarrow> S | Inr t \<Rightarrow>
      if is_stop ev then S(ip := {iv \<in> S ip. id_user_upn ev \<noteq> None \<and>
           id_user_upn ev \<noteq> Some (b_user_upn (iv_data iv))})
      else case (ev_binding ev t, id_ttl_seconds ev) of
          (Inr b, Some ttl) \<Rightarrow> if 0 < ttl
            then S(ip := insert \<lparr>iv_begin = t, iv_end = t + ttl * us_per_s, iv_data = b\<rparr> (S ip)) else S
        | _ \<Rightarrow> S)"

datatype index_op = Insert identity_dict | Probe string instant

definition index_step :: "'t itree \<Rightarrow> 't identity_index \<Rightarrow> index_op \<Rightarrow>
    't identity_index" where
  "index_step T ix op = (case op of
     Insert ev \<Rightarrow> fst (insert_event T ix ev) | Probe ip at \<Rightarrow> fst (resolve T ix ip at))"

definition spec_step :: "(string \<Rightarrow> interval set) \<Rightarrow> index_op \<Rightarrow>
    string \<Rightarrow> interval set" where
  "spec_step S op = (case op of Insert ev \<Rightarrow> spec_insert ev S | Probe ip at \<Rightarrow> S)"

section \<open>Lemmas\<close>

lemma laws_len: "interval_tree_laws T \<Longrightarrow> it_len T t = 0 \<longleftrightarrow> it_list T t = []"
  by (simp add: interval_tree_laws_def)

lemma laws_distinct: "interval_tree_laws T \<Longrightarrow> distinct (it_list T t)"
  by (simp add: interval_tree_laws_def)

lemma laws_empty: "interval_tree_laws T \<Longrightarrow> it_list T (it_empty T) = []"
  by (simp add: interval_tree_laws_def)

lemma laws_clear: "interval_tree_laws T \<Longrightarrow> it_list T (it_clear T t) = []"
  by (simp add: interval_tree_laws_def)

lemma laws_at: "interval_tree_laws T \<Longrightarrow> set (it_at T t p) = live (set (it_list T t)) p"
  by (simp add: interval_tree_laws_def live_def)

lemma laws_addi:
  "interval_tree_laws T \<Longrightarrow> b < e \<Longrightarrow> \<exists>t1. it_addi T t b e d = Inr t1 \<and>
     set (it_list T t1) = insert \<lparr>iv_begin = b, iv_end = e, iv_data = d\<rparr> (set (it_list T t))"
  by (simp add: interval_tree_laws_def)

lemma laws_addi_null: "interval_tree_laws T \<Longrightarrow> e \<le> b \<Longrightarrow> it_addi T t b e d = Inl ValueError"
  by (simp add: interval_tree_laws_def)

lemma laws_remove:
  "interval_tree_laws T \<Longrightarrow> iv \<in> set (it_list T t) \<Longrightarrow>
   \<exists>t1. it_remove T t iv = Inr t1 \<and> set (it_list T t1) = set (it_list T t) - {iv}"
  by (simp add: interval_tree_laws_def)

lemma remove_loop:
  assumes "interval_tree_laws T" and "distinct ivs" and "set ivs \<subseteq> set (it_list T t)"
  shows "\<exists>t1. fold_r (\<lambda>t1 iv. if p iv then it_remove T t1 iv else Inr t1) t ivs = Inr t1 \<and>
    set (it_list T t1) = set (it_list T t) - {iv \<in> set ivs. p iv}"
  using assms(2,3)
proof (induction ivs arbitrary: t)
  case (Cons iv ivs)
  show ?case
  proof (cases "p iv")
    case True
    obtain t1 where t1: "it_remove T t iv = Inr t1" "set (it_list T t1) = set (it_list T t) - {iv}"
      using laws_remove[OF assms(1), of iv t] Cons.prems by auto
    have "set ivs \<subseteq> set (it_list T t1)" using Cons.prems t1(2) by auto
    moreover have "set (it_list T t) - {iv} - {jv \<in> set ivs. p jv} =
        set (it_list T t) - {jv \<in> set (iv # ivs). p jv}"
      using True by auto
    ultimately show ?thesis using Cons.IH[of t1] Cons.prems True t1 by simp
  next
    case False
    then have "{jv \<in> set (iv # ivs). p jv} = {jv \<in> set ivs. p jv}" by auto
    then show ?thesis using Cons.IH[of t] Cons.prems False by simp
  qed
qed simp

lemma remove_where_ok:
  "interval_tree_laws T \<Longrightarrow> \<exists>t1. remove_where T p t = Inr t1 \<and>
     set (it_list T t1) = {iv \<in> set (it_list T t). \<not> p iv}"
  unfolding remove_where_def using remove_loop[of T "it_list T t" t p] laws_distinct[of T t] by auto

lemma held_update [simp]:
  "held_at T (ix\<lparr>ix_trees := AList.update ip t d\<rparr>) =
   (held_at T (ix\<lparr>ix_trees := d\<rparr>))(ip := set (it_list T t))"
  by (auto simp: held_at_def update_conv' fun_eq_iff)

lemma held_self [simp]: "held_at T (ix\<lparr>ix_trees := ix_trees ix\<rparr>) = held_at T ix"
  by simp

lemma held_setdefault:
  "interval_tree_laws T \<Longrightarrow>
   held_at T (ix\<lparr>ix_trees := dict_alter ip (it_empty T) id (ix_trees ix)\<rparr>) = held_at T ix"
  by (auto simp: held_at_def map_of_dict_alter dict_get_def laws_empty fun_eq_iff split: option.splits)

text \<open>\<open>insert\<close> implements the reference insertion, on every branch.\<close>

lemma invalidate_held:
  assumes "interval_tree_laws T"
  shows "held_at T (fst (invalidate T ix ip user)) =
      (held_at T ix)(ip := {iv \<in> held_at T ix ip. user \<noteq> None \<and> user \<noteq> Some (b_user_upn (iv_data iv))}) \<and>
    snd (invalidate T ix ip user) = Inr ()"
proof (cases "map_of (ix_trees ix) ip")
  case None
  then show ?thesis by (auto simp: invalidate_def held_at_def fun_eq_iff)
next
  case (Some t)
  have h: "held_at T ix ip = set (it_list T t)" using Some by (simp add: held_at_def)
  obtain t1 where t1: "remove_where T (\<lambda>iv. b_user_upn (iv_data iv) = the user) t = Inr t1"
    "set (it_list T t1) = {iv \<in> set (it_list T t). b_user_upn (iv_data iv) \<noteq> the user}"
    using remove_where_ok[OF assms] by blast
  show ?thesis
    using Some h t1 laws_clear[OF assms, of t] laws_len[OF assms, of t]
    by (auto simp: invalidate_def fun_eq_iff split: option.splits)
qed

lemma addi_held:
  assumes "interval_tree_laws T" and "ttl \<noteq> 0"
  shows "held_at T (case bind_r bd (\<lambda>b. it_addi T (dict_get (ix_trees ix) ip (it_empty T)) t (t + ttl * us_per_s) b) of
      Inl e \<Rightarrow> ix | Inr t1 \<Rightarrow> ix\<lparr>ix_trees := AList.update ip t1 (ix_trees ix)\<rparr>) =
    (case bd of Inl e \<Rightarrow> held_at T ix | Inr b \<Rightarrow> if 0 < ttl
       then (held_at T ix)(ip := insert \<lparr>iv_begin = t, iv_end = t + ttl * us_per_s, iv_data = b\<rparr> (held_at T ix ip))
       else held_at T ix)"
proof (cases bd)
  case (Inr b)
  let ?t = "dict_get (ix_trees ix) ip (it_empty T)"
  have h: "held_at T ix ip = set (it_list T ?t)"
    using laws_empty[OF assms(1)] by (simp add: held_at_def dict_get_def split: option.splits)
  have pos: "0 < ttl \<longleftrightarrow> t < t + ttl * us_per_s"
    by (simp add: us_per_s_def)
  show ?thesis
  proof (cases "0 < ttl")
    case True
    with pos obtain t1 where "it_addi T ?t t (t + ttl * us_per_s) b = Inr t1"
      "set (it_list T t1) = insert \<lparr>iv_begin = t, iv_end = t + ttl * us_per_s, iv_data = b\<rparr> (set (it_list T ?t))"
      using laws_addi[OF assms(1), of t "t + ttl * us_per_s" ?t b] by blast
    then show ?thesis using True Inr h by simp
  next
    case False
    then have "it_addi T ?t t (t + ttl * us_per_s) b = Inl ValueError"
      using laws_addi_null[OF assms(1)] pos by simp
    then show ?thesis using False Inr by simp
  qed
qed simp

lemma fst_case_sum:
  "fst (case m of Inl e \<Rightarrow> (x, f e) | Inr v \<Rightarrow> (g v, h v)) = (case m of Inl e \<Rightarrow> x | Inr v \<Rightarrow> g v)"
  by (simp split: sum.splits)

lemma insert_event_held:
  assumes "interval_tree_laws T"
  shows "held_at T (fst (insert_event T ix ev)) = spec_insert ev (held_at T ix)"
proof (cases "id_src_ip ev")
  case None
  then show ?thesis by (simp add: insert_event_def spec_insert_def key_r_def)
next
  case (Some ip)
  show ?thesis
  proof (cases "ev_ts ev")
    case (Inl e)
    with Some show ?thesis by (simp add: insert_event_def spec_insert_def key_r_def)
  next
    case (Inr t)
    show ?thesis
    proof (cases "is_stop ev")
      case True
      then show ?thesis
        using Some Inr conjunct1[OF invalidate_held[OF assms, of ix ip "id_user_upn ev"]]
        by (simp add: insert_event_def spec_insert_def key_r_def)
    next
      case False
      then obtain ttl where ttl: "id_ttl_seconds ev = Some ttl" "ttl \<noteq> 0"
        by (auto simp: is_stop_def split: option.splits)
      let ?ix = "ix\<lparr>ix_trees := dict_alter ip (it_empty T) id (ix_trees ix)\<rparr>"
      show ?thesis
        using Some Inr False ttl(1) addi_held[where bd = "ev_binding ev t" and ix = ?ix and ip = ip and t = t, OF assms ttl(2)]
        by (simp add: insert_event_def spec_insert_def key_r_def Let_def fst_case_sum)
          (cases "ev_binding ev t"; simp add: held_setdefault[OF assms])
    qed
  qed
qed

text \<open>A probe removes exactly the expired intervals of its address and answers from the rest.\<close>

lemma held_delete: "held_at T (ix\<lparr>ix_trees := AList.delete ip d\<rparr>) = (held_at T (ix\<lparr>ix_trees := d\<rparr>))(ip := {})"
  by (auto simp: held_at_def AList.delete_conv' fun_eq_iff)

lemma best_hit:
  assumes "set xs = live S at"
  shows "resolves_to S at (case sort_key hit_key xs of [] \<Rightarrow> None | iv # _ \<Rightarrow> Some (hit_of at iv))"
proof (cases "sort_key hit_key xs")
  case Nil
  then have "set xs = {}" by (metis empty_set set_sort)
  then show ?thesis using Nil assms by (simp add: resolves_to_def)
next
  case (Cons iv ivs)
  then have "find (\<lambda>_. True) (sort_key hit_key xs) = Some iv" by simp
  from find_sort_key_least[OF this] have "iv \<in> live S at" "\<forall>jv \<in> live S at. hit_key iv \<le> hit_key jv"
    by (simp_all add: assms)
  then show ?thesis using Cons unfolding resolves_to_def
    by (simp, intro bexI[of _ iv]) (auto simp: hit_key_def)
qed

lemma resolve_held:
  assumes "interval_tree_laws T"
  shows "\<exists>r. snd (resolve T ix ip at) = Inr r \<and> resolves_to (held_at T ix ip) at r \<and>
    held_at T (fst (resolve T ix ip at)) =
      (held_at T ix)(ip := {iv \<in> held_at T ix ip. at < iv_end iv})"
proof (cases "map_of (ix_trees ix) ip")
  case None
  then show ?thesis by (auto simp: resolve_def held_at_def resolves_to_def live_def fun_eq_iff)
next
  case (Some t)
  have h: "held_at T ix ip = set (it_list T t)" using Some by (simp add: held_at_def)
  obtain t1 where t1: "remove_where T (\<lambda>iv. iv_end iv \<le> at) t = Inr t1"
    "set (it_list T t1) = {iv \<in> set (it_list T t). at < iv_end iv}"
    using remove_where_ok[OF assms, of "\<lambda>iv. iv_end iv \<le> at" t] by (auto simp: not_le)
  have l: "set (it_at T t1 at) = live (set (it_list T t)) at"
    using laws_at[OF assms, of t1 at] t1(2) by (auto simp: live_def)
  show ?thesis
  proof (cases "it_list T t = []")
    case True
    then show ?thesis using Some h laws_len[OF assms]
      by (auto simp: resolve_def resolves_to_def live_def fun_eq_iff)
  next
    case ne: False
    show ?thesis
    proof (cases "it_list T t1 = []")
      case True
      then have e: "{iv \<in> set (it_list T t). at < iv_end iv} = {}" using t1(2) by simp
      then have "live (set (it_list T t)) at = {}" by (auto simp: live_def)
      then show ?thesis using True ne Some h t1(1) e laws_len[OF assms]
        by (auto simp: resolve_def held_delete resolves_to_def fun_eq_iff)
    next
      case False
      then show ?thesis using ne Some h t1 laws_len[OF assms] best_hit[OF l]
        by (simp add: resolve_def)
    qed
  qed
qed

text \<open>
  The simulation: the index holds the reference contents less some intervals that an earlier
  probe of the same address found expired.
\<close>

definition probes_of :: "index_op list \<Rightarrow> string \<Rightarrow> instant set" where
  "probes_of ops ip = {at. Probe ip at \<in> set ops}"

definition simulates :: "(string \<Rightarrow> interval set) \<Rightarrow> (string \<Rightarrow> interval set) \<Rightarrow> (string \<Rightarrow> instant set) \<Rightarrow> bool" where
  "simulates I S P \<longleftrightarrow> (\<forall>ip. I ip \<subseteq> S ip \<and> (\<forall>iv \<in> S ip - I ip. \<exists>at \<in> P ip. iv_end iv \<le> at))"

lemma simulates_insert:
  "simulates I S P \<Longrightarrow> simulates (spec_insert ev I) (spec_insert ev S) P"
  unfolding simulates_def spec_insert_def by (auto split: option.splits sum.splits)

lemma run_simulates:
  assumes "interval_tree_laws T"
  shows "simulates (held_at T (foldl (index_step T) new_identity_index ops))
    (foldl spec_step (\<lambda>_. {}) ops) (probes_of ops)"
proof (induction ops rule: rev_induct)
  case Nil
  then show ?case by (simp add: simulates_def held_at_def new_identity_index_def)
next
  case (snoc op ops)
  let ?ix = "foldl (index_step T) new_identity_index ops"
  show ?case
  proof (cases op)
    case (Insert ev)
    then have "probes_of (ops @ [op]) = probes_of ops" by (auto simp: probes_of_def)
    then show ?thesis
      using simulates_insert[OF snoc, of ev] Insert
      by (simp add: index_step_def spec_step_def insert_event_held[OF assms])
  next
    case (Probe ip at)
    have p: "probes_of (ops @ [op]) = (probes_of ops)(ip := insert at (probes_of ops ip))"
      using Probe by (auto simp: probes_of_def fun_eq_iff)
    have "held_at T (index_step T ?ix op) =
        (held_at T ?ix)(ip := {iv \<in> held_at T ?ix ip. at < iv_end iv})"
      using resolve_held[OF assms, of ?ix ip at] Probe by (auto simp: index_step_def)
    then show ?thesis
      using snoc Probe unfolding p simulates_def by (auto simp: spec_step_def)
  qed
qed

lemma simulates_live:
  assumes "simulates I S P" and "\<forall>t \<in> P ip. t \<le> at"
  shows "live (I ip) at = live (S ip) at"
proof -
  have "iv \<in> I ip" if "iv \<in> S ip" "at < iv_end iv" for iv
  proof (rule ccontr)
    assume "iv \<notin> I ip"
    with assms(1) that(1) obtain t where "t \<in> P ip" "iv_end iv \<le> t"
      unfolding simulates_def by blast
    with assms(2) that(2) show False by force
  qed
  moreover have "I ip \<subseteq> S ip" using assms(1) by (simp add: simulates_def)
  ultimately show ?thesis by (auto simp: live_def)
qed

lemma resolves_to_cong: "live S at = live S' at \<Longrightarrow> resolves_to S at r = resolves_to S' at r"
  by (cases r) (simp_all add: resolves_to_def)

lemma insert_event_error:
  assumes "interval_tree_laws T" and "snd (insert_event T ix ev) = Inl e"
  shows "held_at T (fst (insert_event T ix ev)) = held_at T ix"
proof (cases "\<exists>ip t. id_src_ip ev = Some ip \<and> ev_ts ev = Inr t \<and> is_stop ev")
  case True
  then show ?thesis
    using assms(2) invalidate_held[OF assms(1)] by (auto simp: insert_event_def key_r_def)
next
  case False
  then show ?thesis
    using assms(2) held_setdefault[OF assms(1), where ix = ix]
    by (auto simp: insert_event_def key_r_def Let_def simp del: held_update
        split: option.splits sum.splits if_splits)
qed

section \<open>A concrete tree\<close>

text \<open>Lists of intervals without repetition satisfy the laws, so the hypotheses below can hold.\<close>

typedef iset = "{ivs :: interval list. distinct ivs}"
  by (rule exI[of _ "[]"]) simp

setup_lifting type_definition_iset

lift_definition is_list :: "iset \<Rightarrow> interval list" is "\<lambda>xs. xs" .
lift_definition is_empty :: iset is "[]" by simp
lift_definition is_add :: "interval \<Rightarrow> iset \<Rightarrow> iset" is List.insert by simp
lift_definition is_del :: "interval \<Rightarrow> iset \<Rightarrow> iset" is remove1 by simp

lemma is_list_simps [simp]:
  "is_list is_empty = []" "is_list (is_add iv t) = List.insert iv (is_list t)"
  "is_list (is_del iv t) = remove1 iv (is_list t)" "distinct (is_list t)"
  by (transfer; simp)+

definition list_tree :: "iset itree" where
  "list_tree = \<lparr>it_empty = is_empty,
     it_addi = (\<lambda>t b e d. if b < e then Inr (is_add \<lparr>iv_begin = b, iv_end = e, iv_data = d\<rparr> t)
                          else Inl ValueError),
     it_clear = (\<lambda>_. is_empty), it_list = is_list,
     it_remove = (\<lambda>t iv. if iv \<in> set (is_list t) then Inr (is_del iv t) else Inl ValueError),
     it_at = (\<lambda>t p. filter (\<lambda>iv. iv_begin iv \<le> p \<and> p < iv_end iv) (is_list t)),
     it_len = (\<lambda>t. int (length (is_list t)))\<rparr>"

lemma list_tree_laws: "interval_tree_laws list_tree"
  by (simp add: interval_tree_laws_def list_tree_def)

definition auth :: "string \<Rightarrow> int \<Rightarrow> int \<Rightarrow> instant \<Rightarrow> identity_dict" where
  "auth u c ttl t = \<lparr>id_ts = Some (TsTime t), id_src_ip = Some ''10.0.0.1'', id_user_upn = Some u,
     id_source = Some ''ad'', id_event_type = Some ''logon'', id_confidence = Some c,
     id_ttl_seconds = Some ttl\<rparr>"

lemma spec_auth:
  "ttl > 0 \<Longrightarrow> spec_step S (Insert (auth u c ttl t)) = S(''10.0.0.1'' := insert
     \<lparr>iv_begin = t, iv_end = t + ttl * us_per_s,
      iv_data = \<lparr>b_user_upn = u, b_confidence = c, b_source = ''ad'', b_t_start = t\<rparr>\<rparr> (S ''10.0.0.1''))"
  by (simp add: spec_step_def spec_insert_def auth_def ev_ts_def key_r_def is_stop_def ev_binding_def)

section \<open>Properties\<close>

text \<open>
  C8: the index answers by the resolution rule over everything inserted. After any sequence of
  events and probes from an empty index, a probe of an address at \<open>at\<close>, none of whose earlier
  probes was at a later instant, returns without raising the live binding of highest
  confidence, the most recent among equals, of all bindings inserted and not stopped since, and
  \<open>None\<close> only when none is live: evicting expired intervals on the way is not observable.
\<close>

theorem resolve_refines:
  assumes "interval_tree_laws T" and "\<forall>t. Probe ip t \<in> set ops \<longrightarrow> t \<le> at"
  shows "\<exists>r. snd (resolve T (foldl (index_step T) new_identity_index ops) ip at) = Inr r \<and>
    resolves_to (foldl spec_step (\<lambda>_. {}) ops ip) at r"
proof -
  let ?ix = "foldl (index_step T) new_identity_index ops"
  have "live (held_at T ?ix ip) at = live (foldl spec_step (\<lambda>_. {}) ops ip) at"
    using simulates_live[OF run_simulates[OF assms(1)]] assms(2) by (simp add: probes_of_def)
  then show ?thesis
    using resolve_held[OF assms(1), of ?ix ip at] resolves_to_cong by blast
qed

theorem resolve_refines_witness:
  "\<exists>h. snd (resolve list_tree (foldl (index_step list_tree) new_identity_index
       [Insert (auth ''ann'' 70 300 0), Insert (auth ''bob'' 90 60 0), Probe ''10.0.0.1'' 1000000])
       ''10.0.0.1'' 2000000) = Inr (Some h) \<and> hit_user_upn h = ''bob'' \<and> hit_ttl_remaining h = 58"
proof -
  let ?ops = "[Insert (auth ''ann'' 70 300 0), Insert (auth ''bob'' 90 60 0), Probe ''10.0.0.1'' 1000000]"
  let ?b = "\<lparr>iv_begin = 0, iv_end = 60000000,
    iv_data = \<lparr>b_user_upn = ''bob'', b_confidence = 90, b_source = ''ad'', b_t_start = 0\<rparr>\<rparr>"
  let ?a = "\<lparr>iv_begin = 0, iv_end = 300000000,
    iv_data = \<lparr>b_user_upn = ''ann'', b_confidence = 70, b_source = ''ad'', b_t_start = 0\<rparr>\<rparr>"
  have "foldl spec_step (\<lambda>_. {}) ?ops ''10.0.0.1'' = {?b, ?a}"
    by (simp add: spec_auth us_per_s_def) (simp add: spec_step_def)
  moreover have "live {?b, ?a} 2000000 = {?b, ?a}" by (auto simp: live_def)
  ultimately show ?thesis
    using resolve_refines[of list_tree "''10.0.0.1''" ?ops 2000000] list_tree_laws
    by (auto simp: resolves_to_def hit_of_def us_per_s_def split: option.splits)
qed

text \<open>
  A probe forgets. Once an address has been probed at \<open>late\<close>, a probe of an earlier instant
  finds nothing among the bindings that had ended by \<open>late\<close>: if they are all that was live at
  the earlier instant, it answers \<open>None\<close>, although the resolution rule has an answer there.
\<close>

theorem late_probe_forgets:
  assumes "interval_tree_laws T" and "live (held_at T ix ip) at \<noteq> {}"
    and "\<forall>iv \<in> live (held_at T ix ip) at. iv_end iv \<le> late"
  shows "snd (resolve T (fst (resolve T ix ip late)) ip at) = Inr None \<and>
    (\<exists>h. snd (resolve T ix ip at) = Inr (Some h))"
proof -
  let ?ix = "fst (resolve T ix ip late)"
  have "held_at T ?ix ip = {iv \<in> held_at T ix ip. late < iv_end iv}"
    using resolve_held[OF assms(1), of ix ip late] by auto
  then have l: "live (held_at T ?ix ip) at = {}" using assms(3) by (auto simp: live_def)
  obtain r r' where "snd (resolve T ?ix ip at) = Inr r" "resolves_to (held_at T ?ix ip) at r"
    "snd (resolve T ix ip at) = Inr r'" "resolves_to (held_at T ix ip) at r'"
    using resolve_held[OF assms(1)] by blast
  with l assms(2) show ?thesis by (cases r; cases r') (auto simp: resolves_to_def)
qed

theorem late_probe_forgets_witness:
  "snd (resolve list_tree (fst (resolve list_tree
      (fst (insert_event list_tree new_identity_index (auth ''ann'' 70 60 0)))
      ''10.0.0.1'' 60000000)) ''10.0.0.1'' 30000000) = Inr None"
proof -
  let ?ix = "fst (insert_event list_tree new_identity_index (auth ''ann'' 70 60 0))"
  let ?a = "\<lparr>iv_begin = 0, iv_end = 60000000,
    iv_data = \<lparr>b_user_upn = ''ann'', b_confidence = 70, b_source = ''ad'', b_t_start = 0\<rparr>\<rparr>"
  have "held_at list_tree ?ix ''10.0.0.1'' = {?a}"
    using spec_auth[of 60 "held_at list_tree new_identity_index" "''ann''" 70 0]
    by (simp add: insert_event_held[OF list_tree_laws] spec_step_def us_per_s_def)
      (simp add: held_at_def new_identity_index_def)
  then have "live (held_at list_tree ?ix ''10.0.0.1'') 30000000 = {?a}" by (auto simp: live_def)
  then show ?thesis
    using late_probe_forgets[OF list_tree_laws, of ?ix "''10.0.0.1''" 30000000 60000000] by simp
qed

text \<open>
  A stop event ends the session of its user at that address and no other. After it, no
  probe of the address answers with that user, and every binding of other users is kept.
\<close>

theorem stop_ends_session:
  fixes T :: "'t itree" and ix :: "'t identity_index"
  assumes "interval_tree_laws T" and "is_stop ev" and "id_src_ip ev = Some ip"
    and "ev_ts ev = Inr t" and "id_user_upn ev = Some u"
  defines "ix1 \<equiv> fst (insert_event T ix ev)"
  shows "snd (insert_event T ix ev) = Inr () \<and>
    held_at T ix1 = (held_at T ix)(ip := {iv \<in> held_at T ix ip. b_user_upn (iv_data iv) \<noteq> u}) \<and>
    (\<forall>at h. snd (resolve T ix1 ip at) = Inr (Some h) \<longrightarrow> hit_user_upn h \<noteq> u)"
proof -
  have i: "insert_event T ix ev = invalidate T ix ip (Some u)"
    using assms by (simp add: insert_event_def key_r_def)
  have h: "held_at T ix1 = (held_at T ix)(ip := {iv \<in> held_at T ix ip. b_user_upn (iv_data iv) \<noteq> u})"
    using invalidate_held[OF assms(1), of ix ip "Some u"] i by (auto simp: ix1_def fun_eq_iff)
  have "hit_user_upn h \<noteq> u" if "snd (resolve T ix1 ip at) = Inr (Some h)" for at h
    using resolve_held[OF assms(1), of ix1 ip at] that
    by (auto simp: h resolves_to_def live_def hit_of_def Let_def)
  with h i show ?thesis using invalidate_held[OF assms(1), of ix ip "Some u"] by simp
qed

theorem stop_ends_session_witness:
  "snd (insert_event list_tree new_identity_index (auth ''ann'' 70 0 5)) = Inr ()"
  using stop_ends_session[OF list_tree_laws, of "auth ''ann'' 70 0 5" "''10.0.0.1''" 5 "''ann''"
      new_identity_index]
  by (simp add: auth_def is_stop_def ev_ts_def key_r_def)

text \<open>
  An event that is refused changes no answer. When \<open>insert\<close> raises, for a missing key, an
  unreadable time or a negative lifetime, the bindings held for every address are as before
  (only an empty tree may have been created).
\<close>

theorem refused_event_harmless:
  assumes "interval_tree_laws T" and "snd (insert_event T ix ev) = Inl e"
  shows "held_at T (fst (insert_event T ix ev)) = held_at T ix"
  by (rule insert_event_error[OF assms])

theorem refused_event_harmless_witness:
  "held_at list_tree (fst (insert_event list_tree new_identity_index (auth ''ann'' 70 (-1) 5))) =
   held_at list_tree new_identity_index"
  by (rule refused_event_harmless[OF list_tree_laws, where e = ValueError])
    (simp add: insert_event_def auth_def ev_ts_def key_r_def is_stop_def ev_binding_def Let_def
      list_tree_def us_per_s_def)

end
