(* ===== verification/Json.thy ===== *)
theory Json
  imports Py_String "HOL-Library.Monad_Syntax"
begin

text \<open>
  The module \<open>json\<close> as the services use it: \<open>dumps\<close> with its two separators and the default of ASCII
  output, and \<open>loads\<close>. A dictionary is its items in insertion order. A number with a fraction or an
  exponent keeps its text. \<open>None\<close> is \<open>JSONDecodeError\<close>; it also stands for an escape of a code point
  above 255, which the strings of the model do not have.
\<close>

datatype json = JNull | JBool bool | JInt int | JFloat string | JStr string
  | JList "json list" | JObj "(string \<times> json) list"

section \<open>Writing\<close>

definition hex_char :: "nat \<Rightarrow> char" where
  "hex_char n = char_of (if n < 10 then 48 + n else 87 + n)"

definition escape_char :: "char \<Rightarrow> string" where
  "escape_char c =
     (if c = CHR 0x5C \<or> c = CHR 0x22 then [CHR 0x5C, c]
      else if code c = 8 then [CHR 0x5C, CHR ''b'']
      else if code c = 12 then [CHR 0x5C, CHR ''f'']
      else if code c = 10 then [CHR 0x5C, CHR ''n'']
      else if code c = 13 then [CHR 0x5C, CHR ''r'']
      else if code c = 9 then [CHR 0x5C, CHR ''t'']
      else if 32 \<le> code c \<and> code c \<le> 126 then [c]
      else [CHR 0x5C, CHR ''u'', CHR ''0'', CHR ''0'', hex_char (code c div 16), hex_char (code c mod 16)])"

definition dumps_str :: "string \<Rightarrow> string" where
  "dumps_str s = [CHR 0x22] @ concat (map escape_char s) @ [CHR 0x22]"

fun dumps :: "string \<Rightarrow> string \<Rightarrow> json \<Rightarrow> string" where
  "dumps isep ksep JNull = ''null''"
| "dumps isep ksep (JBool b) = (if b then ''true'' else ''false'')"
| "dumps isep ksep (JInt i) = show_int i"
| "dumps isep ksep (JFloat f) = f"
| "dumps isep ksep (JStr s) = dumps_str s"
| "dumps isep ksep (JList vs) = ''['' @ join_with isep (map (dumps isep ksep) vs) @ '']''"
| "dumps isep ksep (JObj kvs) =
     ''{'' @ join_with isep (map (\<lambda>p. dumps_str (fst p) @ ksep @ dumps isep ksep (snd p)) kvs) @ ''}''"

section \<open>Reading\<close>

definition is_json_space :: "char \<Rightarrow> bool" where
  "is_json_space c \<longleftrightarrow> code c = 32 \<or> code c = 9 \<or> code c = 10 \<or> code c = 13"

abbreviation skip_json_space :: "string \<Rightarrow> string" where
  "skip_json_space \<equiv> dropWhile is_json_space"

definition hex_val :: "char \<Rightarrow> nat option" where
  "hex_val c = (if is_digit c then Some (code c - 48)
     else if 97 \<le> code c \<and> code c \<le> 102 then Some (code c - 87)
     else if 65 \<le> code c \<and> code c \<le> 70 then Some (code c - 55) else None)"

definition hex4 :: "string \<Rightarrow> char option" where
  "hex4 s = (case map hex_val s of
      [Some a, Some b, Some c, Some d] \<Rightarrow> if a = 0 \<and> b = 0 then Some (char_of (16 * c + d)) else None
    | _ \<Rightarrow> None)"

definition unescape :: "char \<Rightarrow> char option" where
  "unescape e =
     (if e = CHR 0x22 \<or> e = CHR 0x5C \<or> e = CHR ''/'' then Some e
      else map_option char_of (map_of [(CHR ''b'', 8 :: nat), (CHR ''f'', 12), (CHR ''n'', 10), (CHR ''r'', 13), (CHR ''t'', 9)] e))"

text \<open>From the character after the opening quote to the closing one.\<close>

fun scan_string :: "string \<Rightarrow> (string \<times> string) option" where
  "scan_string [] = None"
| "scan_string (c # s) =
     (if c = CHR 0x22 then Some ([], s)
      else if c = CHR 0x5C then
        (case s of
           [] \<Rightarrow> None
         | e # r \<Rightarrow>
             if e = CHR ''u'' then
               (case hex4 (take 4 r) of None \<Rightarrow> None | Some d \<Rightarrow> map_option (apfst (Cons d)) (scan_string (drop 4 r)))
             else (case unescape e of None \<Rightarrow> None | Some d \<Rightarrow> map_option (apfst (Cons d)) (scan_string r)))
      else if code c < 32 then None
      else map_option (apfst (Cons c)) (scan_string s))"

definition span_digits :: "string \<Rightarrow> string \<times> string" where
  "span_digits s = (takeWhile is_digit s, dropWhile is_digit s)"

definition scan_number :: "string \<Rightarrow> (json \<times> string) option" where
  "scan_number s =
     (let (sign, r) = (if take 1 s = ''-'' then (''-'', tl s) else ([], s)) in
      if r = [] \<or> \<not> is_digit (hd r) then None else
      let (ds, r1) = (if hd r = CHR ''0'' then (''0'', tl r) else span_digits r);
          (frac, r2) = (if take 1 r1 = ''.'' \<and> fst (span_digits (tl r1)) \<noteq> []
             then (CHR ''.'' # fst (span_digits (tl r1)), snd (span_digits (tl r1))) else ([], r1));
          e = take 1 r2; es = (if take 1 (tl r2) \<in> {''-'', ''+''} then take 1 (tl r2) else []);
          eds = span_digits (drop (1 + length es) r2);
          (ex, r3) = (if e \<in> {''e'', ''E''} \<and> fst eds \<noteq> [] then (e @ es @ fst eds, snd eds) else ([], r2))
      in if frac = [] \<and> ex = [] then map_option (\<lambda>i. (JInt i, r3)) (py_int (sign @ ds))
         else Some (JFloat (sign @ ds @ frac @ ex), r3))"

definition json_consts :: "(string \<times> json) list" where
  "json_consts = [(''null'', JNull), (''true'', JBool True), (''false'', JBool False), (''NaN'', JFloat ''NaN''),
     (''Infinity'', JFloat ''Infinity''), (''-Infinity'', JFloat ''-Infinity'')]"

definition scan_const :: "string \<Rightarrow> (json \<times> string) option" where
  "scan_const s = (case filter (\<lambda>p. starts_with (fst p) s) json_consts of
      [] \<Rightarrow> None | (w, v) # _ \<Rightarrow> Some (v, drop (length w) s))"

text \<open>The dictionary of a list of pairs: the last value of a key wins, at the place of the first.\<close>

definition dict_of :: "(string \<times> json) list \<Rightarrow> (string \<times> json) list" where
  "dict_of kvs = foldl (\<lambda>d p. AList.update (fst p) (snd p) d) [] kvs"

text \<open>
  The three scanners of the decoder. The first argument bounds the depth of the calls; \<open>loads\<close> gives
  twice the length of the text, which is always enough (\<open>scan_enough\<close> below).
\<close>

fun scan_value :: "nat \<Rightarrow> string \<Rightarrow> (json \<times> string) option"
  and scan_items :: "nat \<Rightarrow> string \<Rightarrow> (json list \<times> string) option"
  and scan_members :: "nat \<Rightarrow> string \<Rightarrow> ((string \<times> json) list \<times> string) option" where
  "scan_value 0 s = None"
| "scan_value (Suc n) s = (case s of
      [] \<Rightarrow> None
    | c # r \<Rightarrow>
        if c = CHR 0x22 then map_option (apfst JStr) (scan_string r)
        else if c = CHR ''{'' then
          (case skip_json_space r of
             [] \<Rightarrow> None
           | q # r1 \<Rightarrow> if q = CHR ''}'' then Some (JObj [], r1)
               else if q = CHR 0x22 then map_option (apfst (\<lambda>kvs. JObj (dict_of kvs))) (scan_members n r1) else None)
        else if c = CHR ''['' then
          (case skip_json_space r of
             [] \<Rightarrow> None
           | q # r1 \<Rightarrow> if q = CHR '']'' then Some (JList [], r1)
               else map_option (apfst JList) (scan_items n (q # r1)))
        else (case scan_number (c # r) of Some p \<Rightarrow> Some p | None \<Rightarrow> scan_const (c # r)))"
| "scan_items 0 s = None"
| "scan_items (Suc n) s = (case scan_value n s of
      None \<Rightarrow> None
    | Some (v, r) \<Rightarrow> (case skip_json_space r of
        [] \<Rightarrow> None
      | q # r1 \<Rightarrow> if q = CHR '']'' then Some ([v], r1)
          else if q = CHR '','' then map_option (apfst (Cons v)) (scan_items n (skip_json_space r1)) else None))"
| "scan_members 0 s = None"
| "scan_members (Suc n) s = (case scan_string s of
      None \<Rightarrow> None
    | Some (k, r) \<Rightarrow> (case skip_json_space r of
        [] \<Rightarrow> None
      | q # r1 \<Rightarrow> if q \<noteq> CHR '':'' then None else
          (case scan_value n (skip_json_space r1) of
             None \<Rightarrow> None
           | Some (v, r2) \<Rightarrow> (case skip_json_space r2 of
               [] \<Rightarrow> None
             | q2 # r3 \<Rightarrow> if q2 = CHR ''}'' then Some ([(k, v)], r3)
                 else if q2 = CHR '','' then
                   (case skip_json_space r3 of
                      [] \<Rightarrow> None
                    | q3 # r4 \<Rightarrow> if q3 = CHR 0x22 then map_option (apfst (Cons (k, v))) (scan_members n r4) else None)
                 else None))))"

definition loads :: "string \<Rightarrow> json option" where
  "loads s = (let t = skip_json_space s in
     case scan_value (2 * length t + 2) t of
       None \<Rightarrow> None | Some (v, r) \<Rightarrow> if skip_json_space r = [] then Some v else None)"

section \<open>Views of values\<close>

definition as_str :: "json \<Rightarrow> string option" where
  "as_str v = (case v of JStr s \<Rightarrow> Some s | _ \<Rightarrow> None)"

definition as_int :: "json \<Rightarrow> int option" where
  "as_int v = (case v of JInt i \<Rightarrow> Some i | _ \<Rightarrow> None)"

definition as_opt :: "json \<Rightarrow> string option option" where
  "as_opt v = (case v of JNull \<Rightarrow> Some None | JStr s \<Rightarrow> Some (Some s) | _ \<Rightarrow> None)"

text \<open>A key that may be missing, and one that must be there.\<close>

definition opt_key :: "(json \<Rightarrow> 'a option) \<Rightarrow> (string \<times> json) list \<Rightarrow> string \<Rightarrow> 'a option option" where
  "opt_key f d k = (case map_of d k of None \<Rightarrow> Some None | Some v \<Rightarrow> map_option Some (f v))"

definition req_key :: "(json \<Rightarrow> 'a option) \<Rightarrow> (string \<times> json) list \<Rightarrow> string \<Rightarrow> 'a option" where
  "req_key f d k = Option.bind (map_of d k) f"

definition as_obj :: "json \<Rightarrow> (string \<times> json) list option" where
  "as_obj v = (case v of JObj d \<Rightarrow> Some d | _ \<Rightarrow> None)"

section \<open>Strings read back\<close>

lemma hex_val_char: "n < 16 \<Longrightarrow> hex_val (hex_char n) = Some n"
  by (auto simp: hex_val_def hex_char_def is_digit_def code_char_of)

lemma hex4_code: "hex4 [CHR ''0'', CHR ''0'', hex_char (code c div 16), hex_char (code c mod 16)] = Some c"
proof -
  have "code c < 256" by (simp add: code_def)
  then have "code c div 16 < 16" "code c mod 16 < 16" by auto
  moreover have "hex_val CHR ''0'' = Some 0" by code_simp
  ultimately show ?thesis by (simp add: hex4_def hex_val_char)
qed

lemma scan_escaped: "scan_string (escape_char c @ s) = map_option (apfst (Cons c)) (scan_string s)"
proof -
  have ch: "c = char_of (code c)" by simp
  consider "c = CHR 0x5C \<or> c = CHR 0x22" | "code c = 8" | "code c = 12" | "code c = 10" | "code c = 13" | "code c = 9"
    | "c \<noteq> CHR 0x5C" "c \<noteq> CHR 0x22" "32 \<le> code c" "code c \<le> 126"
    | "c \<noteq> CHR 0x5C" "c \<noteq> CHR 0x22" "code c \<notin> {8, 12, 10, 13, 9}" "\<not> (32 \<le> code c \<and> code c \<le> 126)"
    by blast
  then show ?thesis
  proof cases
    case 8
    then show ?thesis using hex4_code[of c] by (auto simp: escape_char_def)
  qed (auto simp: escape_char_def unescape_def code_def dest!: arg_cong[where f = "char_of :: nat \<Rightarrow> char"])
qed

lemma scan_dumps_str: "scan_string (tl (dumps_str s) @ r) = Some (s, r)"
proof -
  have "scan_string (concat (map escape_char s) @ CHR 0x22 # r) = Some (s, r)"
    by (induction s) (simp_all add: scan_escaped)
  then show ?thesis by (simp add: dumps_str_def)
qed

lemma dumps_str_hd: "dumps_str s = CHR 0x22 # tl (dumps_str s)"
  by (simp add: dumps_str_def)

lemma dumps_str_ne [simp]: "dumps_str s \<noteq> []"
  by (simp add: dumps_str_def)

section \<open>Values read back\<close>

text \<open>The values that survive: keys of a dictionary are distinct, integers are below the digit limit.\<close>

fun json_ok :: "json \<Rightarrow> bool" where
  "json_ok (JInt i) \<longleftrightarrow> length (show_int i) \<le> max_str_digits"
| "json_ok (JFloat f) \<longleftrightarrow> False"
| "json_ok (JList vs) \<longleftrightarrow> (\<forall>v \<in> set vs. json_ok v)"
| "json_ok (JObj kvs) \<longleftrightarrow> distinct (map fst kvs) \<and> (\<forall>p \<in> set kvs. json_ok (snd p))"
| "json_ok _ \<longleftrightarrow> True"

fun depth_need :: "json \<Rightarrow> nat" where
  "depth_need (JList vs) = 1 + sum_list (map (\<lambda>v. 1 + depth_need v) vs)"
| "depth_need (JObj kvs) = 1 + sum_list (map (\<lambda>p. 1 + depth_need (snd p)) kvs)"
| "depth_need _ = 1"

definition value_end :: "string \<Rightarrow> bool" where
  "value_end r \<longleftrightarrow> r = [] \<or> hd r \<in> {CHR '','', CHR '']'', CHR ''}''}"

lemma show_nat_zero: "hd (show_nat n) = CHR ''0'' \<Longrightarrow> n = 0"
proof (induction n rule: show_nat.induct)
  case (1 n)
  show ?case
  proof (cases "n < 10")
    case True
    then have "show_nat n = [char_of (48 + n)]" by (simp add: show_nat.simps)
    then show ?thesis using "1.prems" digit_char[OF True] by (simp add: digit_val_def code_def)
  next
    case False
    then have "show_nat n = show_nat (n div 10) @ [char_of (48 + n mod 10)]" by (subst show_nat.simps) simp
    then have "n div 10 = 0" using 1 False by simp
    then show ?thesis using False by linarith
  qed
qed

lemma value_end_stops:
  assumes "value_end r"
  shows "r = [] \<or> \<not> is_digit (hd r)" and "take 1 r \<noteq> ''.''" and "take 1 r \<notin> {''e'', ''E''}" and "skip_json_space r = r"
  using assms by (cases r; auto simp: value_end_def is_digit_def is_json_space_def code_def)+

lemma span_digits_show: "r = [] \<or> \<not> is_digit (hd r) \<Longrightarrow> span_digits (show_nat n @ r) = (show_nat n, r)"
  using show_nat_digits by (cases r) (auto simp: span_digits_def takeWhile_append dropWhile_append)

lemma scan_number_int:
  assumes "length (show_int i) \<le> max_str_digits" and "value_end r"
  shows "scan_number (show_int i @ r) = Some (JInt i, r)"
proof -
  define n sign where "n = nat \<bar>i\<bar>" and "sign = (if i < 0 then ''-'' else [])"
  have s: "show_int i = sign @ show_nat n" by (simp add: show_int_def n_def sign_def)
  obtain c t where ct: "show_nat n = c # t" by (cases "show_nat n") auto
  then have c: "is_digit c" using show_nat_digits[of c n] by simp
  have "show_nat 0 = ''0''" by (subst show_nat.simps) code_simp
  then have d: "(if hd (show_nat n @ r) = CHR ''0'' then (''0'', tl (show_nat n @ r)) else span_digits (show_nat n @ r)) = (show_nat n, r)"
    using show_nat_zero[of n] span_digits_show[OF value_end_stops(1)[OF assms(2)], of n] ct by auto
  have "take 1 (show_int i @ r) = ''-'' \<longleftrightarrow> i < 0"
    using c digit_not_space[OF c] by (auto simp: s sign_def ct)
  then have sg: "(if take 1 (show_int i @ r) = ''-'' then (''-'', tl (show_int i @ r)) else ([], show_int i @ r)) = (sign, show_nat n @ r)"
    by (simp add: s sign_def)
  have h: "\<not> (show_nat n @ r = [] \<or> \<not> is_digit (hd (show_nat n @ r)))" using c ct by simp
  note stops = value_end_stops[OF assms(2)]
  show ?thesis
    unfolding scan_number_def sg Let_def prod.case d if_not_P[OF h]
    using stops(2,3) py_int_show_int[OF assms(1)] by (simp add: s)
qed

lemma dict_of_distinct:
  assumes "distinct (map fst kvs)"
  shows "dict_of kvs = kvs"
proof -
  have "foldl (\<lambda>d p. AList.update (fst p) (snd p) d) acc kvs = acc @ kvs"
    if "distinct (map fst (acc @ kvs))" for acc
    using that
  proof (induction kvs arbitrary: acc)
    case (Cons p kvs)
    have "AList.update k v acc = acc @ [(k, v)]" if "k \<notin> fst ` set acc" for k :: string and v :: json
      using that by (induction acc) auto
    then show ?case using Cons.IH[of "acc @ [p]"] Cons.prems by auto
  qed simp
  from this[of "[]"] show ?thesis using assms by (simp add: dict_of_def)
qed

lemma dumps_hd:
  assumes "json_ok v"
  shows "\<exists>c t. dumps isep ksep v = c # t \<and> \<not> is_json_space c \<and> c \<noteq> CHR '']''"
proof (cases v)
  case (JInt i)
  obtain c t where "show_nat (nat \<bar>i\<bar>) = c # t" by (cases "show_nat (nat \<bar>i\<bar>)") auto
  moreover from this have "is_digit c" using show_nat_digits[of c "nat \<bar>i\<bar>"] by simp
  ultimately show ?thesis using JInt by (auto simp: show_int_def is_json_space_def is_digit_def code_def)
next
  case (JStr s)
  then show ?thesis using dumps_str_hd[of s] by (auto simp: is_json_space_def code_def)
qed (use assms in \<open>auto simp: is_json_space_def code_def\<close>)

lemma skip_before:
  assumes "json_ok v" and "list_all is_json_space w"
  shows "skip_json_space (w @ dumps isep ksep v @ s) = dumps isep ksep v @ s"
proof -
  obtain c t where "dumps isep ksep v = c # t" "\<not> is_json_space c" using dumps_hd[OF assms(1)] by blast
  then show ?thesis using assms(2) by (simp add: dropWhile_append list_all_iff)
qed

definition reads_back :: "string \<Rightarrow> string \<Rightarrow> json \<Rightarrow> bool" where
  "reads_back isep ksep v \<longleftrightarrow>
     (\<forall>n r. depth_need v \<le> n \<longrightarrow> value_end r \<longrightarrow> scan_value n (dumps isep ksep v @ r) = Some (v, r))"

lemma scan_items_dumps:
  assumes "vs \<noteq> []" and "\<forall>v \<in> set vs. json_ok v \<and> reads_back (CHR '','' # w) ksep v" and "list_all is_json_space w"
    and "sum_list (map (\<lambda>v. 1 + depth_need v) vs) \<le> n"
  shows "scan_items n (join_with (CHR '','' # w) (map (dumps (CHR '','' # w) ksep) vs) @ CHR '']'' # r) = Some (vs, r)"
  using assms
proof (induction vs arbitrary: n rule: induct_list012)
  case (2 v)
  then obtain m where m: "n = Suc m" "depth_need v \<le> m" by (cases n) auto
  then have "scan_value m (dumps (CHR '','' # w) ksep v @ CHR '']'' # r) = Some (v, CHR '']'' # r)"
    using 2 by (simp add: reads_back_def value_end_def)
  then show ?case using m by (simp add: is_json_space_def code_def)
next
  case (3 v v1 vs)
  let ?d = "dumps (CHR '','' # w) ksep" and ?j = "join_with (CHR '','' # w)"
  obtain m where m: "n = Suc m" "depth_need v \<le> m" "sum_list (map (\<lambda>v. 1 + depth_need v) (v1 # vs)) \<le> m"
    using "3.prems" by (cases n) auto
  have "scan_value m (?d v @ CHR '','' # w @ ?j (map ?d (v1 # vs)) @ CHR '']'' # r) =
      Some (v, CHR '','' # w @ ?j (map ?d (v1 # vs)) @ CHR '']'' # r)"
    using "3.prems" m by (simp add: reads_back_def value_end_def)
  moreover have "scan_items m (?j (map ?d (v1 # vs)) @ CHR '']'' # r) = Some (v1 # vs, r)"
    using "3.IH"(2)[OF _ _ _ m(3)] "3.prems" by simp
  moreover have "\<exists>s. ?j (map ?d (v1 # vs)) @ CHR '']'' # r = ?d v1 @ s" by (cases vs) auto
  then have "skip_json_space (w @ ?j (map ?d (v1 # vs)) @ CHR '']'' # r) = ?j (map ?d (v1 # vs)) @ CHR '']'' # r"
    using skip_before[of v1 w] "3.prems" by auto
  ultimately show ?case using m(1) by (simp add: is_json_space_def code_def)
qed simp

abbreviation dumps_member :: "string \<Rightarrow> string \<Rightarrow> string \<times> json \<Rightarrow> string" where
  "dumps_member isep ksep \<equiv> \<lambda>p. dumps_str (fst p) @ ksep @ dumps isep ksep (snd p)"

lemma members_quote: "kvs \<noteq> [] \<Longrightarrow> \<exists>t. join_with isep (map (dumps_member isep ksep) kvs) = CHR 0x22 # t"
  by (cases kvs; cases "tl kvs") (auto simp: dumps_str_def)

lemma scan_members_dumps:
  assumes "kvs \<noteq> []" and "\<forall>p \<in> set kvs. json_ok (snd p) \<and> reads_back (CHR '','' # w) (CHR '':'' # u) (snd p)"
    and "list_all is_json_space w" and "list_all is_json_space u"
    and "sum_list (map (\<lambda>p. 1 + depth_need (snd p)) kvs) \<le> n"
  shows "scan_members n (tl (join_with (CHR '','' # w) (map (dumps_member (CHR '','' # w) (CHR '':'' # u)) kvs)) @ CHR ''}'' # r) =
    Some (kvs, r)"
  using assms
proof (induction kvs arbitrary: n rule: induct_list012)
  case (2 p)
  let ?d = "dumps (CHR '','' # w) (CHR '':'' # u)"
  from 2 obtain m where m: "n = Suc m" "depth_need (snd p) \<le> m" by (cases n) auto
  have "scan_value m (?d (snd p) @ CHR ''}'' # r) = Some (snd p, CHR ''}'' # r)"
    using 2 m by (simp add: reads_back_def value_end_def)
  moreover have "skip_json_space (u @ ?d (snd p) @ CHR ''}'' # r) = ?d (snd p) @ CHR ''}'' # r"
    using skip_before[of "snd p" u] 2 by simp
  ultimately show ?case
    using m scan_dumps_str[of "fst p"] by (simp add: is_json_space_def code_def)
next
  case (3 p q kvs)
  let ?d = "dumps (CHR '','' # w) (CHR '':'' # u)"
    and ?j = "\<lambda>ps. join_with (CHR '','' # w) (map (dumps_member (CHR '','' # w) (CHR '':'' # u)) ps)"
  obtain m where m: "n = Suc m" "depth_need (snd p) \<le> m" "sum_list (map (\<lambda>p. 1 + depth_need (snd p)) (q # kvs)) \<le> m"
    using "3.prems" by (cases n) auto
  obtain t0 where t0: "?j (q # kvs) = CHR 0x22 # t0" using members_quote[of "q # kvs"] by blast
  define t where "t = t0 @ CHR ''}'' # r"
  have "tl (?j (p # q # kvs)) @ CHR ''}'' # r =
      tl (dumps_str (fst p)) @ CHR '':'' # u @ ?d (snd p) @ CHR '','' # w @ CHR 0x22 # t"
    using t0 by (simp add: t_def)
  moreover have "scan_value m (?d (snd p) @ CHR '','' # w @ CHR 0x22 # t) = Some (snd p, CHR '','' # w @ CHR 0x22 # t)"
    using "3.prems" m by (simp add: reads_back_def value_end_def)
  moreover have "skip_json_space (u @ ?d (snd p) @ s) = ?d (snd p) @ s" for s
    using skip_before[of "snd p" u] "3.prems" by simp
  moreover have "scan_members m t = Some (q # kvs, r)" using "3.IH"(2)[OF _ _ _ _ m(3)] "3.prems" t0 by (simp add: t_def)
  moreover have "skip_json_space (w @ CHR 0x22 # t) = CHR 0x22 # t"
    using "3.prems"(3) by (simp add: dropWhile_append list_all_iff is_json_space_def code_def)
  ultimately show ?case
    using m(1) scan_dumps_str[of "fst p"] by (simp add: is_json_space_def code_def)
qed simp

lemma scan_value_consts:
  "1 \<le> n \<Longrightarrow> scan_value n (''null'' @ r) = Some (JNull, r)"
  "1 \<le> n \<Longrightarrow> scan_value n (''true'' @ r) = Some (JBool True, r)"
  "1 \<le> n \<Longrightarrow> scan_value n (''false'' @ r) = Some (JBool False, r)"
  by (cases n; auto simp: scan_number_def is_digit_def code_def scan_const_def json_consts_def starts_with_def)+

lemma reads_back_str: "reads_back isep ksep (JStr s)"
proof -
  have "scan_value n (dumps_str s @ r) = Some (JStr s, r)" if "1 \<le> n" for n r
    using that scan_dumps_str[of s r] by (cases n; cases "dumps_str s") (auto simp: dumps_str_def)
  then show ?thesis by (simp add: reads_back_def)
qed

lemma reads_back_bool: "reads_back isep ksep (JBool b)"
  using scan_value_consts(2,3) by (cases b) (simp_all add: reads_back_def)

lemma dumps_reads_back:
  assumes "list_all is_json_space w" and "list_all is_json_space u"
  shows "json_ok v \<Longrightarrow> reads_back (CHR '','' # w) (CHR '':'' # u) v"
proof (induction v rule: json_ok.induct)
  case (1 i)
  have "scan_value n (show_int i @ r) = Some (JInt i, r)" if "1 \<le> n" "value_end r" for n r
  proof -
    from that obtain m where m: "n = Suc m" by (cases n) auto
    obtain c t where ct: "show_int i = c # t" "c = CHR ''-'' \<or> is_digit c"
      using show_nat_digits[of "hd (show_nat (nat i))" "nat i"] by (cases "i < 0"; cases "show_nat (nat i)") (auto simp: show_int_def)
    then have "c \<noteq> CHR 0x22" "c \<noteq> CHR ''{''" "c \<noteq> CHR ''[''" by (auto simp: is_digit_def code_def)
    then show ?thesis using scan_number_int[OF _ that(2), of i] 1 m ct by simp
  qed
  then show ?case by (simp add: reads_back_def)
next
  case (3 vs)
  show ?case
  proof (cases "vs = []")
    case True
    have "scan_value n (''[]'' @ r) = Some (JList [], r)" if "1 \<le> n" for n r
      using that by (cases n) (auto simp: is_json_space_def code_def)
    then show ?thesis using True by (simp add: reads_back_def)
  next
    case False
    let ?j = "join_with (CHR '','' # w) (map (dumps (CHR '','' # w) (CHR '':'' # u)) vs)"
    have "\<exists>c t. ?j = c # t \<and> \<not> is_json_space c \<and> c \<noteq> CHR '']''"
      using False dumps_hd[of "hd vs" "CHR '','' # w" "CHR '':'' # u"] "3.prems" by (cases vs; cases "tl vs") auto
    then obtain c t where ct: "?j = c # t" "\<not> is_json_space c" "c \<noteq> CHR '']''" by blast
    have "scan_value n (''['' @ ?j @ '']'' @ r) = Some (JList vs, r)" if "depth_need (JList vs) \<le> n" for n r
      using scan_items_dumps[OF False _ assms(1), of "CHR '':'' # u" "n - 1" r] that 3 ct by (cases n) auto
    then show ?thesis by (simp add: reads_back_def)
  qed
next
  case (4 kvs)
  show ?case
  proof (cases "kvs = []")
    case True
    have "scan_value n (''{}'' @ r) = Some (JObj [], r)" if "1 \<le> n" for n r
      using that by (cases n) (auto simp: is_json_space_def code_def)
    then show ?thesis using True by (simp add: reads_back_def)
  next
    case False
    let ?j = "join_with (CHR '','' # w) (map (dumps_member (CHR '','' # w) (CHR '':'' # u)) kvs)"
    obtain t where t: "?j = CHR 0x22 # t" using members_quote[OF False] by blast
    have "scan_value n (''{'' @ ?j @ ''}'' @ r) = Some (JObj kvs, r)" if "depth_need (JObj kvs) \<le> n" for n r
      using scan_members_dumps[OF False _ assms, of "n - 1" r] that 4 t dict_of_distinct[of kvs]
      by (cases n) (auto simp: is_json_space_def code_def)
    then show ?thesis by (simp add: reads_back_def)
  qed
next
  case "5_1"
  show ?case using scan_value_consts(1) by (simp add: reads_back_def)
qed (rule reads_back_bool reads_back_str | simp)+

lemma length_join: "ps \<noteq> [] \<Longrightarrow> sum_list (map length ps) + (length ps - 1) \<le> length (join_with (c # w) ps)"
  by (induction ps rule: induct_list012) auto

lemma depth_need_length: "json_ok v \<Longrightarrow> depth_need v \<le> 2 * length (dumps (CHR '','' # w) (CHR '':'' # u) v)"
proof (induction v rule: json_ok.induct)
  case (1 i)
  then show ?case using dumps_hd[of "JInt i" "CHR '','' # w" "CHR '':'' # u"] by auto
next
  case (3 vs)
  let ?d = "dumps (CHR '','' # w) (CHR '':'' # u)"
  have "sum_list (map (\<lambda>v. 1 + depth_need v) vs) \<le> sum_list (map (\<lambda>v. 1 + 2 * length (?d v)) vs)"
    using 3 by (intro sum_list_mono) auto
  also have "\<dots> = length vs + 2 * sum_list (map length (map ?d vs))" by (induction vs) auto
  finally show ?case using length_join[of "map ?d vs" "CHR '',''" w] by (cases vs) auto
next
  case (4 kvs)
  let ?d = "dumps (CHR '','' # w) (CHR '':'' # u)" and ?m = "dumps_member (CHR '','' # w) (CHR '':'' # u)"
  have "sum_list (map (\<lambda>p. 1 + depth_need (snd p)) kvs) \<le> sum_list (map (\<lambda>p. 1 + 2 * length (?m p)) kvs)"
    using 4 by (intro sum_list_mono) fastforce
  also have "\<dots> = length kvs + 2 * sum_list (map length (map ?m kvs))" by (induction kvs) auto
  finally show ?case using length_join[of "map ?m kvs" "CHR '',''" w] by (cases kvs) auto
qed (auto simp: dumps_str_def)

text \<open>\<open>loads\<close> reads back what \<open>dumps\<close> wrote, with the compact separators and with the default ones.\<close>

theorem loads_dumps:
  assumes "json_ok v" and "list_all is_json_space w" and "list_all is_json_space u"
  shows "loads (dumps (CHR '','' # w) (CHR '':'' # u) v) = Some v"
proof -
  let ?s = "dumps (CHR '','' # w) (CHR '':'' # u) v"
  have "skip_json_space ?s = ?s" using skip_before[OF assms(1), of "[]" _ _ "[]"] by simp
  moreover have "scan_value (2 * length ?s + 2) (?s @ []) = Some (v, [])"
    using dumps_reads_back[OF assms(2,3,1)] depth_need_length[OF assms(1), of w u] trans_le_add1
    unfolding reads_back_def by (metis value_end_def)
  ultimately show ?thesis by (simp add: loads_def Let_def)
qed

section \<open>The bound on the depth is enough\<close>

lemma scan_string_shorter: "scan_string s = Some (t, r) \<Longrightarrow> length r < length s"
proof (induction s arbitrary: t rule: scan_string.induct)
  case (2 c s)
  then show ?case by (fastforce split: if_splits list.splits option.splits)
qed simp

lemma dropWhile_shorter: "s \<noteq> [] \<Longrightarrow> p (hd s) \<Longrightarrow> length (dropWhile p s) < length s"
  by (cases s) (auto simp: less_Suc_eq_le length_dropWhile_le)

lemma scan_number_shorter:
  assumes "scan_number s = Some (v, r)"
  shows "length r < length s"
proof -
  obtain sign r0 where p1: "(if take 1 s = ''-'' then (''-'', tl s) else ([], s)) = (sign, r0)" by force
  obtain ds r1 where p2: "(if hd r0 = CHR ''0'' then (''0'', tl r0) else span_digits r0) = (ds, r1)" by (meson surj_pair)
  obtain fr r2 where p3: "(if take 1 r1 = ''.'' \<and> fst (span_digits (tl r1)) \<noteq> []
      then (CHR ''.'' # fst (span_digits (tl r1)), snd (span_digits (tl r1))) else ([], r1)) = (fr, r2)" by (meson surj_pair)
  define es where "es = (if take 1 (tl r2) \<in> {''-'', ''+''} then take 1 (tl r2) else [])"
  define eds where "eds = span_digits (drop (1 + length es) r2)"
  obtain ex r3 where p4: "(if take 1 r2 \<in> {''e'', ''E''} \<and> fst eds \<noteq> []
      then (take 1 r2 @ es @ fst eds, snd eds) else ([], r2)) = (ex, r3)" by (meson surj_pair)
  have r: "r = r3" and d: "r0 \<noteq> []" "is_digit (hd r0)"
    using assms unfolding scan_number_def p1 Let_def prod.case p2 p3 es_def[symmetric] eds_def[symmetric] p4
    by (auto split: if_splits)
  have "length r3 \<le> length r2"
    using p4 length_dropWhile_le[of is_digit "drop (1 + length es) r2"] by (auto simp: eds_def span_digits_def split: if_splits)
  also have "\<dots> \<le> length r1"
    using p3 length_dropWhile_le[of is_digit "tl r1"] by (auto simp: span_digits_def split: if_splits)
  also have "\<dots> < length r0"
    using p2 d dropWhile_shorter[where p = is_digit, OF d] by (auto simp: span_digits_def split: if_splits)
  also have "\<dots> \<le> length s" using p1 by (auto split: if_splits)
  finally show ?thesis using r by simp
qed

lemma scan_const_shorter: "scan_const s = Some (v, r) \<Longrightarrow> length r < length s"
  by (cases s) (auto simp: scan_const_def json_consts_def starts_with_def split: if_splits)

lemma skip_shorter: "skip_json_space r = q # r1 \<Longrightarrow> length r1 < length r"
  by (metis Suc_le_eq length_Cons length_dropWhile_le)

lemma scan_shorter:
  shows scan_value_shorter: "scan_value n s = Some (v, r) \<Longrightarrow> length r < length s"
    and scan_items_shorter: "scan_items n s = Some (vs, r) \<Longrightarrow> length r < length s"
    and scan_members_shorter: "scan_members n s = Some (kvs, r) \<Longrightarrow> length r < length s"
proof (induction n arbitrary: s v vs kvs r)
  case (Suc n)
  {
    case 1
    then show ?case
      by (auto split: list.splits if_splits option.splits
          dest!: scan_string_shorter scan_number_shorter scan_const_shorter skip_shorter Suc.IH(2,3))
  next
    case 2
    then show ?case by (auto split: list.splits if_splits option.splits dest!: skip_shorter Suc.IH(1,2) less_le_trans[OF _ length_dropWhile_le])
  next
    case 3
    then show ?case
      by (auto split: list.splits if_splits option.splits dest!: scan_string_shorter skip_shorter Suc.IH(1,3)
          less_le_trans[OF _ length_dropWhile_le])
  }
qed simp_all

lemma scan_enough:
  shows scan_value_enough: "2 * length s + 1 \<le> n \<Longrightarrow> 2 * length s + 1 \<le> m \<Longrightarrow> scan_value n s = scan_value m s"
    and scan_items_enough: "2 * length s + 2 \<le> n \<Longrightarrow> 2 * length s + 2 \<le> m \<Longrightarrow> scan_items n s = scan_items m s"
    and scan_members_enough: "2 * length s + 2 \<le> n \<Longrightarrow> 2 * length s + 2 \<le> m \<Longrightarrow> scan_members n s = scan_members m s"
proof (induction n arbitrary: s m)
  case (Suc n)
  {
    case 1
    then obtain k where k: "m = Suc k" "2 * length s \<le> k" "2 * length s \<le> n" by (cases m) auto
    have "scan_items n t = scan_items k t" "scan_members n t = scan_members k t" if "length t < length s" for t
      using that k by (intro Suc.IH(2,3); simp)+
    note e = this
    show ?case
    proof (cases s)
      case (Cons c r)
      show ?thesis
      proof (cases "skip_json_space r")
        case q: (Cons q r1)
        have "length (q # r1) \<le> length r" using length_dropWhile_le[of is_json_space r] by (simp add: q)
        then have "scan_items n (q # r1) = scan_items k (q # r1)" "scan_members n r1 = scan_members k r1"
          using Cons by (intro e; simp)+
        then show ?thesis by (simp add: k(1) Cons q)
      qed (simp add: k(1) Cons del: dropWhile_eq_Nil_conv)
    qed (simp add: k(1))
  next
    case 2
    then obtain k where k: "m = Suc k" "2 * length s + 1 \<le> k" "2 * length s + 1 \<le> n" by (cases m) auto
    have "scan_items n t = scan_items k t" if "length t < length s" for t using that k by (intro Suc.IH(2)) simp_all
    moreover have "scan_value n s = scan_value k s" by (rule Suc.IH(1)[OF k(3,2)])
    moreover have "length (skip_json_space r1) < length s" if "scan_value k s = Some (v, r)" "skip_json_space r = q # r1" for v r q r1
      using scan_value_shorter[OF that(1)] skip_shorter[OF that(2)] length_dropWhile_le[of is_json_space r1] by linarith
    ultimately show ?case unfolding k(1) by (auto split: list.split option.split simp del: dropWhile_eq_Nil_conv)
  next
    case 3
    then obtain k where k: "m = Suc k" "2 * length s + 1 \<le> k" "2 * length s + 1 \<le> n" by (cases m) auto
    have "scan_members n t = scan_members k t" if "length t < length s" for t using that k by (intro Suc.IH(3)) simp_all
    moreover have "scan_value n t = scan_value k t" if "length t < length s" for t using that k by (intro Suc.IH(1)) simp_all
    moreover have "length (skip_json_space r1) < length s" if "scan_string s = Some (a, r)" "skip_json_space r = q # r1" for a r q r1
      using scan_string_shorter[OF that(1)] skip_shorter[OF that(2)] length_dropWhile_le[of is_json_space r1] by linarith
    moreover have "length t < length s" if "scan_value k u = Some (v, r)" "length u < length s" "skip_json_space r = q # r1"
      "skip_json_space r1 = q2 # t" for v r u q r1 q2 t
      using scan_value_shorter[OF that(1)] that(2) skip_shorter[OF that(3)] skip_shorter[OF that(4)] by linarith
    ultimately show ?case unfolding k(1) by (auto split: list.split option.split simp del: dropWhile_eq_Nil_conv)
  }
qed simp_all

end
