(* ===== verification/Event_Json.thy ===== *)
theory Event_Json
  imports Event_Types Identity_Index Json Datetime
begin

text \<open>
  The events as texts on Redis: \<open>_default\<close>, \<open>_jsonify_flow\<close> and \<open>_jsonify_identity\<close> of
  \<open>common/src/ztna_common/redis_bus.py\<close>, and the dictionaries that \<open>json.loads\<close> gives the consumers. A consumer of
  the model sees an event through its record: the views below exist for dictionaries whose values have the types
  of the \<open>TypedDict\<close>s, as the producers write them.
\<close>

section \<open>Writing\<close>

definition opt_json :: "string option \<Rightarrow> json" where
  "opt_json x = (case x of None \<Rightarrow> JNull | Some s \<Rightarrow> JStr s)"

definition flow_json :: "flow_event \<Rightarrow> json" where
  "flow_json ev = JObj [(''ts'', JStr (isoformat (fe_ts ev))), (''src_ip'', JStr (fe_src_ip ev)), (''src_port'', JInt (fe_src_port ev)),
     (''dst_ip'', JStr (fe_dst_ip ev)), (''dst_port'', JInt (fe_dst_port ev)), (''proto'', JInt (fe_proto ev)),
     (''bytes'', JInt (fe_bytes ev)), (''packets'', JInt (fe_packets ev)), (''action'', opt_json (fe_action ev)),
     (''fqdn'', opt_json (fe_fqdn ev)), (''app_id'', opt_json (fe_app_id ev)), (''source'', JStr (fe_source ev)),
     (''raw_id'', opt_json (fe_raw_id ev))]"

definition jsonify_flow :: "flow_event \<Rightarrow> string" where
  "jsonify_flow ev = dumps '','' '':'' (flow_json ev)"

definition identity_json :: "identity_event \<Rightarrow> json" where
  "identity_json ev = JObj [(''ts'', JStr (isoformat (ie_ts ev))), (''src_ip'', JStr (ie_src_ip ev)), (''user_upn'', JStr (ie_user_upn ev)),
     (''source'', JStr (ie_source ev)), (''event_type'', JStr (ie_event_type ev)), (''confidence'', JInt (ie_confidence ev)),
     (''ttl_seconds'', JInt (ie_ttl_seconds ev)), (''mac'', opt_json (ie_mac ev)), (''raw_id'', opt_json (ie_raw_id ev))]"

definition jsonify_identity :: "identity_event \<Rightarrow> string" where
  "jsonify_identity ev = dumps '','' '':'' (identity_json ev)"

section \<open>Reading\<close>

text \<open>A flow read from the stream, its instant still a text.\<close>

record flow_msg =
  fm_ts :: "raw_ts option"
  fm_event :: flow_event

definition flow_of_json :: "json \<Rightarrow> flow_msg option" where
  "flow_of_json v = do {
     d \<leftarrow> as_obj v; ts \<leftarrow> opt_key as_str d ''ts''; src \<leftarrow> req_key as_str d ''src_ip''; sport \<leftarrow> req_key as_int d ''src_port'';
     dst \<leftarrow> req_key as_str d ''dst_ip''; dport \<leftarrow> req_key as_int d ''dst_port''; pr \<leftarrow> req_key as_int d ''proto'';
     by1 \<leftarrow> req_key as_int d ''bytes''; pk \<leftarrow> req_key as_int d ''packets''; act \<leftarrow> req_key as_opt d ''action'';
     fq \<leftarrow> req_key as_opt d ''fqdn''; app \<leftarrow> req_key as_opt d ''app_id''; sc \<leftarrow> req_key as_str d ''source'';
     rid \<leftarrow> req_key as_opt d ''raw_id'';
     Some \<lparr>fm_ts = map_option TsText ts, fm_event = \<lparr>fe_ts = 0, fe_src_ip = src, fe_src_port = sport, fe_dst_ip = dst, fe_dst_port = dport,
       fe_proto = pr, fe_bytes = by1, fe_packets = pk, fe_action = act, fe_fqdn = fq, fe_app_id = app, fe_source = sc, fe_raw_id = rid\<rparr>\<rparr> }"

definition flow_loads :: "string \<Rightarrow> flow_msg option" where
  "flow_loads s = Option.bind (loads s) flow_of_json"

definition identity_of_json :: "json \<Rightarrow> identity_dict option" where
  "identity_of_json v = do {
     d \<leftarrow> as_obj v; ts \<leftarrow> opt_key as_str d ''ts''; src \<leftarrow> opt_key as_str d ''src_ip''; upn \<leftarrow> opt_key as_str d ''user_upn'';
     sc \<leftarrow> opt_key as_str d ''source''; et \<leftarrow> opt_key as_str d ''event_type''; cf \<leftarrow> opt_key as_int d ''confidence'';
     ttl \<leftarrow> opt_key as_int d ''ttl_seconds'';
     Some \<lparr>id_ts = map_option TsText ts, id_src_ip = src, id_user_upn = upn, id_source = sc, id_event_type = et,
       id_confidence = cf, id_ttl_seconds = ttl\<rparr> }"

definition identity_loads :: "string \<Rightarrow> identity_dict option" where
  "identity_loads s = Option.bind (loads s) identity_of_json"

section \<open>What is written is read back\<close>

text \<open>Numbers below the digit limit and instants that a \<open>datetime\<close> can hold.\<close>

definition flow_ok :: "flow_event \<Rightarrow> bool" where
  "flow_ok ev \<longleftrightarrow> representable (fe_ts ev) \<and> \<bar>fe_src_port ev\<bar> < 10 ^ 30 \<and> \<bar>fe_dst_port ev\<bar> < 10 ^ 30 \<and>
     \<bar>fe_proto ev\<bar> < 10 ^ 30 \<and> \<bar>fe_bytes ev\<bar> < 10 ^ 30 \<and> \<bar>fe_packets ev\<bar> < 10 ^ 30"

definition identity_ok :: "identity_event \<Rightarrow> bool" where
  "identity_ok ev \<longleftrightarrow> representable (ie_ts ev) \<and> \<bar>ie_confidence ev\<bar> < 10 ^ 30 \<and> \<bar>ie_ttl_seconds ev\<bar> < 10 ^ 30"

lemma loads_compact: "json_ok v \<Longrightarrow> loads (dumps '','' '':'' v) = Some v"
  using loads_dumps[of v "[]" "[]"] by simp

lemma json_ok_opt [simp]: "json_ok (opt_json x)"
  by (cases x) (simp_all add: opt_json_def)

lemma as_opt_json [simp]: "as_opt (opt_json x) = Some x"
  by (cases x) (simp_all add: opt_json_def as_opt_def)

lemma flow_loads_back:
  assumes "flow_ok ev"
  shows "flow_loads (jsonify_flow ev) = Some \<lparr>fm_ts = Some (TsText (isoformat (fe_ts ev))), fm_event = ev\<lparr>fe_ts := 0\<rparr>\<rparr>"
proof -
  have "json_ok (flow_json ev)" using assms show_int_short by (simp add: flow_json_def flow_ok_def)
  moreover have "flow_of_json (flow_json ev) = Some \<lparr>fm_ts = Some (TsText (isoformat (fe_ts ev))), fm_event = ev\<lparr>fe_ts := 0\<rparr>\<rparr>"
    by (simp add: flow_of_json_def flow_json_def as_obj_def opt_key_def req_key_def as_str_def as_int_def)
  ultimately show ?thesis by (simp add: flow_loads_def jsonify_flow_def loads_compact)
qed

text \<open>The dictionary that the consumer of an identity event gets.\<close>

definition wire_dict :: "identity_event \<Rightarrow> identity_dict" where
  "wire_dict ev = \<lparr>id_ts = Some (TsText (isoformat (ie_ts ev))), id_src_ip = Some (ie_src_ip ev),
     id_user_upn = Some (ie_user_upn ev), id_source = Some (ie_source ev),
     id_event_type = Some (ie_event_type ev), id_confidence = Some (ie_confidence ev),
     id_ttl_seconds = Some (ie_ttl_seconds ev)\<rparr>"

lemma identity_loads_back:
  assumes "identity_ok ev"
  shows "identity_loads (jsonify_identity ev) = Some (wire_dict ev)"
proof -
  have "json_ok (identity_json ev)" using assms show_int_short by (simp add: identity_json_def identity_ok_def)
  moreover have "identity_of_json (identity_json ev) = Some (wire_dict ev)"
    by (simp add: identity_of_json_def identity_json_def wire_dict_def as_obj_def opt_key_def as_str_def as_int_def)
  ultimately show ?thesis by (simp add: identity_loads_def jsonify_identity_def loads_compact)
qed

end
