(* ===== verification/Redis_Bus.thy ===== *)
theory Redis_Bus
  imports Event_Json Bounded_Queue
begin

text \<open>
  The producers of the two Redis streams: \<open>common/src/ztna_common/redis_bus.py\<close>. The
  outcome of executing a pipeline is the parameter \<open>exec\<close>, the exception it
  raises if any. A call returns the new state, its own outcome and the commands it sent.
\<close>

section \<open>The batching flow publisher\<close>

record xadd_cmd =
  xa_stream :: string
  xa_payload :: string
  xa_maxlen :: "int option"

record flow_publisher =
  fp_stream :: string
  fp_max_batch :: int
  fp_maxlen :: "int option"
  fp_buf :: "string list"

definition new_flow_publisher :: "string \<Rightarrow> int \<Rightarrow> int option \<Rightarrow> flow_publisher" where
  "new_flow_publisher stream max_batch maxlen =
     \<lparr>fp_stream = stream, fp_max_batch = max_batch, fp_maxlen = maxlen, fp_buf = []\<rparr>"

definition xadd_of :: "flow_publisher \<Rightarrow> string \<Rightarrow> xadd_cmd" where
  "xadd_of p payload = \<lparr>xa_stream = fp_stream p, xa_payload = payload, xa_maxlen = fp_maxlen p\<rparr>"

definition flush_locked :: "(xadd_cmd list \<Rightarrow> py_error option) \<Rightarrow> flow_publisher \<Rightarrow>
    flow_publisher \<times> (py_error + unit) \<times> xadd_cmd list" where
  "flush_locked exec p =
     (if fp_buf p = [] then (p, Inr (), [])
      else let cmds = map (xadd_of p) (fp_buf p) in
        (p\<lparr>fp_buf := []\<rparr>, (case exec cmds of None \<Rightarrow> Inr () | Some e \<Rightarrow> Inl e), cmds))"

definition publish_flow :: "(xadd_cmd list \<Rightarrow> py_error option) \<Rightarrow> flow_publisher \<Rightarrow>
    flow_event \<Rightarrow> flow_publisher \<times> (py_error + unit) \<times> xadd_cmd list" where
  "publish_flow exec p ev =
     (let p1 = p\<lparr>fp_buf := fp_buf p @ [jsonify_flow ev]\<rparr> in
      if fp_max_batch p1 \<le> int (length (fp_buf p1)) then flush_locked exec p1 else (p1, Inr (), []))"

definition flush_flow :: "(xadd_cmd list \<Rightarrow> py_error option) \<Rightarrow> flow_publisher \<Rightarrow>
    flow_publisher \<times> (py_error + unit) \<times> xadd_cmd list" where
  "flush_flow exec p = flush_locked exec p"

fun publish_all :: "(xadd_cmd list \<Rightarrow> py_error option) \<Rightarrow> flow_publisher \<Rightarrow>
    flow_event list \<Rightarrow> flow_publisher \<times> xadd_cmd list" where
  "publish_all exec p [] = (p, [])"
| "publish_all exec p (ev # evs) =
     (case publish_flow exec p ev of (p1, _, cmds) \<Rightarrow>
      case publish_all exec p1 evs of (p2, cmds2) \<Rightarrow> (p2, cmds @ cmds2))"

section \<open>The identity producer\<close>

record stream_producer =
  pr_stream :: string
  pr_maxlen :: "int option"

definition xadd_identity :: "(xadd_cmd list \<Rightarrow> py_error option) \<Rightarrow>
    stream_producer \<Rightarrow> identity_event \<Rightarrow> (py_error + unit) \<times> xadd_cmd list" where
  "xadd_identity exec p ev =
     (let cmd = \<lparr>xa_stream = pr_stream p, xa_payload = jsonify_identity ev, xa_maxlen = pr_maxlen p\<rparr> in
      (case exec [cmd] of None \<Rightarrow> Inr () | Some e \<Rightarrow> Inl e, [cmd]))"

section \<open>Lemmas\<close>

lemma publish_flow_spec:
  assumes "publish_flow exec p ev = (p1, r, cmds)"
  shows "map xa_payload cmds @ fp_buf p1 = fp_buf p @ [jsonify_flow ev]"
    and "fp_max_batch p1 = fp_max_batch p"
    and "0 < fp_max_batch p \<Longrightarrow> int (length (fp_buf p)) < fp_max_batch p \<Longrightarrow>
      int (length (fp_buf p1)) < fp_max_batch p1"
  using assms by (auto simp: publish_flow_def flush_locked_def xadd_of_def Let_def comp_def split: if_splits)

lemma publish_all_spec:
  "publish_all exec p evs = (p1, cmds) \<Longrightarrow> 0 < fp_max_batch p \<Longrightarrow> int (length (fp_buf p)) < fp_max_batch p \<Longrightarrow>
   map xa_payload cmds @ fp_buf p1 = fp_buf p @ map jsonify_flow evs \<and> int (length (fp_buf p1)) < fp_max_batch p"
proof (induction evs arbitrary: p cmds)
  case (Cons ev evs)
  obtain p2 r c2 c3 where s: "publish_flow exec p ev = (p2, r, c2)"
    "publish_all exec p2 evs = (p1, c3)" "cmds = c2 @ c3"
    using Cons.prems(1) by (auto split: prod.splits)
  note st = publish_flow_spec[OF s(1)]
  have "map xa_payload c3 @ fp_buf p1 = fp_buf p2 @ map jsonify_flow evs \<and> int (length (fp_buf p1)) < fp_max_batch p2"
    using Cons.IH[OF s(2)] st Cons.prems by simp
  with st(1,2) s(3) show ?case by (metis append.assoc append_Cons append_Nil list.simps(9) map_append)
qed simp

section \<open>Properties\<close>

text \<open>
  The flow publisher sends each event once. From a fresh publisher, after any number of
  \<open>publish\<close> calls, whether or not the pipelines succeed, the payloads sent followed by those still
  buffered are the payloads of the events in order, and fewer than \<open>max_batch\<close> are buffered.
\<close>

theorem publisher_sends_once:
  assumes "publish_all exec (new_flow_publisher stream n ml) evs = (p, cmds)" and "0 < n"
  shows "map xa_payload cmds @ fp_buf p = map jsonify_flow evs \<and> int (length (fp_buf p)) < n"
  using publish_all_spec[OF assms(1)] assms(2) by (simp add: new_flow_publisher_def)

theorem publisher_sends_once_witness:
  "\<exists>p cmds. publish_all (\<lambda>_. None) (new_flow_publisher ''flows.raw'' 50 None) [] = (p, cmds) \<and>
     map xa_payload cmds @ fp_buf p = []"
proof -
  obtain p cmds where r: "publish_all (\<lambda>_. None) (new_flow_publisher ''flows.raw'' 50 None) [] = (p, cmds)"
    by (cases "publish_all (\<lambda>_. None) (new_flow_publisher ''flows.raw'' 50 None) []")
  from publisher_sends_once[OF r] r show ?thesis by auto
qed

text \<open>
  A failed flush loses its batch, and a short batch waits. When the pipeline raises, the
  exception is passed on and the buffer is emptied, so the events are never sent again; and as long
  as fewer than \<open>max_batch\<close> events have been published nothing is sent at all, whatever time passes
  (\<open>max_wait_ms\<close> has no effect).
\<close>

theorem flush_failure_loses_batch:
  assumes "fp_buf p \<noteq> []" and "exec (map (xadd_of p) (fp_buf p)) = Some e"
  shows "\<exists>p1 cmds. flush_flow exec p = (p1, Inl e, cmds) \<and> fp_buf p1 = [] \<and>
    (\<forall>f evs. int (length evs) < fp_max_batch p \<longrightarrow>
       publish_all f (p1) evs = (p1\<lparr>fp_buf := map jsonify_flow evs\<rparr>, []))"
proof -
  let ?p = "p\<lparr>fp_buf := []\<rparr>"
  have w: "publish_all f q evs = (q\<lparr>fp_buf := fp_buf q @ map jsonify_flow evs\<rparr>, [])"
    if "int (length (fp_buf q)) + int (length evs) < fp_max_batch q" for f q evs
    using that
  proof (induction evs arbitrary: q)
    case (Cons ev evs)
    let ?q = "q\<lparr>fp_buf := fp_buf q @ [jsonify_flow ev]\<rparr>"
    have "publish_flow f q ev = (?q, Inr (), [])"
      using Cons.prems by (simp add: publish_flow_def Let_def)
    then show ?case using Cons.IH[of ?q] Cons.prems by simp
  qed simp
  have "flush_flow exec p = (?p, Inl e, map (xadd_of p) (fp_buf p))"
    using assms by (simp add: flush_flow_def flush_locked_def Let_def)
  then show ?thesis using w[of ?p] by auto
qed

theorem flush_failure_loses_batch_witness:
  "\<exists>p1 cmds. flush_flow (\<lambda>_. Some RuntimeError) \<lparr>fp_stream = ''flows.raw'', fp_max_batch = 50,
      fp_maxlen = None, fp_buf = [''{}'']\<rparr> = (p1, Inl RuntimeError, cmds) \<and> fp_buf p1 = []"
  using flush_failure_loses_batch[of "\<lparr>fp_stream = ''flows.raw'', fp_max_batch = 50, fp_maxlen = None,
      fp_buf = [''{}'']\<rparr>" "\<lambda>_. Some RuntimeError" RuntimeError] by auto

end
