(* ===== verification/Flow_Ingest.thy ===== *)
theory Flow_Ingest
  imports Fortigate Palo_Alto Syslog_Receiver Redis_Bus
begin

text \<open>
  The flow ingest process: \<open>flow-ingest/src/flow_ingest/main.py\<close>, the loop that both adapters share
  (\<open>run\<close> of \<open>fortigate_adapter.py\<close> and \<open>palo_alto_adapter.py\<close>) and the adapter configuration
  (\<open>common/src/ztna_common/config.py\<close>). The YAML reader is a parameter: the sorted file stems with the
  mapping each file holds.
\<close>

section \<open>Configuration\<close>

record yaml_data =
  yd_enabled :: "bool option"
  yd_source_ips :: "string list option"
  yd_options :: "(string, string) dict"

record adapter_config =
  cf_enabled :: bool
  cf_source_ips :: "string fset"
  cf_options :: "(string, string) dict"

text \<open>An empty file reads as \<open>None\<close>, which \<open>or {}\<close> turns into no keys.\<close>

definition config_of :: "yaml_data option \<Rightarrow> adapter_config" where
  "config_of y = (case y of
      None \<Rightarrow> \<lparr>cf_enabled = True, cf_source_ips = {||}, cf_options = []\<rparr>
    | Some d \<Rightarrow> \<lparr>cf_enabled = (case yd_enabled d of None \<Rightarrow> True | Some b \<Rightarrow> b),
        cf_source_ips = fset_of_list (case yd_source_ips d of None \<Rightarrow> [] | Some ips \<Rightarrow> ips),
        cf_options = filter (\<lambda>p. fst p \<notin> {''enabled'', ''source_ips''}) (yd_options d)\<rparr>)"

definition load_adapter_configs :: "(string \<times> yaml_data option) list option \<Rightarrow> (string, adapter_config) dict" where
  "load_adapter_configs dir = (case dir of None \<Rightarrow> []
     | Some files \<Rightarrow> foldl (\<lambda>d f. AList.update (fst f) (config_of (snd f)) d) [] files)"

section \<open>Adapters\<close>

datatype adapter_kind = PaloAlto | FortiGate

definition adapter_registry :: "(string, adapter_kind) dict" where
  "adapter_registry = [(''palo_alto'', PaloAlto), (''fortigate'', FortiGate)]"

definition list_enabled_adapters :: "(string, adapter_config) dict \<Rightarrow> string list" where
  "list_enabled_adapters configs =
     map fst (filter (\<lambda>p. cf_enabled (snd p) \<and> map_of adapter_registry (fst p) \<noteq> None) configs)"

record adapter =
  ad_kind :: adapter_kind
  ad_allow :: "string fset option"

definition parse_line :: "instant \<Rightarrow> adapter_kind \<Rightarrow> string \<Rightarrow>
    py_error + flow_event option" where
  "parse_line now k raw = (case k of
     PaloAlto \<Rightarrow> palo_alto_parse now raw | FortiGate \<Rightarrow> Inr (fortigate_parse now raw))"

text \<open>The body of \<open>run\<close> of either adapter up to the publication: the event of a message, if it is wanted and parses.\<close>

definition palo_alto_accept :: "instant \<Rightarrow> string fset option \<Rightarrow> message \<Rightarrow> flow_event option" where
  "palo_alto_accept now peer_allowlist msg = (case msg of (peer, raw) \<Rightarrow>
     if (case peer_allowlist of None \<Rightarrow> False | Some s \<Rightarrow> s \<noteq> {||} \<and> peer |\<notin>| s) then None
     else (case palo_alto_parse now raw of Inl _ \<Rightarrow> None | Inr r \<Rightarrow> r))"

definition fortigate_accept :: "instant \<Rightarrow> string fset option \<Rightarrow> message \<Rightarrow> flow_event option" where
  "fortigate_accept now peer_allowlist msg = (case msg of (peer, raw) \<Rightarrow>
     if (case peer_allowlist of None \<Rightarrow> False | Some s \<Rightarrow> s \<noteq> {||} \<and> peer |\<notin>| s) then None else fortigate_parse now raw)"

definition accept_message :: "instant \<Rightarrow> adapter \<Rightarrow> message \<Rightarrow>
    flow_event option" where
  "accept_message now a msg = (case ad_kind a of
     PaloAlto \<Rightarrow> palo_alto_accept now (ad_allow a) msg | FortiGate \<Rightarrow> fortigate_accept now (ad_allow a) msg)"

lemma accept_message_eq:
  "accept_message now a msg = (case msg of (peer, raw) \<Rightarrow>
     if (case ad_allow a of None \<Rightarrow> False | Some s \<Rightarrow> s \<noteq> {||} \<and> peer |\<notin>| s) then None
     else (case parse_line now (ad_kind a) raw of Inl _ \<Rightarrow> None | Inr r \<Rightarrow> r))"
  by (cases msg; cases "ad_kind a") (simp_all add: accept_message_def palo_alto_accept_def fortigate_accept_def parse_line_def)

text \<open>\<open>healthcheck\<close>\<close>

definition queued :: "receiver \<Rightarrow> nat" where
  "queued rc = length (items (rc_queue rc))"

record ingest =
  ig_receiver :: receiver
  ig_publisher :: flow_publisher
  ig_adapters :: "adapter list"

definition new_ingest :: "int \<Rightarrow> (string, adapter_config) dict \<Rightarrow> ingest" where
  "new_ingest queue_max configs =
     \<lparr>ig_receiver = new_receiver queue_max,
      ig_publisher = new_flow_publisher ''flows.raw'' 50 (Some 1000000),
      ig_adapters = map (\<lambda>name. \<lparr>ad_kind = the (map_of adapter_registry name),
        ad_allow = (let s = cf_source_ips (the (map_of configs name)) in if s = {||} then None else Some s)\<rparr>)
        (list_enabled_adapters configs)\<rparr>"

text \<open>
  One turn of the \<open>i\<close>-th adapter: it takes the next message of the one queue that all adapters read.
  An exception of the publisher leaves \<open>run\<close>, and with it the task. The commands sent to Redis are returned.
\<close>

definition adapter_turn :: "instant \<Rightarrow> (xadd_cmd list \<Rightarrow> py_error option) \<Rightarrow> nat \<Rightarrow> ingest \<Rightarrow>
    ingest \<times> (py_error + flow_event option) \<times> xadd_cmd list" where
  "adapter_turn now exec i g =
     (case get_nowait (rc_queue (ig_receiver g)) of
        Inl _ \<Rightarrow> (g, Inr None, [])
      | Inr (msg, q) \<Rightarrow>
          let g1 = g\<lparr>ig_receiver := (ig_receiver g)\<lparr>rc_queue := q\<rparr>\<rparr> in
          (case accept_message now (ig_adapters g ! i) msg of
             None \<Rightarrow> (g1, Inr None, [])
           | Some ev \<Rightarrow>
               (case publish_flow exec (ig_publisher g1) ev of
                  (p, Inl e, cmds) \<Rightarrow> (g1\<lparr>ig_publisher := p\<rparr>, Inl e, cmds)
                | (p, Inr _, cmds) \<Rightarrow> (g1\<lparr>ig_publisher := p\<rparr>, Inr (Some ev), cmds))))"

text \<open>The end of \<open>_run\<close>: after a signal the tasks are cancelled and the buffer is flushed.\<close>

definition ingest_shutdown :: "(xadd_cmd list \<Rightarrow> py_error option) \<Rightarrow> ingest \<Rightarrow> ingest \<times> (py_error + unit) \<times> xadd_cmd list" where
  "ingest_shutdown exec g = (case flush_flow exec (ig_publisher g) of (p, r, cmds) \<Rightarrow> (g\<lparr>ig_publisher := p\<rparr>, r, cmds))"

section \<open>Properties\<close>

text \<open>
  Which adapters run. Exactly the enabled files whose stem is a known adapter are started, once
  each, and an adapter's allowlist is the set of its source addresses, or none when that is empty.
\<close>

theorem enabled_adapters:
  assumes "distinct (map fst configs)"
  shows "set (list_enabled_adapters configs) =
      {n. \<exists>c. map_of configs n = Some c \<and> cf_enabled c \<and> n \<in> {''palo_alto'', ''fortigate''}} \<and>
    distinct (list_enabled_adapters configs)"
proof -
  have r: "map_of adapter_registry n \<noteq> None \<longleftrightarrow> n \<in> {''palo_alto'', ''fortigate''}" for n
    by (auto simp: adapter_registry_def)
  show ?thesis
    using assms unfolding list_enabled_adapters_def r
    by (auto simp: distinct_map_filter image_iff)
qed

theorem enabled_adapters_witness:
  "set (list_enabled_adapters [(''fortigate'', config_of None), (''other'', config_of None)]) = {''fortigate''}"
  using enabled_adapters[of "[(''fortigate'', config_of None), (''other'', config_of None)]"]
  by (auto simp: config_of_def)

text \<open>
  The adapters compete for messages. All adapters take from one queue, so which one sees a message
  is a matter of scheduling. If the adapter that takes the next message does not accept it (another
  vendor's line, or a peer outside its allowlist), the message is gone: it is removed from the queue and
  nothing is published, although the other adapter would have published it.
\<close>

theorem message_lost_to_wrong_adapter:
  assumes "items (rc_queue (ig_receiver g)) = msg # rest"
    and "accept_message now (ig_adapters g ! i) msg = Some ev"
    and "accept_message now (ig_adapters g ! j) msg = None"
  shows "fst (adapter_turn now exec j g) =
      g\<lparr>ig_receiver := (ig_receiver g)\<lparr>rc_queue := (rc_queue (ig_receiver g))\<lparr>items := rest\<rparr>\<rparr>\<rparr> \<and>
    snd (adapter_turn now exec j g) = (Inr None, []) \<and>
    (exec = (\<lambda>_. None) \<longrightarrow> fst (snd (adapter_turn now exec i g)) = Inr (Some ev))"
  using assms
  by (auto simp: adapter_turn_def get_nowait_def Let_def publish_flow_def flush_locked_def)

definition demo_line :: string where
  "demo_line = log_line (\<lambda>_. True) 134
     [(''type'', ''traffic''), (''subtype'', ''forward''), (''status'', ''close''), (''srcip'', ''a''), (''dstip'', ''b'')]"

definition both_adapters :: ingest where
  "both_adapters = \<lparr>ig_receiver = \<lparr>rc_queue = \<lparr>maxsize = 5, items = [(''10.0.0.9'', demo_line)]\<rparr>, rc_drops = 0\<rparr>,
     ig_publisher = new_flow_publisher ''flows.raw'' 50 None,
     ig_adapters = [\<lparr>ad_kind = FortiGate, ad_allow = None\<rparr>, \<lparr>ad_kind = PaloAlto, ad_allow = None\<rparr>]\<rparr>"

lemma demo_line_fortigate: "\<exists>ev. fortigate_parse 0 demo_line = Some ev \<and> fe_src_ip ev = ''a'' \<and> flow_ok ev"
proof -
  let ?ps = "[(''type'', ''traffic''), (''subtype'', ''forward''), (''status'', ''close''), (''srcip'', ''a''), (''dstip'', ''b'')]"
  have "\<forall>p \<in> set ?ps. pair_ok (\<lambda>_. True) p" by (simp add: pair_ok_def word_classes)
  then obtain d where "kv demo_line = Some d"
    "\<forall>k. map_of d k = map_option snd (find (\<lambda>p. fst p = k) (rev ?ps))"
    using kv_tagged[of ?ps "\<lambda>_. True" 134] by (auto simp: demo_line_def log_line_def)
  then show ?thesis
    by (simp add: fortigate_parse_def fortigate_event_def int_field_def flow_ok_def representable_def epoch_ord_def us_per_day_def)
qed

lemma demo_line_palo: "palo_alto_parse 0 demo_line = Inr None"
proof -
  have "show_nat 134 = ''134''" by code_simp
  then show ?thesis
    by (simp add: demo_line_def log_line_def palo_alto_parse_def render_def render_pair_def starts_with_def dquote_def)
qed

theorem message_lost_to_wrong_adapter_witness:
  "snd (adapter_turn 0 (\<lambda>_. None) 1 both_adapters) = (Inr None, []) \<and>
   items (rc_queue (ig_receiver (fst (adapter_turn 0 (\<lambda>_. None) 1 both_adapters)))) = []"
proof -
  let ?m = "(''10.0.0.9'', demo_line)"
  obtain ev where "accept_message 0 (ig_adapters both_adapters ! 0) ?m = Some ev"
    using demo_line_fortigate by (auto simp: accept_message_eq both_adapters_def parse_line_def)
  moreover have "accept_message 0 (ig_adapters both_adapters ! 1) ?m = None"
    using demo_line_palo by (simp add: accept_message_eq both_adapters_def parse_line_def)
  moreover have "items (rc_queue (ig_receiver both_adapters)) = ?m # []" by (simp add: both_adapters_def)
  ultimately show ?thesis
    using message_lost_to_wrong_adapter[of both_adapters ?m "[]" 0 0 ev 1 "\<lambda>_. None"] by simp
qed

end
