(* ===== verification/Windower.thy ===== *)
theory Windower
  imports Bounded_Queue Event_Types
begin

text \<open>
  The five-second tumbling window of the correlator:
  \<open>correlator/src/correlator/pipeline/windower.py\<close>. The state is the dictionary of open
  buckets, the output queue and the drop counter; a step is one turn of \<open>FlowWindower.run\<close>,
  either an event taken from the input queue or the timeout of \<open>wait_for\<close>.
\<close>

section \<open>State\<close>

record flow_key =
  k_src_ip :: string
  k_dst_ip :: string
  k_dst_port :: int
  k_proto :: int

record acc =
  acc_bytes :: int
  acc_packets :: int
  acc_flow_count :: int
  acc_app_id_seen :: "string option"
  acc_fqdn_seen :: "string option"
  acc_action_seen :: "string option"

definition empty_acc :: acc where
  "empty_acc = \<lparr>acc_bytes = 0, acc_packets = 0, acc_flow_count = 0,
     acc_app_id_seen = None, acc_fqdn_seen = None, acc_action_seen = None\<rparr>"

record windowed_flow =
  wf_bucket_start :: instant
  wf_window_s :: int
  wf_src_ip :: string
  wf_dst_ip :: string
  wf_dst_port :: int
  wf_proto :: int
  wf_bytes :: int
  wf_packets :: int
  wf_flow_count :: int
  wf_app_id :: "string option"
  wf_fqdn :: "string option"
  wf_action :: "string option"
  wf_lossy :: bool
  wf_dropped_count :: int

record windower =
  wd_out :: "windowed_flow aqueue"
  wd_window_s :: int
  wd_buckets :: "(instant, (flow_key, acc) dict) dict"
  wd_dropped :: int

definition new_windower :: "int \<Rightarrow> int \<Rightarrow> windower" where
  "new_windower qmax w =
     \<lparr>wd_out = \<lparr>maxsize = qmax, items = []\<rparr>, wd_window_s = w, wd_buckets = [], wd_dropped = 0\<rparr>"

section \<open>Operations\<close>

text \<open>
  \<open>int(ts.timestamp())\<close> truncates towards zero; \<open>%\<close> is the floor modulus, as \<open>mod\<close> is on
  \<open>int\<close>. The result is the instant of \<open>datetime.fromtimestamp(aligned)\<close>.
\<close>

definition epoch_seconds :: "instant \<Rightarrow> int" where
  "epoch_seconds ts = (if 0 \<le> ts then ts div us_per_s else - ((- ts) div us_per_s))"

definition bucket_start :: "int \<Rightarrow> instant \<Rightarrow> instant" where
  "bucket_start w ts =
     (let epoch = epoch_seconds ts; aligned = epoch - epoch mod w in aligned * us_per_s)"

definition mk_windowed_flow :: "windower \<Rightarrow> instant \<Rightarrow> flow_key \<Rightarrow> acc \<Rightarrow> windowed_flow" where
  "mk_windowed_flow w b key a =
     \<lparr>wf_bucket_start = b, wf_window_s = wd_window_s w,
      wf_src_ip = k_src_ip key, wf_dst_ip = k_dst_ip key,
      wf_dst_port = k_dst_port key, wf_proto = k_proto key,
      wf_bytes = acc_bytes a, wf_packets = acc_packets a, wf_flow_count = acc_flow_count a,
      wf_app_id = acc_app_id_seen a, wf_fqdn = acc_fqdn_seen a, wf_action = acc_action_seen a,
      wf_lossy = (wd_dropped w > 0), wf_dropped_count = wd_dropped w\<rparr>"

text \<open>
  The body of the emission loop: put, and on a full queue discard the oldest flow, count the
  drop and put again; a queue that is still full loses the new flow (a log line in the code).
\<close>

definition emit_one :: "windower \<Rightarrow> instant \<times> flow_key \<times> acc \<Rightarrow> windower" where
  "emit_one w x = (case x of (b, key, a) \<Rightarrow>
     let wf = mk_windowed_flow w b key a in
     (case put_nowait (wd_out w) wf of
        Inr q \<Rightarrow> w\<lparr>wd_out := q\<rparr>
      | Inl _ \<Rightarrow>
          let q1 = (case get_nowait (wd_out w) of Inl _ \<Rightarrow> wd_out w | Inr (_, q) \<Rightarrow> q);
              w1 = w\<lparr>wd_out := q1, wd_dropped := wd_dropped w + 1\<rparr>
          in (case put_nowait q1 wf of Inr q2 \<Rightarrow> w1\<lparr>wd_out := q2\<rparr> | Inl _ \<Rightarrow> w1)))"

text \<open>\<open>for key, acc in self._buckets.pop(b).items()\<close>, for each ready bucket in time order.\<close>

definition emit_bucket :: "windower \<Rightarrow> instant \<Rightarrow> windower" where
  "emit_bucket w b =
     (let slot = dict_get (wd_buckets w) b [];
          w1 = w\<lparr>wd_buckets := AList.delete b (wd_buckets w)\<rparr>
      in foldl (\<lambda>s (key, a). emit_one s (b, key, a)) w1 slot)"

definition threshold :: "windower \<Rightarrow> instant \<Rightarrow> instant" where
  "threshold w now = bucket_start (wd_window_s w) now - wd_window_s w * us_per_s"

definition ready_buckets :: "windower \<Rightarrow> instant \<Rightarrow> instant list" where
  "ready_buckets w now = filter (\<lambda>b. b \<le> threshold w now) (map fst (wd_buckets w))"

definition emit_ready :: "windower \<Rightarrow> instant \<Rightarrow> windower" where
  "emit_ready w now =
     (let ready = ready_buckets w now;
          w1 = foldl emit_bucket w (sort ready)
      in if ready \<noteq> [] then w1\<lparr>wd_dropped := 0\<rparr> else w1)"

definition event_key :: "flow_event \<Rightarrow> flow_key" where
  "event_key ev = \<lparr>k_src_ip = fe_src_ip ev, k_dst_ip = fe_dst_ip ev,
     k_dst_port = fe_dst_port ev, k_proto = fe_proto ev\<rparr>"

definition acc_add :: "flow_event \<Rightarrow> acc \<Rightarrow> acc" where
  "acc_add ev a = a\<lparr>acc_bytes := acc_bytes a + fe_bytes ev,
     acc_packets := acc_packets a + fe_packets ev,
     acc_flow_count := acc_flow_count a + 1,
     acc_app_id_seen := py_or (acc_app_id_seen a) (fe_app_id ev),
     acc_fqdn_seen := py_or (acc_fqdn_seen a) (fe_fqdn ev),
     acc_action_seen := py_or (acc_action_seen a) (fe_action ev)\<rparr>"

definition record_event :: "windower \<Rightarrow> flow_event \<Rightarrow> windower" where
  "record_event w ev =
     w\<lparr>wd_buckets := dict_alter (bucket_start (wd_window_s w) (fe_ts ev)) []
         (dict_alter (event_key ev) empty_acc (acc_add ev)) (wd_buckets w)\<rparr>"

datatype windower_input = Timeout instant | Event flow_event

text \<open>With \<open>window_s = 0\<close> the first statement of either branch raises.\<close>

definition windower_step :: "windower \<Rightarrow> windower_input \<Rightarrow> py_error + windower" where
  "windower_step w i =
     (if wd_window_s w = 0 then Inl ZeroDivisionError
      else Inr (case i of
          Timeout now \<Rightarrow> emit_ready w now
        | Event ev \<Rightarrow> emit_ready (record_event w ev) (fe_ts ev)))"

fun windower_run :: "windower \<Rightarrow> windower_input list \<Rightarrow> py_error + windower" where
  "windower_run w [] = Inr w"
| "windower_run w (i # is) =
     (case windower_step w i of Inl e \<Rightarrow> Inl e | Inr w1 \<Rightarrow> windower_run w1 is)"

section \<open>Views used by the lemmas\<close>

text \<open>
  \<open>wf_core\<close> forgets the loss flags of an emitted flow; \<open>offered\<close> lists what one flush offers
  to the output queue, in order; \<open>held\<close> totals a measure over everything the windower still
  holds, in the queue or in open buckets.
\<close>

definition wf_core :: "windowed_flow \<Rightarrow> instant \<times> flow_key \<times> acc" where
  "wf_core f = (wf_bucket_start f,
     \<lparr>k_src_ip = wf_src_ip f, k_dst_ip = wf_dst_ip f, k_dst_port = wf_dst_port f, k_proto = wf_proto f\<rparr>,
     \<lparr>acc_bytes = wf_bytes f, acc_packets = wf_packets f, acc_flow_count = wf_flow_count f,
      acc_app_id_seen = wf_app_id f, acc_fqdn_seen = wf_fqdn f, acc_action_seen = wf_action f\<rparr>)"

abbreviation wd_contents :: "windower \<Rightarrow> (instant \<times> flow_key \<times> acc) list" where
  "wd_contents w \<equiv> map wf_core (items (wd_out w))"

abbreviation wd_cap :: "windower \<Rightarrow> int" where
  "wd_cap w \<equiv> maxsize (wd_out w)"

definition offered_of :: "(instant, (flow_key, acc) dict) dict \<Rightarrow> instant list \<Rightarrow>
    (instant \<times> flow_key \<times> acc) list" where
  "offered_of d bs = concat (map (\<lambda>b. map (\<lambda>(key, a). (b, key, a)) (dict_get d b [])) bs)"

definition offered :: "windower \<Rightarrow> instant \<Rightarrow> (instant \<times> flow_key \<times> acc) list" where
  "offered w now = offered_of (wd_buckets w) (sort (ready_buckets w now))"

definition buckets_ok :: "windower \<Rightarrow> bool" where
  "buckets_ok w \<longleftrightarrow> distinct (map fst (wd_buckets w)) \<and>
     (\<forall>(b, slot) \<in> set (wd_buckets w). distinct (map fst slot))"

definition held :: "(instant \<times> flow_key \<times> acc \<Rightarrow> int) \<Rightarrow> windower \<Rightarrow> int" where
  "held m w = sum_list (map m (wd_contents w)) +
     (\<Sum>(b, slot) \<leftarrow> wd_buckets w. \<Sum>(key, a) \<leftarrow> slot. m (b, key, a))"

section \<open>Emission\<close>

lemma wf_core_mk [simp]: "wf_core (mk_windowed_flow w b key a) = (b, key, a)"
  by (cases key; cases a) (simp add: wf_core_def mk_windowed_flow_def)

lemma emit_one_room:
  "\<not> queue_full (wd_out w) \<Longrightarrow>
   emit_one w (b, key, a) =
     w\<lparr>wd_out := (wd_out w)\<lparr>items := items (wd_out w) @ [mk_windowed_flow w b key a]\<rparr>\<rparr>"
  by (simp add: emit_one_def put_nowait_def Let_def)

lemma emit_one_full:
  assumes "queue_full (wd_out w)" and "int (length (items (wd_out w))) \<le> wd_cap w"
  shows "emit_one w (b, key, a) =
     w\<lparr>wd_out := (wd_out w)\<lparr>items := tl (items (wd_out w)) @ [mk_windowed_flow w b key a]\<rparr>,
       wd_dropped := wd_dropped w + 1\<rparr>"
  using assms queue_full_tl[of "wd_out w"]
  by (simp add: emit_one_def put_nowait_def get_nowait_full Let_def)

lemma emit_one_frame [simp]:
  "wd_buckets (emit_one w x) = wd_buckets w"
  "wd_window_s (emit_one w x) = wd_window_s w"
  "emit_one (w\<lparr>wd_buckets := B\<rparr>) x = (emit_one w x)\<lparr>wd_buckets := B\<rparr>"
  by (auto simp: emit_one_def mk_windowed_flow_def Let_def split: prod.splits sum.splits)

interpretation wq: counting_drop_oldest emit_one wd_contents wd_cap wd_dropped
proof (standard, goal_cases)
  case (1 q x)
  then show ?case by (cases x) (simp add: emit_one_room queue_full_def)
next
  case (2 q x)
  then show ?case by (cases x) (simp add: emit_one_full queue_full_def map_tl)
next
  case (3 q x)
  then show ?case
    by (auto simp: emit_one_def put_nowait_def get_nowait_def Let_def
        split: prod.splits list.splits)
next
  case (4 q x)
  then show ?case by (cases x) (simp add: emit_one_room queue_full_def)
next
  case (5 q x)
  then show ?case by (cases x) (simp add: emit_one_full queue_full_def)
qed

lemma foldl_emit_frame [simp]:
  "wd_buckets (foldl emit_one w xs) = wd_buckets w"
  "wd_window_s (foldl emit_one w xs) = wd_window_s w"
  "foldl emit_one (w\<lparr>wd_buckets := B\<rparr>) xs = (foldl emit_one w xs)\<lparr>wd_buckets := B\<rparr>"
  by (induction xs arbitrary: w) simp_all

lemma emit_bucket_foldl:
  "emit_bucket w b = (foldl emit_one w (offered_of (wd_buckets w) [b]))
     \<lparr>wd_buckets := AList.delete b (wd_buckets w)\<rparr>"
proof -
  have "foldl (\<lambda>s (key, a). emit_one s (b, key, a)) s slot =
        foldl emit_one s (map (\<lambda>(key, a). (b, key, a)) slot)" for s slot
    by (induction slot arbitrary: s) auto
  then show ?thesis by (simp add: emit_bucket_def offered_of_def Let_def)
qed

lemma dict_get_delete: "b \<noteq> c \<Longrightarrow> dict_get (AList.delete b d) c v = dict_get d c v"
  by (simp add: dict_get_def)

lemma offered_of_delete: "b \<notin> set bs \<Longrightarrow> offered_of (AList.delete b d) bs = offered_of d bs"
  by (induction bs) (auto simp: offered_of_def dict_get_delete)

lemma foldl_emit_bucket:
  "distinct bs \<Longrightarrow> foldl emit_bucket w bs =
     (foldl emit_one w (offered_of (wd_buckets w) bs))
       \<lparr>wd_buckets := fold AList.delete bs (wd_buckets w)\<rparr>"
proof (induction bs arbitrary: w)
  case Nil
  then show ?case by (simp add: offered_of_def)
next
  case (Cons b bs)
  let ?w = "foldl emit_one w (offered_of (wd_buckets w) [b])"
  have "offered_of (wd_buckets w) (b # bs) = offered_of (wd_buckets w) [b] @ offered_of (wd_buckets w) bs"
    by (simp add: offered_of_def)
  with Cons show ?case
    by (simp add: emit_bucket_foldl offered_of_delete)
qed

lemma fold_delete_filter: "fold AList.delete bs d = filter (\<lambda>p. fst p \<notin> set bs) d"
proof (induction bs arbitrary: d)
  case (Cons b bs)
  have "AList.delete b d = filter (\<lambda>p. fst p \<noteq> b) d"
    by (auto simp: AList.delete_eq split_def intro: filter_cong)
  with Cons show ?case by (auto intro: filter_cong)
qed simp

lemma emit_ready_unfold:
  assumes "buckets_ok w"
  shows "emit_ready w now =
    (foldl emit_one w (offered w now))
      \<lparr>wd_buckets := filter (\<lambda>p. threshold w now < fst p) (wd_buckets w),
       wd_dropped := (if ready_buckets w now = [] then wd_dropped w else 0)\<rparr>"
proof -
  have d: "distinct (sort (ready_buckets w now))"
    using assms by (simp add: buckets_ok_def ready_buckets_def)
  have f: "filter (\<lambda>p. fst p \<notin> set (ready_buckets w now)) (wd_buckets w) =
      filter (\<lambda>p. threshold w now < fst p) (wd_buckets w)"
    by (rule filter_cong) (auto simp: ready_buckets_def)
  have n: "offered w now = []" if "ready_buckets w now = []"
    using that by (simp add: offered_def offered_of_def)
  show ?thesis
    using f n by (auto simp: emit_ready_def Let_def foldl_emit_bucket[OF d] fold_delete_filter
        offered_def[symmetric])
qed

text \<open>What a flush offers is sorted by bucket and names each bucket and key once.\<close>

lemma ready_buckets_distinct: "buckets_ok w \<Longrightarrow> distinct (ready_buckets w now)"
  by (simp add: buckets_ok_def ready_buckets_def)

lemma slot_distinct: "buckets_ok w \<Longrightarrow> distinct (map fst (dict_get (wd_buckets w) b []))"
  by (auto simp: buckets_ok_def dict_get_def dest!: map_of_SomeD split: option.splits)

lemma sorted_offered_of: "sorted bs \<Longrightarrow> sorted (map fst (offered_of d bs))"
  by (induction bs) (auto simp: offered_of_def sorted_append split_def sorted_replicate
      map_replicate_const comp_def)

lemma distinct_offered_of:
  assumes "buckets_ok w" and "distinct bs"
  shows "distinct (map (\<lambda>(b, key, a). (b, key)) (offered_of (wd_buckets w) bs))"
  using assms(2)
proof (induction bs)
  case Nil
  then show ?case by (simp add: offered_of_def)
next
  case (Cons b bs)
  have "distinct (map (\<lambda>(key, a). (b, key)) (dict_get (wd_buckets w) b []))"
    using slot_distinct[OF assms(1), of b]
    by (auto simp: distinct_map split_def inj_on_def)
  with Cons show ?case
    by (auto simp: offered_of_def comp_def split_def)
qed

section \<open>Invariants\<close>

definition queue_ok :: "windower \<Rightarrow> bool" where
  "queue_ok w \<longleftrightarrow> wd_cap w \<le> 0 \<or> int (length (items (wd_out w))) \<le> wd_cap w"

lemma emit_one_unbounded:
  "wd_cap w \<le> 0 \<Longrightarrow> wd_contents (emit_one w x) = wd_contents w @ [x]"
  by (cases x) (simp add: emit_one_room queue_full_def)

lemma foldl_emit_unbounded:
  "wd_cap w \<le> 0 \<Longrightarrow> wd_contents (foldl emit_one w xs) = wd_contents w @ xs"
proof (induction xs arbitrary: w)
  case (Cons x xs)
  then have "wd_cap (emit_one w x) \<le> 0" by (simp add: wq.cap_enq)
  with Cons show ?case by (simp add: emit_one_unbounded del: map_append)
qed simp

lemma record_event_buckets_ok: "buckets_ok w \<Longrightarrow> buckets_ok (record_event w ev)"
proof -
  assume ok: "buckets_ok w"
  let ?b = "bucket_start (wd_window_s w) (fe_ts ev)"
  let ?f = "dict_alter (event_key ev) empty_acc (acc_add ev)"
  have "distinct (map fst (?f (dict_get (wd_buckets w) ?b [])))"
    using slot_distinct[OF ok] by simp
  with ok show ?thesis
    by (auto simp: buckets_ok_def record_event_def set_dict_alter)
qed

lemma emit_ready_buckets_ok: "buckets_ok w \<Longrightarrow> buckets_ok (emit_ready w now)"
  by (simp add: emit_ready_unfold) (auto simp: buckets_ok_def distinct_map_filter)

lemma emit_ready_queue_ok:
  assumes "buckets_ok w" and "queue_ok w"
  shows "queue_ok (emit_ready w now)"
proof (cases "wd_cap w \<le> 0")
  case False
  then have "wq.bounded w" using assms by (simp add: wq.bounded_def queue_ok_def)
  then have "wq.bounded (foldl emit_one w (offered w now))" by (rule wq.bounded_foldl)
  then show ?thesis by (simp add: emit_ready_unfold[OF assms(1)] wq.bounded_def queue_ok_def)
qed (simp add: emit_ready_unfold[OF assms(1)] queue_ok_def)

lemma record_event_frame [simp]:
  "wd_out (record_event w ev) = wd_out w" "wd_dropped (record_event w ev) = wd_dropped w"
  "wd_window_s (record_event w ev) = wd_window_s w"
  by (simp_all add: record_event_def)

definition windower_inv :: "windower \<Rightarrow> bool" where
  "windower_inv w \<longleftrightarrow> buckets_ok w \<and> queue_ok w \<and> 0 \<le> wd_dropped w"

lemma emit_ready_inv: "windower_inv w \<Longrightarrow> windower_inv (emit_ready w now)"
proof -
  assume inv: "windower_inv w"
  then have "0 \<le> wd_dropped (emit_ready w now)"
    by (auto simp: windower_inv_def emit_ready_unfold)
  with inv show ?thesis
    by (auto simp: windower_inv_def emit_ready_buckets_ok emit_ready_queue_ok)
qed

lemma record_event_inv: "windower_inv w \<Longrightarrow> windower_inv (record_event w ev)"
  by (auto simp: windower_inv_def record_event_buckets_ok) (simp_all add: queue_ok_def)

lemma windower_step_inv: "windower_inv w \<Longrightarrow> windower_step w i = Inr w1 \<Longrightarrow> windower_inv w1"
  by (auto simp: windower_step_def emit_ready_inv record_event_inv
      split: if_splits windower_input.splits)

lemma windower_run_inv: "windower_inv w \<Longrightarrow> windower_run w is = Inr w1 \<Longrightarrow> windower_inv w1"
  by (induction "is" arbitrary: w) (auto split: sum.splits dest: windower_step_inv)

lemma new_windower_inv [simp]: "windower_inv (new_windower qmax w)"
  by (auto simp: windower_inv_def new_windower_def buckets_ok_def queue_ok_def)

section \<open>Conservation\<close>

text \<open>
  \<open>flush_lost\<close> is what one flush pushes out of the bounded output queue: the oldest entries of
  the queue followed by what was offered. A measure \<open>m\<close> over emitted records that grows by
  \<open>\<delta>\<close> when the event is added is conserved up to these losses.
\<close>

definition flush_lost :: "windower \<Rightarrow> instant \<Rightarrow> (instant \<times> flow_key \<times> acc) list" where
  "flush_lost w now = (let xs = wd_contents w @ offered w now in
     if wd_cap w \<le> 0 then [] else take (length xs - nat (wd_cap w)) xs)"

definition step_lost :: "windower \<Rightarrow> windower_input \<Rightarrow> (instant \<times> flow_key \<times> acc) list" where
  "step_lost w i = (case i of Timeout now \<Rightarrow> flush_lost w now
     | Event ev \<Rightarrow> flush_lost (record_event w ev) (fe_ts ev))"

fun run_lost :: "windower \<Rightarrow> windower_input list \<Rightarrow> (instant \<times> flow_key \<times> acc) list" where
  "run_lost w [] = []"
| "run_lost w (i # is) = step_lost w i @
     (case windower_step w i of Inl _ \<Rightarrow> [] | Inr w1 \<Rightarrow> run_lost w1 is)"

lemma contents_after_flush:
  assumes "windower_inv w"
  shows "wd_contents (foldl emit_one w (offered w now)) =
    (if wd_cap w \<le> 0 then wd_contents w @ offered w now
     else keep_last (nat (wd_cap w)) (wd_contents w @ offered w now))"
proof (cases "wd_cap w \<le> 0")
  case False
  then have "wq.bounded w" using assms
    by (simp add: wq.bounded_def windower_inv_def queue_ok_def)
  with False show ?thesis by (simp add: wq.contents_foldl)
qed (simp add: foldl_emit_unbounded del: map_append)

lemma flush_lost_append:
  assumes "windower_inv w"
  shows "flush_lost w now @ wd_contents (foldl emit_one w (offered w now)) =
    wd_contents w @ offered w now"
  by (simp add: contents_after_flush[OF assms] flush_lost_def keep_last_def Let_def
      del: take_append drop_append)

lemma sum_offered:
  assumes "buckets_ok w"
  shows "sum_list (map m (offered w now)) =
    (\<Sum>(b, slot) \<leftarrow> filter (\<lambda>p. fst p \<le> threshold w now) (wd_buckets w). \<Sum>(key, a) \<leftarrow> slot. m (b, key, a) :: int)"
proof -
  let ?g = "\<lambda>(b, slot). \<Sum>(key, a) \<leftarrow> slot. m (b, key, a)"
  have "sum_list (map m (offered_of d bs)) = (\<Sum>b \<leftarrow> bs. ?g (b, dict_get d b []))" for d bs
    by (induction bs) (auto simp: offered_of_def split_def comp_def)
  then show ?thesis
    using assms sum_list_keys[of "wd_buckets w" ?g "[]" "\<lambda>b. b \<le> threshold w now"]
    by (simp add: offered_def sum_list_sort ready_buckets_def buckets_ok_def)
qed

lemma held_emit_ready:
  assumes "windower_inv w"
  shows "held m (emit_ready w now) + sum_list (map m (flush_lost w now)) = held m w"
proof -
  let ?g = "\<lambda>(b, slot). \<Sum>(key, a) \<leftarrow> slot. m (b, key, a)"
  let ?c = "wd_contents (foldl emit_one w (offered w now))"
  have ok: "buckets_ok w" using assms by (simp add: windower_inv_def)
  have "sum_list (map m (flush_lost w now)) + sum_list (map m ?c) =
        sum_list (map m (wd_contents w)) + sum_list (map m (offered w now))"
    by (metis flush_lost_append[OF assms] map_append sum_list_append)
  moreover have "sum_list (map m (offered w now)) +
      sum_list (map ?g (filter (\<lambda>p. threshold w now < fst p) (wd_buckets w))) =
      sum_list (map ?g (wd_buckets w))"
    using sum_list_partition[of ?g "\<lambda>p. fst p \<le> threshold w now" "wd_buckets w"]
    by (simp add: sum_offered[OF ok] not_le)
  ultimately show ?thesis
    by (simp add: held_def emit_ready_unfold[OF ok])
qed

lemma held_record_event:
  assumes "\<And>a. m (bucket_start (wd_window_s w) (fe_ts ev), event_key ev, acc_add ev a) =
      m (bucket_start (wd_window_s w) (fe_ts ev), event_key ev, a) + \<delta>"
    and "m (bucket_start (wd_window_s w) (fe_ts ev), event_key ev, empty_acc) = 0"
  shows "held m (record_event w ev) = held m w + \<delta>"
proof -
  let ?b = "bucket_start (wd_window_s w) (fe_ts ev)"
  have "(\<Sum>(key, a) \<leftarrow> dict_alter (event_key ev) empty_acc (acc_add ev) slot. m (?b, key, a)) =
        (\<Sum>(key, a) \<leftarrow> slot. m (?b, key, a)) + \<delta>" for slot
    by (rule sum_list_dict_alter) (simp_all add: assms)
  then show ?thesis
    unfolding held_def record_event_def
    by (simp add: sum_list_dict_alter[where \<delta> = \<delta>])
qed

text \<open>The measure of one bucket and key, and what an input adds to it.\<close>

definition at_key :: "instant \<Rightarrow> flow_key \<Rightarrow> (acc \<Rightarrow> int) \<Rightarrow> instant \<times> flow_key \<times> acc \<Rightarrow> int" where
  "at_key b key g x = (case x of (b', key', a) \<Rightarrow> if b' = b \<and> key' = key then g a else 0)"

definition arrived :: "int \<Rightarrow> instant \<Rightarrow> flow_key \<Rightarrow> (flow_event \<Rightarrow> int) \<Rightarrow> windower_input list \<Rightarrow> int" where
  "arrived w b key f is = (\<Sum>i \<leftarrow> is. case i of Timeout _ \<Rightarrow> 0
     | Event ev \<Rightarrow> if bucket_start w (fe_ts ev) = b \<and> event_key ev = key then f ev else 0)"

lemma windower_step_window: "windower_step w i = Inr w1 \<Longrightarrow> windower_inv w \<Longrightarrow>
    wd_window_s w1 = wd_window_s w"
  by (auto simp: windower_step_def emit_ready_unfold windower_inv_def record_event_buckets_ok
      split: if_splits windower_input.splits)

lemma windower_run_accounts:
  assumes g: "\<And>ev a. g (acc_add ev a) = g a + f ev" "g empty_acc = 0"
    and run: "windower_run w is = Inr w1" and inv: "windower_inv w"
  shows "held (at_key b key g) w1 + sum_list (map (at_key b key g) (run_lost w is)) =
    held (at_key b key g) w + arrived (wd_window_s w) b key f is"
  using run inv
proof (induction "is" arbitrary: w)
  case Nil
  then show ?case by (simp add: arrived_def)
next
  case (Cons i "is")
  let ?m = "at_key b key g"
  from Cons.prems obtain w2 where w2: "windower_step w i = Inr w2" "windower_run w2 is = Inr w1"
    by (auto split: sum.splits)
  then have inv2: "windower_inv w2" using Cons.prems windower_step_inv by blast
  have "held ?m w2 + sum_list (map ?m (step_lost w i)) =
      held ?m w + arrived (wd_window_s w) b key f [i]"
  proof (cases i)
    case (Timeout now)
    with w2 held_emit_ready[OF Cons.prems(2), of ?m now] show ?thesis
      by (simp add: step_lost_def arrived_def windower_step_def split: if_splits)
  next
    case (Event ev)
    have "held ?m (record_event w ev) = held ?m w +
      (if bucket_start (wd_window_s w) (fe_ts ev) = b \<and> event_key ev = key then f ev else 0)"
      by (rule held_record_event) (auto simp: at_key_def g)
    with w2 Event held_emit_ready[OF record_event_inv[OF Cons.prems(2)], of ?m ev "fe_ts ev"]
    show ?thesis
      by (simp add: step_lost_def arrived_def windower_step_def split: if_splits)
  qed
  moreover have "wd_window_s w2 = wd_window_s w"
    using w2(1) Cons.prems(2) by (rule windower_step_window)
  ultimately show ?case
    using Cons.IH[OF w2(2) inv2] w2 by (simp add: arrived_def)
qed

section \<open>Properties\<close>

lemma bucket_start_div:
  assumes "0 < w" and "0 \<le> ts"
  shows "bucket_start w ts = (ts div (w * us_per_s)) * (w * us_per_s)"
proof -
  have "ts div us_per_s - (ts div us_per_s) mod w = (ts div us_per_s div w) * w"
    by (simp add: minus_mod_eq_div_mult)
  moreover have "ts div us_per_s div w = ts div (w * us_per_s)"
    using assms zdiv_zmult2_eq[of w ts us_per_s] by (simp add: mult.commute)
  ultimately show ?thesis
    using assms by (simp add: bucket_start_def epoch_seconds_def Let_def)
qed

text \<open>
  Windows tumble. For a positive window and an instant not before the epoch, the bucket
  starts on a multiple of the window length, the instant lies in the half-open window that
  starts there, and two instants get the same bucket exactly when they lie in the same window.
\<close>

theorem bucket_start_tumbling:
  assumes "0 < w" and "0 \<le> ts" and "0 \<le> ts'"
  shows "(w * us_per_s) dvd bucket_start w ts \<and>
    bucket_start w ts \<le> ts \<and> ts < bucket_start w ts + w * us_per_s \<and>
    (bucket_start w ts = bucket_start w ts' \<longleftrightarrow> ts div (w * us_per_s) = ts' div (w * us_per_s))"
proof -
  define L where "L = w * us_per_s"
  have p: "0 < L" using assms by (simp add: L_def)
  have b: "bucket_start w ts = (ts div L) * L" "bucket_start w ts' = (ts' div L) * L"
    using assms by (simp_all add: bucket_start_div L_def)
  have "ts = (ts div L) * L + ts mod L" by simp
  then have "(ts div L) * L \<le> ts" "ts < (ts div L) * L + L"
    using pos_mod_sign[OF p, of ts] pos_mod_bound[OF p, of ts] by linarith+
  with p show ?thesis by (simp add: b L_def[symmetric])
qed

theorem bucket_start_tumbling_witness:
  "(5 * us_per_s) dvd bucket_start 5 12345678 \<and> bucket_start 5 12345678 = 10000000"
  using bucket_start_tumbling[of 5 12345678 12345678]
  by (simp add: bucket_start_def epoch_seconds_def us_per_s_def)

lemma windower_run_cap: "windower_run w is = Inr s \<Longrightarrow> windower_inv w \<Longrightarrow> wd_cap s = wd_cap w"
proof (induction "is" arbitrary: w)
  case (Cons i "is")
  then obtain w2 where w2: "windower_step w i = Inr w2" "windower_run w2 is = Inr s"
    by (auto split: sum.splits)
  have "wd_cap w2 = wd_cap w"
    using w2(1) Cons.prems(2) record_event_buckets_ok[of w]
    by (auto simp: windower_step_def emit_ready_unfold windower_inv_def
        split: if_splits windower_input.splits)
  with Cons.IH[OF w2(2) windower_step_inv[OF Cons.prems(2) w2(1)]] show ?case by simp
qed simp

lemma windower_run_returns:
  "wd_window_s w \<noteq> 0 \<Longrightarrow> windower_inv w \<Longrightarrow> \<exists>s. windower_run w is = Inr s"
proof (induction "is" arbitrary: w)
  case (Cons i "is")
  then obtain w2 where w2: "windower_step w i = Inr w2"
    by (auto simp: windower_step_def)
  then have "wd_window_s w2 \<noteq> 0" "windower_inv w2"
    using Cons.prems windower_step_window windower_step_inv by auto
  with Cons.IH w2 show ?case by simp
qed simp

text \<open>
  C7: the windower neither invents nor loses traffic unseen. After any sequence of events and
  timeouts, for every window and every (source, destination, port, protocol), the bytes,
  packets and flow counts that arrived equal those still in open buckets or the output queue
  plus those of the flows pushed out of the bounded queue; nothing is pushed out when the
  queue is unbounded.
\<close>

theorem windower_conserves:
  assumes "windower_run (new_windower qmax w) is = Inr s"
  shows "held (at_key b key acc_bytes) s +
      sum_list (map (at_key b key acc_bytes) (run_lost (new_windower qmax w) is)) =
      arrived w b key fe_bytes is \<and>
    held (at_key b key acc_packets) s +
      sum_list (map (at_key b key acc_packets) (run_lost (new_windower qmax w) is)) =
      arrived w b key fe_packets is \<and>
    held (at_key b key acc_flow_count) s +
      sum_list (map (at_key b key acc_flow_count) (run_lost (new_windower qmax w) is)) =
      arrived w b key (\<lambda>_. 1) is \<and>
    (qmax \<le> 0 \<longrightarrow> run_lost (new_windower qmax w) is = [])"
proof -
  let ?n = "new_windower qmax w"
  note acc = windower_run_accounts[OF _ _ assms new_windower_inv, where b = b and key = key]
  have h0: "held (at_key b key g) ?n = 0" "wd_window_s ?n = w" for g
    by (simp_all add: held_def new_windower_def)
  have "run_lost u is = []" if "wd_cap u \<le> 0" "windower_run u is = Inr s" "windower_inv u" for u
    using that
  proof (induction "is" arbitrary: u)
    case (Cons i "is")
    then obtain u2 where u2: "windower_step u i = Inr u2" "windower_run u2 is = Inr s"
      by (auto split: sum.splits)
    have "wd_cap u2 = wd_cap u"
      using windower_run_cap[of u "[i]" u2] u2 Cons.prems by simp
    with Cons u2 show ?case
      using windower_step_inv[of u i u2]
      by (auto simp: step_lost_def flush_lost_def split: windower_input.splits)
  qed simp
  moreover have "qmax \<le> 0 \<Longrightarrow> wd_cap ?n \<le> 0" by (simp add: new_windower_def)
  ultimately show ?thesis
    using acc[of acc_bytes fe_bytes] acc[of acc_packets fe_packets]
      acc[of acc_flow_count "\<lambda>_. 1"] h0 assms new_windower_inv
    by (simp add: acc_add_def empty_acc_def)
qed

definition ev_at :: "instant \<Rightarrow> int \<Rightarrow> flow_event" where
  "ev_at t n = \<lparr>fe_ts = t, fe_src_ip = ''10.0.0.1'', fe_src_port = 4242, fe_dst_ip = ''52.97.1.1'',
     fe_dst_port = 443, fe_proto = 6, fe_bytes = n, fe_packets = 2, fe_action = Some ''allow'',
     fe_fqdn = None, fe_app_id = Some ''web'', fe_source = ''palo_alto'', fe_raw_id = None\<rparr>"

theorem windower_conserves_witness:
  "\<exists>s. windower_run (new_windower 1 5) [Event (ev_at 0 100), Event (ev_at 2000000 50),
      Event (ev_at 5000000 7), Event (ev_at 15000000 9)] = Inr s \<and>
    held (at_key 0 (event_key (ev_at 0 100)) acc_bytes) s +
      sum_list (map (at_key 0 (event_key (ev_at 0 100)) acc_bytes) (run_lost (new_windower 1 5)
        [Event (ev_at 0 100), Event (ev_at 2000000 50), Event (ev_at 5000000 7), Event (ev_at 15000000 9)])) = 150"
proof -
  let ?is = "[Event (ev_at 0 100), Event (ev_at 2000000 50), Event (ev_at 5000000 7), Event (ev_at 15000000 9)]"
  obtain s where s: "windower_run (new_windower 1 5) ?is = Inr s"
    using windower_run_returns[OF _ new_windower_inv, of 1 5 ?is] by (auto simp: new_windower_def)
  have "arrived 5 0 (event_key (ev_at 0 100)) fe_bytes ?is = 150"
    by (simp add: arrived_def bucket_start_def epoch_seconds_def us_per_s_def ev_at_def event_key_def)
  with s windower_conserves[OF s, of 0 "event_key (ev_at 0 100)"] show ?thesis by auto
qed

lemma in_offered:
  assumes "buckets_ok w"
  shows "(b, key, a) \<in> set (offered w now) \<longleftrightarrow>
    b \<le> threshold w now \<and> (\<exists>slot. (b, slot) \<in> set (wd_buckets w) \<and> (key, a) \<in> set slot)"
  using assms
  by (force simp: offered_def offered_of_def ready_buckets_def dict_get_def buckets_ok_def)

text \<open>
  One flush closes exactly the windows that are over. From any state the windower reaches,
  a flush at \<open>now\<close> offers the records of every bucket at or below the threshold and of no
  other, in time order and with each bucket and key once; the queue then holds the newest
  \<open>qmax\<close> of its old entries followed by these; the buckets above the threshold stay open.
\<close>

theorem emit_ready_closes_windows:
  assumes "windower_run (new_windower qmax w) is = Inr s" and "0 < qmax"
  shows "map wf_core (items (wd_out (emit_ready s now))) =
      keep_last (nat qmax) (map wf_core (items (wd_out s)) @ offered s now) \<and>
    sorted (map fst (offered s now)) \<and>
    distinct (map (\<lambda>(b, key, a). (b, key)) (offered s now)) \<and>
    (\<forall>b key a. (b, key, a) \<in> set (offered s now) \<longleftrightarrow> b \<le> threshold s now \<and>
       (\<exists>slot. (b, slot) \<in> set (wd_buckets s) \<and> (key, a) \<in> set slot)) \<and>
    wd_buckets (emit_ready s now) = filter (\<lambda>p. threshold s now < fst p) (wd_buckets s)"
proof -
  have inv: "windower_inv s" using windower_run_inv[OF new_windower_inv assms(1)] .
  have cap: "wd_cap s = qmax"
    using windower_run_cap[OF assms(1) new_windower_inv] by (simp add: new_windower_def)
  have ok: "buckets_ok s" using inv by (simp add: windower_inv_def)
  show ?thesis
    using contents_after_flush[OF inv, of now] assms(2) cap
      sorted_offered_of[of "sort (ready_buckets s now)"]
      distinct_offered_of[OF ok, of "sort (ready_buckets s now)"]
      in_offered[OF ok] ready_buckets_distinct[OF ok]
    by (simp add: emit_ready_unfold[OF ok] offered_def)
qed

theorem emit_ready_closes_windows_witness:
  "\<exists>s. windower_run (new_windower 8 5) [Event (ev_at 0 100), Event (ev_at 5000000 7)] = Inr s \<and>
    wd_buckets (emit_ready s 5000000) = filter (\<lambda>p. threshold s 5000000 < fst p) (wd_buckets s)"
proof -
  let ?is = "[Event (ev_at 0 100), Event (ev_at 5000000 7)]"
  obtain s where s: "windower_run (new_windower 8 5) ?is = Inr s"
    using windower_run_returns[OF _ new_windower_inv, of 8 5 ?is] by (auto simp: new_windower_def)
  with emit_ready_closes_windows[OF s] show ?thesis by auto
qed

text \<open>
  A flush into a queue whose consumer has stalled: every record offered evicts one entry and
  counts one drop, but each record carries the counter as it was before its own eviction, and
  the counter is cleared at the end of the flush.
\<close>

lemma foldl_emit_stalled:
  assumes "0 < wd_cap w" and "int (length (items (wd_out w))) = wd_cap w"
    and "length xs \<le> length (items (wd_out w))"
  shows "map wf_dropped_count (items (wd_out (foldl emit_one w xs))) =
      drop (length xs) (map wf_dropped_count (items (wd_out w))) @
      map (\<lambda>i. wd_dropped w + int i) [0..<length xs] \<and>
    wd_dropped (foldl emit_one w xs) = wd_dropped w + int (length xs)"
  using assms(3)
proof (induction xs rule: rev_induct)
  case (snoc x xs)
  let ?v = "foldl emit_one w xs" and ?old = "map wf_dropped_count (items (wd_out w))"
  obtain b key a where x: "x = (b, key, a)" by (cases x)
  have ih: "map wf_dropped_count (items (wd_out ?v)) =
      drop (length xs) ?old @ map (\<lambda>i. wd_dropped w + int i) [0..<length xs]"
    "wd_dropped ?v = wd_dropped w + int (length xs)"
    using snoc by simp_all
  then have "length (map wf_dropped_count (items (wd_out ?v))) = length (items (wd_out w))"
    using snoc.prems by (simp only: length_append length_drop length_map length_upt)
  then have len: "int (length (items (wd_out ?v))) = wd_cap ?v"
    using assms(2) by simp
  then have f: "queue_full (wd_out ?v)"
    using assms(1) by (simp add: queue_full_def)
  have ne: "drop (length xs) ?old \<noteq> []" using snoc.prems by simp
  have e: "emit_one ?v x = ?v\<lparr>wd_out := (wd_out ?v)\<lparr>items := tl (items (wd_out ?v)) @
      [mk_windowed_flow ?v b key a]\<rparr>, wd_dropped := wd_dropped ?v + 1\<rparr>"
    unfolding x by (rule emit_one_full[OF f]) (simp add: len)
  have "map wf_dropped_count (items (wd_out (emit_one ?v x))) =
      tl (map wf_dropped_count (items (wd_out ?v))) @ [wd_dropped ?v]"
    by (simp add: e map_tl mk_windowed_flow_def)
  also have "\<dots> = tl (drop (length xs) ?old) @ map (\<lambda>i. wd_dropped w + int i) [0..<length (xs @ [x])]"
    using ne by (simp add: ih)
  finally show ?case
    by (simp add: e ih(2) drop_Suc tl_drop)
qed simp

text \<open>
  What a flush reports about its own drops is not their number. When the consumer has
  stalled (the output queue is full) and a flush offers \<open>n\<close> records, at most as many as the
  queue holds, then \<open>n\<close> queued flows are discarded, the flows emitted carry the counts
  \<open>d, d + 1, ..., d + n - 1\<close> (with \<open>d\<close> the counter before the flush), and the counter is cleared:
  summing the counts over the flows, as the publisher does, gives \<open>n * d + n * (n - 1) / 2\<close>
  instead of \<open>d + n\<close>. In particular a flush of one record with \<open>d = 0\<close> reports no loss.
\<close>

theorem stalled_flush_miscounts:
  assumes "buckets_ok w" and "0 < wd_cap w" and "int (length (items (wd_out w))) = wd_cap w"
    and "ready_buckets w now \<noteq> []" and "n = length (offered w now)" and "n \<le> length (items (wd_out w))"
  shows "map wf_dropped_count (items (wd_out (emit_ready w now))) =
      drop n (map wf_dropped_count (items (wd_out w))) @ map (\<lambda>i. wd_dropped w + int i) [0..<n] \<and>
    wd_dropped (foldl emit_one w (offered w now)) = wd_dropped w + int n \<and>
    wd_dropped (emit_ready w now) = 0 \<and>
    2 * sum_list (map (\<lambda>i. wd_dropped w + int i) [0..<n]) =
      2 * int n * wd_dropped w + int n * (int n - 1)"
proof -
  have "2 * sum_list (map (\<lambda>i. d + int i) [0..<k]) = 2 * int k * d + int k * (int k - 1)" for d k
    by (induction k) (auto simp: algebra_simps)
  then show ?thesis
    using foldl_emit_stalled[of w "offered w now"] assms
    by (simp add: emit_ready_unfold[OF assms(1)])
qed

definition stalled :: windower where
  "stalled = \<lparr>wd_out = \<lparr>maxsize = 1,
       items = [mk_windowed_flow (new_windower 1 5) 0 (event_key (ev_at 0 1)) empty_acc]\<rparr>,
     wd_window_s = 5, wd_buckets = [(5000000, [(event_key (ev_at 0 1), empty_acc)])], wd_dropped = 0\<rparr>"

theorem stalled_flush_miscounts_witness:
  "map wf_dropped_count (items (wd_out (emit_ready stalled 10000000))) = [0] \<and>
   wd_dropped (emit_ready stalled 10000000) = 0 \<and>
   wd_dropped (foldl emit_one stalled (offered stalled 10000000)) = 1"
proof -
  have r: "ready_buckets stalled 10000000 = [5000000]"
    by (simp add: ready_buckets_def threshold_def stalled_def bucket_start_def epoch_seconds_def
        us_per_s_def)
  then have o: "offered stalled 10000000 = [(5000000, event_key (ev_at 0 1), empty_acc)]"
    by (simp add: offered_def offered_of_def stalled_def dict_get_def)
  show ?thesis
    using stalled_flush_miscounts[of stalled 10000000 1] r o
    by (simp add: stalled_def buckets_ok_def)
qed

end
