(* ===== verification/Group_Index.thy ===== *)
theory Group_Index
  imports Prelude
begin

text \<open>
  The correlator's in-memory view of the directory:
  \<open>correlator/src/correlator/pipeline/group_index.py\<close>. The rows of \<open>user_groups\<close> that the
  database returns are an argument of \<open>load\<close>.
\<close>

section \<open>State and operations\<close>

record group_row =
  gr_user_upn :: string
  gr_group_id :: string
  gr_group_name :: string

record group_index =
  gi_user_groups :: "(string, string fset) dict"
  gi_group_size :: "(string, int) dict"
  gi_group_name :: "(string, string) dict"

definition new_group_index :: group_index where
  "new_group_index = \<lparr>gi_user_groups = [], gi_group_size = [], gi_group_name = []\<rparr>"

definition load_memberships :: "group_row list \<Rightarrow> (string, string fset) dict" where
  "load_memberships rows =
     foldl (\<lambda>ug r. dict_alter (gr_user_upn r) {||} (finsert (gr_group_id r)) ug) [] rows"

definition load_names :: "group_row list \<Rightarrow> (string, string) dict" where
  "load_names rows = foldl (\<lambda>ns r. AList.update (gr_group_id r) (gr_group_name r) ns) [] rows"

text \<open>
  \<open>for gs in self._user_groups.values(): for g in gs: sizes[g] += 1\<close>. A frozenset is visited in
  some order, here the sorted one: only the key order of \<open>sizes\<close> depends on it.
\<close>

definition count_sizes :: "(string, string fset) dict \<Rightarrow> (string, int) dict" where
  "count_sizes ug =
     foldl (\<lambda>sz p. foldl (\<lambda>sz g. dict_alter g 0 (\<lambda>n. n + 1) sz) sz (sorted_list_of_fset (snd p))) [] ug"

definition load :: "group_index \<Rightarrow> group_row list \<Rightarrow> group_index" where
  "load gi rows = (let ug = load_memberships rows in
     gi\<lparr>gi_user_groups := ug, gi_group_name := load_names rows, gi_group_size := count_sizes ug\<rparr>)"

definition groups_of :: "group_index \<Rightarrow> string \<Rightarrow> string fset" where
  "groups_of gi user = dict_get (gi_user_groups gi) user {||}"

definition size_of :: "group_index \<Rightarrow> string \<Rightarrow> int" where
  "size_of gi group_id = dict_get (gi_group_size gi) group_id 0"

definition name_of :: "group_index \<Rightarrow> string \<Rightarrow> string" where
  "name_of gi group_id = dict_get (gi_group_name gi) group_id group_id"

definition group_sizes :: "group_index \<Rightarrow> (string, int) dict" where
  "group_sizes gi = gi_group_size gi"

section \<open>The directory contract\<close>

text \<open>
  What the aggregation relies on: the sizes count members. \<open>members\<close> and the smallest covering
  group are stated over the operations of the index only.
\<close>

locale directory =
  fixes groups :: "string \<Rightarrow> string fset"
    and size :: "string \<Rightarrow> int"
    and users :: "string fset"
  assumes size_members: "size g = int (card {u. u |\<in>| users \<and> g |\<in>| groups u})"
    and groups_outside: "u |\<notin>| users \<Longrightarrow> groups u = {||}"
begin

definition members :: "string \<Rightarrow> string set" where
  "members g = {u. g |\<in>| groups u}"

lemma members_users: "members g = {u. u |\<in>| users \<and> g |\<in>| groups u}"
  using groups_outside by (auto simp: members_def)

lemma finite_members [simp]: "finite (members g)"
  by (rule finite_subset[of _ "fset users"]) (auto simp: members_users)

lemma size_card: "size g = int (card (members g))"
  by (simp add: size_members members_users)

lemma size_nonneg: "0 \<le> size g"
  by (simp add: size_card)

lemma size_pos: "g |\<in>| groups u \<Longrightarrow> 0 < size g"
  by (auto simp: size_card members_def card_gt_0_iff intro: finite_members[unfolded members_def])

text \<open>A group that covers more users is at least as large.\<close>

lemma size_mono: "members g \<subseteq> members h \<Longrightarrow> size g \<le> size h"
  by (simp add: size_card card_mono)

end

section \<open>Lemmas\<close>

lemma load_memberships_snoc:
  "load_memberships (rows @ [r]) =
   dict_alter (gr_user_upn r) {||} (finsert (gr_group_id r)) (load_memberships rows)"
  by (simp add: load_memberships_def)

lemma distinct_load_memberships [simp]: "distinct (map fst (load_memberships rows))"
  by (induction rows rule: rev_induct) (simp_all add: load_memberships_snoc, simp add: load_memberships_def)

lemma dom_load_memberships: "fst ` set (load_memberships rows) = gr_user_upn ` set rows"
  by (induction rows rule: rev_induct)
    (simp_all add: load_memberships_snoc dict_simps, simp add: load_memberships_def)

lemma in_load_memberships:
  "g |\<in>| dict_get (load_memberships rows) u {||} \<longleftrightarrow>
   (\<exists>r\<in>set rows. gr_user_upn r = u \<and> gr_group_id r = g)"
proof (induction rows rule: rev_induct)
  case Nil
  then show ?case by (simp add: load_memberships_def dict_get_def)
next
  case (snoc r rows)
  then show ?case
    by (auto simp: load_memberships_snoc dict_get_alter)
qed

lemma map_of_load_names:
  "map_of (load_names rows) g = map_option gr_group_name (find (\<lambda>r. gr_group_id r = g) (rev rows))"
  by (simp add: load_names_def map_of_update_fold)

lemma count_group:
  "distinct gs \<Longrightarrow> dict_get (foldl (\<lambda>sz g. dict_alter g 0 (\<lambda>n. n + 1) sz) sz gs) g (0::int) =
    dict_get sz g 0 + (if g \<in> set gs then 1 else 0)"
  by (induction gs arbitrary: sz) (auto simp: dict_get_alter)

lemma count_sizes_length:
  "dict_get (count_sizes ug) g 0 = int (length (filter (\<lambda>p. g |\<in>| snd p) ug))"
proof -
  have "dict_get (foldl (\<lambda>sz p. foldl (\<lambda>sz g. dict_alter g 0 (\<lambda>n. n + 1) sz) sz
      (sorted_list_of_fset (snd p))) sz ug) g 0 =
      dict_get sz g 0 + int (length (filter (\<lambda>p. g |\<in>| snd p) ug))" for sz
    by (induction ug arbitrary: sz)
      (auto simp: count_group sorted_list_of_fset.rep_eq)
  then show ?thesis by (simp add: count_sizes_def)
qed

lemma members_dict_image:
  assumes "distinct (map fst ug)"
  shows "{u. g |\<in>| dict_get ug u {||}} = fst ` set (filter (\<lambda>p. g |\<in>| snd p) ug)"
proof (rule set_eqI)
  fix u
  have "g |\<in>| dict_get ug u {||} \<longleftrightarrow> (\<exists>gs. map_of ug u = Some gs \<and> g |\<in>| gs)"
    by (auto simp: dict_get_def split: option.splits)
  also have "\<dots> \<longleftrightarrow> (\<exists>gs. (u, gs) \<in> set ug \<and> g |\<in>| gs)"
    using assms by simp
  finally show "u \<in> {u. g |\<in>| dict_get ug u {||}} \<longleftrightarrow> u \<in> fst ` set (filter (\<lambda>p. g |\<in>| snd p) ug)"
    by force
qed

lemma card_members_dict:
  assumes "distinct (map fst ug)"
  shows "length (filter (\<lambda>p. g |\<in>| snd p) ug) = card {u. g |\<in>| dict_get ug u {||}}"
proof -
  let ?f = "filter (\<lambda>p. g |\<in>| snd p) ug"
  have "{u. g |\<in>| dict_get ug u {||}} = fst ` set ?f"
    by (rule members_dict_image[OF assms])
  moreover have "distinct (map fst ?f)" using assms by (simp add: distinct_map_filter)
  ultimately show ?thesis by (metis distinct_card length_map set_map)
qed

lemma load_simps [simp]:
  "groups_of (load gi rows) u = dict_get (load_memberships rows) u {||}"
  "size_of (load gi rows) g = dict_get (count_sizes (load_memberships rows)) g 0"
  "name_of (load gi rows) g = dict_get (load_names rows) g g"
  by (simp_all add: groups_of_def size_of_def name_of_def load_def Let_def)

interpretation loaded: directory "groups_of (load gi rows)" "size_of (load gi rows)"
    "fset_of_list (map gr_user_upn rows)" for gi rows
proof (standard, goal_cases)
  case (1 g)
  have "{u. u |\<in>| fset_of_list (map gr_user_upn rows) \<and> g |\<in>| groups_of (load gi rows) u} =
      {u. g |\<in>| dict_get (load_memberships rows) u {||}}"
    by (auto simp: in_load_memberships fset_of_list_elem)
  then show ?case by (simp add: count_sizes_length card_members_dict)
next
  case (2 u)
  then have "map_of (load_memberships rows) u = None"
    using dom_load_memberships[of rows] by (auto simp: fset_of_list_elem map_of_eq_None_iff)
  then show ?case by (simp add: dict_get_def)
qed

section \<open>Properties\<close>

text \<open>
  A reload is faithful to the table. Whatever was loaded before, after loading \<open>rows\<close> a user
  has exactly the groups the rows give, a group's size is the number of distinct users that
  have it (repeated rows count once), and its name is that of the last row naming it, or the
  identifier itself when there is none.
\<close>

theorem load_reflects_rows:
  "(g |\<in>| groups_of (load gi rows) u \<longleftrightarrow> (\<exists>r\<in>set rows. gr_user_upn r = u \<and> gr_group_id r = g)) \<and>
   size_of (load gi rows) g = int (card {u. \<exists>r\<in>set rows. gr_user_upn r = u \<and> gr_group_id r = g}) \<and>
   name_of (load gi rows) g =
     (case find (\<lambda>r. gr_group_id r = g) (rev rows) of None \<Rightarrow> g | Some r \<Rightarrow> gr_group_name r) \<and>
   (size_of (load gi rows) g = 0 \<longleftrightarrow> (\<forall>u. g |\<notin>| groups_of (load gi rows) u))"
proof -
  have s: "size_of (load gi rows) g = int (card (loaded.members gi rows g))"
    by (rule loaded.size_card)
  have m: "loaded.members gi rows g = {u. \<exists>r\<in>set rows. gr_user_upn r = u \<and> gr_group_id r = g}"
    by (simp add: loaded.members_def in_load_memberships)
  have z: "size_of (load gi rows) g = 0 \<longleftrightarrow> (\<forall>u. g |\<notin>| groups_of (load gi rows) u)"
    using s loaded.finite_members[of gi rows g] by (auto simp: loaded.members_def card_eq_0_iff)
  have n: "name_of (load gi rows) g =
      (case find (\<lambda>r. gr_group_id r = g) (rev rows) of None \<Rightarrow> g | Some r \<Rightarrow> gr_group_name r)"
    by (simp add: dict_get_def map_of_load_names split: option.splits)
  show ?thesis
    using s m z n by (simp only: load_simps(1) in_load_memberships simp_thms)
qed

end
