(* ===== verification/Enricher.thy ===== *)
theory Enricher
  imports Identity_Index Group_Index
begin

text \<open>
  Identity and group enrichment of one row: \<open>correlator/src/correlator/pipeline/enricher.py\<close>.
  The two protocols of the source are the operations of the identity index and of the group index.
\<close>

record enrich_row =
  er_src_ip :: string
  er_ts :: instant
  er_user_upn :: "string option"
  er_groups :: "string fset option"

definition enrich :: "'t itree \<Rightarrow> 't identity_index \<Rightarrow> group_index \<Rightarrow> enrich_row \<Rightarrow>
    't identity_index \<times> (py_error + enrich_row)" where
  "enrich T ix gi row =
     (case resolve T ix (er_src_ip row) (er_ts row) of
        (ix1, Inl e) \<Rightarrow> (ix1, Inl e)
      | (ix1, Inr None) \<Rightarrow> (ix1, Inr (row\<lparr>er_user_upn := Some ''unknown'', er_groups := Some {||}\<rparr>))
      | (ix1, Inr (Some hit)) \<Rightarrow> (ix1, Inr (row\<lparr>er_user_upn := Some (hit_user_upn hit),
           er_groups := Some (groups_of gi (hit_user_upn hit))\<rparr>)))"

lemma enrich_held:
  assumes "interval_tree_laws T"
  shows "held_at T (fst (enrich T ix gi row)) =
    (held_at T ix)(er_src_ip row := {iv \<in> held_at T ix (er_src_ip row). er_ts row < iv_end iv})"
  using resolve_held[OF assms, of ix "er_src_ip row" "er_ts row"]
  by (auto simp: enrich_def split: prod.splits sum.splits option.splits)

text \<open>
  Enrichment. A row always gets both fields: the user of the best live binding of its source
  address at its time with that user's groups, or \<open>unknown\<close> with no groups when no binding is
  live; it never raises and does not touch the other fields.
\<close>

theorem enrich_by_binding:
  assumes "interval_tree_laws T"
  shows "\<exists>u gs. snd (enrich T ix gi row) = Inr (row\<lparr>er_user_upn := Some u, er_groups := Some gs\<rparr>) \<and>
    ((u = ''unknown'' \<and> gs = {||} \<and> live (held_at T ix (er_src_ip row)) (er_ts row) = {}) \<or>
     (\<exists>iv \<in> live (held_at T ix (er_src_ip row)) (er_ts row). u = b_user_upn (iv_data iv) \<and> gs = groups_of gi u \<and>
        (\<forall>jv. jv \<in> live (held_at T ix (er_src_ip row)) (er_ts row) \<longrightarrow>
           b_confidence (iv_data jv) \<le> b_confidence (iv_data iv))))"
proof -
  obtain r where r: "snd (resolve T ix (er_src_ip row) (er_ts row)) = Inr r"
    "resolves_to (held_at T ix (er_src_ip row)) (er_ts row) r"
    using resolve_held[OF assms] by blast
  show ?thesis
  proof (cases r)
    case None
    then show ?thesis using r by (auto simp: enrich_def resolves_to_def split: prod.splits)
  next
    case (Some h)
    then obtain iv where iv: "iv \<in> live (held_at T ix (er_src_ip row)) (er_ts row)"
      "h = hit_of (er_ts row) iv"
      "\<forall>jv \<in> live (held_at T ix (er_src_ip row)) (er_ts row).
         b_confidence (iv_data jv) \<le> b_confidence (iv_data iv)"
      using r(2) by (fastforce simp: resolves_to_def)
    have "hit_user_upn h = b_user_upn (iv_data iv)" by (simp add: iv(2) hit_of_def Let_def)
    then have "snd (enrich T ix gi row) = Inr (row\<lparr>er_user_upn := Some (b_user_upn (iv_data iv)),
        er_groups := Some (groups_of gi (b_user_upn (iv_data iv)))\<rparr>)"
      using r(1) Some by (auto simp: enrich_def split: prod.splits)
    with iv show ?thesis by blast
  qed
qed

theorem enrich_by_binding_witness:
  "\<exists>u gs. snd (enrich list_tree new_identity_index new_group_index
      \<lparr>er_src_ip = ''10.0.0.1'', er_ts = 5, er_user_upn = None, er_groups = None\<rparr>) =
    Inr \<lparr>er_src_ip = ''10.0.0.1'', er_ts = 5, er_user_upn = Some u, er_groups = Some gs\<rparr> \<and> u = ''unknown''"
  using enrich_by_binding[OF list_tree_laws, of new_identity_index new_group_index
      "\<lparr>er_src_ip = ''10.0.0.1'', er_ts = 5, er_user_upn = None, er_groups = None\<rparr>"]
  by (auto simp: held_at_def new_identity_index_def live_def)

end
