(* ===== verification/Ipaddress.thy ===== *)
theory Ipaddress
  imports Py_String
begin

text \<open>
  The part of the standard module \<open>ipaddress\<close> that the services call: \<open>ip_address\<close>,
  \<open>ip_network\<close> with and without \<open>strict\<close>, \<open>prefixlen\<close> and membership of an address in a
  network, for both versions. Addresses are natural numbers below \<open>2 ^ 32\<close> and \<open>2 ^ 128\<close>;
  \<open>None\<close> is \<open>ValueError\<close> or one of its subclasses.
\<close>

unbundle bit_operations_syntax

datatype ip_version = V4 | V6

fun max_prefixlen :: "ip_version \<Rightarrow> nat" where
  "max_prefixlen V4 = 32"
| "max_prefixlen V6 = 128"

record ip_addr =
  ia_version :: ip_version
  ia_value :: nat

record ip_net =
  in_version :: ip_version
  in_address :: nat
  in_prefixlen :: nat

section \<open>Reading addresses\<close>

definition parse_octet :: "string \<Rightarrow> nat option" where
  "parse_octet s =
     (if s \<noteq> [] \<and> list_all is_digit s \<and> length s \<le> 3 \<and> \<not> (s \<noteq> ''0'' \<and> hd s = CHR ''0'') \<and> dec_val s \<le> 255
      then Some (dec_val s) else None)"

definition from_digits :: "nat \<Rightarrow> nat list \<Rightarrow> nat" where
  "from_digits b ds = foldl (\<lambda>n d. b * n + d) 0 ds"

definition ipv4_int :: "string \<Rightarrow> nat option" where
  "ipv4_int s = (let octets = split_on CHR ''.'' s in
     if length octets \<noteq> 4 then None
     else map_option (from_digits 256) (those (map parse_octet octets)))"

definition hex_val :: "char \<Rightarrow> nat option" where
  "hex_val c = (if is_digit c then Some (digit_val c)
     else if 97 \<le> code c \<and> code c \<le> 102 then Some (code c - 87)
     else if 65 \<le> code c \<and> code c \<le> 70 then Some (code c - 55) else None)"

definition parse_hextet :: "string \<Rightarrow> nat option" where
  "parse_hextet s = (if s = [] \<or> 4 < length s then None
     else map_option (from_digits 16) (those (map hex_val s)))"

text \<open>An IPv4 suffix stands for the last two groups; here it is converted to their values.\<close>

definition hextet_parts :: "string list \<Rightarrow> nat option list option" where
  "hextet_parts parts =
     (if CHR ''.'' \<in> set (last parts) then
        map_option (\<lambda>n. map parse_hextet (butlast parts) @ [Some (n div 65536), Some (n mod 65536)])
          (ipv4_int (last parts))
      else Some (map parse_hextet parts))"

definition blank_parts :: "string list \<Rightarrow> bool list" where
  "blank_parts parts = (if CHR ''.'' \<in> set (last parts)
     then map (\<lambda>p. p = []) (butlast parts) @ [False, False] else map (\<lambda>p. p = []) parts)"

text \<open>The positions of the inner empty parts; more than one is refused.\<close>

definition skip_positions :: "bool list \<Rightarrow> nat list" where
  "skip_positions blank = filter (\<lambda>i. blank ! i) [1..<length blank - 1]"

text \<open>\<open>::\<close> at part \<open>k\<close>: the parts before it, zero groups up to eight, the parts after it.\<close>

definition expand_skip :: "bool list \<Rightarrow> nat option list \<Rightarrow> nat \<Rightarrow> nat option list option" where
  "expand_skip blank vals k =
     (let n = length vals;
          hi = (if blank ! 0 then k - 1 else k);
          lo = (if blank ! (n - 1) then n - k - 2 else n - k - 1) in
      if blank ! 0 \<and> hi \<noteq> 0 \<or> blank ! (n - 1) \<and> lo \<noteq> 0 \<or> 8 \<le> hi + lo then None
      else Some (take hi vals @ replicate (8 - (hi + lo)) (Some 0) @ drop (n - lo) vals))"

definition ipv6_int :: "string \<Rightarrow> nat option" where
  "ipv6_int s = (let parts = split_on CHR '':'' s in
     if length parts < 3 then None else
     case hextet_parts parts of None \<Rightarrow> None | Some vals \<Rightarrow>
     let blank = blank_parts parts; n = length vals in
     if 9 < n then None else
     (case skip_positions blank of
        [] \<Rightarrow> if n \<noteq> 8 then None else map_option (from_digits 65536) (those vals)
      | [k] \<Rightarrow> (case expand_skip blank vals k of None \<Rightarrow> None
          | Some xs \<Rightarrow> map_option (from_digits 65536) (those xs))
      | _ \<Rightarrow> None))"

definition ipv6_scoped :: "string \<Rightarrow> nat option" where
  "ipv6_scoped s = (case partition_on CHR ''%'' s of (addr, found, scope) \<Rightarrow>
     if found \<and> (scope = [] \<or> CHR ''%'' \<in> set scope) then None else ipv6_int addr)"

definition ip_address :: "string \<Rightarrow> ip_addr option" where
  "ip_address s =
     (if CHR ''/'' \<in> set s then None
      else case ipv4_int s of
          Some n \<Rightarrow> Some \<lparr>ia_version = V4, ia_value = n\<rparr>
        | None \<Rightarrow> map_option (\<lambda>n. \<lparr>ia_version = V6, ia_value = n\<rparr>) (ipv6_scoped s))"

section \<open>Reading networks\<close>

definition all_ones :: "nat \<Rightarrow> nat" where
  "all_ones w = 2 ^ w - 1"

definition netmask :: "nat \<Rightarrow> nat \<Rightarrow> nat" where
  "netmask w p = all_ones w XOR drop_bit p (all_ones w)"

definition prefix_string :: "ip_version \<Rightarrow> string \<Rightarrow> nat option" where
  "prefix_string v s = (if s \<noteq> [] \<and> list_all is_digit s \<and> length s \<le> max_str_digits \<and>
       dec_val s \<le> max_prefixlen v then Some (dec_val s) else None)"

text \<open>The prefix whose netmask is \<open>n\<close>, if there is one.\<close>

definition prefix_from_int :: "nat \<Rightarrow> nat option" where
  "prefix_from_int n = find (\<lambda>p. netmask 32 p = n) (rev [0..<33])"

definition prefix_from_ip :: "string \<Rightarrow> nat option" where
  "prefix_from_ip s = (case ipv4_int s of None \<Rightarrow> None | Some n \<Rightarrow>
     (case prefix_from_int n of Some p \<Rightarrow> Some p | None \<Rightarrow> prefix_from_int (n XOR all_ones 32)))"

definition make_netmask :: "ip_version \<Rightarrow> string option \<Rightarrow> nat option" where
  "make_netmask v msk = (case msk of None \<Rightarrow> Some (max_prefixlen v) | Some s \<Rightarrow>
     (case prefix_string v s of Some p \<Rightarrow> Some p
      | None \<Rightarrow> (case v of V4 \<Rightarrow> prefix_from_ip s | V6 \<Rightarrow> None)))"

definition mk_network :: "bool \<Rightarrow> ip_version \<Rightarrow> nat option \<Rightarrow> string option \<Rightarrow> ip_net option" where
  "mk_network strict v addr msk =
     (case addr of None \<Rightarrow> None | Some n \<Rightarrow>
      case make_netmask v msk of None \<Rightarrow> None | Some p \<Rightarrow>
      let net = n AND netmask (max_prefixlen v) p in
      if strict \<and> net \<noteq> n then None
      else Some \<lparr>in_version = v, in_address = net, in_prefixlen = p\<rparr>)"

definition ip_network :: "bool \<Rightarrow> string \<Rightarrow> ip_net option" where
  "ip_network strict s =
     (let parts = split_on CHR ''/'' s;
          addr = hd parts;
          msk = (if length parts = 2 then Some (parts ! 1) else None) in
      if 2 < length parts then None
      else case mk_network strict V4 (ipv4_int addr) msk of
          Some n \<Rightarrow> Some n
        | None \<Rightarrow> mk_network strict V6 (ipv6_scoped addr) msk)"

definition ip_in :: "ip_addr \<Rightarrow> ip_net \<Rightarrow> bool" where
  "ip_in a n \<longleftrightarrow> ia_version a = in_version n \<and>
     ia_value a AND netmask (max_prefixlen (in_version n)) (in_prefixlen n) = in_address n"

section \<open>Membership is equality of the leading bits\<close>

lemma netmask_bits:
  assumes "p \<le> w"
  shows "bit (netmask w p) i \<longleftrightarrow> w - p \<le> i \<and> i < w"
proof -
  have m: "all_ones w = mask w" by (simp add: all_ones_def mask_eq_exp_minus_1)
  show ?thesis
    using assms unfolding netmask_def m
    by (auto simp: bit_simps)
qed

lemma and_netmask:
  assumes "x < 2 ^ w" and "p \<le> w"
  shows "x AND netmask w p = x div 2 ^ (w - p) * 2 ^ (w - p)"
proof -
  have "x AND netmask w p = push_bit (w - p) (drop_bit (w - p) x)"
  proof (rule bit_eqI)
    fix i
    have "i < w" if "bit x i"
    proof (rule ccontr)
      assume "\<not> i < w"
      then have "x < 2 ^ i" using assms(1) by (meson le_less_trans less_le_trans not_less power_increasing
          one_le_numeral)
      with that show False by (simp add: bit_iff_odd)
    qed
    then show "bit (x AND netmask w p) i \<longleftrightarrow> bit (push_bit (w - p) (drop_bit (w - p) x)) i"
      using netmask_bits[OF assms(2), of i] by (auto simp: bit_simps)
  qed
  then show ?thesis by (simp add: push_bit_eq_mult drop_bit_eq_div)
qed

text \<open>Well-formed values, and that reading yields only such values.\<close>

definition ip_addr_ok :: "ip_addr \<Rightarrow> bool" where
  "ip_addr_ok a \<longleftrightarrow> ia_value a < 2 ^ max_prefixlen (ia_version a)"

definition ip_net_ok :: "ip_net \<Rightarrow> bool" where
  "ip_net_ok n \<longleftrightarrow> in_prefixlen n \<le> max_prefixlen (in_version n) \<and>
     in_address n < 2 ^ max_prefixlen (in_version n) \<and>
     2 ^ (max_prefixlen (in_version n) - in_prefixlen n) dvd in_address n"

lemma ip_in_iff:
  assumes "ip_addr_ok a" and "ip_net_ok n" and "ia_version a = in_version n"
  defines "h \<equiv> max_prefixlen (in_version n) - in_prefixlen n"
  shows "ip_in a n \<longleftrightarrow> ia_value a div 2 ^ h = in_address n div 2 ^ h"
proof -
  have "ia_value a AND netmask (max_prefixlen (in_version n)) (in_prefixlen n) =
      ia_value a div 2 ^ h * 2 ^ h"
    unfolding h_def by (rule and_netmask) (use assms in \<open>auto simp: ip_addr_ok_def ip_net_ok_def\<close>)
  moreover have "in_address n = in_address n div 2 ^ h * 2 ^ h"
    using assms(2) by (simp add: ip_net_ok_def h_def)
  ultimately show ?thesis
    using assms(3) by (simp add: ip_in_def) (metis mult_cancel2 power_not_zero zero_neq_numeral)
qed

lemma from_digits_bound:
  assumes "\<forall>d\<in>set ds. d < b"
  shows "from_digits b ds < b ^ length ds"
  using assms
proof (induction ds rule: rev_induct)
  case (snoc d ds)
  then have "from_digits b ds + 1 \<le> b ^ length ds" "d < b" by auto
  then have "b * (from_digits b ds + 1) \<le> b * b ^ length ds" by (metis mult_le_mono2)
  with \<open>d < b\<close> have "b * from_digits b ds + d < b * b ^ length ds" by (simp add: algebra_simps)
  then show ?case by (simp add: from_digits_def)
qed (simp add: from_digits_def)

lemma those_set:
  "those xs = Some ys \<Longrightarrow> length ys = length xs \<and> (\<forall>y\<in>set ys. Some y \<in> set xs)"
  by (induction xs arbitrary: ys) (auto split: option.splits)

lemma ipv4_int_bound:
  assumes "ipv4_int s = Some n"
  shows "n < 2 ^ 32"
proof -
  obtain ds where ds: "those (map parse_octet (split_on CHR ''.'' s)) = Some ds"
    "n = from_digits 256 ds" "length (split_on CHR ''.'' s) = 4"
    using assms by (auto simp: ipv4_int_def Let_def split: if_splits)
  have "\<forall>d\<in>set ds. d < 256"
    using those_set[OF ds(1)] by (force simp: parse_octet_def split: if_splits)
  moreover have "length ds = 4" using those_set[OF ds(1)] ds(3) by simp
  ultimately show ?thesis using from_digits_bound[of ds 256] ds(2) by simp
qed

lemma parse_hextet_bound:
  assumes "parse_hextet s = Some n"
  shows "n < 65536"
proof -
  obtain ds where ds: "those (map hex_val s) = Some ds" "n = from_digits 16 ds" "length s \<le> 4"
    using assms by (auto simp: parse_hextet_def split: if_splits)
  have "\<forall>d\<in>set ds. d < 16"
    using those_set[OF ds(1)] by (force simp: hex_val_def digit_val_def is_digit_def split: if_splits)
  then have "n < 16 ^ length s" using from_digits_bound[of ds 16] those_set[OF ds(1)] ds(2) by simp
  also have "\<dots> \<le> (16::nat) ^ 4" using ds(3) by (intro power_increasing) auto
  finally show ?thesis by simp
qed

lemma hextet_parts_bound:
  assumes "hextet_parts parts = Some vals" and "Some v \<in> set vals"
  shows "v < 65536"
proof (cases "CHR ''.'' \<in> set (last parts)")
  case False
  then show ?thesis using assms parse_hextet_bound by (auto simp: hextet_parts_def)
next
  case True
  then obtain n where n: "ipv4_int (last parts) = Some n"
    "vals = map parse_hextet (butlast parts) @ [Some (n div 65536), Some (n mod 65536)]"
    using assms(1) by (auto simp: hextet_parts_def)
  have "n div 65536 < 65536" using ipv4_int_bound[OF n(1)] by (simp add: less_mult_imp_div_less)
  with n assms(2) parse_hextet_bound show ?thesis by fastforce
qed

lemma length_blank_parts: "hextet_parts parts = Some vals \<Longrightarrow> length (blank_parts parts) = length vals"
  by (auto simp: hextet_parts_def blank_parts_def split: if_splits)

lemma skip_positions_bound: "k \<in> set (skip_positions blank) \<Longrightarrow> 1 \<le> k \<and> k < length blank - 1"
  by (simp add: skip_positions_def)

lemma expand_skip_props:
  assumes "expand_skip blank vals k = Some xs" and "length blank = length vals"
    and "k \<in> set (skip_positions blank)"
  shows "length xs = 8 \<and> set xs \<subseteq> insert (Some 0) (set vals)"
proof -
  obtain hi lo where h: "hi \<le> length vals" "lo \<le> length vals" "hi + lo < 8"
    "xs = take hi vals @ replicate (8 - (hi + lo)) (Some 0) @ drop (length vals - lo) vals"
  proof -
    define n hi lo where "n = length vals" and "hi = (if blank ! 0 then k - 1 else k)"
      and "lo = (if blank ! (n - 1) then n - k - 2 else n - k - 1)"
    have "k < n" using skip_positions_bound[OF assms(3)] assms(2) by (auto simp: n_def)
    then have "hi \<le> n" "lo \<le> n" by (auto simp: hi_def lo_def)
    moreover have "hi + lo < 8 \<and> xs = take hi vals @ replicate (8 - (hi + lo)) (Some 0) @ drop (n - lo) vals"
      using assms(1) unfolding expand_skip_def Let_def n_def[symmetric] hi_def[symmetric] lo_def[symmetric]
      by (auto split: if_splits)
    ultimately show ?thesis using that n_def by blast
  qed
  then show ?thesis by (auto dest: in_set_takeD in_set_dropD)
qed

lemma those_from_digits_bound:
  assumes "those xs = Some ds" and "length xs = 8" and "\<And>v. Some v \<in> set xs \<Longrightarrow> v < 65536"
  shows "from_digits 65536 ds < 2 ^ 128"
proof -
  have "from_digits 65536 ds < 65536 ^ 8"
    using from_digits_bound[of ds 65536] those_set[OF assms(1)] assms(2,3) by auto
  also have "(65536::nat) ^ 8 = 2 ^ 128" by simp
  finally show ?thesis .
qed


lemma ipv6_int_bound:
  assumes "ipv6_int s = Some n"
  shows "n < 2 ^ 128"
proof -
  let ?parts = "split_on CHR '':'' s"
  obtain vals where v: "hextet_parts ?parts = Some vals"
    using assms by (auto simp: ipv6_int_def Let_def split: if_splits option.splits)
  have b: "Some x \<in> set vals \<Longrightarrow> x < 65536" for x using hextet_parts_bound[OF v] .
  obtain xs ds where x: "n = from_digits 65536 ds" "those xs = Some ds" "length xs = 8"
    "set xs \<subseteq> insert (Some 0) (set vals)"
    using assms v expand_skip_props[OF _ length_blank_parts[OF v]]
    unfolding ipv6_int_def
    by (auto simp: Let_def split: if_splits list.splits option.splits)
  show ?thesis
    using those_from_digits_bound[OF x(2,3)] x(1,4) b by fastforce
qed

lemma ipv6_scoped_bound: "ipv6_scoped s = Some n \<Longrightarrow> n < 2 ^ 128"
  using ipv6_int_bound by (auto simp: ipv6_scoped_def split: prod.splits if_splits)

lemma ip_address_ok: "ip_address s = Some a \<Longrightarrow> ip_addr_ok a"
  using ipv4_int_bound ipv6_scoped_bound
  by (fastforce simp: ip_address_def ip_addr_ok_def split: if_splits option.splits)

lemma prefix_from_int_bound: "prefix_from_int n = Some p \<Longrightarrow> p \<le> 32"
proof -
  assume "prefix_from_int n = Some p"
  then have "p \<in> set (rev [0..<33])"
    unfolding prefix_from_int_def find_Some_iff by (metis nth_mem)
  then show "p \<le> 32" unfolding set_rev set_upt by simp
qed

lemma make_netmask_bound: "make_netmask v m = Some p \<Longrightarrow> p \<le> max_prefixlen v"
  using prefix_from_int_bound
  by (auto simp: make_netmask_def prefix_string_def prefix_from_ip_def
      split: if_splits option.splits ip_version.splits)

lemma mk_network_ok:
  assumes "mk_network strict v addr m = Some n" and "\<And>x. addr = Some x \<Longrightarrow> x < 2 ^ max_prefixlen v"
  shows "ip_net_ok n"
proof -
  obtain x p where x: "addr = Some x" "make_netmask v m = Some p"
    "n = \<lparr>in_version = v, in_address = x AND netmask (max_prefixlen v) p, in_prefixlen = p\<rparr>"
    using assms(1) by (auto simp: mk_network_def Let_def split: option.splits if_splits)
  have p: "p \<le> max_prefixlen v" using make_netmask_bound[OF x(2)] .
  have "x < 2 ^ max_prefixlen v" using assms(2)[OF x(1)] .
  from and_netmask[OF this p] this show ?thesis
    using p by (simp add: ip_net_ok_def x(3)) (meson div_times_less_eq_dividend le_less_trans)
qed

lemma ip_network_ok: "ip_network strict s = Some n \<Longrightarrow> ip_net_ok n"
  using ipv4_int_bound ipv6_scoped_bound mk_network_ok
  by (fastforce simp: ip_network_def Let_def split: if_splits option.splits)

end
