(* ===== verification/Saas_Matcher.thy ===== *)
theory Saas_Matcher
  imports Py_String
begin

text \<open>
  First match in a ranked table, as an interface, and its use by the resolver service:
  \<open>resolver/src/resolver/saas_matcher.py\<close>. The correlator's application resolver has the
  same contract for its manual applications and for its own copy of the SaaS catalogue.
\<close>

section \<open>Ranked tables\<close>

text \<open>
  \<open>build\<close> turns the rows into the table that \<open>hit\<close> searches; the law says that the search is
  the first match in the stable order of the ranks, least rank first.
\<close>

locale ranked_table =
  fixes rank :: "'r \<Rightarrow> 'k::linorder"
    and accepts :: "'q \<Rightarrow> 'r \<Rightarrow> bool"
    and build :: "'r list \<Rightarrow> 't"
    and hit :: "'t \<Rightarrow> 'q \<Rightarrow> 'r option"
  assumes hit_build: "hit (build rows) q = find (accepts q) (sort_key rank rows)"
begin

lemma hit_least:
  assumes "hit (build rows) q = Some r"
  shows "r \<in> set rows \<and> accepts q r \<and> (\<forall>s \<in> set rows. accepts q s \<longrightarrow> rank r \<le> rank s)"
  using find_sort_key_least[of "accepts q" rank rows r] assms by (simp add: hit_build)

lemma hit_None: "hit (build rows) q = None \<longleftrightarrow> (\<forall>r \<in> set rows. \<not> accepts q r)"
  by (auto simp: hit_build find_None_iff)

text \<open>When no two accepted rows share a rank the answer depends on the set of rows alone.\<close>

lemma hit_iff:
  assumes "inj_on rank (set rows)"
  shows "hit (build rows) q = Some r \<longleftrightarrow>
    r \<in> set rows \<and> accepts q r \<and> (\<forall>s \<in> set rows. accepts q s \<longrightarrow> rank r \<le> rank s)"
proof
  assume a: "r \<in> set rows \<and> accepts q r \<and> (\<forall>s \<in> set rows. accepts q s \<longrightarrow> rank r \<le> rank s)"
  then obtain r' where r': "hit (build rows) q = Some r'"
    using hit_None[of rows q] by (cases "hit (build rows) q") auto
  from hit_least[OF r'] a have "rank r' = rank r" "r' \<in> set rows" by (auto intro: antisym)
  with a assms have "r' = r" by (auto dest: inj_onD)
  with r' show "hit (build rows) q = Some r" by simp
qed (rule hit_least)

end

section \<open>The matcher of the resolver service\<close>

record saas_row =
  sr_id :: int
  sr_name :: string
  sr_pattern :: string
  sr_priority :: int

definition saas_rank :: "saas_row \<Rightarrow> int \<times> int \<times> int" where
  "saas_rank r = (- sr_priority r, - int (length (sr_pattern r)), sr_id r)"

definition new_saas_matcher :: "saas_row list \<Rightarrow> saas_row list" where
  "new_saas_matcher rows = sort_key saas_rank rows"

definition suffix_match :: "string \<Rightarrow> string \<Rightarrow> bool" where
  "suffix_match fqdn pattern \<longleftrightarrow> ends_with (lower pattern) (lower fqdn)"

definition match :: "saas_row list \<Rightarrow> string \<Rightarrow> saas_row option" where
  "match table fqdn = find (\<lambda>r. suffix_match fqdn (sr_pattern r)) table"

interpretation sm: ranked_table saas_rank "\<lambda>fqdn r. suffix_match fqdn (sr_pattern r)"
    new_saas_matcher match
  by standard (simp add: match_def new_saas_matcher_def)

lemma suffix_match_lower [simp]: "suffix_match (lower fqdn) p = suffix_match fqdn p"
  by (simp add: suffix_match_def)

lemma suffix_match_suffix: "suffix_match (h @ p) p"
  by (auto simp: suffix_match_def ends_with_iff lower_def)

text \<open>
  The catalogue lookup. The matcher returns a row exactly when its pattern is a suffix of the
  name, ignoring case, and its (priority, pattern length) is best, with the smallest identifier
  among equals: identifiers being distinct, the answer does not depend on the order of the rows.
\<close>

theorem match_best_suffix:
  assumes "distinct (map sr_id rows)"
  shows "match (new_saas_matcher rows) fqdn = Some r \<longleftrightarrow>
    r \<in> set rows \<and> suffix_match fqdn (sr_pattern r) \<and>
    (\<forall>s \<in> set rows. suffix_match fqdn (sr_pattern s) \<longrightarrow>
       sr_priority s < sr_priority r \<or>
       sr_priority s = sr_priority r \<and> (length (sr_pattern s) < length (sr_pattern r) \<or>
         length (sr_pattern s) = length (sr_pattern r) \<and> sr_id r \<le> sr_id s))"
proof -
  have "inj_on saas_rank (set rows)"
    using assms by (auto simp: saas_rank_def inj_on_def distinct_map)
  from sm.hit_iff[OF this, of fqdn r] show ?thesis
    by (simp add: saas_rank_def less_eq_prod_simp le_less) fastforce
qed

theorem match_best_suffix_witness:
  "match (new_saas_matcher [\<lparr>sr_id = 1, sr_name = ''Google'', sr_pattern = ''.google.com'', sr_priority = 100\<rparr>,
      \<lparr>sr_id = 2, sr_name = ''Meet'', sr_pattern = ''.Meet.google.com'', sr_priority = 100\<rparr>])
     ''eu.meet.GOOGLE.com'' =
   Some \<lparr>sr_id = 2, sr_name = ''Meet'', sr_pattern = ''.Meet.google.com'', sr_priority = 100\<rparr>"
proof -
  have l: "lower ''eu.meet.GOOGLE.com'' = ''eu'' @ lower ''.Meet.google.com''" by code_simp
  have "suffix_match ''eu.meet.GOOGLE.com'' ''.Meet.google.com''"
    unfolding suffix_match_def l ends_with_iff by blast
  then show ?thesis by (intro match_best_suffix[THEN iffD2]) simp_all
qed

end
