(* ===== verification/App_Resolver.thy ===== *)
theory App_Resolver
  imports Ipaddress Saas_Matcher
begin

text \<open>
  Naming the destination of a flow:
  \<open>correlator/src/correlator/pipeline/app_resolver.py\<close>. The Redis reads of one call are the
  parameter \<open>get\<close> (a key to its value, if set); what the call writes is returned with its answer.
\<close>

section \<open>State\<close>

record manual_app =
  ma_id :: int
  ma_name :: string
  ma_cidr :: string
  ma_port_min :: "int option"
  ma_port_max :: "int option"
  ma_proto :: "int option"
  ma_priority :: int

record saas_entry =
  se_id :: int
  se_name :: string
  se_pattern :: string
  se_priority :: int

record port_default =
  pd_port :: int
  pd_proto :: int
  pd_name :: string

datatype label_kind = Manual | Saas | Ptr | Port | Raw

record app_candidate =
  ac_label_kind :: label_kind
  ac_label :: string
  ac_app_id :: "int option"

record app_resolver =
  rs_manual :: "manual_app list"
  rs_saas_sorted :: "saas_entry list"
  rs_port_defaults :: "(int \<times> int, port_default) dict"

datatype redis_write = RPush string string

definition new_app_resolver :: app_resolver where
  "new_app_resolver = \<lparr>rs_manual = [], rs_saas_sorted = [], rs_port_defaults = []\<rparr>"

section \<open>Operations\<close>

definition manual_rank :: "manual_app \<Rightarrow> int \<times> int" where
  "manual_rank a = (- ma_priority a,
     case ip_network True (ma_cidr a) of None \<Rightarrow> 0 | Some n \<Rightarrow> - int (in_prefixlen n))"

definition entry_rank :: "saas_entry \<Rightarrow> int \<times> int \<times> int" where
  "entry_rank s = (- se_priority s, - int (length (se_pattern s)), se_id s)"

text \<open>\<open>sorted\<close> evaluates the key of every element, so a bad network raises before any assignment.\<close>

definition load_tables :: "app_resolver \<Rightarrow> manual_app list \<Rightarrow> saas_entry list \<Rightarrow> port_default list \<Rightarrow>
    py_error + app_resolver" where
  "load_tables rs manual saas ports =
     (if \<exists>a \<in> set manual. ip_network True (ma_cidr a) = None then Inl ValueError
      else Inr (rs\<lparr>rs_manual := sort_key manual_rank manual,
        rs_saas_sorted := sort_key entry_rank saas,
        rs_port_defaults := foldl (\<lambda>d p. AList.update (pd_port p, pd_proto p) p d) [] ports\<rparr>))"

definition app_accepts :: "int \<Rightarrow> int \<Rightarrow> manual_app \<Rightarrow> bool" where
  "app_accepts port proto a \<longleftrightarrow>
     \<not> (ma_proto a \<noteq> None \<and> ma_proto a \<noteq> Some proto) \<and>
     \<not> (case ma_port_min a of None \<Rightarrow> False | Some m \<Rightarrow> port < m) \<and>
     \<not> (case ma_port_max a of None \<Rightarrow> False | Some m \<Rightarrow> port > m)"

fun manual_loop :: "ip_addr \<Rightarrow> int \<Rightarrow> int \<Rightarrow> manual_app list \<Rightarrow> py_error + manual_app option" where
  "manual_loop ip port proto [] = Inr None"
| "manual_loop ip port proto (a # as) =
     (case ip_network True (ma_cidr a) of
        None \<Rightarrow> Inl ValueError
      | Some n \<Rightarrow> if ip_in ip n \<and> app_accepts port proto a then Inr (Some a)
          else manual_loop ip port proto as)"

definition manual_hit :: "app_resolver \<Rightarrow> string \<Rightarrow> int \<Rightarrow> int \<Rightarrow> py_error + manual_app option" where
  "manual_hit rs ip port proto = (case ip_address ip of
     None \<Rightarrow> Inr None | Some a \<Rightarrow> manual_loop a port proto (rs_manual rs))"

definition saas_hit :: "app_resolver \<Rightarrow> string \<Rightarrow> saas_entry option" where
  "saas_hit rs fqdn = (let l = lower fqdn in
     find (\<lambda>s. ends_with (lower (se_pattern s)) l) (rs_saas_sorted rs))"

definition saas_by_id :: "app_resolver \<Rightarrow> string option \<Rightarrow> saas_entry option" where
  "saas_by_id rs id_str = (case id_str of
     None \<Rightarrow> None
   | Some s \<Rightarrow> let saas_id = (case py_int s of None \<Rightarrow> -1 | Some n \<Rightarrow> n)
       in find (\<lambda>e. se_id e = saas_id) (rs_saas_sorted rs))"

definition port_or_raw :: "app_resolver \<Rightarrow> string \<Rightarrow> int \<Rightarrow> int \<Rightarrow> app_candidate" where
  "port_or_raw rs dst_ip dst_port proto =
     (case map_of (rs_port_defaults rs) (dst_port, proto) of
        Some p \<Rightarrow> \<lparr>ac_label_kind = Port, ac_label = pd_name p, ac_app_id = None\<rparr>
      | None \<Rightarrow> \<lparr>ac_label_kind = Raw, ac_label = dst_ip @ '':'' @ show_int dst_port, ac_app_id = None\<rparr>)"

definition resolve_app :: "app_resolver \<Rightarrow> (string \<Rightarrow> string option) \<Rightarrow> string \<Rightarrow> int \<Rightarrow> int \<Rightarrow>
    string option \<Rightarrow> py_error + app_candidate \<times> redis_write list" where
  "resolve_app rs get dst_ip dst_port proto firewall_fqdn =
     bind_r (manual_hit rs dst_ip dst_port proto) (\<lambda>manual.
       case manual of
         Some a \<Rightarrow> Inr (\<lparr>ac_label_kind = Manual, ac_label = ma_name a, ac_app_id = Some (ma_id a)\<rparr>, [])
       | None \<Rightarrow>
         (case (if truthy firewall_fqdn then saas_hit rs (the firewall_fqdn) else None) of
            Some s \<Rightarrow> Inr (\<lparr>ac_label_kind = Saas, ac_label = se_name s, ac_app_id = Some (se_id s)\<rparr>, [])
          | None \<Rightarrow>
            (case get (''dns:ptr:'' @ dst_ip) of
               None \<Rightarrow> Inr (port_or_raw rs dst_ip dst_port proto, [RPush ''dns:unresolved'' dst_ip])
             | Some ptr \<Rightarrow>
                 (case (if ptr \<noteq> [] then saas_by_id rs (get (''dns:saas:'' @ dst_ip)) else None) of
                    Some e \<Rightarrow> Inr (\<lparr>ac_label_kind = Ptr, ac_label = se_name e, ac_app_id = Some (se_id e)\<rparr>, [])
                  | None \<Rightarrow> Inr (port_or_raw rs dst_ip dst_port proto, [])))))"

section \<open>Ranked tables of the resolver\<close>

definition manual_accepts :: "ip_addr \<times> int \<times> int \<Rightarrow> manual_app \<Rightarrow> bool" where
  "manual_accepts q a = (case q of (ip, port, proto) \<Rightarrow>
     (case ip_network True (ma_cidr a) of None \<Rightarrow> False | Some n \<Rightarrow> ip_in ip n) \<and> app_accepts port proto a)"

definition nets_ok :: "manual_app list \<Rightarrow> bool" where
  "nets_ok as \<longleftrightarrow> (\<forall>a \<in> set as. ip_network True (ma_cidr a) \<noteq> None)"

lemma manual_loop_find:
  "nets_ok as \<Longrightarrow> manual_loop ip port proto as = Inr (find (manual_accepts (ip, port, proto)) as)"
  by (induction as) (auto simp: nets_ok_def manual_accepts_def split: option.splits)

text \<open>The rows with valid networks, as \<open>load\<close> sorts them and \<open>_manual_hit\<close> searches them.\<close>

interpretation mt: ranked_table manual_rank manual_accepts "sort_key manual_rank"
    "\<lambda>table q. find (manual_accepts q) table"
  by standard simp

interpretation st: ranked_table entry_rank "\<lambda>fqdn s. suffix_match fqdn (se_pattern s)"
    "\<lambda>saas. rs\<lparr>rs_saas_sorted := sort_key entry_rank saas\<rparr>" saas_hit for rs
  by standard (simp add: saas_hit_def suffix_match_def Let_def)

lemma load_tables_ok:
  "load_tables rs manual saas ports = Inr rs1 \<longleftrightarrow> nets_ok manual \<and>
   rs1 = rs\<lparr>rs_manual := sort_key manual_rank manual, rs_saas_sorted := sort_key entry_rank saas,
     rs_port_defaults := foldl (\<lambda>d p. AList.update (pd_port p, pd_proto p) p d) [] ports\<rparr>"
  by (auto simp: load_tables_def nets_ok_def)

lemma manual_hit_loaded:
  assumes "load_tables rs manual saas ports = Inr rs1"
  shows "manual_hit rs1 ip port proto = Inr (case ip_address ip of None \<Rightarrow> None
    | Some a \<Rightarrow> find (manual_accepts (a, port, proto)) (sort_key manual_rank manual))"
  using assms manual_loop_find[of "sort_key manual_rank manual"]
  by (auto simp: load_tables_ok manual_hit_def nets_ok_def split: option.splits)

lemma saas_hit_loaded:
  assumes "load_tables rs manual saas ports = Inr rs1"
  shows "saas_hit rs1 fqdn = find (\<lambda>s. suffix_match fqdn (se_pattern s)) (sort_key entry_rank saas)"
  using assms by (auto simp: load_tables_ok saas_hit_def suffix_match_def Let_def)

text \<open>The catalogue of the correlator as the rows of the resolver service.\<close>

definition row_of_entry :: "saas_entry \<Rightarrow> saas_row" where
  "row_of_entry e = \<lparr>sr_id = se_id e, sr_name = se_name e, sr_pattern = se_pattern e, sr_priority = se_priority e\<rparr>"

lemma insort_key_map: "insort_key f (g x) (map g ys) = map g (insort_key (\<lambda>z. f (g z)) x ys)"
  by (induction ys) auto

lemma sort_key_map: "sort_key f (map g xs) = map g (sort_key (\<lambda>z. f (g z)) xs)"
  by (induction xs) (simp_all add: insort_key_map)

lemma find_map: "find P (map g xs) = map_option g (find (\<lambda>z. P (g z)) xs)"
  by (induction xs) auto

lemma saas_rank_entry [simp]: "saas_rank (row_of_entry e) = entry_rank e"
  by (simp add: saas_rank_def entry_rank_def row_of_entry_def)

section \<open>Properties\<close>

text \<open>
  The manual catalogue. After a successful load, looking up an address never raises; it finds
  nothing exactly when the text is no address or no application matches, and otherwise an
  application whose network contains the address (the leading \<open>prefixlen\<close> bits agree) and
  whose protocol and port range admit the flow, of highest priority and, among those, of
  longest prefix.
\<close>

theorem manual_hit_best:
  assumes "load_tables rs manual saas ports = Inr rs1"
  shows "\<exists>r. manual_hit rs1 ip port proto = Inr r \<and>
    (r = None \<longleftrightarrow> (\<forall>a x. ip_address ip = Some x \<longrightarrow> a \<in> set manual \<longrightarrow> \<not> manual_accepts (x, port, proto) a)) \<and>
    (\<forall>a. r = Some a \<longrightarrow> a \<in> set manual \<and> app_accepts port proto a \<and>
      (\<exists>x n. ip_address ip = Some x \<and> ip_network True (ma_cidr a) = Some n \<and> ia_version x = in_version n \<and>
        ia_value x div 2 ^ (max_prefixlen (in_version n) - in_prefixlen n) =
        in_address n div 2 ^ (max_prefixlen (in_version n) - in_prefixlen n) \<and>
        (\<forall>b m. b \<in> set manual \<longrightarrow> ip_network True (ma_cidr b) = Some m \<longrightarrow>
           manual_accepts (x, port, proto) b \<longrightarrow>
           ma_priority b < ma_priority a \<or>
           ma_priority b = ma_priority a \<and> in_prefixlen m \<le> in_prefixlen n)))"
proof (cases "ip_address ip")
  case None
  then show ?thesis by (simp add: manual_hit_loaded[OF assms])
next
  case (Some x)
  let ?r = "find (manual_accepts (x, port, proto)) (sort_key manual_rank manual)"
  have r: "manual_hit rs1 ip port proto = Inr ?r" by (simp add: manual_hit_loaded[OF assms] Some)
  have none: "?r = None \<longleftrightarrow> (\<forall>a \<in> set manual. \<not> manual_accepts (x, port, proto) a)"
    by (rule mt.hit_None)
  have some: "a \<in> set manual \<and> app_accepts port proto a \<and>
      (\<exists>n. ip_network True (ma_cidr a) = Some n \<and> ia_version x = in_version n \<and>
        ia_value x div 2 ^ (max_prefixlen (in_version n) - in_prefixlen n) =
        in_address n div 2 ^ (max_prefixlen (in_version n) - in_prefixlen n) \<and>
        (\<forall>b m. b \<in> set manual \<longrightarrow> ip_network True (ma_cidr b) = Some m \<longrightarrow>
           manual_accepts (x, port, proto) b \<longrightarrow>
           ma_priority b < ma_priority a \<or>
           ma_priority b = ma_priority a \<and> in_prefixlen m \<le> in_prefixlen n))" if a: "?r = Some a" for a
  proof -
    have h: "a \<in> set manual" "manual_accepts (x, port, proto) a"
      "\<forall>b \<in> set manual. manual_accepts (x, port, proto) b \<longrightarrow> manual_rank a \<le> manual_rank b"
      using mt.hit_least[OF a] by blast+
    then obtain n where n: "ip_network True (ma_cidr a) = Some n" "ip_in x n" "app_accepts port proto a"
      by (auto simp: manual_accepts_def split: option.splits)
    have v: "ia_version x = in_version n" using n(2) by (simp add: ip_in_def)
    have "ma_priority b < ma_priority a \<or> ma_priority b = ma_priority a \<and> in_prefixlen m \<le> in_prefixlen n"
      if "b \<in> set manual" "ip_network True (ma_cidr b) = Some m" "manual_accepts (x, port, proto) b" for b m
      using h(3) that n(1) by (auto simp: manual_rank_def)
    with h(1) n v ip_in_iff[OF ip_address_ok[OF Some] ip_network_ok[OF n(1)] v] show ?thesis by blast
  qed
  from r none some Some show ?thesis by auto
qed


text \<open>
  The two services agree. On the same rows, the correlator's search of the SaaS catalogue and
  the matcher of the resolver service, written separately, return the same entry for every name.
\<close>

theorem saas_hit_agrees:
  assumes "load_tables rs manual saas ports = Inr rs1"
  shows "map_option row_of_entry (saas_hit rs1 fqdn) = match (new_saas_matcher (map row_of_entry saas)) fqdn"
  by (simp add: saas_hit_loaded[OF assms] match_def new_saas_matcher_def sort_key_map find_map)
    (simp add: row_of_entry_def)

section \<open>Witnesses\<close>

definition crm :: manual_app where
  "crm = \<lparr>ma_id = 7, ma_name = ''crm'', ma_cidr = ''10.1.0.0/16'', ma_port_min = Some 443,
     ma_port_max = None, ma_proto = Some 6, ma_priority = 100\<rparr>"

definition zoom :: saas_entry where
  "zoom = \<lparr>se_id = 3, se_name = ''Zoom'', se_pattern = ''.zoom.us'', se_priority = 100\<rparr>"

definition demo_tables :: app_resolver where
  "demo_tables = \<lparr>rs_manual = [crm], rs_saas_sorted = [zoom],
     rs_port_defaults = [((22, 6), \<lparr>pd_port = 22, pd_proto = 6, pd_name = ''ssh''\<rparr>)]\<rparr>"

lemmas read_ip_simps = ip_network_def ip_address_def mk_network_def make_netmask_def prefix_string_def
  ipv4_int_def ipv6_scoped_def ipv6_int_def partition_on_def parse_octet_def from_digits_def
  is_digit_def digit_val_def code_def dec_val_def max_str_digits_def Let_def

lemma crm_net: "ip_network True ''10.1.0.0/16'' =
    Some \<lparr>in_version = V4, in_address = 167837696, in_prefixlen = 16\<rparr>"
  using and_netmask[of 167837696 32 16] by (simp add: read_ip_simps)

lemma crm_ip: "ip_address ''10.1.2.3'' = Some \<lparr>ia_version = V4, ia_value = 167838211\<rparr>"
  by (simp add: read_ip_simps)

lemma demo_load:
  "load_tables new_app_resolver [crm] [zoom] [\<lparr>pd_port = 22, pd_proto = 6, pd_name = ''ssh''\<rparr>] = Inr demo_tables"
  by (simp add: load_tables_def crm_def crm_net new_app_resolver_def demo_tables_def)

theorem manual_hit_best_witness:
  "manual_hit demo_tables ''10.1.2.3'' 443 6 = Inr (Some crm)"
proof -
  have "ip_in \<lparr>ia_version = V4, ia_value = 167838211\<rparr> \<lparr>in_version = V4, in_address = 167837696, in_prefixlen = 16\<rparr>"
    using and_netmask[of 167838211 32 16] by (simp add: ip_in_def)
  then have "manual_accepts (\<lparr>ia_version = V4, ia_value = 167838211\<rparr>, 443, 6) crm"
    by (simp add: manual_accepts_def crm_net app_accepts_def crm_def)
  with manual_hit_best[OF demo_load, of "''10.1.2.3''" 443 6] show ?thesis
    by (auto simp: crm_ip)
qed


theorem saas_hit_agrees_witness:
  "map_option row_of_entry (saas_hit demo_tables ''us02.zoom.us'') =
   match (new_saas_matcher (map row_of_entry [zoom])) ''us02.zoom.us''"
  by (rule saas_hit_agrees[OF demo_load])

end
