(* ===== verification/Group_Aggregator.thy ===== *)
theory Group_Aggregator
  imports Prelude
begin

text \<open>
  The roll-up of enriched flows into Sankey links:
  \<open>correlator/src/correlator/pipeline/group_aggregator.py\<close>. \<open>lcd\<close> picks the group that stands
  for a set of users, \<open>aggregate\<close> buckets the rows of a window by destination and label.

  The rows are dictionaries; the keys read with \<open>[]\<close> are plain fields of the record (the
  publisher always writes them), the keys read with \<open>get\<close> are optional ones. Python visits a
  set in an order that is not fixed; the model visits it in sorted order, and the lemmas below
  do not depend on the order.
\<close>

section \<open>The covering group\<close>

definition lcd_sets :: "string fset \<Rightarrow> (string, string fset) dict \<Rightarrow> string fset list option" where
  "lcd_sets users user_groups = those (map (map_of user_groups) (sorted_list_of_fset users))"

definition intersect_all :: "string fset list \<Rightarrow> string fset" where
  "intersect_all sets = (case sets of [] \<Rightarrow> {||} | s # ss \<Rightarrow> foldl (|\<inter>|) s ss)"

definition size_key :: "(string, int) dict \<Rightarrow> string \<Rightarrow> int \<times> string" where
  "size_key group_size g = (dict_get group_size g 0, g)"

definition lcd :: "string fset \<Rightarrow> (string, string fset) dict \<Rightarrow> (string, int) dict \<Rightarrow> string fset \<Rightarrow>
    int \<Rightarrow> string option" where
  "lcd users user_groups group_size excluded floor1 =
     (if users = {||} then None
      else case lcd_sets users user_groups of
        None \<Rightarrow> None
      | Some sets \<Rightarrow>
          let candidates = intersect_all sets |-| excluded in
          if candidates = {||} then None
          else let chosen = arg_min_list (size_key group_size) (sorted_list_of_fset candidates) in
            if fcard users = 1 \<and> dict_get group_size chosen 0 > floor1 then None else Some chosen)"

section \<open>Rows and links\<close>

record agg_row =
  ar_user_upn :: string
  ar_dst :: string
  ar_groups :: "string fset option"
  ar_src_ip :: "string option"
  ar_bytes :: "int option"
  ar_flows :: "int option"
  ar_flow_count :: "int option"

record live_link =
  ll_src :: string
  ll_dst :: string
  ll_bytes :: int
  ll_flows :: int
  ll_users :: "string fset"

record link =
  ln_src :: string
  ln_dst :: string
  ln_bytes :: int
  ln_flows :: int
  ln_users :: int

definition row_bytes :: "agg_row \<Rightarrow> int" where
  "row_bytes r = (case ar_bytes r of None \<Rightarrow> 0 | Some n \<Rightarrow> n)"

definition row_flows :: "agg_row \<Rightarrow> int" where
  "row_flows r = (case ar_flows r of Some n \<Rightarrow> n
     | None \<Rightarrow> (case ar_flow_count r of Some n \<Rightarrow> n | None \<Rightarrow> 1))"

definition new_link :: "string \<times> string \<Rightarrow> live_link" where
  "new_link key = \<lparr>ll_src = fst key, ll_dst = snd key, ll_bytes = 0, ll_flows = 0, ll_users = {||}\<rparr>"

definition bump :: "agg_row \<Rightarrow> live_link \<Rightarrow> live_link" where
  "bump r l = l\<lparr>ll_bytes := ll_bytes l + row_bytes r, ll_flows := ll_flows l + row_flows r,
     ll_users := finsert (ar_user_upn r) (ll_users l)\<rparr>"

type_synonym links = "(string \<times> string, live_link) dict"

definition accum :: "links \<Rightarrow> string \<Rightarrow> string \<Rightarrow> agg_row \<Rightarrow> links" where
  "accum links src dst row = dict_alter (src, dst) (new_link (src, dst)) (bump row) links"

definition finalize :: "live_link \<Rightarrow> link" where
  "finalize l = \<lparr>ln_src = ll_src l, ln_dst = ll_dst l, ln_bytes = ll_bytes l, ln_flows = ll_flows l,
     ln_users = int (fcard (ll_users l))\<rparr>"

section \<open>The aggregator\<close>

record aggregator =
  ag_excluded :: "string fset"
  ag_floor :: int
  ag_cache :: "(string fset, string option) dict"

definition new_aggregator :: "string fset \<Rightarrow> int \<Rightarrow> aggregator" where
  "new_aggregator excluded floor1 = \<lparr>ag_excluded = excluded, ag_floor = floor1, ag_cache = []\<rparr>"

definition clear_cache :: "aggregator \<Rightarrow> aggregator" where
  "clear_cache a = a\<lparr>ag_cache := []\<rparr>"

definition collect_users :: "agg_row list \<Rightarrow> (string, string fset) dict" where
  "collect_users rows =
     foldl (\<lambda>d r. dict_alter (ar_dst r) {||} (finsert (ar_user_upn r)) d) [] rows"

definition collect_rows :: "agg_row list \<Rightarrow> (string, agg_row list) dict" where
  "collect_rows rows = foldl (\<lambda>d r. dict_alter (ar_dst r) [] (\<lambda>rs. rs @ [r]) d) [] rows"

definition row_groups :: "agg_row \<Rightarrow> string fset" where
  "row_groups r = (case ar_groups r of None \<Rightarrow> {||} | Some gs \<Rightarrow> gs)"

definition collect_groups :: "agg_row list \<Rightarrow> (string, string fset) dict" where
  "collect_groups rows = foldl (\<lambda>d r. AList.update (ar_user_upn r) (row_groups r) d) [] rows"

abbreviation unknown :: string where
  "unknown \<equiv> ''unknown''"

definition known_of :: "string fset \<Rightarrow> string fset" where
  "known_of users = ffilter (\<lambda>u. u \<noteq> unknown) users"

definition restrict_groups :: "(string, string fset) dict \<Rightarrow> string fset \<Rightarrow>
    py_error + (string, string fset) dict" where
  "restrict_groups ug known =
     fold_r (\<lambda>d u. bind_r (lookup_r ug u) (\<lambda>gs. Inr (AList.update u gs d))) [] (sorted_list_of_fset known)"

text \<open>The memoised call of \<open>lcd\<close>: the cache is keyed by the set of users alone.\<close>

definition cached_lcd :: "aggregator \<Rightarrow> (string, string fset) dict \<Rightarrow> (string, int) dict \<Rightarrow>
    string fset \<Rightarrow> py_error + aggregator \<times> string option" where
  "cached_lcd a ug group_sizes known =
     (case map_of (ag_cache a) known of
        Some c \<Rightarrow> Inr (a, c)
      | None \<Rightarrow> bind_r (restrict_groups ug known) (\<lambda>ug1.
          let c = lcd known ug1 group_sizes (ag_excluded a) (ag_floor a)
          in Inr (a\<lparr>ag_cache := AList.update known c (ag_cache a)\<rparr>, c)))"

definition const_labels :: "string fset \<Rightarrow> (string \<Rightarrow> string) \<Rightarrow> (string, string) dict" where
  "const_labels known f = map (\<lambda>u. (u, f u)) (sorted_list_of_fset known)"

definition src_label :: "agg_row \<Rightarrow> string" where
  "src_label r = (case ar_src_ip r of None \<Rightarrow> ar_user_upn r | Some ip \<Rightarrow> ip)"

definition src_ip_labels :: "agg_row list \<Rightarrow> (string, string) dict" where
  "src_ip_labels rs = foldl (\<lambda>d r. if ar_user_upn r \<noteq> unknown
     then AList.update (ar_user_upn r) (src_label r) d else d) [] rs"

definition labels_for :: "aggregator \<Rightarrow> (string, string fset) dict \<Rightarrow> (string, int) dict \<Rightarrow> string \<Rightarrow>
    string fset \<Rightarrow> agg_row list \<Rightarrow> py_error + aggregator \<times> (string, string) dict" where
  "labels_for a ug group_sizes group_by known rs =
     (if group_by = ''user'' then Inr (a, const_labels known id)
      else if group_by = ''src_ip'' then Inr (a, src_ip_labels rs)
      else bind_r (cached_lcd a ug group_sizes known) (\<lambda>(a1, chosen).
        Inr (a1, case chosen of None \<Rightarrow> const_labels known id | Some g \<Rightarrow> const_labels known (\<lambda>_. g))))"

definition accum_unknown :: "links \<Rightarrow> string \<Rightarrow> agg_row list \<Rightarrow> links" where
  "accum_unknown links dst rs =
     foldl (\<lambda>ls r. if ar_user_upn r = unknown then accum ls unknown dst r else ls) links rs"

definition accum_known :: "(string, string) dict \<Rightarrow> links \<Rightarrow> string \<Rightarrow> agg_row list \<Rightarrow>
    py_error + links" where
  "accum_known label_for links dst rs =
     fold_r (\<lambda>ls r. if ar_user_upn r = unknown then Inr ls
       else bind_r (lookup_r label_for (ar_user_upn r)) (\<lambda>src. Inr (accum ls src dst r))) links rs"

text \<open>One turn of the loop over \<open>per_dst_users.items()\<close>.\<close>

definition aggregate_dst :: "(string, agg_row list) dict \<Rightarrow> (string, string fset) dict \<Rightarrow>
    (string, int) dict \<Rightarrow> string \<Rightarrow> aggregator \<times> links \<Rightarrow> string \<times> string fset \<Rightarrow>
    py_error + aggregator \<times> links" where
  "aggregate_dst per_dst_rows ug group_sizes group_by s p =
     (case s of (a, links) \<Rightarrow> case p of (dst, users) \<Rightarrow>
       let known = known_of users;
           rs = dict_get per_dst_rows dst [];
           links1 = (if users |-| known \<noteq> {||} then accum_unknown links dst rs else links)
       in if known = {||} then Inr (a, links1)
          else bind_r (labels_for a ug group_sizes group_by known rs) (\<lambda>(a1, label_for).
            bind_r (accum_known label_for links1 dst rs) (\<lambda>links2. Inr (a1, links2))))"

definition aggregate :: "aggregator \<Rightarrow> agg_row list \<Rightarrow> (string, int) dict \<Rightarrow> string \<Rightarrow>
    py_error + aggregator \<times> link list" where
  "aggregate a rows group_sizes group_by =
     bind_r (fold_r (aggregate_dst (collect_rows rows) (collect_groups rows) group_sizes group_by)
         (a, []) (collect_users rows))
       (\<lambda>(a1, links). Inr (a1, map (\<lambda>p. finalize (snd p)) links))"

section \<open>Lemmas on the covering group\<close>

lemma those_Some_iff: "those (map f xs) = Some ys \<longleftrightarrow> (\<forall>x\<in>set xs. f x \<noteq> None) \<and> ys = map (\<lambda>x. the (f x)) xs"
  by (induction xs arbitrary: ys) (auto split: option.splits)

lemma lcd_sets_Some:
  "lcd_sets users ug = Some sets \<longleftrightarrow> (\<forall>u. u |\<in>| users \<longrightarrow> map_of ug u \<noteq> None) \<and>
     sets = map (\<lambda>u. the (map_of ug u)) (sorted_list_of_fset users)"
  by (auto simp: lcd_sets_def those_Some_iff)

lemma in_foldl_inter: "g |\<in>| foldl (|\<inter>|) s ss \<longleftrightarrow> g |\<in>| s \<and> (\<forall>t\<in>set ss. g |\<in>| t)"
  by (induction ss arbitrary: s) auto

lemma in_intersect_all: "sets \<noteq> [] \<Longrightarrow> g |\<in>| intersect_all sets \<longleftrightarrow> (\<forall>t\<in>set sets. g |\<in>| t)"
  by (cases sets) (auto simp: intersect_all_def in_foldl_inter)

text \<open>\<open>covers\<close>: every user has an entry that contains \<open>g\<close>, and \<open>g\<close> is not excluded.\<close>

definition covers :: "string fset \<Rightarrow> (string, string fset) dict \<Rightarrow> string fset \<Rightarrow> string \<Rightarrow> bool" where
  "covers users ug excluded g \<longleftrightarrow>
     g |\<notin>| excluded \<and> (\<forall>u. u |\<in>| users \<longrightarrow> (\<exists>gs. map_of ug u = Some gs \<and> g |\<in>| gs))"

lemma candidates_covers:
  assumes "users \<noteq> {||}" and "lcd_sets users ug = Some sets"
  shows "g |\<in>| intersect_all sets |-| excluded \<longleftrightarrow> covers users ug excluded g"
proof -
  have s: "sets = map (\<lambda>u. the (map_of ug u)) (sorted_list_of_fset users)"
    "\<forall>u. u |\<in>| users \<longrightarrow> map_of ug u \<noteq> None"
    using assms(2) by (auto simp: lcd_sets_Some)
  have "sets \<noteq> []" using assms(1) s(1)
    by (metis Nil_is_map_conv empty_set bot_fset.rep_eq fset_inject sorted_list_of_fset_simps(1))
  then show ?thesis using s by (fastforce simp: in_intersect_all covers_def)
qed

lemma arg_min_size_key:
  assumes "xs \<noteq> []"
  shows "arg_min_list (size_key sz) xs = g \<longleftrightarrow>
    g \<in> set xs \<and> (\<forall>h\<in>set xs. size_key sz g \<le> size_key sz h)"
proof -
  let ?m = "arg_min_list (size_key sz) xs"
  have m: "?m \<in> set xs" "\<forall>h\<in>set xs. size_key sz ?m \<le> size_key sz h"
    using assms by (auto simp: arg_min_list_in f_arg_min_list_f)
  moreover have "g = ?m" if "g \<in> set xs" "\<forall>h\<in>set xs. size_key sz g \<le> size_key sz h"
  proof -
    have "size_key sz g = size_key sz ?m" using that m by (meson antisym)
    then show ?thesis by (simp add: size_key_def)
  qed
  ultimately show ?thesis by blast
qed

lemma lcd_Some_iff:
  "lcd users ug sz ex fl = Some g \<longleftrightarrow>
     users \<noteq> {||} \<and> covers users ug ex g \<and>
     (\<forall>h. covers users ug ex h \<longrightarrow> size_key sz g \<le> size_key sz h) \<and>
     \<not> (fcard users = 1 \<and> fl < dict_get sz g 0)"
proof (cases "users \<noteq> {||} \<and> (\<exists>sets. lcd_sets users ug = Some sets)")
  case True
  then obtain sets where t: "users \<noteq> {||}" "lcd_sets users ug = Some sets" by blast
  let ?c = "intersect_all sets |-| ex" and ?m = "arg_min_list (size_key sz)"
  have c: "set (sorted_list_of_fset ?c) = {h. covers users ug ex h}"
    using candidates_covers[OF t] by auto
  show ?thesis
  proof (cases "?c = {||}")
    case True
    then have "lcd users ug sz ex fl = None" using t by (simp add: lcd_def Let_def)
    moreover have "\<not> covers users ug ex g"
      using candidates_covers[OF t, of g ex] unfolding True by simp
    ultimately show ?thesis by simp
  next
    case False
    have n: "sorted_list_of_fset ?c \<noteq> []"
      using False by (metis empty_set bot_fset.rep_eq fset_inject sorted_list_of_fset_simps(1))
    have l: "lcd users ug sz ex fl = Some g \<longleftrightarrow> ?m (sorted_list_of_fset ?c) = g \<and>
        \<not> (fcard users = 1 \<and> fl < dict_get sz g 0)"
      using t False by (auto simp: lcd_def Let_def)
    show ?thesis
      unfolding l arg_min_size_key[OF n] c using t(1) by blast
  qed
next
  case False
  then have "lcd users ug sz ex fl = None"
    by (auto simp: lcd_def split: option.splits)
  moreover have "\<not> covers users ug ex g" if "users \<noteq> {||}"
    using that False by (auto simp: covers_def lcd_sets_Some)
  ultimately show ?thesis by auto
qed


lemma ex_least_cover:
  assumes "users \<noteq> {||}" and "covers users ug ex h"
  shows "\<exists>g. covers users ug ex g \<and> (\<forall>h. covers users ug ex h \<longrightarrow> size_key sz g \<le> size_key sz h)"
proof -
  let ?S = "{h. covers users ug ex h}"
  obtain u where u: "u |\<in>| users" using assms(1) by auto
  obtain gs where "map_of ug u = Some gs" using assms(2) u by (auto simp: covers_def)
  then have "?S \<subseteq> fset gs" using u by (auto simp: covers_def)
  then have f: "finite (size_key sz ` ?S)" by (meson finite_fset finite_imageI finite_subset)
  have "size_key sz ` ?S \<noteq> {}" using assms(2) by auto
  from Min_in[OF f this] obtain g where g: "covers users ug ex g" "Min (size_key sz ` ?S) = size_key sz g"
    by auto
  have "size_key sz g \<le> size_key sz h" if "covers users ug ex h" for h
    unfolding g(2)[symmetric] using that by (intro Min_le[OF f]) simp
  with g(1) show ?thesis by blast
qed

lemma lcd_None_cases:
  assumes "lcd users ug sz ex fl = None" and "u |\<in>| users"
  shows "(\<forall>h. \<not> covers users ug ex h) \<or>
    (users = {|u|} \<and> (\<forall>h. covers users ug ex h \<longrightarrow> fl < dict_get sz h 0))"
proof (cases "\<exists>h. covers users ug ex h")
  case True
  then obtain g where g: "covers users ug ex g"
    "\<forall>h. covers users ug ex h \<longrightarrow> size_key sz g \<le> size_key sz h"
    using ex_least_cover[of users ug ex _ sz] assms(2) by blast
  moreover have "users \<noteq> {||}" using assms(2) by auto
  ultimately have f: "fcard users = 1" "fl < dict_get sz g 0"
    using assms(1) lcd_Some_iff[of users ug sz ex fl g] by auto
  obtain x where "fset users = {x}" using f(1) by (auto simp: fcard.rep_eq card_1_singleton_iff)
  with assms(2) have "users = {|u|}" by (intro fset_inject[THEN iffD1]) simp
  moreover have "fl < dict_get sz h 0" if "covers users ug ex h" for h
    using g(2) that f(2) by (auto simp: size_key_def)
  ultimately show ?thesis by blast
qed blast

lemma covers_cong:
  "(\<And>u. u |\<in>| users \<Longrightarrow> map_of ug u = map_of ug' u) \<Longrightarrow> covers users ug ex g = covers users ug' ex g"
  by (auto simp: covers_def)

lemma lcd_cong:
  assumes "\<And>u. u |\<in>| users \<Longrightarrow> map_of ug u = map_of ug' u"
  shows "lcd users ug sz ex fl = lcd users ug' sz ex fl"
proof -
  have "lcd users ug sz ex fl = Some g \<longleftrightarrow> lcd users ug' sz ex fl = Some g" for g
    unfolding lcd_Some_iff using covers_cong[OF assms] by simp
  then show ?thesis by (metis not_Some_eq)
qed

section \<open>What the loops collect\<close>

definition rows_at :: "agg_row list \<Rightarrow> string \<Rightarrow> agg_row list" where
  "rows_at rows d = filter (\<lambda>r. ar_dst r = d) rows"

definition known_at :: "agg_row list \<Rightarrow> string \<Rightarrow> string fset" where
  "known_at rows d = known_of (fset_of_list (map ar_user_upn (rows_at rows d)))"

lemma foldl_finsert: "foldl (\<lambda>s x. finsert (f x) s) s xs = s |\<union>| fset_of_list (map f xs)"
  by (induction xs arbitrary: s) auto

lemma foldl_snoc: "foldl (\<lambda>s x. s @ [x]) s xs = s @ xs"
  by (induction xs arbitrary: s) auto

lemma collect_rows_get: "dict_get (collect_rows rows) d [] = rows_at rows d"
  using dict_get_group[of ar_dst "\<lambda>_. []" "\<lambda>r rs. rs @ [r]" rows d]
  by (simp add: collect_rows_def rows_at_def foldl_snoc)

lemma collect_users_props:
  "distinct (map fst (collect_users rows))"
  "fst ` set (collect_users rows) = ar_dst ` set rows"
  "(d, users) \<in> set (collect_users rows) \<Longrightarrow> users = fset_of_list (map ar_user_upn (rows_at rows d))"
proof -
  show dist: "distinct (map fst (collect_users rows))" by (simp add: collect_users_def)
  show "fst ` set (collect_users rows) = ar_dst ` set rows"
    by (simp add: collect_users_def dom_group)
  show "users = fset_of_list (map ar_user_upn (rows_at rows d))" if "(d, users) \<in> set (collect_users rows)"
  proof -
    have "map_of (collect_users rows) d = Some users" using that dist by simp
    then show ?thesis
      using map_of_group[of ar_dst "\<lambda>_. {||}" "\<lambda>r. finsert (ar_user_upn r)" rows d]
      by (auto simp: collect_users_def rows_at_def foldl_finsert split: if_splits)
  qed
qed

lemma collect_groups_some: "u \<in> ar_user_upn ` set rows \<Longrightarrow> map_of (collect_groups rows) u \<noteq> None"
  by (auto simp: collect_groups_def map_of_update_fold find_None_iff)

lemma in_known_of [simp]: "u |\<in>| known_of users \<longleftrightarrow> u |\<in>| users \<and> u \<noteq> unknown"
  by (auto simp: known_of_def)

lemma in_known_at: "u |\<in>| known_at rows d \<longleftrightarrow> u \<noteq> unknown \<and> (\<exists>r\<in>set rows. ar_dst r = d \<and> ar_user_upn r = u)"
  by (auto simp: known_at_def rows_at_def fset_of_list_elem)

lemma restrict_groups_ok:
  assumes "\<And>u. u |\<in>| known \<Longrightarrow> map_of ug u \<noteq> None"
  shows "\<exists>d. restrict_groups ug known = Inr d \<and> (\<forall>u. u |\<in>| known \<longrightarrow> map_of d u = map_of ug u)"
proof -
  let ?us = "sorted_list_of_fset known" and ?v = "\<lambda>u. the (map_of ug u)"
  have "restrict_groups ug known = Inr (foldl (\<lambda>d u. AList.update u (?v u) d) [] ?us)"
    unfolding restrict_groups_def
    by (rule fold_r_total) (use assms in \<open>auto simp: lookup_r_def split: option.splits\<close>)
  moreover have "map_of (foldl (\<lambda>d u. AList.update u (?v u) d) [] ?us) u = map_of ug u"
    if u: "u |\<in>| known" for u
  proof -
    have "find (\<lambda>x. x = u) (rev ?us) = Some u"
      using u by (cases "find (\<lambda>x. x = u) (rev ?us)") (auto simp: find_None_iff find_Some_iff)
    then show ?thesis
      using assms[OF u] map_of_update_fold[of "\<lambda>u. u" ?v ?us u] by auto
  qed
  ultimately show ?thesis by blast
qed

section \<open>The label of a row\<close>

text \<open>
  \<open>memo_lcd\<close> is the covering group as the cache sees it, \<open>label_of\<close> the left-hand label of a row
  given the whole window.
\<close>

definition memo_lcd :: "aggregator \<Rightarrow> (string, string fset) dict \<Rightarrow> (string, int) dict \<Rightarrow>
    string fset \<Rightarrow> string option" where
  "memo_lcd a ug sz known = (case map_of (ag_cache a) known of
     Some c \<Rightarrow> c | None \<Rightarrow> lcd known ug sz (ag_excluded a) (ag_floor a))"

definition label_of :: "aggregator \<Rightarrow> agg_row list \<Rightarrow> (string, int) dict \<Rightarrow> string \<Rightarrow> agg_row \<Rightarrow> string" where
  "label_of a rows sz group_by r =
     (if ar_user_upn r = unknown then unknown
      else if group_by = ''user'' then ar_user_upn r
      else if group_by = ''src_ip'' then
        src_label (last (filter (\<lambda>q. ar_user_upn q = ar_user_upn r) (rows_at rows (ar_dst r))))
      else case memo_lcd a (collect_groups rows) sz (known_at rows (ar_dst r)) of
          None \<Rightarrow> ar_user_upn r | Some g \<Rightarrow> g)"

lemma cached_lcd_ok:
  assumes "\<And>u. u |\<in>| known \<Longrightarrow> map_of ug u \<noteq> None"
  shows "\<exists>a1. cached_lcd a ug sz known = Inr (a1, memo_lcd a ug sz known) \<and>
    ag_excluded a1 = ag_excluded a \<and> ag_floor a1 = ag_floor a \<and> memo_lcd a1 ug sz = memo_lcd a ug sz"
proof (cases "map_of (ag_cache a) known")
  case None
  obtain d where d: "restrict_groups ug known = Inr d" "\<forall>u. u |\<in>| known \<longrightarrow> map_of d u = map_of ug u"
    using restrict_groups_ok[OF assms] by blast
  have "lcd known d sz ex fl = lcd known ug sz ex fl" for ex fl
    by (rule lcd_cong) (use d(2) in blast)
  with None d(1) show ?thesis
    by (auto simp: cached_lcd_def memo_lcd_def Let_def update_conv' fun_eq_iff split: option.splits)
qed (simp add: cached_lcd_def memo_lcd_def)

lemma map_of_const_labels: "u |\<in>| known \<Longrightarrow> map_of (const_labels known f) u = Some (f u)"
  by (auto simp: const_labels_def map_of_map_restrict)

lemma src_ip_labels_snoc:
  "src_ip_labels (rs @ [r]) = (if ar_user_upn r \<noteq> unknown
     then AList.update (ar_user_upn r) (src_label r) (src_ip_labels rs) else src_ip_labels rs)"
  by (simp add: src_ip_labels_def)

lemma map_of_src_ip_labels:
  "u \<noteq> unknown \<Longrightarrow> u \<in> ar_user_upn ` set rs \<Longrightarrow>
   map_of (src_ip_labels rs) u = Some (src_label (last (filter (\<lambda>q. ar_user_upn q = u) rs)))"
proof (induction rs rule: rev_induct)
  case (snoc r rs)
  then show ?case by (auto simp: src_ip_labels_snoc update_conv')
qed simp

lemma labels_for_ok:
  assumes "known = known_at rows d"
  shows "\<exists>a1 ls. labels_for a (collect_groups rows) sz gb known (rows_at rows d) = Inr (a1, ls) \<and>
    ag_excluded a1 = ag_excluded a \<and> ag_floor a1 = ag_floor a \<and>
    memo_lcd a1 (collect_groups rows) sz = memo_lcd a (collect_groups rows) sz \<and>
    (\<forall>r \<in> set (rows_at rows d). ar_user_upn r \<noteq> unknown \<longrightarrow>
       map_of ls (ar_user_upn r) = Some (label_of a rows sz gb r))"
proof -
  have "map_of (collect_groups rows) u \<noteq> None" if "u |\<in>| known" for u
    using that collect_groups_some[of u rows] by (auto simp: assms in_known_at)
  then obtain a1 where a1: "cached_lcd a (collect_groups rows) sz known =
      Inr (a1, memo_lcd a (collect_groups rows) sz known)"
    "ag_excluded a1 = ag_excluded a" "ag_floor a1 = ag_floor a"
    "memo_lcd a1 (collect_groups rows) sz = memo_lcd a (collect_groups rows) sz"
    using cached_lcd_ok[of known "collect_groups rows" a sz] by blast
  have k: "ar_user_upn r |\<in>| known" if "r \<in> set (rows_at rows d)" "ar_user_upn r \<noteq> unknown" for r
    using that by (auto simp: assms in_known_at rows_at_def)
  have dst: "ar_dst r = d" if "r \<in> set (rows_at rows d)" for r
    using that by (simp add: rows_at_def)
  show ?thesis
    using a1 k dst map_of_src_ip_labels[of _ "rows_at rows d"]
    by (auto simp: labels_for_def label_of_def map_of_const_labels assms[symmetric] split: option.splits)
qed

section \<open>The loop as one accumulation\<close>

abbreviation accum_all :: "(agg_row \<Rightarrow> string) \<Rightarrow> links \<Rightarrow> agg_row list \<Rightarrow> links" where
  "accum_all l \<equiv> foldl (\<lambda>ls r. accum ls (l r) (ar_dst r) r)"

definition dst_order :: "agg_row list \<Rightarrow> string \<Rightarrow> agg_row list" where
  "dst_order rows d = filter (\<lambda>r. ar_user_upn r = unknown) (rows_at rows d) @
     filter (\<lambda>r. ar_user_upn r \<noteq> unknown) (rows_at rows d)"

lemma accum_unknown_all:
  "(\<And>r. r \<in> set rs \<Longrightarrow> ar_dst r = d) \<Longrightarrow> (\<And>r. ar_user_upn r = unknown \<Longrightarrow> l r = unknown) \<Longrightarrow>
   accum_unknown links d rs = accum_all l links (filter (\<lambda>r. ar_user_upn r = unknown) rs)"
  unfolding accum_unknown_def by (induction rs arbitrary: links) auto

lemma accum_known_all:
  "(\<And>r. r \<in> set rs \<Longrightarrow> ar_dst r = d) \<Longrightarrow>
   (\<And>r. r \<in> set rs \<Longrightarrow> ar_user_upn r \<noteq> unknown \<Longrightarrow> map_of ls (ar_user_upn r) = Some (l r)) \<Longrightarrow>
   accum_known ls links d rs = Inr (accum_all l links (filter (\<lambda>r. ar_user_upn r \<noteq> unknown) rs))"
  unfolding accum_known_def by (induction rs arbitrary: links) (auto simp: lookup_r_def)

lemma label_of_cong:
  "memo_lcd a1 (collect_groups rows) sz = memo_lcd a (collect_groups rows) sz \<Longrightarrow>
   label_of a1 rows sz gb = label_of a rows sz gb"
  by (simp add: label_of_def fun_eq_iff)

lemma aggregate_dst_ok:
  assumes "(d, users) \<in> set (collect_users rows)"
  shows "\<exists>a1. aggregate_dst (collect_rows rows) (collect_groups rows) sz gb (a, links) (d, users) =
      Inr (a1, accum_all (label_of a rows sz gb) links (dst_order rows d)) \<and>
    ag_excluded a1 = ag_excluded a \<and> ag_floor a1 = ag_floor a \<and>
    memo_lcd a1 (collect_groups rows) sz = memo_lcd a (collect_groups rows) sz"
proof -
  let ?rs = "rows_at rows d" and ?l = "label_of a rows sz gb"
  let ?un = "filter (\<lambda>r. ar_user_upn r = unknown) ?rs" and ?kn = "filter (\<lambda>r. ar_user_upn r \<noteq> unknown) ?rs"
  have u: "users = fset_of_list (map ar_user_upn ?rs)" using collect_users_props(3)[OF assms] .
  have k: "known_of users = known_at rows d" by (simp add: u known_at_def)
  have dst: "ar_dst r = d" if "r \<in> set ?rs" for r using that by (simp add: rows_at_def)
  have unk: "users |-| known_of users = {||} \<Longrightarrow> ?un = []"
    by (force simp: u filter_empty_conv fset_of_list_elem)
  have "ar_user_upn r = unknown" if "known_of users = {||}" "r \<in> set ?rs" for r
    using in_known_of[of "ar_user_upn r" users, unfolded that(1)] that(2)
    by (auto simp: u fset_of_list_elem)
  then have kno: "known_of users = {||} \<Longrightarrow> ?kn = []" by (simp add: filter_empty_conv)
  have l1: "(if users |-| known_of users \<noteq> {||} then accum_unknown links d ?rs else links) =
      accum_all ?l links ?un"
    using unk accum_unknown_all[of ?rs d ?l links] dst by (auto simp: label_of_def)
  obtain a1 ls where ls: "labels_for a (collect_groups rows) sz gb (known_of users) ?rs = Inr (a1, ls)"
    "ag_excluded a1 = ag_excluded a" "ag_floor a1 = ag_floor a"
    "memo_lcd a1 (collect_groups rows) sz = memo_lcd a (collect_groups rows) sz"
    "\<forall>r \<in> set ?rs. ar_user_upn r \<noteq> unknown \<longrightarrow> map_of ls (ar_user_upn r) = Some (?l r)"
    using labels_for_ok[OF k, of a sz gb] by blast
  have l2: "accum_known ls (accum_all ?l links ?un) d ?rs = Inr (accum_all ?l (accum_all ?l links ?un) ?kn)"
    using ls(5) dst by (intro accum_known_all) auto
  show ?thesis
  proof (cases "known_of users = {||}")
    case True
    then show ?thesis using l1 kno[OF True]
      by (simp add: aggregate_dst_def collect_rows_get dst_order_def Let_def)
  next
    case False
    then show ?thesis using l1 l2 ls
      by (simp add: aggregate_dst_def collect_rows_get dst_order_def Let_def)
  qed
qed

lemma aggregate_loop:
  assumes "set ps \<subseteq> set (collect_users rows)"
  shows "\<exists>a1. fold_r (aggregate_dst (collect_rows rows) (collect_groups rows) sz gb) (a, links) ps =
      Inr (a1, accum_all (label_of a rows sz gb) links (concat (map (dst_order rows) (map fst ps)))) \<and>
    ag_excluded a1 = ag_excluded a \<and> ag_floor a1 = ag_floor a \<and>
    memo_lcd a1 (collect_groups rows) sz = memo_lcd a (collect_groups rows) sz"
  using assms
proof (induction ps arbitrary: a links)
  case (Cons p ps)
  obtain d users where p: "p = (d, users)" by (cases p)
  obtain a1 where a1: "aggregate_dst (collect_rows rows) (collect_groups rows) sz gb (a, links) p =
      Inr (a1, accum_all (label_of a rows sz gb) links (dst_order rows d))"
    "ag_excluded a1 = ag_excluded a" "ag_floor a1 = ag_floor a"
    "memo_lcd a1 (collect_groups rows) sz = memo_lcd a (collect_groups rows) sz"
    using aggregate_dst_ok[of d users rows sz gb a links] Cons.prems p by auto
  from Cons.IH[of a1 "accum_all (label_of a rows sz gb) links (dst_order rows d)"] Cons.prems a1
  show ?case by (simp add: p label_of_cong[OF a1(4)])
qed simp

section \<open>The aggregate as a group-by\<close>

definition link_ref :: "(agg_row \<Rightarrow> string) \<Rightarrow> agg_row list \<Rightarrow> string \<times> string \<Rightarrow> link" where
  "link_ref l rows key =
     (let rs = filter (\<lambda>r. (l r, ar_dst r) = key) rows in
      \<lparr>ln_src = fst key, ln_dst = snd key, ln_bytes = sum_list (map row_bytes rs),
       ln_flows = sum_list (map row_flows rs), ln_users = int (card (ar_user_upn ` set rs))\<rparr>)"

definition group_by_ref :: "(agg_row \<Rightarrow> string) \<Rightarrow> agg_row list \<Rightarrow> link multiset" where
  "group_by_ref l rows = image_mset (link_ref l rows) (mset_set ((\<lambda>r. (l r, ar_dst r)) ` set rows))"

lemma foldl_bump:
  "foldl (\<lambda>v r. bump r v) v rs = v\<lparr>ll_bytes := ll_bytes v + sum_list (map row_bytes rs),
     ll_flows := ll_flows v + sum_list (map row_flows rs),
     ll_users := ll_users v |\<union>| fset_of_list (map ar_user_upn rs)\<rparr>"
  by (induction rs arbitrary: v) (auto simp: bump_def ac_simps)

lemma finalize_group:
  "finalize (foldl (\<lambda>v r. bump r v) (new_link key) (filter (\<lambda>r. (l r, ar_dst r) = key) rows)) =
   link_ref l rows key"
  by (simp add: foldl_bump finalize_def link_ref_def new_link_def Let_def fcard.rep_eq
      fset_of_list.rep_eq Int_def conj_commute)

lemma sum_list_perm: "mset xs = mset ys \<Longrightarrow> sum_list (map m xs) = (sum_list (map m ys) :: int)"
  by (metis mset_map sum_mset_sum_list)

lemma link_ref_perm:
  assumes "mset xs = mset ys"
  shows "link_ref l xs key = link_ref l ys key"
proof -
  have m: "mset (filter P xs) = mset (filter P ys)" for P using assms by simp
  then have "set (filter P xs) = set (filter P ys)" for P by (rule mset_eq_setD)
  with sum_list_perm[OF m] show ?thesis by (simp add: link_ref_def Let_def)
qed

lemma mset_dst_order: "mset (dst_order rows d) = mset (rows_at rows d)"
  using multiset_partition[of "mset (rows_at rows d)" "\<lambda>r. ar_user_upn r = unknown"]
  by (simp add: dst_order_def)

lemma mset_ops: "mset (concat (map (dst_order rows) (map fst (collect_users rows)))) = mset rows"
proof -
  have "mset (concat (map (dst_order rows) ds)) = mset (concat (map (rows_at rows) ds))" for ds
    by (induction ds) (simp_all add: mset_dst_order)
  also have "mset (concat (map (rows_at rows) (map fst (collect_users rows)))) = mset rows"
    unfolding rows_at_def
    by (rule mset_concat_keys) (simp_all add: collect_users_props)
  finally show ?thesis .
qed

lemma mset_accum_all:
  "mset (map (\<lambda>p. finalize (snd p)) (accum_all l [] ops)) = group_by_ref l ops"
proof -
  let ?k = "\<lambda>r. (l r, ar_dst r)"
  let ?d = "foldl (\<lambda>d r. dict_alter (?k r) (new_link (?k r)) (bump r) d) [] ops"
  have d: "accum_all l [] ops = ?d" by (simp add: accum_def)
  have v: "finalize (snd p) = link_ref l ops (fst p)" if "p \<in> set ?d" for p
  proof -
    have "map_of ?d (fst p) = Some (snd p)" 
      by (rule map_of_is_SomeI[OF distinct_group]) (simp add: that)
    then have "snd p = foldl (\<lambda>v r. bump r v) (new_link (fst p)) (filter (\<lambda>r. ?k r = fst p) ops)"
      using map_of_group[of ?k new_link bump ops "fst p"] by (auto split: if_splits)
    then show ?thesis by (simp only: finalize_group)
  qed
  have "map (\<lambda>p. finalize (snd p)) ?d = map (link_ref l ops) (map fst ?d)" using v by simp
  moreover have "mset (map fst ?d) = mset_set (?k ` set ops)"
    using mset_set_set[of "map fst ?d"] by (simp add: dom_group)
  ultimately show ?thesis unfolding d group_by_ref_def by (simp only: mset_map)
qed

lemma aggregate_returns:
  "\<exists>a1. aggregate a rows sz gb = Inr (a1, map (\<lambda>p. finalize (snd p))
      (accum_all (label_of a rows sz gb) [] (concat (map (dst_order rows) (map fst (collect_users rows)))))) \<and>
    ag_excluded a1 = ag_excluded a \<and> ag_floor a1 = ag_floor a \<and>
    memo_lcd a1 (collect_groups rows) sz = memo_lcd a (collect_groups rows) sz"
  using aggregate_loop[of "collect_users rows" rows sz gb a "[]"]
  by (auto simp: aggregate_def)

lemma accum_all_total:
  fixes m :: "live_link \<Rightarrow> int"
  assumes "\<And>r v. m (bump r v) = m v + w r" and "\<And>key. m (new_link key) = 0"
  shows "sum_list (map (\<lambda>p. if snd (fst p) = d then m (snd p) else 0) (accum_all l [] ops)) =
    sum_list (map w (filter (\<lambda>r. ar_dst r = d) ops))"
proof (induction ops rule: rev_induct)
  case (snoc r ops)
  let ?f = "\<lambda>p. if snd (fst p) = d then m (snd p) else 0"
  have "sum_list (map ?f (accum ls (l r) (ar_dst r) r)) =
      sum_list (map ?f ls) + (if ar_dst r = d then w r else 0)" for ls
    unfolding accum_def by (rule sum_list_dict_alter) (simp_all add: assms)
  with snoc show ?case by simp
qed simp

lemma accum_dst:
  assumes "p \<in> set (accum ls s d r)" and "\<And>q. q \<in> set ls \<Longrightarrow> ll_dst (snd q) = snd (fst q)"
  shows "ll_dst (snd p) = snd (fst p)"
  using in_dict_alterD[OF assms(1)[unfolded accum_def]] assms(2)
  by (cases p) (auto simp: bump_def new_link_def)

lemma links_dst:
  "p \<in> set (accum_all l [] ops) \<Longrightarrow> ll_dst (snd p) = snd (fst p)"
proof (induction ops arbitrary: p rule: rev_induct)
  case (snoc r ops)
  then have "p \<in> set (accum (accum_all l [] ops) (l r) (ar_dst r) r)" by simp
  then show ?case by (rule accum_dst) (rule snoc.IH)
qed simp

lemma aggregate_group_by:
  "\<exists>a1 out. aggregate a rows sz gb = Inr (a1, out) \<and> mset out = group_by_ref (label_of a rows sz gb) rows"
proof -
  let ?l = "label_of a rows sz gb"
  let ?ops = "concat (map (dst_order rows) (map fst (collect_users rows)))"
  have "link_ref ?l ?ops = link_ref ?l rows" by (rule ext) (rule link_ref_perm[OF mset_ops])
  then have "group_by_ref ?l ?ops = group_by_ref ?l rows"
    by (simp only: group_by_ref_def mset_eq_setD[OF mset_ops])
  then show ?thesis
    using aggregate_returns[of a rows sz gb] mset_accum_all[of ?l ?ops] by auto
qed

lemma accum_all_sum:
  fixes m :: "live_link \<Rightarrow> int"
  assumes "\<And>r v. m (bump r v) = m v + w r" and "\<And>key. m (new_link key) = 0"
  shows "sum_list (map (\<lambda>p. m (snd p)) (accum_all l [] ops)) = sum_list (map w ops)"
proof (induction ops rule: rev_induct)
  case (snoc r ops)
  have "sum_list (map (\<lambda>p. m (snd p)) (accum ls (l r) (ar_dst r) r)) = sum_list (map (\<lambda>p. m (snd p)) ls) + w r" for ls
    unfolding accum_def by (rule sum_list_dict_alter) (simp_all add: assms)
  with snoc show ?case by simp
qed simp

lemma aggregate_sums:
  assumes "aggregate a rows sz gb = Inr (a1, out)"
  shows "sum_list (map ln_bytes out) = sum_list (map row_bytes rows)"
    and "sum_list (map ln_flows out) = sum_list (map row_flows rows)"
proof -
  let ?l = "label_of a rows sz gb"
  let ?ops = "concat (map (dst_order rows) (map fst (collect_users rows)))"
  have o: "out = map (\<lambda>p. finalize (snd p)) (accum_all ?l [] ?ops)"
    using aggregate_returns[of a rows sz gb] assms by auto
  have "sum_list (map ln_bytes out) = sum_list (map row_bytes ?ops)"
    using accum_all_sum[of ll_bytes row_bytes ?l ?ops]
    by (simp add: o bump_def new_link_def finalize_def comp_def)
  then show "sum_list (map ln_bytes out) = sum_list (map row_bytes rows)"
    by (simp only: sum_list_perm[OF mset_ops])
  have "sum_list (map ln_flows out) = sum_list (map row_flows ?ops)"
    using accum_all_sum[of ll_flows row_flows ?l ?ops]
    by (simp add: o bump_def new_link_def finalize_def comp_def)
  then show "sum_list (map ln_flows out) = sum_list (map row_flows rows)"
    by (simp only: sum_list_perm[OF mset_ops])
qed

lemma aggregate_dsts:
  assumes "aggregate a rows sz gb = Inr (a1, out)"
  shows "ln_dst ` set out = ar_dst ` set rows"
proof -
  let ?l = "label_of a rows sz gb"
  have "mset out = group_by_ref ?l rows" using aggregate_group_by[of a rows sz gb] assms by auto
  then have "set out = link_ref ?l rows ` (\<lambda>r. (?l r, ar_dst r)) ` set rows"
    unfolding group_by_ref_def by (metis (no_types, lifting) List.finite_set finite_imageI finite_set_mset_mset_set
        set_image_mset set_mset_mset)
  then show ?thesis by (simp add: image_image link_ref_def Let_def)
qed

section \<open>Properties\<close>

text \<open>
  C17: the covering group. \<open>lcd\<close> returns \<open>g\<close> exactly when there is a user, every user has an entry
  that contains \<open>g\<close>, \<open>g\<close> is not excluded, no other such group is smaller or as small with a
  lesser identifier, and a single user is not represented by a group larger than the floor. So
  the result does not depend on the order in which sets are visited.
\<close>

theorem lcd_least_cover:
  "lcd users ug sz ex fl = Some g \<longleftrightarrow>
     users \<noteq> {||} \<and> g |\<notin>| ex \<and> (\<forall>u. u |\<in>| users \<longrightarrow> (\<exists>gs. map_of ug u = Some gs \<and> g |\<in>| gs)) \<and>
     (\<forall>h. h |\<notin>| ex \<and> (\<forall>u. u |\<in>| users \<longrightarrow> (\<exists>gs. map_of ug u = Some gs \<and> h |\<in>| gs)) \<longrightarrow>
        dict_get sz g 0 < dict_get sz h 0 \<or> dict_get sz g 0 = dict_get sz h 0 \<and> g \<le> h) \<and>
     (fcard users = 1 \<longrightarrow> dict_get sz g 0 \<le> fl)"
  unfolding lcd_Some_iff covers_def size_key_def by (auto simp: not_less)

theorem lcd_least_cover_witness:
  "lcd {|''a'', ''b''|} [(''a'', {|''x'', ''y'', ''z''|}), (''b'', {|''y'', ''x'', ''w''|})]
     [(''x'', 9), (''y'', 4)] {||} 500 = Some ''y''"
  by (rule lcd_least_cover[THEN iffD2]) auto

text \<open>
  C6: the aggregation is a group-by. For every window, directory snapshot, mode and cache
  content, \<open>aggregate\<close> returns (no read of its dictionaries can raise) and its links are, as a
  multiset, those of the group-by of the rows on (label, destination): one link per pair that
  occurs, with the sums of bytes and flows and the number of distinct users of its rows.
\<close>

theorem aggregate_refines:
  "\<exists>a1 out. aggregate a rows sz gb = Inr (a1, out) \<and> mset out = group_by_ref (label_of a rows sz gb) rows"
  by (rule aggregate_group_by)

text \<open>
  Nothing is lost or invented per destination. In every mode, the links to a destination
  together carry the bytes and the flows of the rows to that destination.
\<close>

theorem aggregate_conserves:
  "\<exists>a1 out. aggregate a rows sz gb = Inr (a1, out) \<and>
    (\<forall>d. sum_list (map ln_bytes (filter (\<lambda>k. ln_dst k = d) out)) =
           sum_list (map row_bytes (filter (\<lambda>r. ar_dst r = d) rows)) \<and>
         sum_list (map ln_flows (filter (\<lambda>k. ln_dst k = d) out)) =
           sum_list (map row_flows (filter (\<lambda>r. ar_dst r = d) rows)))"
proof -
  let ?l = "label_of a rows sz gb"
  let ?ops = "concat (map (dst_order rows) (map fst (collect_users rows)))"
  let ?L = "accum_all ?l [] ?ops"
  let ?out = "map (\<lambda>p. finalize (snd p)) ?L"
  have split: "sum_list (map m (filter (\<lambda>k. ln_dst k = d) ?out)) =
      sum_list (map (\<lambda>p. if snd (fst p) = d then m (finalize (snd p)) else 0) ?L)"
    for m :: "link \<Rightarrow> int" and d
    unfolding sum_list_map_filter'
    by (simp add: comp_def, intro arg_cong[where f = sum_list] map_cong refl)
      (simp add: links_dst finalize_def)
  have perm: "sum_list (map w (filter (\<lambda>r. ar_dst r = d) ?ops)) =
      sum_list (map w (filter (\<lambda>r. ar_dst r = d) rows))" for w :: "agg_row \<Rightarrow> int" and d
    by (rule sum_list_perm) (simp only: mset_filter mset_ops)
  have "sum_list (map ln_bytes (filter (\<lambda>k. ln_dst k = d) ?out)) =
      sum_list (map row_bytes (filter (\<lambda>r. ar_dst r = d) rows))" for d
    unfolding split perm[symmetric]
    using accum_all_total[of ll_bytes row_bytes d ?l ?ops] 
    by (simp add: bump_def new_link_def finalize_def cong: if_cong)
  moreover have "sum_list (map ln_flows (filter (\<lambda>k. ln_dst k = d) ?out)) =
      sum_list (map row_flows (filter (\<lambda>r. ar_dst r = d) rows))" for d
    unfolding split perm[symmetric]
    using accum_all_total[of ll_flows row_flows d ?l ?ops] 
    by (simp add: bump_def new_link_def finalize_def cong: if_cong)
  ultimately show ?thesis using aggregate_returns[of a rows sz gb] by blast
qed

text \<open>A cache is coherent with a directory when every entry is what \<open>lcd\<close> would return now.\<close>

definition cache_coherent :: "aggregator \<Rightarrow> (string, string fset) dict \<Rightarrow> (string, int) dict \<Rightarrow> bool" where
  "cache_coherent a ug sz \<longleftrightarrow>
     (\<forall>(known, c) \<in> set (ag_cache a). c = lcd known ug sz (ag_excluded a) (ag_floor a))"

lemma memo_coherent:
  "cache_coherent a ug sz \<Longrightarrow> memo_lcd a ug sz known = lcd known ug sz (ag_excluded a) (ag_floor a)"
  by (auto simp: memo_lcd_def cache_coherent_def dest!: map_of_SomeD split: option.splits)

text \<open>
  A roll-up never shows a group that does not hold for all its users. In group mode, with
  a cache coherent with the memberships of the window (an empty one is), a row of a known user
  is labelled by a group only if every known user of its destination is a member of it and no
  admissible group is smaller; it keeps the user's name only if no admissible group covers all
  of them, or the user is alone there and the smallest such group is larger than the floor.
\<close>

theorem group_rollup_sound:
  assumes "cache_coherent a (collect_groups rows) sz" and "gb \<noteq> ''user''" and "gb \<noteq> ''src_ip''"
    and "r \<in> set rows" and "ar_user_upn r \<noteq> unknown"
  defines "adm \<equiv> covers (known_at rows (ar_dst r)) (collect_groups rows) (ag_excluded a)"
  shows "(adm (label_of a rows sz gb r) \<and>
       (\<forall>h. adm h \<longrightarrow> size_key sz (label_of a rows sz gb r) \<le> size_key sz h)) \<or>
     (label_of a rows sz gb r = ar_user_upn r \<and>
       ((\<forall>h. \<not> adm h) \<or> (known_at rows (ar_dst r) = {|ar_user_upn r|} \<and>
          (\<forall>h. adm h \<longrightarrow> ag_floor a < dict_get sz h 0))))"
proof -
  let ?k = "known_at rows (ar_dst r)" and ?ug = "collect_groups rows"
  have u: "ar_user_upn r |\<in>| ?k" using assms(4,5) by (auto simp: in_known_at)
  have lab: "label_of a rows sz gb r =
      (case lcd ?k ?ug sz (ag_excluded a) (ag_floor a) of None \<Rightarrow> ar_user_upn r | Some g \<Rightarrow> g)"
    using assms(2,3,5) by (simp add: label_of_def memo_coherent[OF assms(1)])
  show ?thesis
  proof (cases "lcd ?k ?ug sz (ag_excluded a) (ag_floor a)")
    case (Some g)
    then have "label_of a rows sz gb r = g" using lab by simp
    then show ?thesis using lcd_Some_iff[THEN iffD1, OF Some] by (simp add: adm_def)
  next
    case None
    have "(\<forall>h. \<not> adm h) \<or> (?k = {|ar_user_upn r|} \<and> (\<forall>h. adm h \<longrightarrow> ag_floor a < dict_get sz h 0))"
      unfolding adm_def by (rule lcd_None_cases[OF None u])
    with None lab show ?thesis by simp
  qed
qed

definition row_of :: "string \<Rightarrow> string \<Rightarrow> string \<Rightarrow> string fset \<Rightarrow> int \<Rightarrow> agg_row" where
  "row_of u d ip gs n = \<lparr>ar_user_upn = u, ar_dst = d, ar_groups = Some gs, ar_src_ip = Some ip,
     ar_bytes = Some n, ar_flows = None, ar_flow_count = Some 1\<rparr>"

theorem group_rollup_sound_witness:
  "label_of (new_aggregator {||} 500) [row_of ''ann'' ''d'' ''10.0.0.1'' {|''staff''|} 5] [] ''group''
     (row_of ''ann'' ''d'' ''10.0.0.1'' {|''staff''|} 5) = ''staff''"
proof -
  let ?r = "row_of ''ann'' ''d'' ''10.0.0.1'' {|''staff''|} 5" and ?a = "new_aggregator {||} 500"
  have k: "known_at [?r] (ar_dst ?r) = {|''ann''|}"
    by (auto simp: fset_eq_iff in_known_at) (auto simp: row_of_def)
  have c: "covers {|''ann''|} (collect_groups [?r]) (ag_excluded ?a) h \<longleftrightarrow> h = ''staff''" for h
    by (simp add: covers_def collect_groups_def row_of_def row_groups_def new_aggregator_def)
  show ?thesis
    using group_rollup_sound[of ?a "[?r]" "[]" "''group''" ?r] k c
    by (simp add: cache_coherent_def) (auto simp: new_aggregator_def row_of_def)
qed

text \<open>
  In \<open>src_ip\<close> mode the label is kept per user and not per flow. Two flows of one known user
  from two addresses to one destination come out as a single link labelled with the address of
  the second flow; the first address does not appear.
\<close>

theorem src_ip_mode_merges:
  assumes "u \<noteq> unknown"
  shows "aggregate a [row_of u d ip1 gs1 n1, row_of u d ip2 gs2 n2] sz ''src_ip'' =
    Inr (a, [\<lparr>ln_src = ip2, ln_dst = d, ln_bytes = n1 + n2, ln_flows = 2, ln_users = 1\<rparr>])"
proof -
  have "known_of {|u|} = {|u|}" using assms by (auto simp: fset_eq_iff)
  then show ?thesis
    using assms
    by (simp add: aggregate_def collect_users_def collect_rows_def aggregate_dst_def row_of_def
        labels_for_def src_ip_labels_def accum_known_def lookup_r_def src_label_def accum_def Let_def
        finalize_def bump_def new_link_def row_bytes_def row_flows_def fcard.rep_eq)
qed

theorem src_ip_mode_merges_witness:
  "''ann'' \<noteq> unknown \<and>
   aggregate (new_aggregator {||} 500)
     [row_of ''ann'' ''d'' ''10.0.0.1'' {||} 5, row_of ''ann'' ''d'' ''10.0.0.2'' {||} 7] [] ''src_ip'' =
   Inr (new_aggregator {||} 500,
     [\<lparr>ln_src = ''10.0.0.2'', ln_dst = ''d'', ln_bytes = 12, ln_flows = 2, ln_users = 1\<rparr>])"
  using src_ip_mode_merges[of "''ann''" "new_aggregator {||} 500" "''d''" "''10.0.0.1''" "{||}" 5
      "''10.0.0.2''" "{||}" 7 "[]"] by simp

end
