(* ===== verification/Sankey_Publisher.thy ===== *)
theory Sankey_Publisher
  imports App_Resolver Group_Aggregator Group_Index
begin

text \<open>
  The live Sankey stream: \<open>correlator/src/correlator/pipeline/sankey_publisher.py\<close>. A step of
  \<open>run\<close> takes one labelled flow and may publish the window that it closes; a published window is
  the delta that is stored under \<open>sankey.last\<close> and sent on the channel (the code serialises it with
  \<open>json.dumps\<close>; a failure of Redis is logged and changes no state of the publisher).
\<close>

section \<open>State\<close>

record labelled_flow =
  lf_bucket_start :: instant
  lf_window_s :: int
  lf_src_ip :: string
  lf_dst_ip :: string
  lf_dst_port :: int
  lf_proto :: int
  lf_bytes :: int
  lf_packets :: int
  lf_flow_count :: int
  lf_candidate :: app_candidate
  lf_lossy :: bool
  lf_dropped_count :: int
  lf_user_upn :: string
  lf_groups :: "string fset"

record node_left =
  nl_id :: string
  nl_label :: string
  nl_size :: int

record node_right =
  nr_id :: string
  nr_label :: string
  nr_kind :: label_kind

record delta =
  dl_ts :: instant
  dl_window_s :: int
  dl_nodes_left :: "node_left list"
  dl_nodes_right :: "node_right list"
  dl_links :: "link list"
  dl_lossy :: bool
  dl_dropped_count :: int

record publisher =
  sp_channel :: string
  sp_aggregator :: "aggregator option"
  sp_group_index :: "group_index option"
  sp_group_by :: string
  sp_current_bucket :: "instant option"
  sp_pending :: "labelled_flow list"

datatype sankey_write = SetKey string delta | Publish string delta

record sankey_metrics =
  mt_lcd_miss :: int
  mt_unknown_ratio :: "(int \<times> int) option"

section \<open>The legacy delta\<close>

definition left_id :: "labelled_flow \<Rightarrow> string" where
  "left_id f = ''ip:'' @ lf_src_ip f"

definition right_id :: "labelled_flow \<Rightarrow> string" where
  "right_id f = ''app:'' @ ac_label (lf_candidate f)"

definition legacy_links :: "labelled_flow list \<Rightarrow> (string \<times> string, link) dict" where
  "legacy_links flows = foldl (\<lambda>d f. dict_alter (left_id f, right_id f)
     \<lparr>ln_src = left_id f, ln_dst = right_id f, ln_bytes = 0, ln_flows = 0, ln_users = 0\<rparr>
     (\<lambda>l. l\<lparr>ln_bytes := ln_bytes l + lf_bytes f, ln_flows := ln_flows l + lf_flow_count f\<rparr>) d) [] flows"

definition legacy_left :: "labelled_flow list \<Rightarrow> (string, node_left) dict" where
  "legacy_left flows = foldl (\<lambda>d f. dict_alter (left_id f)
     \<lparr>nl_id = left_id f, nl_label = lf_src_ip f, nl_size = 0\<rparr> (\<lambda>n. n\<lparr>nl_size := nl_size n + 1\<rparr>) d) [] flows"

definition legacy_right :: "labelled_flow list \<Rightarrow> (string, node_right) dict" where
  "legacy_right flows = foldl (\<lambda>d f. dict_alter (right_id f)
     \<lparr>nr_id = right_id f, nr_label = ac_label (lf_candidate f), nr_kind = ac_label_kind (lf_candidate f)\<rparr>
     id d) [] flows"

definition any_lossy :: "labelled_flow list \<Rightarrow> bool" where
  "any_lossy flows = foldl (\<lambda>b f. b \<or> lf_lossy f) False flows"

definition total_dropped :: "labelled_flow list \<Rightarrow> int" where
  "total_dropped flows = foldl (\<lambda>n f. n + lf_dropped_count f) 0 flows"

definition build_legacy_delta :: "instant \<Rightarrow> labelled_flow list \<Rightarrow> delta" where
  "build_legacy_delta bucket flows =
     \<lparr>dl_ts = bucket, dl_window_s = lf_window_s (hd flows),
      dl_nodes_left = map snd (legacy_left flows), dl_nodes_right = map snd (legacy_right flows),
      dl_links = map snd (legacy_links flows), dl_lossy = any_lossy flows,
      dl_dropped_count = total_dropped flows\<rparr>"

section \<open>The group delta\<close>

definition agg_row_of :: "labelled_flow \<Rightarrow> agg_row" where
  "agg_row_of f = \<lparr>ar_user_upn = lf_user_upn f, ar_dst = right_id f, ar_groups = Some (lf_groups f),
     ar_src_ip = Some (lf_src_ip f), ar_bytes = Some (lf_bytes f), ar_flows = Some (lf_flow_count f),
     ar_flow_count = None\<rparr>"

definition right_kinds :: "labelled_flow list \<Rightarrow> (string, label_kind) dict" where
  "right_kinds flows =
     foldl (\<lambda>d f. AList.update (right_id f) (ac_label_kind (lf_candidate f)) d) [] flows"

definition right_labels :: "labelled_flow list \<Rightarrow> (string, string) dict" where
  "right_labels flows =
     foldl (\<lambda>d f. AList.update (right_id f) (ac_label (lf_candidate f)) d) [] flows"

definition lcd_misses :: "string \<Rightarrow> link list \<Rightarrow> int" where
  "lcd_misses group_by links = (if group_by = ''group''
     then int (length (filter (\<lambda>l. ln_src l \<noteq> unknown \<and> CHR ''@'' \<in> set (ln_src l)) links)) else 0)"

definition unknown_ratio :: "labelled_flow list \<Rightarrow> (int \<times> int) option" where
  "unknown_ratio flows = (if flows = [] then None
     else Some (int (length (filter (\<lambda>f. lf_user_upn f = unknown) flows)), int (length flows)))"

definition left_node :: "publisher \<Rightarrow> string \<Rightarrow> node_left" where
  "left_node sp src = \<lparr>nl_id = src, nl_label = src,
     nl_size = (case sp_group_index sp of
         Some gi \<Rightarrow> if sp_group_by sp = ''group'' \<and> src \<noteq> unknown then size_of gi src else 0
       | None \<Rightarrow> 0)\<rparr>"

definition see_left :: "publisher \<Rightarrow> (string, node_left) dict \<Rightarrow> link \<Rightarrow> (string, node_left) dict" where
  "see_left sp seen l = (if ln_src l \<in> fst ` set seen then seen
     else AList.update (ln_src l) (left_node sp (ln_src l)) seen)"

definition build_left_nodes :: "publisher \<Rightarrow> link list \<Rightarrow> node_left list" where
  "build_left_nodes sp links = map snd (foldl (see_left sp) [] links)"

definition build_right_nodes :: "labelled_flow list \<Rightarrow> link list \<Rightarrow> node_right list" where
  "build_right_nodes flows links =
     map (\<lambda>d. \<lparr>nr_id = d, nr_label = the (map_of (right_labels flows) d), nr_kind = the (map_of (right_kinds flows) d)\<rparr>)
       (filter (\<lambda>d. d \<in> fst ` set (right_labels flows)) (sorted_list_of_fset (fset_of_list (map ln_dst links))))"

definition build_group_delta :: "publisher \<Rightarrow> aggregator \<Rightarrow> instant \<Rightarrow> labelled_flow list \<Rightarrow>
    py_error + aggregator \<times> sankey_metrics \<times> delta" where
  "build_group_delta sp agg bucket flows =
     (let sizes = (case sp_group_index sp of None \<Rightarrow> [] | Some gi \<Rightarrow> group_sizes gi) in
      bind_r (aggregate agg (map agg_row_of flows) sizes (sp_group_by sp)) (\<lambda>(agg1, links).
        Inr (agg1, \<lparr>mt_lcd_miss = lcd_misses (sp_group_by sp) links, mt_unknown_ratio = unknown_ratio flows\<rparr>,
          \<lparr>dl_ts = bucket, dl_window_s = lf_window_s (hd flows),
           dl_nodes_left = build_left_nodes sp links, dl_nodes_right = build_right_nodes flows links,
           dl_links = links, dl_lossy = any_lossy flows, dl_dropped_count = total_dropped flows\<rparr>)))"

section \<open>Publishing and the loop\<close>

definition publish_window :: "publisher \<Rightarrow> instant \<Rightarrow> labelled_flow list \<Rightarrow>
    py_error + publisher \<times> sankey_metrics option \<times> delta option" where
  "publish_window sp bucket flows =
     (if flows = [] then Inr (sp, None, None)
      else case sp_aggregator sp of
          None \<Rightarrow> Inr (sp, None, Some (build_legacy_delta bucket flows))
        | Some agg \<Rightarrow>
            if sp_group_by sp = ''app'' then Inr (sp, None, Some (build_legacy_delta bucket flows))
            else bind_r (build_group_delta sp agg bucket flows) (\<lambda>(agg1, m, d).
              Inr (sp\<lparr>sp_aggregator := Some agg1\<rparr>, Some m, Some d)))"

definition delta_writes :: "publisher \<Rightarrow> delta option \<Rightarrow> sankey_write list" where
  "delta_writes sp d = (case d of None \<Rightarrow> []
     | Some x \<Rightarrow> [SetKey ''sankey.last'' x, Publish (sp_channel sp) x])"

definition sankey_step :: "publisher \<Rightarrow> labelled_flow \<Rightarrow> py_error + publisher \<times> delta option" where
  "sankey_step sp lf =
     (let cur = (case sp_current_bucket sp of None \<Rightarrow> lf_bucket_start lf | Some b \<Rightarrow> b) in
      if cur < lf_bucket_start lf
      then bind_r (publish_window sp cur (sp_pending sp)) (\<lambda>(sp1, m, d).
        Inr (sp1\<lparr>sp_current_bucket := Some (lf_bucket_start lf), sp_pending := [lf]\<rparr>, d))
      else Inr (sp\<lparr>sp_current_bucket := Some cur, sp_pending := sp_pending sp @ [lf]\<rparr>, None))"

fun sankey_run :: "publisher \<Rightarrow> labelled_flow list \<Rightarrow> py_error + publisher \<times> delta list" where
  "sankey_run sp [] = Inr (sp, [])"
| "sankey_run sp (lf # lfs) = bind_r (sankey_step sp lf) (\<lambda>(sp1, d).
     bind_r (sankey_run sp1 lfs) (\<lambda>(sp2, ds). Inr (sp2, (case d of None \<Rightarrow> ds | Some x \<Rightarrow> x # ds))))"

section \<open>The delta as a graph\<close>

text \<open>
  \<open>graph_ok\<close>: node identifiers are unique on each side, and the links and the nodes name exactly
  the same endpoints. \<open>totals_ok\<close>: the links carry the bytes and flows of the window, and the loss
  fields summarise those of its flows.
\<close>

definition graph_ok :: "delta \<Rightarrow> bool" where
  "graph_ok d \<longleftrightarrow> distinct (map nl_id (dl_nodes_left d)) \<and> distinct (map nr_id (dl_nodes_right d)) \<and>
     ln_src ` set (dl_links d) = nl_id ` set (dl_nodes_left d) \<and>
     ln_dst ` set (dl_links d) = nr_id ` set (dl_nodes_right d)"

definition totals_ok :: "labelled_flow list \<Rightarrow> delta \<Rightarrow> bool" where
  "totals_ok flows d \<longleftrightarrow>
     sum_list (map ln_bytes (dl_links d)) = sum_list (map lf_bytes flows) \<and>
     sum_list (map ln_flows (dl_links d)) = sum_list (map lf_flow_count flows) \<and>
     (dl_lossy d \<longleftrightarrow> (\<exists>f \<in> set flows. lf_lossy f)) \<and>
     dl_dropped_count d = sum_list (map lf_dropped_count flows)"

lemma any_lossy_ex: "any_lossy flows \<longleftrightarrow> (\<exists>f \<in> set flows. lf_lossy f)"
proof -
  have "foldl (\<lambda>b f. b \<or> lf_lossy f) b flows \<longleftrightarrow> b \<or> (\<exists>f \<in> set flows. lf_lossy f)" for b
    by (induction flows arbitrary: b) auto
  then show ?thesis by (simp add: any_lossy_def)
qed

lemma total_dropped_sum: "total_dropped flows = sum_list (map lf_dropped_count flows)"
proof -
  have "foldl (\<lambda>n f. n + lf_dropped_count f) n flows = n + sum_list (map lf_dropped_count flows)" for n
    by (induction flows arbitrary: n) auto
  then show ?thesis by (simp add: total_dropped_def)
qed

text \<open>A dictionary of objects that carry their own key: keys and values name the same things.\<close>

lemma dict_alter_id:
  assumes "\<forall>p \<in> set d. i (snd p) = fst p" and "i z = k" and "\<And>v. i (f v) = i v"
  shows "\<forall>p \<in> set (dict_alter k z f d). i (snd p) = fst p"
  using assms(1) by (induction d) (auto simp: assms(2,3))

lemma group_ids:
  assumes "\<And>x. i (z x) = k x" and "\<And>x v. i (f x v) = i v"
  shows "map i (map snd (foldl (\<lambda>d x. dict_alter (k x) (z x) (f x) d) [] xs)) =
    map fst (foldl (\<lambda>d x. dict_alter (k x) (z x) (f x) d) [] xs)"
proof -
  have "\<forall>p \<in> set (foldl (\<lambda>d x. dict_alter (k x) (z x) (f x) d) [] xs). i (snd p) = fst p"
  proof (induction xs rule: rev_induct)
    case (snoc x xs)
    have "\<forall>p \<in> set (dict_alter (k x) (z x) (f x) (foldl (\<lambda>d x. dict_alter (k x) (z x) (f x) d) [] xs)).
        i (snd p) = fst p"
      by (rule dict_alter_id) (use snoc assms in auto)
    then show ?case by simp
  qed simp
  then show ?thesis by simp
qed

lemma legacy_ids:
  "map nl_id (map snd (legacy_left flows)) = map fst (legacy_left flows)"
  "map nr_id (map snd (legacy_right flows)) = map fst (legacy_right flows)"
  "map (\<lambda>l. (ln_src l, ln_dst l)) (map snd (legacy_links flows)) = map fst (legacy_links flows)"
  unfolding legacy_left_def legacy_right_def legacy_links_def
  by (rule group_ids; simp)+

lemma legacy_keys:
  "fst ` set (legacy_left flows) = left_id ` set flows"
  "fst ` set (legacy_right flows) = right_id ` set flows"
  "fst ` set (legacy_links flows) = (\<lambda>f. (left_id f, right_id f)) ` set flows"
  unfolding legacy_left_def legacy_right_def legacy_links_def by (rule dom_group)+

lemma legacy_graph: "graph_ok (build_legacy_delta b flows)"
proof -
  have k: "(\<lambda>l. (ln_src l, ln_dst l)) ` set (map snd (legacy_links flows)) = (\<lambda>f. (left_id f, right_id f)) ` set flows"
    using arg_cong[where f = set, OF legacy_ids(3)[of flows]] unfolding set_map[of fst] legacy_keys
    by (simp add: image_image)
  have "ln_src ` set (map snd (legacy_links flows)) = left_id ` set flows"
    using arg_cong[where f = "image fst", OF k] by (simp add: image_image)
  moreover have "ln_dst ` set (map snd (legacy_links flows)) = right_id ` set flows"
    using arg_cong[where f = "image snd", OF k] by (simp add: image_image)
  moreover have "nl_id ` set (map snd (legacy_left flows)) = left_id ` set flows"
    "nr_id ` set (map snd (legacy_right flows)) = right_id ` set flows"
    using arg_cong[where f = set, OF legacy_ids(1)[of flows]] arg_cong[where f = set, OF legacy_ids(2)[of flows]]
    unfolding set_map[of fst] legacy_keys by (simp_all add: image_image)
  moreover have "distinct (map nl_id (map snd (legacy_left flows)))"
    "distinct (map nr_id (map snd (legacy_right flows)))"
    unfolding legacy_ids by (simp_all add: legacy_left_def legacy_right_def)
  ultimately show ?thesis by (simp add: graph_ok_def build_legacy_delta_def)
qed

lemma legacy_totals: "totals_ok flows (build_legacy_delta b flows)"
proof -
  have "dict_sum ln_bytes (legacy_links flows) = sum_list (map lf_bytes flows)"
    "dict_sum ln_flows (legacy_links flows) = sum_list (map lf_flow_count flows)"
    unfolding legacy_links_def
    by (induction flows rule: rev_induct)
      (simp_all add: dict_sum_alter[where \<delta> = "lf_bytes _"] dict_sum_alter[where \<delta> = "lf_flow_count _"])
  then show ?thesis
    by (simp add: totals_ok_def build_legacy_delta_def dict_sum_def comp_def any_lossy_ex total_dropped_sum)
qed

section \<open>The group delta as a graph\<close>

lemma update_fresh: "k \<notin> fst ` set d \<Longrightarrow> AList.update k v d = d @ [(k, v)]"
  by (induction d) auto

definition nodes_ok :: "(string, node_left) dict \<Rightarrow> bool" where
  "nodes_ok seen \<longleftrightarrow> distinct (map fst seen) \<and> (\<forall>p \<in> set seen. nl_id (snd p) = fst p)"

lemma see_left_ok:
  "nodes_ok seen \<Longrightarrow> nodes_ok (see_left sp seen l)"
  "fst ` set (see_left sp seen l) = insert (ln_src l) (fst ` set seen)"
  by (auto simp: nodes_ok_def see_left_def update_fresh left_node_def)

lemma seen_nodes_props:
  "nodes_ok (foldl (see_left sp) [] links) \<and> fst ` set (foldl (see_left sp) [] links) = ln_src ` set links"
proof (induction links rule: rev_induct)
  case (snoc l links)
  then show ?case by (simp add: see_left_ok)
qed (simp add: nodes_ok_def)

lemma left_nodes_ids:
  "distinct (map nl_id (build_left_nodes sp links))" "nl_id ` set (build_left_nodes sp links) = ln_src ` set links"
proof -
  have m: "map nl_id (build_left_nodes sp links) = map fst (foldl (see_left sp) [] links)"
    using seen_nodes_props[of sp links] by (simp add: build_left_nodes_def nodes_ok_def)
  then show "distinct (map nl_id (build_left_nodes sp links))"
    using seen_nodes_props[of sp links] by (simp add: nodes_ok_def)
  show "nl_id ` set (build_left_nodes sp links) = ln_src ` set links"
    using arg_cong[where f = set, OF m] seen_nodes_props[of sp links] by simp
qed

lemma right_labels_dom: "fst ` set (right_labels flows) = right_id ` set flows"
  unfolding right_labels_def
  by (induction flows rule: rev_induct) (simp_all add: dom_update)

lemma right_nodes_ids:
  assumes "ln_dst ` set links = right_id ` set flows"
  shows "distinct (map nr_id (build_right_nodes flows links))"
    and "nr_id ` set (build_right_nodes flows links) = ln_dst ` set links"
proof -
  have m: "map nr_id (build_right_nodes flows links) =
      filter (\<lambda>d. d \<in> fst ` set (right_labels flows)) (sorted_list_of_fset (fset_of_list (map ln_dst links)))"
    by (simp add: build_right_nodes_def comp_def)
  show "distinct (map nr_id (build_right_nodes flows links))"
    unfolding m by (simp add: sorted_list_of_fset.rep_eq)
  have "nr_id ` set (build_right_nodes flows links) = set (map nr_id (build_right_nodes flows links))" by simp
  also have "\<dots> = ln_dst ` set links"
    unfolding m right_labels_dom using assms by (auto simp: fset_of_list.rep_eq)
  finally show "nr_id ` set (build_right_nodes flows links) = ln_dst ` set links" .
qed

lemma group_delta_ok:
  "\<exists>agg1 m d. build_group_delta sp agg b flows = Inr (agg1, m, d) \<and> graph_ok d \<and> totals_ok flows d \<and> dl_ts d = b"
proof -
  let ?rows = "map agg_row_of flows"
  let ?sz = "case sp_group_index sp of None \<Rightarrow> [] | Some gi \<Rightarrow> group_sizes gi"
  obtain agg1 out where a: "aggregate agg ?rows ?sz (sp_group_by sp) = Inr (agg1, out)"
    using aggregate_returns by blast
  have "ln_dst ` set out = right_id ` set flows"
    using aggregate_dsts[OF a] by (simp add: image_image agg_row_of_def)
  from right_nodes_ids[OF this] left_nodes_ids[of sp out] aggregate_sums[OF a]
  show ?thesis
    by (simp add: build_group_delta_def a graph_ok_def totals_ok_def any_lossy_ex total_dropped_sum
        agg_row_of_def row_bytes_def row_flows_def comp_def)
qed

section \<open>Publishing\<close>

lemma publish_window_ok:
  assumes "flows \<noteq> []"
  shows "\<exists>sp1 m d. publish_window sp b flows = Inr (sp1, m, Some d) \<and> graph_ok d \<and> totals_ok flows d \<and> dl_ts d = b"
proof (cases "sp_aggregator sp = None \<or> sp_group_by sp = ''app''")
  case True
  then have "publish_window sp b flows = Inr (sp, None, Some (build_legacy_delta b flows))"
    using assms by (auto simp: publish_window_def split: option.splits)
  then show ?thesis
    using legacy_graph[of b flows] legacy_totals[of flows b] by (auto simp: build_legacy_delta_def)
next
  case False
  then obtain agg where a: "sp_aggregator sp = Some agg" "sp_group_by sp \<noteq> ''app''" by auto
  obtain agg1 m d where d: "build_group_delta sp agg b flows = Inr (agg1, m, d)"
    "graph_ok d" "totals_ok flows d" "dl_ts d = b"
    using group_delta_ok by blast
  have "publish_window sp b flows = Inr (sp\<lparr>sp_aggregator := Some agg1\<rparr>, Some m, Some d)"
    using a assms d(1) by (simp add: publish_window_def)
  with d show ?thesis by blast
qed

lemma publish_window_total:
  "\<exists>sp1 m od. publish_window sp b flows = Inr (sp1, m, od) \<and>
     (case od of None \<Rightarrow> flows = [] | Some d \<Rightarrow> graph_ok d \<and> totals_ok flows d \<and> dl_ts d = b)"
  using publish_window_ok[of flows sp b] by (cases "flows = []") (auto simp: publish_window_def)

definition link_bytes :: "delta \<Rightarrow> int" where
  "link_bytes d = sum_list (map ln_bytes (dl_links d))"

definition link_flows :: "delta \<Rightarrow> int" where
  "link_flows d = sum_list (map ln_flows (dl_links d))"

lemma sankey_step_ok:
  "\<exists>sp1 od. sankey_step sp lf = Inr (sp1, od) \<and>
     (case od of None \<Rightarrow> 0 | Some d \<Rightarrow> link_bytes d) + sum_list (map lf_bytes (sp_pending sp1)) =
       sum_list (map lf_bytes (sp_pending sp)) + lf_bytes lf \<and>
     (case od of None \<Rightarrow> 0 | Some d \<Rightarrow> link_flows d) + sum_list (map lf_flow_count (sp_pending sp1)) =
       sum_list (map lf_flow_count (sp_pending sp)) + lf_flow_count lf \<and>
     (\<exists>b1. sp_current_bucket sp1 = Some b1 \<and> (\<forall>b. sp_current_bucket sp = Some b \<longrightarrow> b \<le> b1) \<and>
       (\<forall>d. od = Some d \<longrightarrow> graph_ok d \<and> dl_ts d < b1 \<and> (\<forall>b. sp_current_bucket sp = Some b \<longrightarrow> dl_ts d = b)))"
proof -
  define cur where "cur = (case sp_current_bucket sp of None \<Rightarrow> lf_bucket_start lf | Some b \<Rightarrow> b)"
  show ?thesis
  proof (cases "cur < lf_bucket_start lf")
    case True
    obtain sp1 m od where p: "publish_window sp cur (sp_pending sp) = Inr (sp1, m, od)"
      "case od of None \<Rightarrow> sp_pending sp = [] | Some d \<Rightarrow> graph_ok d \<and> totals_ok (sp_pending sp) d \<and> dl_ts d = cur"
      using publish_window_total by blast
    have "sankey_step sp lf = Inr (sp1\<lparr>sp_current_bucket := Some (lf_bucket_start lf), sp_pending := [lf]\<rparr>, od)"
      using True p(1) by (simp add: sankey_step_def cur_def[symmetric])
    with True p(2) show ?thesis
      by (auto simp: totals_ok_def link_bytes_def link_flows_def cur_def split: option.splits)
  next
    case False
    then have "sankey_step sp lf = Inr (sp\<lparr>sp_current_bucket := Some cur, sp_pending := sp_pending sp @ [lf]\<rparr>, None)"
      by (simp add: sankey_step_def cur_def[symmetric])
    then show ?thesis by (auto simp: cur_def)
  qed
qed

lemma sankey_run_ok:
  "\<exists>sp1 ds. sankey_run sp lfs = Inr (sp1, ds) \<and>
     sum_list (map link_bytes ds) + sum_list (map lf_bytes (sp_pending sp1)) =
       sum_list (map lf_bytes (sp_pending sp)) + sum_list (map lf_bytes lfs) \<and>
     sum_list (map link_flows ds) + sum_list (map lf_flow_count (sp_pending sp1)) =
       sum_list (map lf_flow_count (sp_pending sp)) + sum_list (map lf_flow_count lfs) \<and>
     sorted_wrt (<) (map dl_ts ds) \<and>
     (\<forall>d \<in> set ds. graph_ok d \<and> (\<forall>b. sp_current_bucket sp = Some b \<longrightarrow> b \<le> dl_ts d))"
proof (induction lfs arbitrary: sp)
  case (Cons lf lfs)
  obtain sp1 od b1 where s: "sankey_step sp lf = Inr (sp1, od)"
    "(case od of None \<Rightarrow> 0 | Some d \<Rightarrow> link_bytes d) + sum_list (map lf_bytes (sp_pending sp1)) =
       sum_list (map lf_bytes (sp_pending sp)) + lf_bytes lf"
    "(case od of None \<Rightarrow> 0 | Some d \<Rightarrow> link_flows d) + sum_list (map lf_flow_count (sp_pending sp1)) =
       sum_list (map lf_flow_count (sp_pending sp)) + lf_flow_count lf"
    "sp_current_bucket sp1 = Some b1" "\<forall>b. sp_current_bucket sp = Some b \<longrightarrow> b \<le> b1"
    "\<forall>d. od = Some d \<longrightarrow> graph_ok d \<and> dl_ts d < b1 \<and> (\<forall>b. sp_current_bucket sp = Some b \<longrightarrow> dl_ts d = b)"
    using sankey_step_ok[of sp lf] by blast
  obtain sp2 ds where r: "sankey_run sp1 lfs = Inr (sp2, ds)"
    "sum_list (map link_bytes ds) + sum_list (map lf_bytes (sp_pending sp2)) =
       sum_list (map lf_bytes (sp_pending sp1)) + sum_list (map lf_bytes lfs)"
    "sum_list (map link_flows ds) + sum_list (map lf_flow_count (sp_pending sp2)) =
       sum_list (map lf_flow_count (sp_pending sp1)) + sum_list (map lf_flow_count lfs)"
    "sorted_wrt (<) (map dl_ts ds)" "\<forall>d \<in> set ds. graph_ok d \<and> b1 \<le> dl_ts d"
    using Cons.IH[of sp1] s(4) by auto
  show ?case
  proof (cases od)
    case None
    with s r show ?thesis by fastforce
  next
    case (Some d)
    then have "sankey_run sp (lf # lfs) = Inr (sp2, d # ds)" using s(1) r(1) by simp
    with Some s(2,3,5,6) r(2-5) show ?thesis by fastforce
  qed
qed simp

section \<open>Properties\<close>

text \<open>
  C18: every published window is a consistent graph that accounts for its flows. In every mode a
  window with at least one flow is published without raising, under its own bucket; node
  identifiers are unique on each side, links and nodes name exactly the same endpoints, the
  links add up to the bytes and flows of the window, and the loss flag and the dropped count
  summarise those of its flows.
\<close>

theorem published_window_sound:
  assumes "flows \<noteq> []"
  shows "\<exists>sp1 m d. publish_window sp bucket flows = Inr (sp1, m, Some d) \<and> dl_ts d = bucket \<and>
    distinct (map nl_id (dl_nodes_left d)) \<and> distinct (map nr_id (dl_nodes_right d)) \<and>
    ln_src ` set (dl_links d) = nl_id ` set (dl_nodes_left d) \<and>
    ln_dst ` set (dl_links d) = nr_id ` set (dl_nodes_right d) \<and>
    sum_list (map ln_bytes (dl_links d)) = sum_list (map lf_bytes flows) \<and>
    sum_list (map ln_flows (dl_links d)) = sum_list (map lf_flow_count flows) \<and>
    (dl_lossy d \<longleftrightarrow> (\<exists>f \<in> set flows. lf_lossy f)) \<and>
    dl_dropped_count d = sum_list (map lf_dropped_count flows)"
  using publish_window_ok[OF assms, of sp bucket] by (auto simp: graph_ok_def totals_ok_def)

text \<open>
  The stream of windows. Whatever flows arrive, in whatever order, the publisher's loop
  never raises; it publishes windows of strictly increasing buckets, and the bytes and flows
  of all published windows and of the flows still pending are together those that arrived.
\<close>

theorem sankey_run_conserves:
  "\<exists>sp1 ds. sankey_run sp lfs = Inr (sp1, ds) \<and> sorted_wrt (<) (map dl_ts ds) \<and>
     sum_list (map link_bytes ds) + sum_list (map lf_bytes (sp_pending sp1)) =
       sum_list (map lf_bytes (sp_pending sp)) + sum_list (map lf_bytes lfs) \<and>
     sum_list (map link_flows ds) + sum_list (map lf_flow_count (sp_pending sp1)) =
       sum_list (map lf_flow_count (sp_pending sp)) + sum_list (map lf_flow_count lfs)"
  using sankey_run_ok[of sp lfs] by blast

text \<open>
  The newest window waits for traffic. As long as no flow of a later bucket arrives, nothing
  is published, however many flows and however much time pass: with no further traffic the last
  window is never published.
\<close>

theorem last_window_waits:
  assumes "\<forall>f \<in> set lfs. lf_bucket_start f \<le> b" and "sp_current_bucket sp = Some b"
  shows "sankey_run sp lfs = Inr (sp\<lparr>sp_pending := sp_pending sp @ lfs\<rparr>, [])"
  using assms
proof (induction lfs arbitrary: sp)
  case (Cons f lfs)
  let ?sp = "sp\<lparr>sp_current_bucket := Some b, sp_pending := sp_pending sp @ [f]\<rparr>"
  have e: "sp\<lparr>sp_current_bucket := Some b\<rparr> = sp" using Cons.prems(2) by (cases sp) simp
  have "sankey_step sp f = Inr (?sp, None)"
    using Cons.prems by (simp add: sankey_step_def)
  moreover have "sankey_run ?sp lfs = Inr (?sp\<lparr>sp_pending := sp_pending ?sp @ lfs\<rparr>, [])"
    using Cons.prems by (intro Cons.IH) simp_all
  ultimately show ?case using e by (simp add: fun_upd_def)
qed simp

definition demo_flow :: "instant \<Rightarrow> labelled_flow" where
  "demo_flow b = \<lparr>lf_bucket_start = b, lf_window_s = 5, lf_src_ip = ''10.0.0.1'', lf_dst_ip = ''10.1.2.3'',
     lf_dst_port = 443, lf_proto = 6, lf_bytes = 40, lf_packets = 1, lf_flow_count = 1,
     lf_candidate = \<lparr>ac_label_kind = Raw, ac_label = ''crm'', ac_app_id = None\<rparr>,
     lf_lossy = False, lf_dropped_count = 0, lf_user_upn = ''ann'', lf_groups = {||}\<rparr>"

definition demo_publisher :: publisher where
  "demo_publisher = \<lparr>sp_channel = ''sankey.live'', sp_aggregator = Some (new_aggregator {||} 500),
     sp_group_index = Some new_group_index, sp_group_by = ''group'', sp_current_bucket = Some 0, sp_pending = []\<rparr>"

theorem published_window_sound_witness:
  "\<exists>sp1 m d. publish_window demo_publisher 0 [demo_flow 0] = Inr (sp1, m, Some d) \<and>
     sum_list (map ln_bytes (dl_links d)) = 40"
  using published_window_sound[of "[demo_flow 0]" demo_publisher 0] by (auto simp: demo_flow_def)

theorem last_window_waits_witness:
  "sankey_run demo_publisher [demo_flow 0, demo_flow 0] =
     Inr (demo_publisher\<lparr>sp_pending := [demo_flow 0, demo_flow 0]\<rparr>, [])"
  using last_window_waits[of "[demo_flow 0, demo_flow 0]" 0 demo_publisher]
  by (simp add: demo_publisher_def) (simp add: demo_flow_def)

end
