(* ===== verification/Writer.thy ===== *)
theory Writer
  imports Sankey_Publisher
begin

text \<open>
  The batching writer: \<open>correlator/src/correlator/pipeline/writer.py\<close>. A turn of \<open>run\<close> is a flow
  taken from the queue or the timeout of \<open>wait_for\<close>; \<open>now\<close> is the monotonic clock in milliseconds.
  The copy into the table \<open>flows\<close> is the database's: the parameter \<open>copy\<close> says whether the call for
  a batch succeeds, and a step returns the batch it copied and the batch it dropped.
\<close>

section \<open>State and operations\<close>

record flow_record =
  fr_time :: instant
  fr_src_ip :: string
  fr_dst_ip :: string
  fr_dst_port :: int
  fr_proto :: int
  fr_bytes :: int
  fr_packets :: int
  fr_flow_count :: int
  fr_source :: string

record writer =
  wr_batch_size :: int
  wr_flush_ms :: int
  wr_buf :: "flow_record list"
  wr_deadline :: int

datatype writer_input = Item labelled_flow int | Expired int

definition new_writer :: "int \<Rightarrow> int \<Rightarrow> int \<Rightarrow> writer" where
  "new_writer batch_size flush_ms now =
     \<lparr>wr_batch_size = batch_size, wr_flush_ms = flush_ms, wr_buf = [], wr_deadline = now + flush_ms\<rparr>"

definition flow_record_of :: "labelled_flow \<Rightarrow> flow_record" where
  "flow_record_of lf = \<lparr>fr_time = lf_bucket_start lf, fr_src_ip = lf_src_ip lf, fr_dst_ip = lf_dst_ip lf,
     fr_dst_port = lf_dst_port lf, fr_proto = lf_proto lf, fr_bytes = lf_bytes lf,
     fr_packets = lf_packets lf, fr_flow_count = lf_flow_count lf, fr_source = ''correlator''\<rparr>"

text \<open>\<open>_flush\<close> returns normally on no rows and when the copy succeeds.\<close>

definition flush_rows :: "(flow_record list \<Rightarrow> bool) \<Rightarrow> flow_record list \<Rightarrow> bool" where
  "flush_rows copy rows \<longleftrightarrow> rows = [] \<or> copy rows"

text \<open>\<open>_flush_safe\<close>: the rows copied and the rows lost to a failed copy.\<close>

definition flush_safe :: "(flow_record list \<Rightarrow> bool) \<Rightarrow> flow_record list \<Rightarrow>
    flow_record list \<times> flow_record list" where
  "flush_safe copy rows = (if flush_rows copy rows then (rows, []) else ([], rows))"

definition writer_step :: "(flow_record list \<Rightarrow> bool) \<Rightarrow> writer \<Rightarrow> writer_input \<Rightarrow>
    writer \<times> flow_record list \<times> flow_record list" where
  "writer_step copy w i = (case i of
      Item lf now \<Rightarrow>
        let buf = wr_buf w @ [flow_record_of lf] in
        if wr_batch_size w \<le> int (length buf)
        then (w\<lparr>wr_buf := [], wr_deadline := now + wr_flush_ms w\<rparr>, flush_safe copy buf)
        else (w\<lparr>wr_buf := buf\<rparr>, [], [])
    | Expired now \<Rightarrow>
        if wr_buf w \<noteq> []
        then (w\<lparr>wr_buf := [], wr_deadline := now + wr_flush_ms w\<rparr>, flush_safe copy (wr_buf w))
        else (w\<lparr>wr_deadline := now + wr_flush_ms w\<rparr>, [], []))"

fun writer_run :: "(flow_record list \<Rightarrow> bool) \<Rightarrow> writer \<Rightarrow> writer_input list \<Rightarrow>
    writer \<times> flow_record list \<times> flow_record list" where
  "writer_run copy w [] = (w, [], [])"
| "writer_run copy w (i # is) =
     (case writer_step copy w i of (w1, ok, lost) \<Rightarrow>
      case writer_run copy w1 is of (w2, ok2, lost2) \<Rightarrow> (w2, ok @ ok2, lost @ lost2))"

section \<open>Lemmas\<close>

definition items_of :: "writer_input list \<Rightarrow> labelled_flow list" where
  "items_of is = concat (map (\<lambda>i. case i of Item lf _ \<Rightarrow> [lf] | Expired _ \<Rightarrow> []) is)"

lemma items_of_simps [simp]:
  "items_of [] = []" "items_of (Item lf t # is) = lf # items_of is" "items_of (Expired t # is) = items_of is"
  by (simp_all add: items_of_def)

lemma writer_step_buf:
  assumes "writer_step copy w i = (w1, ok, lost)"
  shows "mset (wr_buf w) + mset (map flow_record_of (items_of [i])) = mset ok + mset lost + mset (wr_buf w1)"
    and "wr_batch_size w1 = wr_batch_size w"
    and "0 < wr_batch_size w \<Longrightarrow> int (length (wr_buf w)) < wr_batch_size w \<Longrightarrow>
      int (length (wr_buf w1)) < wr_batch_size w1"
  using assms by (auto simp: writer_step_def Let_def flush_safe_def flush_rows_def split: writer_input.splits if_splits)

lemma writer_run_mset:
  "writer_run copy w is = (w1, ok, lost) \<Longrightarrow>
   mset (wr_buf w) + mset (map flow_record_of (items_of is)) = mset ok + mset lost + mset (wr_buf w1)"
proof (induction "is" arbitrary: w ok lost)
  case (Cons i "is")
  obtain w2 ok2 lost2 ok3 lost3 where s: "writer_step copy w i = (w2, ok2, lost2)"
    "writer_run copy w2 is = (w1, ok3, lost3)" "ok = ok2 @ ok3" "lost = lost2 @ lost3"
    using Cons.prems by (auto split: prod.splits)
  have "items_of (i # is) = items_of [i] @ items_of is" by (simp add: items_of_def)
  then have "mset (wr_buf w) + mset (map flow_record_of (items_of (i # is))) =
      (mset (wr_buf w) + mset (map flow_record_of (items_of [i]))) + mset (map flow_record_of (items_of is))"
    by (simp only: map_append mset_append union_assoc)
  also have "\<dots> = mset ok2 + mset lost2 + (mset (wr_buf w2) + mset (map flow_record_of (items_of is)))"
    by (simp only: writer_step_buf(1)[OF s(1)] union_assoc)
  also have "\<dots> = mset ok2 + mset lost2 + (mset ok3 + mset lost3 + mset (wr_buf w1))"
    by (simp only: Cons.IH[OF s(2)])
  finally show ?case by (simp add: s(3,4))
qed simp

lemma writer_run_bound:
  "writer_run copy w is = (w1, ok, lost) \<Longrightarrow> 0 < wr_batch_size w \<Longrightarrow>
   int (length (wr_buf w)) < wr_batch_size w \<Longrightarrow>
   int (length (wr_buf w1)) < wr_batch_size w1 \<and> wr_batch_size w1 = wr_batch_size w"
proof (induction "is" arbitrary: w ok lost)
  case (Cons i "is")
  obtain w2 ok2 lost2 ok3 lost3 where s: "writer_step copy w i = (w2, ok2, lost2)"
    "writer_run copy w2 is = (w1, ok3, lost3)"
    using Cons.prems(1) by (auto split: prod.splits)
  show ?case using Cons.IH[OF s(2)] writer_step_buf(2,3)[OF s(1)] Cons.prems by simp
qed simp

text \<open>When every copy succeeds, the rows reach the table in the order of arrival.\<close>

lemma writer_run_order:
  assumes "\<And>rows. copy rows"
  shows "writer_run copy w is = (w1, ok, lost) \<Longrightarrow>
    lost = [] \<and> ok @ wr_buf w1 = wr_buf w @ map flow_record_of (items_of is)"
proof (induction "is" arbitrary: w ok lost)
  case (Cons i "is")
  obtain w2 ok2 lost2 ok3 lost3 where s: "writer_step copy w i = (w2, ok2, lost2)"
    "writer_run copy w2 is = (w1, ok3, lost3)" "ok = ok2 @ ok3" "lost = lost2 @ lost3"
    using Cons.prems by (auto split: prod.splits)
  have "lost2 = [] \<and> ok2 @ wr_buf w2 = wr_buf w @ map flow_record_of (items_of [i])"
    using s(1) assms by (auto simp: writer_step_def Let_def flush_safe_def flush_rows_def split: writer_input.splits if_splits)
  moreover have "items_of (i # is) = items_of [i] @ items_of is" by (simp add: items_of_def)
  ultimately show ?case using Cons.IH[OF s(2)] s(3,4) by (metis append.assoc append_Nil map_append)
qed simp

text \<open>
  What becomes of a flow in the writer. From a fresh writer with a positive batch size, after
  any sequence of flows and timeouts, each flow taken is in exactly one place: copied to the
  table, lost with a batch whose copy failed, or still buffered; fewer than a batch are buffered;
  and when no copy fails the table receives the flows in order of arrival.
\<close>

theorem writer_accounts:
  assumes "writer_run copy (new_writer n ms now) is = (w, ok, lost)" and "0 < n"
  shows "mset ok + mset lost + mset (wr_buf w) = mset (map flow_record_of (items_of is)) \<and>
    int (length (wr_buf w)) < n \<and>
    ((\<forall>rows. copy rows) \<longrightarrow> lost = [] \<and> ok @ wr_buf w = map flow_record_of (items_of is))"
  using writer_run_mset[OF assms(1)] writer_run_bound[OF assms(1)] writer_run_order[OF _ assms(1)] assms(2)
  by (simp add: new_writer_def)

theorem writer_accounts_witness:
  "case writer_run (\<lambda>_. True) (new_writer 2 500 0) [Item (demo_flow 0) 1, Item (demo_flow 5) 2, Item (demo_flow 9) 3] of
     (w, ok, lost) \<Rightarrow> lost = [] \<and> ok @ wr_buf w = map flow_record_of [demo_flow 0, demo_flow 5, demo_flow 9]"
proof -
  let ?is = "[Item (demo_flow 0) 1, Item (demo_flow 5) 2, Item (demo_flow 9) 3]"
  obtain w ok lost where r: "writer_run (\<lambda>_. True) (new_writer 2 500 0) ?is = (w, ok, lost)"
    by (cases "writer_run (\<lambda>_. True) (new_writer 2 500 0) ?is") auto
  from writer_accounts[OF r] show ?thesis unfolding r by simp
qed

end
