(* ===== verification/Correlator.thy ===== *)
theory Correlator
  imports Windower Enricher Writer Event_Json
begin

text \<open>
  The correlator process: \<open>correlator/src/correlator/main.py\<close>. The stages that \<open>_run\<close> starts as
  tasks, each as a function of the state it touches, and the process as a step relation in which
  the tasks interleave at their awaits.

  Parameters stand for what is outside: the Redis reads \<open>get\<close>, the database copy \<open>copy\<close> and the
  interval tree \<open>T\<close>.
\<close>

section \<open>Reading the streams\<close>

text \<open>
  The body of the \<open>try\<close> in \<open>_read_xstream_into\<close>: \<open>None\<close> is any exception. A message is a
  dictionary of fields; \<open>fromisoformat\<close> accepts only a text.
\<close>

definition decode_flow :: "(string, string) dict \<Rightarrow> flow_event option" where
  "decode_flow flds =
     (case map_of flds ''event'' of None \<Rightarrow> None | Some s \<Rightarrow>
      case flow_loads s of None \<Rightarrow> None | Some msg \<Rightarrow>
      case fm_ts msg of
        Some (TsText t) \<Rightarrow> map_option (\<lambda>i. (fm_event msg)\<lparr>fe_ts := i\<rparr>) (fromisoformat t)
      | _ \<Rightarrow> None)"

datatype stream_action = Put flow_event | Ack string

definition read_message :: "string \<times> (string, string) dict \<Rightarrow> stream_action list" where
  "read_message msg = (case msg of (msg_id, flds) \<Rightarrow>
     (case decode_flow flds of None \<Rightarrow> [Ack msg_id] | Some ev \<Rightarrow> [Put ev, Ack msg_id]))"

definition read_batch :: "(string \<times> (string \<times> (string, string) dict) list) list \<Rightarrow> stream_action list" where
  "read_batch entries =
     concat (map (\<lambda>(_, msgs). concat (map read_message msgs)) entries)"

text \<open>\<open>_identity_consumer\<close>: the index after one message; the message is acknowledged in any case.\<close>

definition identity_message :: "'t itree \<Rightarrow> 't identity_index \<Rightarrow> (string, string) dict \<Rightarrow> 't identity_index" where
  "identity_message T ix flds =
     (case map_of flds ''event'' of None \<Rightarrow> ix | Some s \<Rightarrow>
      case identity_loads s of None \<Rightarrow> ix | Some ev \<Rightarrow>
      case id_ts ev of
        Some (TsText t) \<Rightarrow> (case fromisoformat t of None \<Rightarrow> ix
          | Some i \<Rightarrow> fst (insert_event T ix (ev\<lparr>id_ts := Some (TsTime i)\<rparr>)))
      | _ \<Rightarrow> fst (insert_event T ix ev))"

definition identity_batch :: "'t itree \<Rightarrow> 't identity_index \<Rightarrow> (string \<times> (string, string) dict) list \<Rightarrow>
    't identity_index \<times> string list \<times> int" where
  "identity_batch T ix msgs =
     (let ix1 = foldl (\<lambda>i m. identity_message T i (snd m)) ix msgs
      in (ix1, map fst msgs, index_size T ix1))"

section \<open>Labelling\<close>

definition labelled_of :: "windowed_flow \<Rightarrow> app_candidate \<Rightarrow> labelled_flow" where
  "labelled_of w cand = \<lparr>lf_bucket_start = wf_bucket_start w, lf_window_s = wf_window_s w,
     lf_src_ip = wf_src_ip w, lf_dst_ip = wf_dst_ip w, lf_dst_port = wf_dst_port w, lf_proto = wf_proto w,
     lf_bytes = wf_bytes w, lf_packets = wf_packets w, lf_flow_count = wf_flow_count w,
     lf_candidate = cand, lf_lossy = wf_lossy w, lf_dropped_count = wf_dropped_count w,
     lf_user_upn = ''unknown'', lf_groups = {||}\<rparr>"

definition label_flow :: "'t itree \<Rightarrow> app_resolver \<Rightarrow> (string \<Rightarrow> string option) \<Rightarrow> 't identity_index \<Rightarrow>
    group_index option \<Rightarrow> windowed_flow \<Rightarrow>
    't identity_index \<times> (py_error + labelled_flow \<times> redis_write list)" where
  "label_flow T rs get ix enricher w =
     (case resolve_app rs get (wf_dst_ip w) (wf_dst_port w) (wf_proto w) (wf_fqdn w) of
        Inl e \<Rightarrow> (ix, Inl e)
      | Inr (cand, writes) \<Rightarrow>
          let lf = labelled_of w cand in
          (case enricher of
             None \<Rightarrow> (ix, Inr (lf, writes))
           | Some gi \<Rightarrow>
               (case enrich T ix gi \<lparr>er_src_ip = lf_src_ip lf, er_ts = lf_bucket_start lf,
                     er_user_upn = None, er_groups = None\<rparr> of
                  (ix1, Inl e) \<Rightarrow> (ix1, Inl e)
                | (ix1, Inr row) \<Rightarrow> (ix1, Inr (lf\<lparr>
                    lf_user_upn := (case er_user_upn row of None \<Rightarrow> ''unknown'' | Some u \<Rightarrow> u),
                    lf_groups := (case er_groups row of None \<Rightarrow> {||} | Some gs \<Rightarrow> gs)\<rparr>, writes)))))"

section \<open>Demultiplexing\<close>

definition demux_put :: "'a aqueue \<Rightarrow> 'a \<Rightarrow> 'a aqueue" where
  "demux_put d item = (case put_nowait d item of
     Inr d1 \<Rightarrow> d1
   | Inl _ \<Rightarrow> let d1 = (case get_nowait d of Inl _ \<Rightarrow> d | Inr (_, d1) \<Rightarrow> d1)
       in (case put_nowait d1 item of Inl _ \<Rightarrow> d1 | Inr d2 \<Rightarrow> d2))"

definition demux :: "'a aqueue list \<Rightarrow> 'a \<Rightarrow> 'a aqueue list" where
  "demux dsts item = map (\<lambda>d. demux_put d item) dsts"

section \<open>Configuration\<close>

definition as_asyncpg_dsn :: "string \<Rightarrow> string" where
  "as_asyncpg_dsn url =
     replace (replace url ''postgresql+asyncpg://'' ''postgresql://'') ''postgresql+psycopg://'' ''postgresql://''"

text \<open>\<open>_load_app_resolver\<close>: the rows of the three queries become the entries of the tables.\<close>

definition load_app_resolver :: "app_resolver \<Rightarrow> manual_app list \<Rightarrow> saas_entry list \<Rightarrow>
    port_default list \<Rightarrow> py_error + app_resolver" where
  "load_app_resolver rs manual_rows saas_rows port_rows = load_tables rs manual_rows saas_rows port_rows"

section \<open>The process\<close>

record 't pipeline =
  pl_raw :: "flow_event aqueue"
  pl_windower :: windower
  pl_resolver :: app_resolver
  pl_ids :: "'t identity_index"
  pl_groups :: group_index
  pl_hold :: "labelled_flow option"
  pl_mid :: "labelled_flow aqueue"
  pl_wq :: "labelled_flow aqueue"
  pl_sq :: "labelled_flow aqueue"
  pl_writer :: writer
  pl_pub :: publisher

definition new_pipeline :: "int \<Rightarrow> int \<Rightarrow> int \<Rightarrow> int \<Rightarrow> string fset \<Rightarrow> int \<Rightarrow> app_resolver \<Rightarrow> group_index \<Rightarrow>
    't pipeline" where
  "new_pipeline qmax w batch flush excluded fl rs gi =
     \<lparr>pl_raw = \<lparr>maxsize = qmax, items = []\<rparr>, pl_windower = new_windower qmax w, pl_resolver = rs,
      pl_ids = new_identity_index, pl_groups = gi, pl_hold = None,
      pl_mid = \<lparr>maxsize = qmax, items = []\<rparr>, pl_wq = \<lparr>maxsize = qmax, items = []\<rparr>,
      pl_sq = \<lparr>maxsize = qmax, items = []\<rparr>, pl_writer = new_writer batch flush 0,
      pl_pub = \<lparr>sp_channel = ''sankey.live'', sp_aggregator = Some (new_aggregator excluded fl),
        sp_group_index = Some gi, sp_group_by = ''group'', sp_current_bucket = None, sp_pending = []\<rparr>\<rparr>"

text \<open>
  One task runs from one await to the next. \<open>put\<close> on a full queue blocks, so the reader and the
  labeller step only when there is room; the labeller holds the flow it has labelled meanwhile.
  The two callbacks on \<open>groups_changed\<close> are separate steps. A step shows its effect: the event taken from the stream, what the windower or
  the demultiplexer pushes out of a full queue, the rows that the copy of the writer takes or refuses, the diagram published.
\<close>

datatype pl_effect =
    Took flow_event
  | Windowed "(instant \<times> flow_key \<times> acc) list"
  | Demuxed "labelled_flow list" "labelled_flow list"
  | Wrote "flow_record list" "flow_record list"
  | Sent "delta option"
  | Silent

text \<open>What the demultiplexer pushes out of a full queue.\<close>

definition evicted :: "'a aqueue \<Rightarrow> 'a list" where
  "evicted q = (if queue_full q then take 1 (items q) else [])"

inductive pl_step :: "'t itree \<Rightarrow> 't pipeline \<Rightarrow> pl_effect \<Rightarrow> 't pipeline \<Rightarrow> bool"
  for T :: "'t itree" where
  arrive: "put_nowait (pl_raw s) ev = Inr q \<Longrightarrow> pl_step T s (Took ev) (s\<lparr>pl_raw := q\<rparr>)"
| window_event: "get_nowait (pl_raw s) = Inr (ev, q) \<Longrightarrow> windower_step (pl_windower s) (Event ev) = Inr w \<Longrightarrow>
    pl_step T s (Windowed (step_lost (pl_windower s) (Event ev))) (s\<lparr>pl_raw := q, pl_windower := w\<rparr>)"
| window_tick: "windower_step (pl_windower s) (Timeout now) = Inr w \<Longrightarrow>
    pl_step T s (Windowed (step_lost (pl_windower s) (Timeout now))) (s\<lparr>pl_windower := w\<rparr>)"
| label: "pl_hold s = None \<Longrightarrow> get_nowait (wd_out (pl_windower s)) = Inr (f, q) \<Longrightarrow>
    label_flow T (pl_resolver s) get (pl_ids s) (Some (pl_groups s)) f = (ix, Inr (lf, writes)) \<Longrightarrow>
    pl_step T s Silent (s\<lparr>pl_windower := (pl_windower s)\<lparr>wd_out := q\<rparr>, pl_ids := ix, pl_hold := Some lf\<rparr>)"
| label_put: "pl_hold s = Some lf \<Longrightarrow> put_nowait (pl_mid s) lf = Inr q \<Longrightarrow>
    pl_step T s Silent (s\<lparr>pl_mid := q, pl_hold := None\<rparr>)"
| demux_item: "get_nowait (pl_mid s) = Inr (lf, q) \<Longrightarrow>
    pl_step T s (Demuxed (evicted (pl_wq s)) (evicted (pl_sq s)))
      (s\<lparr>pl_mid := q, pl_wq := demux_put (pl_wq s) lf, pl_sq := demux_put (pl_sq s) lf\<rparr>)"
| write_item: "get_nowait (pl_wq s) = Inr (lf, q) \<Longrightarrow> writer_step copy (pl_writer s) (Item lf now) = (w, ok, lost) \<Longrightarrow>
    pl_step T s (Wrote ok lost) (s\<lparr>pl_wq := q, pl_writer := w\<rparr>)"
| write_tick: "writer_step copy (pl_writer s) (Expired now) = (w, ok, lost) \<Longrightarrow>
    pl_step T s (Wrote ok lost) (s\<lparr>pl_writer := w\<rparr>)"
| publish: "get_nowait (pl_sq s) = Inr (lf, q) \<Longrightarrow> sankey_step (pl_pub s) lf = Inr (pub, d) \<Longrightarrow>
    pl_step T s (Sent d) (s\<lparr>pl_sq := q, pl_pub := pub\<rparr>)"
| identity: "pl_step T s Silent (s\<lparr>pl_ids := identity_message T (pl_ids s) flds\<rparr>)"
| groups_reload: "gi = load (pl_groups s) rows \<Longrightarrow>
    pl_step T s Silent (s\<lparr>pl_groups := gi, pl_pub := (pl_pub s)\<lparr>sp_group_index := Some gi\<rparr>\<rparr>)"
| drop_cache: "sp_aggregator (pl_pub s) = Some a \<Longrightarrow>
    pl_step T s Silent (s\<lparr>pl_pub := (pl_pub s)\<lparr>sp_aggregator := Some (clear_cache a)\<rparr>\<rparr>)"
| apps_reload: "load_app_resolver (pl_resolver s) manual saas ports = Inr rs \<Longrightarrow>
    pl_step T s Silent (s\<lparr>pl_resolver := rs\<rparr>)"

inductive_cases pl_step_elim: "pl_step T s eff s1"

definition pl_reachable :: "'t itree \<Rightarrow> 't pipeline \<Rightarrow> 't pipeline \<Rightarrow> bool" where
  "pl_reachable T = (\<lambda>s s1. \<exists>eff. pl_step T s eff s1)\<^sup>*\<^sup>*"

section \<open>Stage lemmas\<close>

lemma demux_put_room: "\<not> queue_full d \<Longrightarrow> demux_put d x = d\<lparr>items := items d @ [x]\<rparr>"
  by (simp add: demux_put_def put_nowait_def)

lemma demux_put_full:
  "queue_full d \<Longrightarrow> int (length (items d)) \<le> maxsize d \<Longrightarrow> demux_put d x = d\<lparr>items := tl (items d) @ [x]\<rparr>"
  using queue_full_tl[of d] by (simp add: demux_put_def put_nowait_def get_nowait_full Let_def)

interpretation dq: drop_oldest demux_put items maxsize
proof (standard, goal_cases)
  case (1 q x)
  then show ?case by (simp add: demux_put_room queue_full_def)
next
  case (2 q x)
  then show ?case by (simp add: demux_put_full queue_full_def)
next
  case (3 q x)
  then show ?case
    by (auto simp: demux_put_def put_nowait_def get_nowait_def Let_def split: list.splits)
qed

lemma manual_hit_total: "nets_ok (rs_manual rs) \<Longrightarrow> \<exists>r. manual_hit rs ip port proto = Inr r"
  by (auto simp: manual_hit_def manual_loop_find split: option.splits)

lemma resolve_app_total:
  assumes "nets_ok (rs_manual rs)"
  shows "\<exists>c ws. resolve_app rs get ip port proto fqdn = Inr (c, ws)"
proof -
  obtain r where "manual_hit rs ip port proto = Inr r" using manual_hit_total[OF assms] by blast
  then show ?thesis by (auto simp: resolve_app_def split: option.splits)
qed

lemma enrich_total:
  assumes "interval_tree_laws T"
  shows "\<exists>row1. snd (enrich T ix gi row) = Inr row1"
  using resolve_held[OF assms, of ix "er_src_ip row" "er_ts row"]
  by (auto simp: enrich_def split: prod.splits option.splits)

lemma label_flow_total:
  assumes "interval_tree_laws T" and "nets_ok (rs_manual rs)"
  shows "\<exists>ix1 lf ws. label_flow T rs get ix en f = (ix1, Inr (lf, ws))"
proof -
  obtain c ws where r: "resolve_app rs get (wf_dst_ip f) (wf_dst_port f) (wf_proto f) (wf_fqdn f) = Inr (c, ws)"
    using resolve_app_total[OF assms(2)] by blast
  show ?thesis
  proof (cases en)
    case (Some gi)
    let ?row = "\<lparr>er_src_ip = wf_src_ip f, er_ts = wf_bucket_start f, er_user_upn = None, er_groups = None\<rparr>"
    obtain ix1 row1 where "enrich T ix gi ?row = (ix1, Inr row1)"
      using enrich_total[OF assms(1), of ix gi ?row] by (cases "enrich T ix gi ?row") auto
    with r Some show ?thesis by (simp add: label_flow_def Let_def labelled_of_def)
  qed (simp add: label_flow_def r Let_def)
qed

lemma publish_window_frame:
  "publish_window sp b flows = Inr (sp1, m, d) \<Longrightarrow>
   sp_group_index sp1 = sp_group_index sp \<and> (sp_aggregator sp1 = None \<longleftrightarrow> sp_aggregator sp = None)"
  by (auto simp: publish_window_def bind_r_Inr split: if_splits option.splits)

lemma sankey_step_frame:
  "sankey_step sp lf = Inr (sp1, d) \<Longrightarrow> sp_group_index sp1 = sp_group_index sp"
  by (auto simp: sankey_step_def Let_def bind_r_Inr dest!: publish_window_frame split: if_splits)

section \<open>The invariant of the process\<close>

definition queue_within :: "int \<Rightarrow> 'a aqueue \<Rightarrow> bool" where
  "queue_within n q \<longleftrightarrow> maxsize q = n \<and> int (length (items q)) \<le> n"

lemma put_within: "queue_within n q \<Longrightarrow> 0 < n \<Longrightarrow> put_nowait q x = Inr q1 \<Longrightarrow> queue_within n q1"
  by (auto simp: queue_within_def put_nowait_def queue_full_def split: if_splits)

lemma get_within: "queue_within n q \<Longrightarrow> get_nowait q = Inr (x, q1) \<Longrightarrow> queue_within n q1"
  by (auto simp: queue_within_def get_nowait_def split: list.splits)

lemma demux_within:
  assumes "queue_within n q" and "0 < n"
  shows "queue_within n (demux_put q x)"
proof -
  have "dq.bounded q" using assms by (simp add: dq.bounded_def queue_within_def)
  from dq.bounded_enq[OF this, of x] show ?thesis
    using assms by (simp add: dq.bounded_def queue_within_def dq.cap_enq)
qed

definition pl_inv :: "int \<Rightarrow> int \<Rightarrow> 't pipeline \<Rightarrow> bool" where
  "pl_inv n batch s \<longleftrightarrow>
     queue_within n (pl_raw s) \<and> queue_within n (wd_out (pl_windower s)) \<and> queue_within n (pl_mid s) \<and>
     queue_within n (pl_wq s) \<and> queue_within n (pl_sq s) \<and>
     windower_inv (pl_windower s) \<and> wd_window_s (pl_windower s) \<noteq> 0 \<and>
     wr_batch_size (pl_writer s) = batch \<and> int (length (wr_buf (pl_writer s))) < batch \<and>
     nets_ok (rs_manual (pl_resolver s)) \<and> sp_group_index (pl_pub s) = Some (pl_groups s)"

lemma windower_step_keeps:
  assumes "windower_step w i = Inr w1" and "windower_inv w" and "wd_window_s w \<noteq> 0"
    and "queue_within n (wd_out w)" and "0 < n"
  shows "windower_inv w1" "wd_window_s w1 \<noteq> 0" "queue_within n (wd_out w1)"
proof -
  have r: "windower_run w [i] = Inr w1" using assms(1) by simp
  show i: "windower_inv w1" using windower_step_inv[OF assms(2,1)] .
  show "wd_window_s w1 \<noteq> 0" using windower_step_window[OF assms(1,2)] assms(3) by simp
  have "wd_cap w1 = n" using windower_run_cap[OF r assms(2)] assms(4) by (simp add: queue_within_def)
  with i assms(5) show "queue_within n (wd_out w1)"
    by (auto simp: windower_inv_def queue_ok_def queue_within_def)
qed

lemma windower_take_inv:
  assumes "windower_inv w" and "get_nowait (wd_out w) = Inr (f, q)"
  shows "windower_inv (w\<lparr>wd_out := q\<rparr>)"
  using assms by (auto simp: windower_inv_def buckets_ok_def queue_ok_def get_nowait_def split: list.splits)

lemma load_tables_nets: "load_tables rs manual saas ports = Inr rs1 \<Longrightarrow> nets_ok (rs_manual rs1)"
  by (auto simp: load_tables_ok nets_ok_def)

lemma new_pipeline_inv:
  "0 < n \<Longrightarrow> 0 < batch \<Longrightarrow> w \<noteq> 0 \<Longrightarrow> nets_ok (rs_manual rs) \<Longrightarrow>
   pl_inv n batch (new_pipeline n w batch flush ex fl rs gi)"
  using new_windower_inv[of n w]
  by (simp add: pl_inv_def new_pipeline_def queue_within_def new_windower_def new_writer_def)

lemma pl_step_inv:
  assumes "pl_step T s eff s1" and "pl_inv n batch s" and "0 < n" and "0 < batch"
  shows "pl_inv n batch s1"
  using assms(1,2)
proof (cases rule: pl_step.cases)
  case (arrive ev q)
  then show ?thesis using assms(2,3) put_within by (auto simp: pl_inv_def)
next
  case (window_event ev q w)
  then show ?thesis
    using assms(2,3) get_within windower_step_keeps[OF window_event(4)] by (auto simp: pl_inv_def)
next
  case (window_tick now w)
  then show ?thesis using assms(2,3) windower_step_keeps[OF window_tick(3)] by (auto simp: pl_inv_def)
next
  case (label f q get ix lf writes)
  then show ?thesis
    using assms(2) get_within windower_take_inv[OF _ label(4)] by (auto simp: pl_inv_def)
next
  case (label_put lf q)
  then show ?thesis using assms(2,3) put_within by (auto simp: pl_inv_def)
next
  case (demux_item lf q)
  then show ?thesis using assms(2,3) get_within demux_within by (auto simp: pl_inv_def)
next
  case (write_item lf q copy now w ok lost)
  then show ?thesis
    using assms(2,4) get_within writer_step_buf(2,3)[OF write_item(4)] by (auto simp: pl_inv_def)
next
  case (write_tick copy now w ok lost)
  then show ?thesis using assms(2,4) writer_step_buf(2,3)[OF write_tick(3)] by (auto simp: pl_inv_def)
next
  case (publish lf q pub d)
  then show ?thesis
    using assms(2) get_within sankey_step_frame[OF publish(4)] by (auto simp: pl_inv_def)
next
  case (apps_reload manual saas ports rs)
  then show ?thesis
    using assms(2) load_tables_nets by (auto simp: pl_inv_def load_app_resolver_def)
qed (auto simp: pl_inv_def)

lemma reachable_inv:
  assumes "pl_reachable T (new_pipeline n w batch flush ex fl rs gi) s"
    and "0 < n" and "0 < batch" and "w \<noteq> 0" and "nets_ok (rs_manual rs)"
  shows "pl_inv n batch s"
  using assms(1) unfolding pl_reachable_def
proof (induction rule: rtranclp_induct)
  case base
  then show ?case using new_pipeline_inv[OF assms(2-5)] by blast
next
  case (step y z)
  then show ?case using pl_step_inv assms(2,3) by blast
qed

section \<open>Properties\<close>

text \<open>
  C22: the queues of the process stay bounded. With positive queue and batch sizes, in every state
  the tasks can reach by any interleaving, each of the five queues holds at most \<open>queue_max\<close>
  entries and the writer buffers less than a batch, whatever the rate of arrivals.
\<close>

theorem pipeline_bounded:
  assumes "pl_reachable T (new_pipeline n w batch flush ex fl rs gi) s"
    and "0 < n" and "0 < batch" and "w \<noteq> 0" and "nets_ok (rs_manual rs)"
  shows "int (length (items (pl_raw s))) \<le> n \<and> int (length (items (wd_out (pl_windower s)))) \<le> n \<and>
    int (length (items (pl_mid s))) \<le> n \<and> int (length (items (pl_wq s))) \<le> n \<and>
    int (length (items (pl_sq s))) \<le> n \<and> int (length (wr_buf (pl_writer s))) < batch"
  using reachable_inv[OF assms] by (simp add: pl_inv_def queue_within_def)

lemma demo_reachable:
  "pl_reachable list_tree (new_pipeline 2 5 10 500 {||} 500 demo_tables new_group_index)
     ((new_pipeline 2 5 10 500 {||} 500 demo_tables new_group_index)\<lparr>pl_raw := \<lparr>maxsize = 2, items = [ev_at 0 7]\<rparr>\<rparr>)"
  unfolding pl_reachable_def
  by (rule r_into_rtranclp, rule exI, rule arrive[where ev = "ev_at 0 7"])
    (simp add: put_nowait_def queue_full_def new_pipeline_def)

lemma demo_nets: "nets_ok (rs_manual demo_tables)"
  using load_tables_nets[OF demo_load] .

theorem pipeline_bounded_witness:
  "int (length (items (pl_raw ((new_pipeline 2 5 10 500 {||} 500 demo_tables new_group_index)
      \<lparr>pl_raw := \<lparr>maxsize = 2, items = [ev_at 0 7]\<rparr>\<rparr>)))) \<le> 2"
  using pipeline_bounded[OF demo_reachable _ _ _ demo_nets] by simp

text \<open>
  No stage of the process fails on data that reaches it. In every reachable state the
  windower can take the next event and any timeout, the labeller can label the next flow whatever
  Redis answers, the publisher can take the next labelled flow, and a labeller that waits for room is
  behind a non-empty queue that the demultiplexer can take from: none of them raises.
\<close>

theorem pipeline_stages_total:
  assumes "interval_tree_laws T"
    and "pl_reachable T (new_pipeline n w batch flush ex fl rs gi) s"
    and "0 < n" and "0 < batch" and "w \<noteq> 0" and "nets_ok (rs_manual rs)"
  shows "(\<forall>i. \<exists>w1. windower_step (pl_windower s) i = Inr w1) \<and>
    (\<forall>get f. \<exists>ix1 lf ws. label_flow T (pl_resolver s) get (pl_ids s) (Some (pl_groups s)) f = (ix1, Inr (lf, ws))) \<and>
    (\<forall>lf. \<exists>pub d. sankey_step (pl_pub s) lf = Inr (pub, d)) \<and>
    (\<forall>lf e. put_nowait (pl_mid s) lf = Inl e \<longrightarrow> (\<exists>x q. get_nowait (pl_mid s) = Inr (x, q)))"
proof -
  have inv: "pl_inv n batch s" by (rule reachable_inv[OF assms(2-6)])
  have "\<exists>w1. windower_step (pl_windower s) i = Inr w1" for i
    using inv by (simp add: pl_inv_def windower_step_def)
  moreover have "\<exists>ix1 lf ws. label_flow T (pl_resolver s) get (pl_ids s) (Some (pl_groups s)) f = (ix1, Inr (lf, ws))"
    for get f using inv by (intro label_flow_total[OF assms(1)]) (simp add: pl_inv_def)
  moreover have "\<exists>pub d. sankey_step (pl_pub s) lf = Inr (pub, d)" for lf
    using sankey_step_ok[of "pl_pub s" lf] by blast
  moreover have "\<exists>x q. get_nowait (pl_mid s) = Inr (x, q)" if "put_nowait (pl_mid s) lf = Inl e" for lf e
    using that get_nowait_full[of "pl_mid s"] by (auto simp: put_nowait_def split: if_splits)
  ultimately show ?thesis by blast
qed

theorem pipeline_stages_total_witness:
  "\<exists>w1. windower_step (pl_windower ((new_pipeline 2 5 10 500 {||} 500 demo_tables new_group_index ::
      iset pipeline)\<lparr>pl_raw := \<lparr>maxsize = 2, items = [ev_at 0 7]\<rparr>\<rparr>)) (Timeout 3) = Inr w1"
  using pipeline_stages_total[OF list_tree_laws demo_reachable _ _ _ demo_nets] by simp

text \<open>
  Reading a stream. Every message of a batch is acknowledged exactly once and in order, also
  those that cannot be decoded; the events that can be are passed on in order, each before its
  own acknowledgement.
\<close>

theorem read_batch_acks:
  "[i. Ack i \<leftarrow> read_batch entries] = map fst (concat (map snd entries)) \<and>
   [e. Put e \<leftarrow> read_batch entries] =
     [e. m \<leftarrow> concat (map snd entries), Some e \<leftarrow> [decode_flow (snd m)]]"
proof -
  have "[i. Ack i \<leftarrow> concat (map read_message ms)] = map fst ms" for ms
    by (induction ms) (auto simp: read_message_def split: option.splits)
  moreover have "[e. Put e \<leftarrow> concat (map read_message ms)] =
      [e. m \<leftarrow> ms, Some e \<leftarrow> [decode_flow (snd m)]]" for ms
    by (induction ms) (auto simp: read_message_def split: option.splits)
  ultimately show ?thesis
    unfolding read_batch_def by (induction entries) (auto simp: split_def)
qed

text \<open>
  The demultiplexer drops silently. After any burst of labelled flows a consumer's queue
  of size \<open>n\<close> holds exactly the newest \<open>n\<close> of its old entries and the burst, unchanged: flows
  that were pushed out leave no trace in the flags or counts of those that remain.
\<close>

theorem demux_keeps_newest:
  assumes "0 < maxsize q" and "int (length (items q)) \<le> maxsize q"
  shows "items (foldl demux_put q lfs) = keep_last (nat (maxsize q)) (items q @ lfs) \<and>
    length (items (foldl demux_put q lfs)) = min (nat (maxsize q)) (length (items q) + length lfs)"
  using dq.contents_foldl[of q lfs] assms by (simp add: dq.bounded_def)

theorem demux_keeps_newest_witness:
  "items (foldl demux_put \<lparr>maxsize = 2, items = [1]\<rparr> [2, 3, 4 :: nat]) = [3, 4]"
  using demux_keeps_newest[of "\<lparr>maxsize = 2, items = [1]\<rparr>" "[2, 3, 4 :: nat]"] by (simp add: keep_last_def)

text \<open>
  The cache of covering groups can outlive a directory change. The two callbacks on a change
  run independently, so the cache may be cleared while flows labelled with the old memberships are
  still on their way. If one such window is aggregated after the clearing, a later window is
  rolled up to a group that its user has left, whatever the new memberships and sizes are.
\<close>

theorem stale_group_after_reload:
  assumes "u \<noteq> unknown" and "g |\<notin>| ag_excluded a" and "dict_get sz g 0 \<le> ag_floor a"
  shows "\<exists>a1 out1 a2 out2.
    aggregate (clear_cache a) [row_of u d ip {|g|} m] sz ''group'' = Inr (a1, out1) \<and>
    aggregate a1 [row_of u d ip gs2 m2] sz2 ''group'' = Inr (a2, out2) \<and> map ln_src out2 = [g]"
proof -
  have k: "known_of {|u|} = {|u|}" using assms(1) by (auto simp: fset_eq_iff)
  have l: "lcd {|u|} [(u, {|g|})] sz (ag_excluded a) (ag_floor a) = Some g"
    unfolding lcd_Some_iff using assms(2,3) by (auto simp: covers_def)
  have s: "sorted_list_of_fset {|u|} = [u]" by (simp add: sorted_list_of_fset.rep_eq)
  note defs = aggregate_def collect_users_def collect_rows_def collect_groups_def row_groups_def
    aggregate_dst_def row_of_def labels_for_def cached_lcd_def restrict_groups_def lookup_r_def
    const_labels_def accum_known_def accum_def Let_def finalize_def bump_def new_link_def clear_cache_def
  let ?a1 = "a\<lparr>ag_cache := [({|u|}, Some g)]\<rparr>"
  obtain out1 where "aggregate (clear_cache a) [row_of u d ip {|g|} m] sz ''group'' = Inr (?a1, out1)"
    using assms(1) by (simp add: defs k l s)
  moreover obtain a2 out2 where "aggregate ?a1 [row_of u d ip gs2 m2] sz2 ''group'' = Inr (a2, out2)"
    "map ln_src out2 = [g]"
    using assms(1) by (simp add: defs k s)
  ultimately show ?thesis by (intro exI conjI)
qed

theorem stale_group_after_reload_witness:
  "\<exists>a1 out1 a2 out2.
    aggregate (clear_cache (new_aggregator {||} 500)) [row_of ''ann'' ''d'' ''10.0.0.1'' {|''staff''|} 5] [] ''group'' = Inr (a1, out1) \<and>
    aggregate a1 [row_of ''ann'' ''d'' ''10.0.0.1'' {||} 5] [] ''group'' = Inr (a2, out2) \<and>
    map ln_src out2 = [''staff'']"
  by (rule stale_group_after_reload) (simp_all add: new_aggregator_def)

end
