(* ===== verification/Flow_Path.thy ===== *)
theory Flow_Path
  imports Flow_Ingest Correlator
begin

text \<open>
  The way of a flow from the wire to the correlator: datagrams arrive at the receiver of
  \<open>flow-ingest\<close>, its adapter takes and publishes them, Redis keeps the stream, and \<open>_read_xstream_into\<close> of the correlator
  passes the events on. This theory connects \<open>Syslog_Receiver\<close>, \<open>Flow_Ingest\<close>, \<open>Redis_Bus\<close>, \<open>Event_Json\<close> and \<open>Correlator\<close>.
\<close>

section \<open>Runs\<close>

text \<open>Turns of one adapter at given instants.\<close>

fun serve :: "(xadd_cmd list \<Rightarrow> py_error option) \<Rightarrow> nat \<Rightarrow> instant list \<Rightarrow> ingest \<Rightarrow> ingest \<times> xadd_cmd list" where
  "serve exec i [] g = (g, [])"
| "serve exec i (now # nows) g =
     (case adapter_turn now exec i g of (g1, _, cmds) \<Rightarrow>
      case serve exec i nows g1 of (g2, cmds2) \<Rightarrow> (g2, cmds @ cmds2))"

text \<open>The stream that a sequence of commands leaves in Redis, as \<open>xreadgroup\<close> returns it under the given entry ids.\<close>

definition stream_entries :: "string \<Rightarrow> string list \<Rightarrow> xadd_cmd list \<Rightarrow> (string \<times> (string \<times> (string, string) dict) list) list" where
  "stream_entries stream ids cmds = [(stream, zip ids (map (\<lambda>c. [(''event'', xa_payload c)]) cmds))]"

fun puts_of :: "stream_action list \<Rightarrow> flow_event list" where
  "puts_of [] = []"
| "puts_of (Put ev # as) = ev # puts_of as"
| "puts_of (Ack _ # as) = puts_of as"

fun acks_of :: "stream_action list \<Rightarrow> string list" where
  "acks_of [] = []"
| "acks_of (Put _ # as) = acks_of as"
| "acks_of (Ack i # as) = i # acks_of as"

lemma puts_acks_append [simp]:
  "puts_of (as @ bs) = puts_of as @ puts_of bs" "acks_of (as @ bs) = acks_of as @ acks_of bs"
proof -
  show "puts_of (as @ bs) = puts_of as @ puts_of bs" by (induction as rule: puts_of.induct) simp_all
  show "acks_of (as @ bs) = acks_of as @ acks_of bs" by (induction as rule: acks_of.induct) simp_all
qed

section \<open>Through Redis\<close>

lemma decode_published: "flow_ok ev \<Longrightarrow> decode_flow [(''event'', jsonify_flow ev)] = Some ev"
  using iso_roundtrip[of "fe_ts ev"] by (simp add: decode_flow_def flow_loads_back flow_ok_def)

lemma read_stream:
  assumes "\<forall>ev \<in> set evs. flow_ok ev" and "map xa_payload cmds = map jsonify_flow evs" and "length ids = length cmds"
  shows "puts_of (read_batch (stream_entries stream ids cmds)) = evs"
    and "acks_of (read_batch (stream_entries stream ids cmds)) = ids"
proof -
  let ?r = "\<lambda>ids cmds. concat (map read_message (zip ids (map (\<lambda>c. [(''event'', xa_payload c)]) cmds)))"
  have "puts_of (?r ids cmds) = evs \<and> acks_of (?r ids cmds) = ids"
    using assms
  proof (induction evs arbitrary: ids cmds)
    case (Cons ev evs)
    obtain c cs i js where "cmds = c # cs" "ids = i # js" "xa_payload c = jsonify_flow ev"
      using Cons.prems(2,3) by (cases cmds; cases ids) auto
    with Cons show ?case by (simp add: read_message_def decode_published)
  qed simp
  then show "puts_of (read_batch (stream_entries stream ids cmds)) = evs"
    "acks_of (read_batch (stream_entries stream ids cmds)) = ids"
    by (simp_all add: read_batch_def stream_entries_def)
qed

section \<open>Through the adapter\<close>

text \<open>The events an adapter makes of messages, each at the instant it is taken.\<close>

definition accepted :: "adapter \<Rightarrow> instant list \<Rightarrow> message list \<Rightarrow> flow_event list" where
  "accepted a nows msgs = List.map_filter (\<lambda>(now, msg). accept_message now a msg) (zip nows msgs)"

lemma accepted_Cons:
  "accepted a (now # nows) (msg # msgs) =
     (case accept_message now a msg of None \<Rightarrow> [] | Some ev \<Rightarrow> [ev]) @ accepted a nows msgs"
  by (simp add: accepted_def List.map_filter_def split: option.splits)

lemma serve_publishes:
  assumes "serve exec i nows g = (g1, cmds)" and "items (rc_queue (ig_receiver g)) = msgs" and "length nows = length msgs"
  shows "map xa_payload cmds @ fp_buf (ig_publisher g1) = fp_buf (ig_publisher g) @ map jsonify_flow (accepted (ig_adapters g ! i) nows msgs)"
  using assms
proof (induction nows arbitrary: g msgs cmds)
  case Nil
  then show ?case by (simp add: accepted_def)
next
  case (Cons now nows)
  obtain msg rest where m: "msgs = msg # rest" "length nows = length rest" using Cons.prems(3) by (cases msgs) auto
  obtain g2 r c2 c3 where s: "adapter_turn now exec i g = (g2, r, c2)" "serve exec i nows g2 = (g1, c3)" "cmds = c2 @ c3"
    using Cons.prems(1) by (auto split: prod.splits)
  let ?evs = "case accept_message now (ig_adapters g ! i) msg of None \<Rightarrow> [] | Some ev \<Rightarrow> [ev]"
  have t: "items (rc_queue (ig_receiver g2)) = rest \<and> ig_adapters g2 = ig_adapters g \<and>
      map xa_payload c2 @ fp_buf (ig_publisher g2) = fp_buf (ig_publisher g) @ map jsonify_flow ?evs"
    using s(1) Cons.prems(2) publish_flow_spec(1)[of exec "ig_publisher g"]
    by (auto simp: adapter_turn_def get_nowait_def m Let_def split: option.splits prod.splits sum.splits)
  have "map xa_payload c3 @ fp_buf (ig_publisher g1) =
      fp_buf (ig_publisher g2) @ map jsonify_flow (accepted (ig_adapters g ! i) nows rest)"
    using Cons.IH[OF s(2) _ m(2)] t by simp
  then have "map xa_payload cmds @ fp_buf (ig_publisher g1) =
      (map xa_payload c2 @ fp_buf (ig_publisher g2)) @ map jsonify_flow (accepted (ig_adapters g ! i) nows rest)"
    using s(3) by simp
  then show ?case using t by (simp add: accepted_Cons m(1))
qed

section \<open>At the end\<close>

lemma shutdown_sends:
  "ingest_shutdown exec g = (g1, r, cmds) \<Longrightarrow> map xa_payload cmds = fp_buf (ig_publisher g) \<and> fp_buf (ig_publisher g1) = []"
  by (auto simp: ingest_shutdown_def flush_flow_def flush_locked_def xadd_of_def comp_def Let_def split: if_splits)

section \<open>Properties\<close>



end
