(* ===== verification/Flow_Process.thy ===== *)
theory Flow_Process
  imports Flow_Path
begin

text \<open>
  The flow service as a process: \<open>_run\<close> and \<open>_drain_adapter\<close> of \<open>flow_ingest/main.py\<close>. One receiver feeds the adapters, each of which runs as a task of its own and publishes
  through the one publisher. An exception ends the task it occurs in and is never looked at; the others go on. A signal cancels the tasks,
  flushes the publisher and stops the receiver.
\<close>

section \<open>Settings\<close>

record ingest_settings =
  ig_redis_url :: string
  ig_syslog_host :: string
  ig_syslog_port :: int
  ig_config_dir :: string
  ig_log_level :: string
  ig_queue_max :: int
  ig_metrics_port :: int

definition default_ingest_settings :: ingest_settings where
  "default_ingest_settings = \<lparr>ig_redis_url = ''redis://redis:6379/0'', ig_syslog_host = ''0.0.0.0'', ig_syslog_port = 5514,
     ig_config_dir = ''/etc/flowvis/adapters'', ig_log_level = ''INFO'', ig_queue_max = 10000, ig_metrics_port = 9100\<rparr>"

section \<open>The process\<close>

text \<open>\<open>fs_live\<close>: the adapters whose task runs. \<open>fs_batches\<close>: the pipelines sent so far, in order, with whether Redis executed them.\<close>

record flow_service =
  fs_ingest :: ingest
  fs_live :: "nat set"
  fs_batches :: "(bool \<times> string list) list"
  fs_stopped :: bool

text \<open>What happens next: a message arrives, the \<open>i\<close>-th task runs until it waits again, or a signal comes. \<open>exec\<close> is what Redis answers then.\<close>

datatype flow_input =
    Arrives message
  | Runs nat instant "xadd_cmd list \<Rightarrow> py_error option"
  | Signal "xadd_cmd list \<Rightarrow> py_error option"

definition start_flow_service :: "ingest_settings \<Rightarrow> (string, adapter_config) dict \<Rightarrow> flow_service" where
  "start_flow_service settings configs = (let g = new_ingest (ig_queue_max settings) configs in
     \<lparr>fs_ingest = g, fs_live = {..<length (ig_adapters g)}, fs_batches = [], fs_stopped = False\<rparr>)"

definition batch_of :: "(py_error + 'a) \<Rightarrow> xadd_cmd list \<Rightarrow> (bool \<times> string list) list" where
  "batch_of r cmds = (if cmds = [] then [] else [(case r of Inl _ \<Rightarrow> False | Inr _ \<Rightarrow> True, map xa_payload cmds)])"

text \<open>The event that a turn publishes.\<close>

definition turn_event :: "instant \<Rightarrow> nat \<Rightarrow> ingest \<Rightarrow> flow_event list" where
  "turn_event now i g = (case items (rc_queue (ig_receiver g)) of [] \<Rightarrow> []
     | msg # _ \<Rightarrow> (case accept_message now (ig_adapters g ! i) msg of None \<Rightarrow> [] | Some ev \<Rightarrow> [ev]))"

definition flow_step :: "flow_service \<Rightarrow> flow_input \<Rightarrow> flow_service \<times> flow_event list" where
  "flow_step s inp =
     (if fs_stopped s then (s, [])
      else case inp of
        Arrives msg \<Rightarrow> (s\<lparr>fs_ingest := (fs_ingest s)\<lparr>ig_receiver := enqueue (ig_receiver (fs_ingest s)) msg\<rparr>\<rparr>, [])
      | Runs i now exec \<Rightarrow>
          if i \<in> fs_live s
          then (case adapter_turn now exec i (fs_ingest s) of (g, r, cmds) \<Rightarrow>
            (s\<lparr>fs_ingest := g, fs_live := (case r of Inl _ \<Rightarrow> fs_live s - {i} | Inr _ \<Rightarrow> fs_live s),
               fs_batches := fs_batches s @ batch_of r cmds\<rparr>, turn_event now i (fs_ingest s)))
          else (s, [])
      | Signal exec \<Rightarrow> (case ingest_shutdown exec (fs_ingest s) of (g, r, cmds) \<Rightarrow>
          (s\<lparr>fs_ingest := g, fs_live := {}, fs_batches := fs_batches s @ batch_of r cmds, fs_stopped := True\<rparr>, [])))"

fun flow_run :: "flow_service \<Rightarrow> flow_input list \<Rightarrow> flow_service \<times> flow_event list" where
  "flow_run s [] = (s, [])"
| "flow_run s (inp # ins) = (case flow_step s inp of (s1, evs) \<Rightarrow> case flow_run s1 ins of (s2, evs2) \<Rightarrow> (s2, evs @ evs2))"

section \<open>Accounting\<close>

abbreviation fs_buffer :: "flow_service \<Rightarrow> string list" where
  "fs_buffer s \<equiv> fp_buf (ig_publisher (fs_ingest s))"

definition lost_batches :: "flow_service \<Rightarrow> (bool \<times> string list) list" where
  "lost_batches s = filter (\<lambda>b. \<not> fst b) (fs_batches s)"

text \<open>Nothing is buffered for long, batches are small, and each failed batch cost an adapter.\<close>

definition flow_inv :: "nat \<Rightarrow> flow_service \<Rightarrow> bool" where
  "flow_inv n s \<longleftrightarrow> fp_max_batch (ig_publisher (fs_ingest s)) = 50 \<and> length (fs_buffer s) < 50 \<and>
     (\<forall>b \<in> set (fs_batches s). length (snd b) \<le> 50) \<and> finite (fs_live s) \<and>
     (if fs_stopped s then fs_buffer s = [] \<and> fs_live s = {} \<and> length (lost_batches s) \<le> Suc n
      else card (fs_live s) + length (lost_batches s) = n)"

lemma turn_publishes:
  assumes "adapter_turn now exec i g = (g1, r, cmds)"
  shows "map xa_payload cmds @ fp_buf (ig_publisher g1) = fp_buf (ig_publisher g) @ map jsonify_flow (turn_event now i g)"
    and "fp_max_batch (ig_publisher g1) = fp_max_batch (ig_publisher g)"
    and "0 < fp_max_batch (ig_publisher g) \<Longrightarrow> int (length (fp_buf (ig_publisher g))) < fp_max_batch (ig_publisher g) \<Longrightarrow>
      int (length (fp_buf (ig_publisher g1))) < fp_max_batch (ig_publisher g)"
    and "r = Inl e \<Longrightarrow> cmds \<noteq> []"
proof -
  show "map xa_payload cmds @ fp_buf (ig_publisher g1) = fp_buf (ig_publisher g) @ map jsonify_flow (turn_event now i g)"
    using assms publish_flow_spec(1)[of exec "ig_publisher g"]
    by (auto simp: adapter_turn_def turn_event_def get_nowait_def Let_def split: list.splits option.splits prod.splits sum.splits)
  show "fp_max_batch (ig_publisher g1) = fp_max_batch (ig_publisher g)"
    using assms publish_flow_spec(2)[of exec "ig_publisher g"]
    by (auto simp: adapter_turn_def get_nowait_def Let_def split: list.splits option.splits prod.splits sum.splits)
  show "int (length (fp_buf (ig_publisher g1))) < fp_max_batch (ig_publisher g)"
    if "0 < fp_max_batch (ig_publisher g)" "int (length (fp_buf (ig_publisher g))) < fp_max_batch (ig_publisher g)"
    using assms that publish_flow_spec(2,3)[of exec "ig_publisher g"]
    by (fastforce simp: adapter_turn_def get_nowait_def Let_def split: list.splits option.splits prod.splits sum.splits)
  show "cmds \<noteq> []" if "r = Inl e"
    using assms that by (auto simp: adapter_turn_def get_nowait_def publish_flow_def flush_locked_def Let_def split: list.splits option.splits prod.splits sum.splits if_splits)
qed

lemma step_accounts:
  assumes "flow_step s inp = (s1, evs)"
  shows "concat (map snd (fs_batches s1)) @ fs_buffer s1 = concat (map snd (fs_batches s)) @ fs_buffer s @ map jsonify_flow evs"
proof (cases "fs_stopped s")
  case True
  then show ?thesis using assms by (simp add: flow_step_def)
next
  case False
  then show ?thesis using assms turn_publishes(1) shutdown_sends
    by (cases inp) (fastforce simp: flow_step_def batch_of_def split: prod.splits if_splits)+
qed

lemma run_accounts: "flow_run s ins = (s1, evs) \<Longrightarrow>
   concat (map snd (fs_batches s1)) @ fs_buffer s1 = concat (map snd (fs_batches s)) @ fs_buffer s @ map jsonify_flow evs"
proof (induction ins arbitrary: s evs)
  case (Cons inp ins)
  obtain s2 e2 e3 where "flow_step s inp = (s2, e2)" "flow_run s2 ins = (s1, e3)" "evs = e2 @ e3"
    using Cons.prems by (auto split: prod.splits)
  with step_accounts[of s inp s2 e2] Cons.IH[of s2 e3] show ?case by simp
qed simp

lemma turn_event_short: "length (turn_event now i g) \<le> 1"
  by (simp add: turn_event_def split: list.splits option.splits)

lemma lost_append: "lost_batches (s\<lparr>fs_ingest := g, fs_live := l, fs_batches := fs_batches s @ bs\<rparr>) = lost_batches s @ filter (\<lambda>b. \<not> fst b) bs"
  "lost_batches (s\<lparr>fs_ingest := g, fs_live := l, fs_batches := fs_batches s @ bs, fs_stopped := b\<rparr>) = lost_batches s @ filter (\<lambda>b. \<not> fst b) bs"
  "lost_batches (s\<lparr>fs_ingest := g\<rparr>) = lost_batches s"
  by (simp_all add: lost_batches_def)

lemma turn_inv:
  assumes "flow_inv n s" and "\<not> fs_stopped s" and "i \<in> fs_live s" and "adapter_turn now exec i (fs_ingest s) = (g, r, cmds)"
  shows "flow_inv n (s\<lparr>fs_ingest := g, fs_live := (case r of Inl _ \<Rightarrow> fs_live s - {i} | Inr _ \<Rightarrow> fs_live s),
    fs_batches := fs_batches s @ batch_of r cmds\<rparr>)"
proof -
  note tp = turn_publishes[OF assms(4)]
  have i: "fp_max_batch (ig_publisher (fs_ingest s)) = 50" "length (fs_buffer s) < 50" "\<forall>b \<in> set (fs_batches s). length (snd b) \<le> 50"
    "finite (fs_live s)" "card (fs_live s) + length (lost_batches s) = n"
    using assms(1,2) by (simp_all add: flow_inv_def)
  have b: "int (length (fp_buf (ig_publisher g))) < 50" using tp(3) i(1,2) by simp
  have "length cmds + length (fp_buf (ig_publisher g)) = length (fs_buffer s) + length (turn_event now i (fs_ingest s))"
    using arg_cong[OF tp(1), of length] by simp
  then have c: "length cmds \<le> 50" using i(2) turn_event_short[of now i "fs_ingest s"] by linarith
  have l: "card (case r of Inl _ \<Rightarrow> fs_live s - {i} | Inr _ \<Rightarrow> fs_live s) + length (filter (\<lambda>b. \<not> fst b) (batch_of r cmds)) = card (fs_live s)"
  proof (cases r)
    case (Inl e)
    then have "card (fs_live s - {i}) + 1 = card (fs_live s)" using card_Suc_Diff1[OF i(4) assms(3)] by simp
    then show ?thesis using Inl tp(4)[of e] by (simp add: batch_of_def)
  qed (simp add: batch_of_def)
  have f: "finite (case r of Inl _ \<Rightarrow> fs_live s - {i} | Inr _ \<Rightarrow> fs_live s)" using i(4) by (simp split: sum.splits)
  show ?thesis using i b c l f tp(2) assms(2) unfolding flow_inv_def lost_append by (auto simp: batch_of_def)
qed

lemma stop_inv:
  assumes "flow_inv n s" and "\<not> fs_stopped s" and "ingest_shutdown exec (fs_ingest s) = (g, r, cmds)"
  shows "flow_inv n (s\<lparr>fs_ingest := g, fs_live := {}, fs_batches := fs_batches s @ batch_of r cmds, fs_stopped := True\<rparr>)"
proof -
  have c: "length cmds = length (fs_buffer s)" "fp_buf (ig_publisher g) = []"
    using shutdown_sends[OF assms(3)] by (metis length_map, simp)
  have m: "fp_max_batch (ig_publisher g) = fp_max_batch (ig_publisher (fs_ingest s))"
    using assms(3) by (auto simp: ingest_shutdown_def flush_flow_def flush_locked_def Let_def split: if_splits)
  have l: "length (filter (\<lambda>b. \<not> fst b) (batch_of r cmds)) \<le> 1" by (simp add: batch_of_def)
  show ?thesis using assms(1,2) c m l unfolding flow_inv_def lost_append by (auto simp: batch_of_def)
qed

lemma step_inv: "flow_inv n s \<Longrightarrow> flow_step s inp = (s1, evs) \<Longrightarrow> flow_inv n s1"
proof (cases inp)
  case (Arrives msg)
  then show "flow_inv n s \<Longrightarrow> flow_step s inp = (s1, evs) \<Longrightarrow> ?thesis" by (auto simp: flow_step_def flow_inv_def lost_append split: if_splits)
next
  case (Runs i now exec)
  then show "flow_inv n s \<Longrightarrow> flow_step s inp = (s1, evs) \<Longrightarrow> ?thesis" using turn_inv[of n s i now exec] by (auto simp: flow_step_def split: if_splits prod.splits)
next
  case (Signal exec)
  then show "flow_inv n s \<Longrightarrow> flow_step s inp = (s1, evs) \<Longrightarrow> ?thesis" using stop_inv[of n s exec] by (auto simp: flow_step_def split: if_splits prod.splits)
qed

lemma run_inv: "flow_run s ins = (s1, evs) \<Longrightarrow> flow_inv n s \<Longrightarrow> flow_inv n s1"
  by (induction ins arbitrary: s evs) (auto split: prod.splits dest: step_inv)

lemma start_inv: "flow_inv (length (list_enabled_adapters configs)) (start_flow_service settings configs)"
  by (simp add: flow_inv_def start_flow_service_def new_ingest_def new_flow_publisher_def lost_batches_def Let_def)

lemma dead_silent: "flow_run s ins = (s1, evs) \<Longrightarrow> fs_live s = {} \<Longrightarrow> evs = []"
proof (induction ins arbitrary: s evs)
  case (Cons inp ins)
  obtain s2 e2 e3 where s: "flow_step s inp = (s2, e2)" "flow_run s2 ins = (s1, e3)" "evs = e2 @ e3"
    using Cons.prems(1) by (auto split: prod.splits)
  have "fs_live s2 = {} \<and> e2 = []" using s(1) Cons.prems(2) by (auto simp: flow_step_def split: if_splits flow_input.splits prod.splits)
  with Cons.IH[OF s(2)] s(3) show ?case by simp
qed simp

section \<open>Properties\<close>


definition one_line :: "flow_input list" where
  "one_line = [Arrives (''10.0.0.9'', demo_line), Runs 0 0 (\<lambda>_. None), Signal (\<lambda>_. Some RuntimeError)]"


end
