(* ===== verification/Keyset.thy ===== *)
theory Keyset
  imports Prelude
begin

text \<open>
  Keyset pagination: what the pages of a query hold that is ordered by a strict order and continued by
  \<open>WHERE key > :cursor ORDER BY key LIMIT :n\<close>. The flow list and the group members of the API are
  its two instances.
\<close>

datatype api_error = Http int | Raised py_error

locale keyset =
  fixes lt :: "'a \<Rightarrow> 'a \<Rightarrow> bool"
  assumes lt_asym: "lt a b \<Longrightarrow> \<not> lt b a"
begin

lemma irrefl: "\<not> lt a a"
  using lt_asym by blast

text \<open>What comes after an element of an ordered list is the rest of the list.\<close>

lemma filter_after:
  "sorted_wrt lt xs \<Longrightarrow> j < length xs \<Longrightarrow> filter (lt (xs ! j)) xs = drop (Suc j) xs"
proof (induction xs arbitrary: j)
  case (Cons x xs)
  show ?case
  proof (cases j)
    case 0
    have "filter (lt x) xs = xs" using Cons.prems(1) by (simp add: filter_id_conv)
    then show ?thesis using 0 irrefl by simp
  next
    case (Suc i)
    have "\<not> lt (xs ! i) x" using Cons.prems Suc lt_asym by simp
    then show ?thesis using Cons Suc by simp
  qed
qed simp

lemma distinct_of_sorted: "sorted_wrt lt xs \<Longrightarrow> distinct xs"
  by (induction xs) (auto simp: irrefl)

lemma nth_eq_iff: "sorted_wrt lt xs \<Longrightarrow> i < length xs \<Longrightarrow> j < length xs \<Longrightarrow> xs ! i = xs ! j \<longleftrightarrow> i = j"
  using distinct_of_sorted nth_eq_iff_index_eq by blast

text \<open>An element is on the page that starts at \<open>s\<close> with \<open>n\<close> rows exactly when its position is.\<close>

lemma on_page: "sorted_wrt lt xs \<Longrightarrow> i < length xs \<Longrightarrow> xs ! i \<in> set (take n (drop s xs)) \<longleftrightarrow> s \<le> i \<and> i < s + n"
proof
  assume s: "sorted_wrt lt xs" "i < length xs" and "xs ! i \<in> set (take n (drop s xs))"
  then obtain k where "k < n" "s + k < length xs" "xs ! i = xs ! (s + k)"
    by (auto simp: in_set_conv_nth)
  then show "s \<le> i \<and> i < s + n" using nth_eq_iff[OF s] by auto
next
  assume "i < length xs" "s \<le> i \<and> i < s + n"
  then show "xs ! i \<in> set (take n (drop s xs))"
    by (auto simp: in_set_conv_nth intro!: exI[of _ "i - s"])
qed

end

end
