(* ===== verification/Delta_Json.thy ===== *)
theory Delta_Json
  imports Sankey_Publisher Event_Json
begin

text \<open>
  The diagrams as texts on Redis: \<open>json.dumps\<close> of a delta in
  \<open>correlator/src/correlator/pipeline/sankey_publisher.py\<close> and its view in the API.
\<close>

section \<open>Writing\<close>

definition kind_name :: "label_kind \<Rightarrow> string" where
  "kind_name k = (case k of Manual \<Rightarrow> ''manual'' | Saas \<Rightarrow> ''saas'' | Ptr \<Rightarrow> ''ptr'' | Port \<Rightarrow> ''port'' | Raw \<Rightarrow> ''raw'')"

definition delta_json :: "delta \<Rightarrow> json" where
  "delta_json d = JObj [(''ts'', JStr (isoformat (dl_ts d))), (''window_s'', JInt (dl_window_s d)),
     (''nodes_left'', JList (map (\<lambda>n. JObj [(''id'', JStr (nl_id n)), (''label'', JStr (nl_label n)), (''size'', JInt (nl_size n))])
        (dl_nodes_left d))),
     (''nodes_right'', JList (map (\<lambda>n. JObj [(''id'', JStr (nr_id n)), (''label'', JStr (nr_label n)),
        (''kind'', JStr (kind_name (nr_kind n)))]) (dl_nodes_right d))),
     (''links'', JList (map (\<lambda>l. JObj [(''src'', JStr (ln_src l)), (''dst'', JStr (ln_dst l)), (''bytes'', JInt (ln_bytes l)),
        (''flows'', JInt (ln_flows l)), (''users'', JInt (ln_users l))]) (dl_links d))),
     (''lossy'', JBool (dl_lossy d)), (''dropped_count'', JInt (dl_dropped_count d))]"

definition serialize_delta :: "delta \<Rightarrow> string" where
  "serialize_delta d = dumps '', '' '': '' (delta_json d)"

section \<open>Reading\<close>

definition as_list :: "(json \<Rightarrow> 'a option) \<Rightarrow> json \<Rightarrow> 'a list option" where
  "as_list f v = (case v of JList vs \<Rightarrow> those (map f vs) | _ \<Rightarrow> None)"

definition kind_of_name :: "string \<Rightarrow> label_kind option" where
  "kind_of_name s = map_of (map (\<lambda>k. (kind_name k, k)) [Manual, Saas, Ptr, Port, Raw]) s"

definition node_left_of :: "json \<Rightarrow> node_left option" where
  "node_left_of v = do { d \<leftarrow> as_obj v; i \<leftarrow> req_key as_str d ''id''; l \<leftarrow> req_key as_str d ''label''; n \<leftarrow> req_key as_int d ''size'';
     Some \<lparr>nl_id = i, nl_label = l, nl_size = n\<rparr> }"

definition node_right_of :: "json \<Rightarrow> node_right option" where
  "node_right_of v = do { d \<leftarrow> as_obj v; i \<leftarrow> req_key as_str d ''id''; l \<leftarrow> req_key as_str d ''label'';
     k \<leftarrow> req_key (\<lambda>x. Option.bind (as_str x) kind_of_name) d ''kind''; Some \<lparr>nr_id = i, nr_label = l, nr_kind = k\<rparr> }"

definition link_of :: "json \<Rightarrow> link option" where
  "link_of v = do { d \<leftarrow> as_obj v; s \<leftarrow> req_key as_str d ''src''; t \<leftarrow> req_key as_str d ''dst''; b \<leftarrow> req_key as_int d ''bytes'';
     f \<leftarrow> req_key as_int d ''flows''; u \<leftarrow> req_key as_int d ''users'';
     Some \<lparr>ln_src = s, ln_dst = t, ln_bytes = b, ln_flows = f, ln_users = u\<rparr> }"

definition delta_of_json :: "json \<Rightarrow> delta option" where
  "delta_of_json v = do {
     d \<leftarrow> as_obj v; ts \<leftarrow> req_key (\<lambda>x. Option.bind (as_str x) fromisoformat) d ''ts''; w \<leftarrow> req_key as_int d ''window_s'';
     nl \<leftarrow> req_key (as_list node_left_of) d ''nodes_left''; nr \<leftarrow> req_key (as_list node_right_of) d ''nodes_right'';
     ls \<leftarrow> req_key (as_list link_of) d ''links'';
     lossy \<leftarrow> req_key (\<lambda>x. case x of JBool b \<Rightarrow> Some b | _ \<Rightarrow> None) d ''lossy''; dc \<leftarrow> req_key as_int d ''dropped_count'';
     Some \<lparr>dl_ts = ts, dl_window_s = w, dl_nodes_left = nl, dl_nodes_right = nr, dl_links = ls, dl_lossy = lossy, dl_dropped_count = dc\<rparr> }"

definition delta_loads :: "string \<Rightarrow> delta option" where
  "delta_loads s = Option.bind (loads s) delta_of_json"

section \<open>What is written is read back\<close>

definition delta_ok :: "delta \<Rightarrow> bool" where
  "delta_ok d \<longleftrightarrow> representable (dl_ts d) \<and> \<bar>dl_window_s d\<bar> < 10 ^ 30 \<and> \<bar>dl_dropped_count d\<bar> < 10 ^ 30 \<and>
     (\<forall>n \<in> set (dl_nodes_left d). \<bar>nl_size n\<bar> < 10 ^ 30) \<and>
     (\<forall>l \<in> set (dl_links d). \<bar>ln_bytes l\<bar> < 10 ^ 30 \<and> \<bar>ln_flows l\<bar> < 10 ^ 30 \<and> \<bar>ln_users l\<bar> < 10 ^ 30)"

lemma loads_default: "json_ok v \<Longrightarrow> loads (dumps '', '' '': '' v) = Some v"
  using loads_dumps[of v "'' ''" "'' ''"] by (simp add: is_json_space_def code_def)

lemma those_map_back: "(\<And>x. x \<in> set xs \<Longrightarrow> f (g x) = Some x) \<Longrightarrow> those (map (\<lambda>x. f (g x)) xs) = Some xs"
  by (induction xs) auto

lemma kind_of_name_back [simp]: "kind_of_name (kind_name k) = Some k"
  by (cases k) (simp_all add: kind_of_name_def kind_name_def)

lemma delta_loads_back:
  assumes "delta_ok d"
  shows "delta_loads (serialize_delta d) = Some d"
proof -
  have ok: "json_ok (delta_json d)" using assms show_int_short by (auto simp: delta_json_def delta_ok_def)
  have "delta_of_json (delta_json d) = Some d"
    using assms iso_roundtrip[of "dl_ts d"]
    by (simp add: delta_of_json_def delta_json_def as_obj_def req_key_def as_str_def as_int_def as_list_def comp_def
        node_left_of_def node_right_of_def link_of_def delta_ok_def those_map_back[where f = Some])
  then show ?thesis using ok by (simp add: delta_loads_def serialize_delta_def loads_default)
qed

end
