(* ===== verification/Codecs.thy ===== *)
theory Codecs
  imports Py_String
begin

text \<open>
  The byte encodings of the cursors: UTF-8 and URL-safe base64 (\<open>urlsafe_b64encode\<close> and
  \<open>urlsafe_b64decode\<close> of the module \<open>base64\<close>). Bytes are characters. \<open>None\<close> is the error of the decoder; for
  UTF-8 it also stands for a code point above 255, which the strings of the model do not have.
\<close>

section \<open>UTF-8\<close>

definition utf8_char :: "char \<Rightarrow> string" where
  "utf8_char c = (if code c < 128 then [c] else [char_of (192 + code c div 64), char_of (128 + code c mod 64)])"

definition utf8_encode :: "string \<Rightarrow> string" where
  "utf8_encode s = concat (map utf8_char s)"

fun utf8_decode :: "string \<Rightarrow> string option" where
  "utf8_decode [] = Some []"
| "utf8_decode (b # s) =
     (if code b < 128 then map_option (Cons b) (utf8_decode s)
      else case s of
        [] \<Rightarrow> None
      | c # r \<Rightarrow> if (code b = 194 \<or> code b = 195) \<and> 128 \<le> code c \<and> code c < 192
          then map_option (Cons (char_of (64 * (code b - 192) + (code c - 128)))) (utf8_decode r) else None)"

section \<open>Base64\<close>

definition b64_char :: "nat \<Rightarrow> char" where
  "b64_char n = (if n < 26 then char_of (65 + n) else if n < 52 then char_of (71 + n)
     else if n < 62 then char_of (n - 4) else if n = 62 then CHR ''-'' else CHR ''_'')"

fun b64_encode :: "string \<Rightarrow> string" where
  "b64_encode [] = []"
| "b64_encode [a] = [b64_char (code a div 4), b64_char (code a mod 4 * 16), CHR ''='', CHR ''='']"
| "b64_encode [a, b] = [b64_char (code a div 4), b64_char (code a mod 4 * 16 + code b div 16),
     b64_char (code b mod 16 * 4), CHR ''='']"
| "b64_encode (a # b # c # s) = b64_char (code a div 4) # b64_char (code a mod 4 * 16 + code b div 16) #
     b64_char (code b mod 16 * 4 + code c div 64) # b64_char (code c mod 64) # b64_encode s"

definition b64_val :: "char \<Rightarrow> nat option" where
  "b64_val c = (let n = code c in
     if 65 \<le> n \<and> n \<le> 90 then Some (n - 65) else if 97 \<le> n \<and> n \<le> 122 then Some (n - 71)
     else if 48 \<le> n \<and> n \<le> 57 then Some (n + 4) else if c = CHR ''-'' \<or> c = CHR ''+'' then Some 62
     else if c = CHR ''_'' \<or> c = CHR ''/'' then Some 63 else None)"

text \<open>
  The loop of the decoder: the position in the group of four, the bits left over and the padding seen.
  Characters outside the alphabet are skipped, and the padding of a group ends the text.
\<close>

fun b64_scan :: "nat \<Rightarrow> nat \<Rightarrow> nat \<Rightarrow> string \<Rightarrow> string option" where
  "b64_scan q l p [] = (if q = 0 then Some [] else None)"
| "b64_scan q l p (c # s) =
     (if c = CHR ''='' then
        if 2 \<le> q then (if 4 \<le> q + (p + 1) then Some [] else b64_scan q l (p + 1) s) else b64_scan q l p s
      else case b64_val c of
        None \<Rightarrow> b64_scan q l p s
      | Some v \<Rightarrow>
          if q = 0 then b64_scan 1 v 0 s
          else if q = 1 then map_option (Cons (char_of (l * 4 + v div 16))) (b64_scan 2 (v mod 16) 0 s)
          else if q = 2 then map_option (Cons (char_of (l * 16 + v div 4))) (b64_scan 3 (v mod 4) 0 s)
          else map_option (Cons (char_of (l * 64 + v))) (b64_scan 0 0 0 s))"

definition b64_decode :: "string \<Rightarrow> string option" where
  "b64_decode s = b64_scan 0 0 0 s"

section \<open>Round trips\<close>

lemma code_less [simp]: "code c < 256"
  by (simp add: code_def)

lemma utf8_decode_char: "utf8_decode (utf8_char c @ s) = map_option (Cons c) (utf8_decode s)"
proof (cases "code c < 128")
  case False
  then have hi: "code c div 64 = 2 \<or> code c div 64 = 3" using code_less[of c] by linarith
  have m: "64 * (code c div 64) + code c mod 64 = code c" by simp
  have "code c div 64 = 2 \<Longrightarrow> 128 + code c mod 64 = code c" "code c div 64 = 3 \<Longrightarrow> 192 + code c mod 64 = code c"
    using m by linarith+
  then have "code c div 64 = 2 \<Longrightarrow> char_of (128 + code c mod 64) = c" "code c div 64 = 3 \<Longrightarrow> char_of (192 + code c mod 64) = c"
    by (simp_all only: char_of_code)
  then show ?thesis using False hi by (auto simp: utf8_char_def code_char_of)
qed (simp add: utf8_char_def)

lemma utf8_roundtrip: "utf8_decode (utf8_encode s) = Some s"
  by (induction s) (simp_all add: utf8_encode_def utf8_decode_char)

lemma b64_val_char:
  assumes "n < 64"
  shows "b64_char n \<noteq> CHR ''='' \<and> b64_val (b64_char n) = Some n"
proof -
  consider "n < 26" | "26 \<le> n" "n < 52" | "52 \<le> n" "n < 62" | "n = 62" | "n = 63" using assms by linarith
  then show ?thesis
  proof cases
    case 1
    then have "code (b64_char n) = 65 + n" by (simp add: b64_char_def code_char_of)
    then show ?thesis using 1 by (auto simp: b64_val_def code_def)
  next
    case 2
    then have "code (b64_char n) = 71 + n" by (simp add: b64_char_def code_char_of)
    then show ?thesis using 2 by (auto simp: b64_val_def code_def)
  next
    case 3
    then have "code (b64_char n) = n - 4" by (simp add: b64_char_def code_char_of)
    then show ?thesis using 3 by (auto simp: b64_val_def code_def Let_def)
  qed (simp_all add: b64_char_def b64_val_def code_def)
qed

lemma b64_scan_char:
  assumes "n < 64"
  shows "b64_scan 0 l p (b64_char n # s) = b64_scan 1 n 0 s"
    and "b64_scan 1 l p (b64_char n # s) = map_option (Cons (char_of (l * 4 + n div 16))) (b64_scan 2 (n mod 16) 0 s)"
    and "b64_scan 2 l p (b64_char n # s) = map_option (Cons (char_of (l * 16 + n div 4))) (b64_scan 3 (n mod 4) 0 s)"
    and "b64_scan 3 l p (b64_char n # s) = map_option (Cons (char_of (l * 64 + n))) (b64_scan 0 0 0 s)"
  using b64_val_char[OF assms] by simp_all

lemma b64_scan_pad:
  "b64_scan 2 l 0 ''=='' = Some []" "b64_scan 3 l 0 ''='' = Some []"
  by simp_all

declare b64_scan.simps(2) [simp del]

lemma b64_index:
  "code a div 4 < 64" "code a mod 4 * 16 < 64" "code a mod 4 * 16 + code b div 16 < 64" "code b mod 16 * 4 < 64"
  "code b mod 16 * 4 + code c div 64 < 64" "code c mod 64 < 64"
proof -
  have "code a mod 4 < 4" "code b mod 16 < 16" "code b div 16 < 16" "code c div 64 < 4" "code a div 4 < 64"
    using code_less[of a] code_less[of b] code_less[of c] by (simp_all add: less_mult_imp_div_less)
  then show "code a div 4 < 64" "code a mod 4 * 16 < 64" "code a mod 4 * 16 + code b div 16 < 64" "code b mod 16 * 4 < 64"
    "code b mod 16 * 4 + code c div 64 < 64" by linarith+
qed simp

lemma b64_bits:
  "(code a mod 4 * 16 + code b div 16) div 16 = code a mod 4" "(code a mod 4 * 16 + code b div 16) mod 16 = code b div 16"
  "(code b mod 16 * 4 + code c div 64) div 4 = code b mod 16" "(code b mod 16 * 4 + code c div 64) mod 4 = code c div 64"
  "code c div 64 * 64 + code c mod 64 = code c" "code b div 16 * 16 + code b mod 16 = code b" "code a div 4 * 4 + code a mod 4 = code a"
proof -
  have "code b div 16 < 16" "code c div 64 < 4" using code_less[of b] code_less[of c] by linarith+
  then show "(code a mod 4 * 16 + code b div 16) div 16 = code a mod 4" "(code a mod 4 * 16 + code b div 16) mod 16 = code b div 16"
    "(code b mod 16 * 4 + code c div 64) div 4 = code b mod 16" "(code b mod 16 * 4 + code c div 64) mod 4 = code c div 64"
    by simp_all
qed simp_all

lemma b64_high: "code b div 16 mod 16 = code b div 16" "code c div 64 mod 4 = code c div 64"
  using code_less[of b] code_less[of c] by (simp_all add: less_mult_imp_div_less)

lemma b64_roundtrip: "b64_decode (b64_encode s) = Some s"
  unfolding b64_decode_def
proof (induction s rule: b64_encode.induct)
  case (2 a)
  then show ?case using b64_bits(7)[of a] by (simp add: b64_scan_char b64_scan_char(2)[unfolded One_nat_def] b64_scan_pad b64_index)
next
  case (3 a b)
  then show ?case by (simp add: b64_scan_char b64_scan_char(2)[unfolded One_nat_def] b64_scan_pad b64_index b64_bits b64_high)
next
  case (4 a b c s)
  then show ?case by (simp add: b64_scan_char b64_scan_char(2)[unfolded One_nat_def] b64_scan_pad b64_index b64_bits b64_high)
qed simp

text \<open>Without its padding the text is restored by filling up to a multiple of four.\<close>

lemma length_b64: "length (b64_encode s) mod 4 = 0"
  by (induction s rule: b64_encode.induct) (simp_all add: mod_Suc)

lemma b64_nonempty: "s \<noteq> [] \<Longrightarrow> b64_encode s \<noteq> []"
  by (cases s rule: b64_encode.cases) auto

lemma b64_shape:
  "\<exists>t k. b64_encode s = t @ replicate k CHR ''='' \<and> k \<le> 2 \<and> (t = [] \<longrightarrow> k = 0) \<and> (t \<noteq> [] \<longrightarrow> last t \<noteq> CHR ''='')"
proof (induction s rule: b64_encode.induct)
  case 1
  show ?case by (intro exI[of _ "[]"] exI[of _ 0]) simp
next
  case (2 a)
  show ?case using b64_val_char[OF b64_index(2)[of a]]
    by (intro exI[of _ "[b64_char (code a div 4), b64_char (code a mod 4 * 16)]"] exI[of _ 2]) (simp add: numeral_2_eq_2)
next
  case (3 a b)
  show ?case using b64_val_char[OF b64_index(4)[of b]]
    by (intro exI[of _ "[b64_char (code a div 4), b64_char (code a mod 4 * 16 + code b div 16), b64_char (code b mod 16 * 4)]"]
        exI[of _ 1]) simp
next
  case (4 a b c s)
  let ?g = "[b64_char (code a div 4), b64_char (code a mod 4 * 16 + code b div 16),
     b64_char (code b mod 16 * 4 + code c div 64), b64_char (code c mod 64)]"
  from 4 obtain t k where tk: "b64_encode s = t @ replicate k CHR ''=''" "k \<le> 2" "t = [] \<longrightarrow> k = 0" "t \<noteq> [] \<longrightarrow> last t \<noteq> CHR ''=''"
    by blast
  show ?case using tk b64_val_char[OF b64_index(6)[of c]] by (intro exI[of _ "?g @ t"] exI[of _ k]) auto
qed

lemma b64_refill:
  "(let t = rstrip_where (\<lambda>c. c = CHR ''='') (b64_encode s) in t @ replicate ((4 - length t mod 4) mod 4) CHR ''='') = b64_encode s"
proof -
  obtain t k where tk: "b64_encode s = t @ replicate k CHR ''=''" "k \<le> 2" "t = [] \<longrightarrow> k = 0" "t \<noteq> [] \<longrightarrow> last t \<noteq> CHR ''=''"
    using b64_shape by blast
  have "rstrip_where (\<lambda>c. c = CHR ''='') (b64_encode s) = t"
    using tk by (cases t rule: rev_cases) (auto simp: rstrip_where_def dropWhile_append3)
  note strip = this
  have "(length t + k) mod 4 = 0" using length_b64[of s] by (simp add: tk)
  then have "(length t mod 4 + k) mod 4 = 0" by (simp add: mod_add_left_eq)
  moreover have "length t mod 4 \<in> {0, 1, 2, 3}" "k \<in> {0, 1, 2}" using tk(2) by auto
  ultimately have "(4 - length t mod 4) mod 4 = k" by (auto simp: dvd_eq_mod_eq_0 mod_Suc)
  then show ?thesis using tk(1) strip by simp
qed

end
