(* ===== verification/Api_Cursor.thy ===== *)
theory Api_Cursor
  imports Json Datetime Codecs
begin

text \<open>
  The cursors of the API: \<open>api/src/api/cursor.py\<close>, and \<open>_encode_cursor\<close> and \<open>_decode_cursor\<close> of
  \<open>api/src/api/services/groups_service.py\<close>. \<open>str\<close> and \<open>int\<close> of a floating-point number are the
  parameter \<open>fo\<close>; \<open>json.loads\<close> of bytes takes them as UTF-8.
\<close>

section \<open>Python values read from JSON\<close>

record float_ops =
  fo_str :: "string \<Rightarrow> string"
  fo_int :: "string \<Rightarrow> py_error + int"

definition repr_char :: "char \<Rightarrow> char \<Rightarrow> string" where
  "repr_char q c =
     (if c = q \<or> c = CHR 0x5C then [CHR 0x5C, c]
      else if code c = 9 then [CHR 0x5C, CHR ''t''] else if code c = 10 then [CHR 0x5C, CHR ''n'']
      else if code c = 13 then [CHR 0x5C, CHR ''r'']
      else if code c < 32 \<or> 127 \<le> code c \<and> code c \<le> 160 \<or> code c = 173
      then [CHR 0x5C, CHR ''x'', hex_char (code c div 16), hex_char (code c mod 16)]
      else [c])"

definition repr_str :: "string \<Rightarrow> string" where
  "repr_str s = (let q = (if CHR 0x27 \<in> set s \<and> CHR 0x22 \<notin> set s then CHR 0x22 else CHR 0x27)
     in [q] @ concat (map (repr_char q) s) @ [q])"

fun py_repr :: "float_ops \<Rightarrow> json \<Rightarrow> string" where
  "py_repr fo JNull = ''None''"
| "py_repr fo (JBool b) = (if b then ''True'' else ''False'')"
| "py_repr fo (JInt i) = show_int i"
| "py_repr fo (JFloat f) = fo_str fo f"
| "py_repr fo (JStr s) = repr_str s"
| "py_repr fo (JList vs) = ''['' @ join_with '', '' (map (py_repr fo) vs) @ '']''"
| "py_repr fo (JObj kvs) = ''{'' @ join_with '', '' (map (\<lambda>p. repr_str (fst p) @ '': '' @ py_repr fo (snd p)) kvs) @ ''}''"

definition py_str :: "float_ops \<Rightarrow> json \<Rightarrow> string" where
  "py_str fo v = (case v of JStr s \<Rightarrow> s | _ \<Rightarrow> py_repr fo v)"

definition py_int_of :: "float_ops \<Rightarrow> json \<Rightarrow> py_error + int" where
  "py_int_of fo v = (case v of
      JInt i \<Rightarrow> Inr i
    | JBool b \<Rightarrow> Inr (if b then 1 else 0)
    | JStr s \<Rightarrow> (case py_int s of None \<Rightarrow> Inl ValueError | Some i \<Rightarrow> Inr i)
    | JFloat f \<Rightarrow> fo_int fo f
    | _ \<Rightarrow> Inl TypeError)"

definition fromiso_of :: "json \<Rightarrow> py_error + instant" where
  "fromiso_of v = (case v of
      JStr s \<Rightarrow> (case fromisoformat s of None \<Rightarrow> Inl ValueError | Some t \<Rightarrow> Inr t)
    | _ \<Rightarrow> Inl TypeError)"

definition loads_bytes :: "string \<Rightarrow> json option" where
  "loads_bytes b = (case utf8_decode b of None \<Rightarrow> None | Some s \<Rightarrow> loads s)"

section \<open>The cursor of the flow list\<close>

record cursor_payload =
  cu_last_time :: instant
  cu_last_src_ip :: string
  cu_last_dst_ip :: string
  cu_last_dst_port :: int

definition cursor_json :: "cursor_payload \<Rightarrow> json" where
  "cursor_json p = JObj [(''last_time'', JStr (isoformat (cu_last_time p))), (''last_src_ip'', JStr (cu_last_src_ip p)),
     (''last_dst_ip'', JStr (cu_last_dst_ip p)), (''last_dst_port'', JInt (cu_last_dst_port p))]"

definition encode_cursor :: "cursor_payload \<Rightarrow> string" where
  "encode_cursor p = rstrip_where (\<lambda>c. c = CHR ''='') (b64_encode (utf8_encode (dumps '','' '':'' (cursor_json p))))"

definition decode_cursor :: "float_ops \<Rightarrow> string \<Rightarrow> py_error + cursor_payload" where
  "decode_cursor fo token =
     (let padded = token @ replicate ((4 - length token mod 4) mod 4) CHR ''='' in
      case b64_decode (utf8_encode padded) of None \<Rightarrow> Inl ValueError | Some raw \<Rightarrow>
      case loads_bytes raw of
        None \<Rightarrow> Inl ValueError
      | Some (JObj d) \<Rightarrow>
          (case (map_of d ''last_time'', map_of d ''last_src_ip'', map_of d ''last_dst_ip'', map_of d ''last_dst_port'') of
             (Some t, Some src, Some dst, Some port) \<Rightarrow>
               bind_r (fromiso_of t) (\<lambda>t1. bind_r (py_int_of fo port) (\<lambda>p1.
                 Inr \<lparr>cu_last_time = t1, cu_last_src_ip = py_str fo src, cu_last_dst_ip = py_str fo dst, cu_last_dst_port = p1\<rparr>))
           | _ \<Rightarrow> Inl ValueError)
      | Some _ \<Rightarrow> Inl AttributeError)"

section \<open>The cursor of the group members\<close>

definition encode_member :: "string \<Rightarrow> string" where
  "encode_member u = b64_encode (utf8_encode u)"

definition decode_member :: "string \<Rightarrow> py_error + string" where
  "decode_member cursor =
     (if \<not> list_all (\<lambda>c. code c < 128) cursor then Inl ValueError
      else case b64_decode cursor of None \<Rightarrow> Inl ValueError | Some b \<Rightarrow>
        (case utf8_decode b of None \<Rightarrow> Inl ValueError | Some s \<Rightarrow> Inr s))"

section \<open>Cursors read back\<close>

lemma utf8_ascii: "\<forall>c \<in> set s. code c < 128 \<Longrightarrow> utf8_encode s = s"
  by (induction s) (auto simp: utf8_encode_def utf8_char_def)

lemma b64_char_ascii: "code (b64_char n) < 128"
  by (auto simp: b64_char_def code_char_of code_def)

lemma b64_ascii: "c \<in> set (b64_encode s) \<Longrightarrow> code c < 128"
proof -
  have "code (CHR ''='') < 128" by (simp add: code_def)
  then show "c \<in> set (b64_encode s) \<Longrightarrow> code c < 128"
    using b64_char_ascii by (induction s rule: b64_encode.induct) auto
qed

theorem cursor_roundtrip:
  assumes "representable (cu_last_time p)" and "\<bar>cu_last_dst_port p\<bar> < 10 ^ 30"
  shows "decode_cursor fo (encode_cursor p) = Inr p"
proof -
  define token where "token = encode_cursor p"
  let ?j = "cursor_json p"
  have "token @ replicate ((4 - length token mod 4) mod 4) CHR ''='' = b64_encode (utf8_encode (dumps '','' '':'' ?j))"
    using b64_refill[of "utf8_encode (dumps '','' '':'' ?j)"] by (simp add: token_def encode_cursor_def Let_def)
  moreover have "json_ok ?j" using show_int_short[OF assms(2)] by (simp add: cursor_json_def)
  then have "loads (dumps '','' '':'' ?j) = Some ?j" using loads_dumps[of ?j "[]" "[]"] by simp
  moreover have "utf8_encode (b64_encode x) = b64_encode x" for x using b64_ascii by (intro utf8_ascii) blast
  ultimately show ?thesis
    using iso_roundtrip[OF assms(1)]
    by (simp add: decode_cursor_def Let_def b64_roundtrip loads_bytes_def utf8_roundtrip cursor_json_def
        fromiso_of_def py_int_of_def py_str_def flip: token_def)
qed

lemma member_roundtrip: "decode_member (encode_member u) = Inr u"
  using b64_ascii by (auto simp: decode_member_def encode_member_def list_all_iff b64_roundtrip utf8_roundtrip)

lemma utf8_ne: "s \<noteq> [] \<Longrightarrow> utf8_encode s \<noteq> []"
  by (cases s) (simp_all add: utf8_encode_def utf8_char_def)

lemma encode_cursor_ne: "encode_cursor p \<noteq> []"
proof
  assume "encode_cursor p = []"
  then have "b64_encode (utf8_encode (dumps '','' '':'' (cursor_json p))) = []"
    using b64_refill[of "utf8_encode (dumps '','' '':'' (cursor_json p))"] by (simp add: encode_cursor_def Let_def)
  moreover have "dumps '','' '':'' (cursor_json p) \<noteq> []" by (simp add: cursor_json_def)
  ultimately show False using b64_nonempty utf8_ne by blast
qed

lemma encode_member_ne: "u \<noteq> [] \<Longrightarrow> encode_member u \<noteq> []"
  unfolding encode_member_def by (intro b64_nonempty utf8_ne)

end
