(* ===== verification/Api_Flows.thy ===== *)
theory Api_Flows
  imports Keyset Delta_Json Ipaddress Api_Cursor
begin

text \<open>
  The flow endpoints of the API: \<open>api/src/api/routers/flows.py\<close>. The live diagram is the text that the publisher stored in Redis; the rows of
  the database are arguments, and a query is its filter, order and limit on them.
\<close>

section \<open>Filtering\<close>

definition removeprefix :: "string \<Rightarrow> string \<Rightarrow> string" where
  "removeprefix p s = (if starts_with p s then drop (length p) s else s)"

definition in_net :: "ip_net \<Rightarrow> string \<Rightarrow> bool" where
  "in_net net src_id = (case ip_address (removeprefix ''ip:'' src_id) of None \<Rightarrow> False | Some a \<Rightarrow> ip_in a net)"

text \<open>\<open>category\<close>, \<open>proto\<close> and \<open>deny_only\<close> have no effect; the sets of labels are lists here, empty for none.\<close>

definition filter_links :: "string option \<Rightarrow> string option \<Rightarrow> string list \<Rightarrow> string option \<Rightarrow> string list \<Rightarrow> delta \<Rightarrow>
    api_error + delta" where
  "filter_links src_cidr dst_app group_filter user_filter exclude_groups d =
     bind_r (if \<not> truthy src_cidr then Inr (dl_links d)
             else case ip_network False (the src_cidr) of
               None \<Rightarrow> Inl (Http 400)
             | Some net \<Rightarrow> Inr (filter (\<lambda>lk. in_net net (ln_src lk)) (dl_links d))) (\<lambda>links.
     let links = (if truthy dst_app then filter (\<lambda>lk. ln_dst lk = ''app:'' @ the dst_app) links else links);
         links = (if group_filter \<noteq> [] then filter (\<lambda>lk. ln_src lk \<in> set group_filter \<or> ln_src lk = ''unknown'') links else links);
         links = (if truthy user_filter then filter (\<lambda>lk. ln_src lk = the user_filter \<or> ln_src lk = ''unknown'') links else links);
         links = (if exclude_groups \<noteq> [] then filter (\<lambda>lk. ln_src lk \<notin> set exclude_groups) links else links)
     in Inr (d\<lparr>dl_links := links\<rparr>))"

record sankey_view =
  sv_delta :: delta
  sv_truncated :: bool
  sv_total_links :: int

definition truncate_links :: "int \<Rightarrow> delta \<Rightarrow> sankey_view" where
  "truncate_links limit d =
     (let links = dl_links d; total = int (length links);
          ranked = take (nat limit) (sort_key (\<lambda>lk. - ln_bytes lk) links)
      in \<lparr>sv_delta = d\<lparr>dl_links := ranked\<rparr>, sv_truncated = (limit < total), sv_total_links = total\<rparr>)"

section \<open>The Sankey endpoint\<close>

record history_row =
  hr_src_ip :: string
  hr_dst_ip :: string
  hr_dst_port :: int
  hr_bytes :: int
  hr_flow_count :: int

record sankey_query =
  sq_live :: bool
  sq_limit :: int
  sq_src_cidr :: "string option"
  sq_dst_app :: "string option"
  sq_group :: "string list"
  sq_user :: "string option"
  sq_exclude_groups :: "string option"
  sq_from :: "instant option"
  sq_to :: "instant option"

definition empty_delta :: "instant \<Rightarrow> delta" where
  "empty_delta now = \<lparr>dl_ts = now, dl_window_s = 5, dl_nodes_left = [], dl_nodes_right = [], dl_links = [],
     dl_lossy = False, dl_dropped_count = 0\<rparr>"

definition history_link :: "history_row \<Rightarrow> link" where
  "history_link r = \<lparr>ln_src = ''ip:'' @ hr_src_ip r, ln_dst = ''app:'' @ hr_dst_ip r @ '':'' @ show_int (hr_dst_port r),
     ln_bytes = hr_bytes r, ln_flows = hr_flow_count r, ln_users = 0\<rparr>"

definition whole_seconds :: "int \<Rightarrow> int" where
  "whole_seconds us = (if us < 0 then - (- us div us_per_s) else us div us_per_s)"

definition base_delta :: "instant \<Rightarrow> string option \<Rightarrow> (instant \<Rightarrow> instant \<Rightarrow> history_row list) \<Rightarrow> sankey_query \<Rightarrow>
    api_error + delta" where
  "base_delta now stored history q =
     (if sq_live q then
        if \<not> truthy stored then Inr (empty_delta now)
        else (case delta_loads (the stored) of None \<Rightarrow> Inl (Raised ValueError) | Some d \<Rightarrow> Inr d)
      else case (sq_from q, sq_to q) of
        (Some f, Some t) \<Rightarrow> Inr \<lparr>dl_ts = f, dl_window_s = whole_seconds (t - f), dl_nodes_left = [], dl_nodes_right = [],
          dl_links = map history_link (history f t), dl_lossy = False, dl_dropped_count = 0\<rparr>
      | _ \<Rightarrow> Inl (Http 400))"

definition exclude_set :: "string option \<Rightarrow> string list" where
  "exclude_set s = (if truthy s then filter (\<lambda>g. g \<noteq> []) (map strip (split_on CHR '','' (the s))) else [])"

definition sankey :: "instant \<Rightarrow> string option \<Rightarrow> (instant \<Rightarrow> instant \<Rightarrow> history_row list) \<Rightarrow> sankey_query \<Rightarrow>
    api_error + sankey_view" where
  "sankey now stored history q =
     (if sq_limit q < 1 \<or> 1000 < sq_limit q then Inl (Http 422) else
     bind_r (base_delta now stored history q) (\<lambda>base.
     bind_r (filter_links (sq_src_cidr q) (sq_dst_app q) (filter (\<lambda>g. g \<noteq> []) (sq_group q)) (sq_user q)
               (exclude_set (sq_exclude_groups q)) base) (\<lambda>filtered.
     let v = truncate_links (sq_limit q) filtered; d = sv_delta v;
         used_left = map ln_src (dl_links d); used_right = map ln_dst (dl_links d)
     in Inr (v\<lparr>sv_delta := d\<lparr>dl_nodes_left := filter (\<lambda>n. nl_id n \<in> set used_left) (dl_nodes_left d),
          dl_nodes_right := filter (\<lambda>n. nr_id n \<in> set used_right) (dl_nodes_right d)\<rparr>\<rparr>))))"

section \<open>The flow list\<close>

text \<open>
  An \<open>inet\<close> value is the pair of its family and its address, ordered as the database orders hosts. The casts of
  the database between \<open>inet\<close> and text are the parameters \<open>shw\<close> and \<open>rd\<close>; a text that is no address makes the
  query fail.
\<close>

type_synonym inet = "nat \<times> nat"

record raw_flow =
  rf_time :: instant
  rf_src_ip :: inet
  rf_dst_ip :: inet
  rf_dst_port :: int
  rf_proto :: int
  rf_bytes :: int
  rf_packets :: int
  rf_flow_count :: int
  rf_source :: string

record raw_query =
  rq_limit :: nat
  rq_src_ip :: "string option"
  rq_dst_ip :: "string option"
  rq_port :: "int option"
  rq_from :: "instant option"
  rq_to :: "instant option"

type_synonym raw_row_key = "instant \<times> inet \<times> inet \<times> int"

definition raw_key :: "raw_flow \<Rightarrow> raw_row_key" where
  "raw_key r = (rf_time r, rf_src_ip r, rf_dst_ip r, rf_dst_port r)"

definition inet_param :: "(string \<Rightarrow> inet option) \<Rightarrow> string \<Rightarrow> api_error + inet" where
  "inet_param rd s = (case rd s of None \<Rightarrow> Inl (Raised RuntimeError) | Some a \<Rightarrow> Inr a)"

definition cursor_key :: "(string \<Rightarrow> inet option) \<Rightarrow> cursor_payload \<Rightarrow> api_error + raw_row_key" where
  "cursor_key rd c = bind_r (inet_param rd (cu_last_src_ip c)) (\<lambda>src. bind_r (inet_param rd (cu_last_dst_ip c)) (\<lambda>dst.
     Inr (cu_last_time c, src, dst, cu_last_dst_port c)))"

definition cursor_of :: "(inet \<Rightarrow> string) \<Rightarrow> raw_flow \<Rightarrow> cursor_payload" where
  "cursor_of shw r = \<lparr>cu_last_time = rf_time r, cu_last_src_ip = shw (rf_src_ip r), cu_last_dst_ip = shw (rf_dst_ip r),
     cu_last_dst_port = rf_dst_port r\<rparr>"

text \<open>The conditions on the addresses, with their parameters read by the database.\<close>

definition ip_cond :: "(string \<Rightarrow> inet option) \<Rightarrow> string option \<Rightarrow> (raw_flow \<Rightarrow> inet) \<Rightarrow> api_error + (raw_flow \<Rightarrow> bool)" where
  "ip_cond rd s get_ip = (if \<not> truthy s then Inr (\<lambda>_. True)
     else bind_r (inet_param rd (the s)) (\<lambda>a. Inr (\<lambda>r. get_ip r = a)))"

definition raw_where :: "(string \<Rightarrow> inet option) \<Rightarrow> raw_query \<Rightarrow> api_error + (raw_flow \<Rightarrow> bool)" where
  "raw_where rd q =
     bind_r (ip_cond rd (rq_src_ip q) rf_src_ip) (\<lambda>src. bind_r (ip_cond rd (rq_dst_ip q) rf_dst_ip) (\<lambda>dst. Inr (\<lambda>r.
       src r \<and> dst r \<and>
       (case rq_port q of None \<Rightarrow> True | Some p \<Rightarrow> rf_dst_port r = p) \<and>
       (case rq_from q of None \<Rightarrow> True | Some t \<Rightarrow> t \<le> rf_time r) \<and>
       (case rq_to q of None \<Rightarrow> True | Some t \<Rightarrow> rf_time r < t))))"

definition raw_select :: "raw_flow list \<Rightarrow> (raw_flow \<Rightarrow> bool) \<Rightarrow> raw_row_key option \<Rightarrow> nat \<Rightarrow> raw_flow list" where
  "raw_select flows w cur n =
     take n (rev (sort_key raw_key (filter (\<lambda>r. w r \<and> (case cur of None \<Rightarrow> True | Some k \<Rightarrow> raw_key r < k)) flows)))"

record raw_page =
  rp_items :: "raw_flow list"
  rp_next_cursor :: "string option"

definition raw_cursor :: "float_ops \<Rightarrow> (string \<Rightarrow> inet option) \<Rightarrow> string option \<Rightarrow> api_error + raw_row_key option" where
  "raw_cursor fo rd cursor =
     (if \<not> truthy cursor then Inr None
      else case decode_cursor fo (the cursor) of
        Inl ValueError \<Rightarrow> Inl (Http 400)
      | Inl e \<Rightarrow> Inl (Raised e)
      | Inr c \<Rightarrow> bind_r (cursor_key rd c) (\<lambda>k. Inr (Some k)))"

definition raw :: "float_ops \<Rightarrow> (inet \<Rightarrow> string) \<Rightarrow> (string \<Rightarrow> inet option) \<Rightarrow> raw_flow list \<Rightarrow> raw_query \<Rightarrow>
    string option \<Rightarrow> api_error + raw_page" where
  "raw fo shw rd flows q cursor =
     (if rq_limit q < 1 \<or> 5000 < rq_limit q then Inl (Http 422) else
      bind_r (raw_cursor fo rd cursor) (\<lambda>cur. bind_r (raw_where rd q) (\<lambda>w.
      let rows = raw_select flows w cur (rq_limit q + 1) in
      if rq_limit q < length rows
      then Inr \<lparr>rp_items = butlast rows, rp_next_cursor = Some (encode_cursor (cursor_of shw (last rows)))\<rparr>
      else Inr \<lparr>rp_items = rows, rp_next_cursor = None\<rparr>)))"

text \<open>A client that follows the cursors: its \<open>k\<close>-th page.\<close>

fun raw_page_no :: "float_ops \<Rightarrow> (inet \<Rightarrow> string) \<Rightarrow> (string \<Rightarrow> inet option) \<Rightarrow> raw_flow list \<Rightarrow> raw_query \<Rightarrow>
    nat \<Rightarrow> raw_page option" where
  "raw_page_no fo shw rd flows q 0 = (case raw fo shw rd flows q None of Inl _ \<Rightarrow> None | Inr p \<Rightarrow> Some p)"
| "raw_page_no fo shw rd flows q (Suc k) =
     (case raw_page_no fo shw rd flows q k of None \<Rightarrow> None | Some p \<Rightarrow>
      case rp_next_cursor p of None \<Rightarrow> None | Some c \<Rightarrow>
      case raw fo shw rd flows q (Some c) of Inl _ \<Rightarrow> None | Inr p1 \<Rightarrow> Some p1)"

section \<open>Ordered rows\<close>

interpretation newest: keyset "\<lambda>a b. raw_key b < raw_key a"
  by unfold_locales auto

definition ordered_rows :: "raw_flow list \<Rightarrow> (raw_flow \<Rightarrow> bool) \<Rightarrow> raw_flow list" where
  "ordered_rows flows w = rev (sort_key raw_key (filter w flows))"

lemma ordered_rows_sorted:
  assumes "distinct (map raw_key flows)"
  shows "sorted_wrt (\<lambda>a b. raw_key b < raw_key a) (ordered_rows flows w)"
proof -
  let ?s = "sort_key raw_key (filter w flows)"
  have "distinct (map raw_key (filter w flows))" using assms by (rule distinct_map_filter)
  then have d: "distinct (map raw_key ?s)"
    by (metis distinct_map distinct_sort set_sort)
  have "sorted (map raw_key ?s)" by simp
  with d have "sorted_wrt (<) (map raw_key ?s)" unfolding strict_sorted_iff by blast
  then show ?thesis by (simp add: ordered_rows_def sorted_wrt_map sorted_wrt_rev)
qed

lemma ordered_rows_in: "j < length (ordered_rows flows w) \<Longrightarrow> ordered_rows flows w ! j \<in> set flows"
  using nth_mem[of j "ordered_rows flows w"] by (auto simp: ordered_rows_def)

lemma raw_select_first: "raw_select flows w None n = take n (ordered_rows flows w)"
  by (simp add: raw_select_def ordered_rows_def)

lemma raw_select_after:
  assumes "distinct (map raw_key flows)" and "j < length (ordered_rows flows w)"
  shows "raw_select flows w (Some (raw_key (ordered_rows flows w ! j))) n = take n (drop (Suc j) (ordered_rows flows w))"
proof -
  let ?S = "ordered_rows flows w" and ?a = "ordered_rows flows w ! j"
  have "filter (\<lambda>r. w r \<and> raw_key r < raw_key ?a) flows =
      filter (\<lambda>r. raw_key r < raw_key ?a) (filter w flows)" by (simp add: conj_commute)
  then have "rev (sort_key raw_key (filter (\<lambda>r. w r \<and> raw_key r < raw_key ?a) flows)) =
      filter (\<lambda>r. raw_key r < raw_key ?a) ?S"
    by (simp add: ordered_rows_def filter_sort[symmetric] rev_filter)
  then show ?thesis
    using newest.filter_after[OF ordered_rows_sorted[OF assms(1)] assms(2)] by (simp add: raw_select_def)
qed

lemma page_shape:
  assumes "rows = take (Suc n) (drop s xs)"
  shows "n < length rows \<longleftrightarrow> s + n < length xs"
    and "n < length rows \<Longrightarrow> butlast rows = take n (drop s xs) \<and> last rows = xs ! (s + n)"
    and "\<not> n < length rows \<Longrightarrow> rows = take n (drop s xs)"
  using assms by (auto simp: butlast_take last_conv_nth)

text \<open>The page that starts at position \<open>s\<close> of the ordered rows.\<close>

definition page_at :: "(inet \<Rightarrow> string) \<Rightarrow> raw_flow list \<Rightarrow> nat \<Rightarrow> nat \<Rightarrow> raw_page" where
  "page_at shw xs n s = \<lparr>rp_items = take n (drop s xs),
     rp_next_cursor = (if s + n < length xs then Some (encode_cursor (cursor_of shw (xs ! (s + n)))) else None)\<rparr>"

lemma page_at_next:
  "rp_next_cursor (page_at shw xs n s) = (if s + n < length xs then Some (encode_cursor (cursor_of shw (xs ! (s + n)))) else None)"
  by (simp add: page_at_def)

text \<open>
  What the walk relies on: a request in range that the database accepts, and rows whose instants a
  \<open>datetime\<close> can hold, whose addresses the database reads back and whose ports are numbers of reasonable size.
\<close>

definition walkable :: "(inet \<Rightarrow> string) \<Rightarrow> (string \<Rightarrow> inet option) \<Rightarrow> raw_flow list \<Rightarrow> raw_query \<Rightarrow> (raw_flow \<Rightarrow> bool) \<Rightarrow> bool" where
  "walkable shw rd flows q w \<longleftrightarrow> 1 \<le> rq_limit q \<and> rq_limit q \<le> 5000 \<and> raw_where rd q = Inr w \<and>
     distinct (map raw_key flows) \<and>
     (\<forall>r \<in> set flows. representable (rf_time r) \<and> \<bar>rf_dst_port r\<bar> < 10 ^ 30 \<and>
        rd (shw (rf_src_ip r)) = Some (rf_src_ip r) \<and> rd (shw (rf_dst_ip r)) = Some (rf_dst_ip r))"

lemma raw_first:
  "walkable shw rd flows q w \<Longrightarrow> raw fo shw rd flows q None = Inr (page_at shw (ordered_rows flows w) (rq_limit q) 0)"
  using page_shape[OF refl, of "rq_limit q" 0 "ordered_rows flows w"]
  by (auto simp: raw_def raw_cursor_def raw_select_first page_at_def Let_def walkable_def)

lemma raw_cursor_back:
  assumes "walkable shw rd flows q w" and "r \<in> set flows"
  shows "raw_cursor fo rd (Some (encode_cursor (cursor_of shw r))) = Inr (Some (raw_key r))"
  using assms cursor_roundtrip[of "cursor_of shw r" fo]
  by (simp add: raw_cursor_def encode_cursor_ne walkable_def cursor_of_def cursor_key_def inet_param_def raw_key_def)

lemma raw_next:
  assumes "walkable shw rd flows q w" and "j < length (ordered_rows flows w)"
  shows "raw fo shw rd flows q (Some (encode_cursor (cursor_of shw (ordered_rows flows w ! j)))) =
    Inr (page_at shw (ordered_rows flows w) (rq_limit q) (Suc j))"
proof -
  have "distinct (map raw_key flows)" using assms(1) by (simp add: walkable_def)
  then show ?thesis
    using page_shape[OF refl, of "rq_limit q" "Suc j" "ordered_rows flows w"] assms
      raw_select_after[OF _ assms(2)] raw_cursor_back[OF assms(1) ordered_rows_in[OF assms(2)]]
    by (auto simp: raw_def page_at_def Let_def walkable_def)
qed

lemma raw_page_no_spec:
  assumes "walkable shw rd flows q w"
  shows "raw_page_no fo shw rd flows q k =
    (if k = 0 \<or> k * Suc (rq_limit q) \<le> length (ordered_rows flows w)
     then Some (page_at shw (ordered_rows flows w) (rq_limit q) (k * Suc (rq_limit q))) else None)"
proof (induction k)
  case 0
  show ?case using raw_first[OF assms] by simp
next
  case (Suc k)
  let ?S = "ordered_rows flows w" and ?n = "rq_limit q"
  show ?case
  proof (cases "k * Suc ?n + ?n < length ?S")
    case True
    then show ?thesis
      using Suc raw_next[OF assms True] by (simp add: algebra_simps page_at_next)
  next
    case False
    then show ?thesis using Suc by (auto simp: page_at_def)
  qed
qed

section \<open>Properties\<close>


definition demo_flow :: "int \<Rightarrow> raw_flow" where
  "demo_flow t = \<lparr>rf_time = t, rf_src_ip = (4, 1), rf_dst_ip = (4, 2), rf_dst_port = 443, rf_proto = 6, rf_bytes = 10,
     rf_packets = 1, rf_flow_count = 1, rf_source = ''fortigate''\<rparr>"

definition demo_raw_query :: raw_query where
  "demo_raw_query = \<lparr>rq_limit = 1, rq_src_ip = None, rq_dst_ip = None, rq_port = None, rq_from = None, rq_to = None\<rparr>"

definition demo_shw :: "inet \<Rightarrow> string" where
  "demo_shw a = show_nat (snd a)"

definition demo_rd :: "string \<Rightarrow> inet option" where
  "demo_rd s = map_option (\<lambda>n. (4, nat n)) (py_int s)"

definition demo_fo :: float_ops where
  "demo_fo = \<lparr>fo_str = id, fo_int = (\<lambda>_. Inl ValueError)\<rparr>"


text \<open>The links that the filters of a request let through.\<close>

definition link_wanted :: "sankey_query \<Rightarrow> link \<Rightarrow> bool" where
  "link_wanted q lk \<longleftrightarrow>
     (truthy (sq_src_cidr q) \<longrightarrow>
        (case ip_network False (the (sq_src_cidr q)) of None \<Rightarrow> False | Some net \<Rightarrow> in_net net (ln_src lk))) \<and>
     (truthy (sq_dst_app q) \<longrightarrow> ln_dst lk = ''app:'' @ the (sq_dst_app q)) \<and>
     (set (sq_group q) - {[]} \<noteq> {} \<longrightarrow> ln_src lk \<in> set (sq_group q) - {[]} \<or> ln_src lk = ''unknown'') \<and>
     (truthy (sq_user q) \<longrightarrow> ln_src lk = the (sq_user q) \<or> ln_src lk = ''unknown'') \<and>
     ln_src lk \<notin> set (exclude_set (sq_exclude_groups q))"

lemma filter_if: "(if c then filter P xs else xs) = filter (\<lambda>x. c \<longrightarrow> P x) xs"
  by simp

lemma filter_links_spec:
  "filter_links (sq_src_cidr q) (sq_dst_app q) (filter (\<lambda>g. g \<noteq> []) (sq_group q)) (sq_user q)
     (exclude_set (sq_exclude_groups q)) d =
   (if truthy (sq_src_cidr q) \<and> ip_network False (the (sq_src_cidr q)) = None then Inl (Http 400)
    else Inr (d\<lparr>dl_links := filter (link_wanted q) (dl_links d)\<rparr>))"
proof -
  have g: "filter (\<lambda>g. g \<noteq> []) gs \<noteq> [] \<longleftrightarrow> set gs - {[]} \<noteq> {}" for gs :: "string list"
    by (auto simp: filter_empty_conv)
  have e: "(xs \<noteq> [] \<longrightarrow> y \<notin> set xs) \<longleftrightarrow> y \<notin> set xs" for xs :: "string list" and y
    by auto
  have s: "y \<in> set (filter (\<lambda>g. g \<noteq> []) gs) \<longleftrightarrow> y \<in> set gs - {[]}" for gs :: "string list" and y by auto
  show ?thesis
  proof (cases "truthy (sq_src_cidr q)")
    case False
    then show ?thesis
      unfolding filter_links_def link_wanted_def Let_def filter_if g e s
      by (simp add: conj_ac)
  next
    case True
    then show ?thesis
      unfolding filter_links_def link_wanted_def Let_def filter_if g e s
      by (cases "ip_network False (the (sq_src_cidr q))") (simp_all add: conj_ac)
  qed
qed

lemma sankey_spec:
  assumes "base_delta now stored history q = Inr base" and "sankey now stored history q = Inr v"
  defines "wanted \<equiv> filter (link_wanted q) (dl_links base)"
  shows "dl_links (sv_delta v) = take (nat (sq_limit q)) (sort_key (\<lambda>lk. - ln_bytes lk) wanted)"
    and "sv_total_links v = int (length wanted)" and "sv_truncated v \<longleftrightarrow> sq_limit q < int (length wanted)"
    and "dl_nodes_left (sv_delta v) = filter (\<lambda>n. nl_id n \<in> ln_src ` set (dl_links (sv_delta v))) (dl_nodes_left base)"
    and "dl_nodes_right (sv_delta v) = filter (\<lambda>n. nr_id n \<in> ln_dst ` set (dl_links (sv_delta v))) (dl_nodes_right base)"
  using assms(2) unfolding sankey_def assms(1) bind_r_simps filter_links_spec
  by (auto simp: truncate_links_def Let_def wanted_def split: if_splits)

lemma take_sorted_ge:
  assumes "sorted (map k xs)" and "x \<in> set (take n xs)" and "y \<in> set (drop n xs)"
  shows "k x \<le> (k y :: int)"
proof -
  have "sorted (map k (take n xs) @ map k (drop n xs))" using assms(1) by (simp flip: map_append)
  then show ?thesis using assms(2,3) unfolding sorted_append by fastforce
qed

text \<open>
  The Sankey view shows the heaviest links that were asked for. Its links are those of the live or
  historical base that pass every filter of the request, the heaviest first, at most \<open>limit\<close> of them, and no
  link left out is heavier than one shown; the total and the truncation flag tell how many passed; the nodes
  are those of the base that some shown link refers to, so a base whose links have their nodes gives such a
  view.
\<close>

theorem sankey_view_sound:
  assumes "base_delta now stored history q = Inr base" and "sankey now stored history q = Inr v" and "0 \<le> sq_limit q"
  defines "wanted \<equiv> filter (link_wanted q) (dl_links base)" and "shown \<equiv> dl_links (sv_delta v)"
  shows "\<exists>rest. mset wanted = mset shown + mset rest \<and> (\<forall>a \<in> set shown. \<forall>b \<in> set rest. ln_bytes b \<le> ln_bytes a) \<and>
      sorted_wrt (\<lambda>a b. ln_bytes b \<le> ln_bytes a) shown \<and>
      int (length shown) = min (sq_limit q) (sv_total_links v) \<and> sv_total_links v = int (length wanted) \<and>
      (sv_truncated v \<longleftrightarrow> rest \<noteq> []) \<and>
      nl_id ` set (dl_nodes_left (sv_delta v)) = nl_id ` set (dl_nodes_left base) \<inter> ln_src ` set shown \<and>
      nr_id ` set (dl_nodes_right (sv_delta v)) = nr_id ` set (dl_nodes_right base) \<inter> ln_dst ` set shown"
proof -
  let ?s = "sort_key (\<lambda>lk. - ln_bytes lk) wanted" and ?n = "nat (sq_limit q)"
  note spec = sankey_spec[OF assms(1,2), folded wanted_def]
  have sh: "shown = take ?n ?s" using spec(1) by (simp add: shown_def)
  have so: "sorted (map (\<lambda>lk. - ln_bytes lk) ?s)" by simp
  have "mset wanted = mset shown + mset (drop ?n ?s)"
    unfolding sh by (metis append_take_drop_id mset_append mset_sort)
  moreover have "\<forall>a \<in> set shown. \<forall>b \<in> set (drop ?n ?s). ln_bytes b \<le> ln_bytes a"
    using take_sorted_ge[OF so] unfolding sh by fastforce
  moreover have "sorted_wrt (\<lambda>a b. ln_bytes b \<le> ln_bytes a) shown"
    using sorted_wrt_take[of "\<lambda>a b. - ln_bytes a \<le> - ln_bytes b" ?s ?n] so by (simp add: sh sorted_map)
  moreover have "int (length shown) = min (sq_limit q) (sv_total_links v)"
    using assms(3) by (simp add: sh spec(2) min_def) linarith
  moreover have "sv_truncated v \<longleftrightarrow> drop ?n ?s \<noteq> []"
    using assms(3) by (simp add: spec(3)) linarith
  moreover have "nl_id ` set (dl_nodes_left (sv_delta v)) = nl_id ` set (dl_nodes_left base) \<inter> ln_src ` set shown"
    unfolding spec(4) shown_def by auto
  moreover have "nr_id ` set (dl_nodes_right (sv_delta v)) = nr_id ` set (dl_nodes_right base) \<inter> ln_dst ` set shown"
    unfolding spec(5) shown_def by auto
  ultimately show ?thesis using spec(2) by blast
qed

definition demo_sankey_query :: sankey_query where
  "demo_sankey_query = \<lparr>sq_live = True, sq_limit = 1, sq_src_cidr = None, sq_dst_app = Some ''Zoom'', sq_group = [],
     sq_user = None, sq_exclude_groups = Some ''Everyone'', sq_from = None, sq_to = None\<rparr>"

definition demo_link :: "string \<Rightarrow> int \<Rightarrow> link" where
  "demo_link s b = \<lparr>ln_src = s, ln_dst = ''app:Zoom'', ln_bytes = b, ln_flows = 1, ln_users = 1\<rparr>"

definition demo_delta :: delta where
  "demo_delta = (empty_delta 0)\<lparr>dl_links := [demo_link ''Sales'' 5, demo_link ''Everyone'' 99, demo_link ''IT'' 7]\<rparr>"

theorem sankey_view_sound_witness:
  "\<exists>v. sankey 0 (Some (serialize_delta demo_delta)) (\<lambda>_ _. []) demo_sankey_query = Inr v \<and> sv_total_links v = 2 \<and>
     length (dl_links (sv_delta v)) = 1"
proof -
  have ok: "delta_ok demo_delta" by code_simp
  have b: "base_delta 0 (Some (serialize_delta demo_delta)) (\<lambda>_ _. []) demo_sankey_query = Inr demo_delta"
    using delta_loads_back[OF ok] by (simp add: base_delta_def demo_sankey_query_def serialize_delta_def delta_json_def)
  have "truthy (sq_src_cidr demo_sankey_query) = False" by (simp add: demo_sankey_query_def truthy_def)
  then obtain v where s: "sankey 0 (Some (serialize_delta demo_delta)) (\<lambda>_ _. []) demo_sankey_query = Inr v"
    unfolding sankey_def b bind_r_simps filter_links_spec by (simp add: Let_def demo_sankey_query_def)
  have w: "filter (link_wanted demo_sankey_query) (dl_links demo_delta) = [demo_link ''Sales'' 5, demo_link ''IT'' 7]"
    by code_simp
  show ?thesis
    using sankey_view_sound[OF b s] s unfolding w by (auto simp: demo_sankey_query_def)
qed

text \<open>
  A source network in the request drops every link whose source is not an address, so all links labelled
  with a group, a user or \<open>unknown\<close>.
\<close>

theorem src_cidr_drops_labels:
  assumes "base_delta now stored history q = Inr base" and "sankey now stored history q = Inr v"
    and "truthy (sq_src_cidr q)" and "lk \<in> set (dl_links (sv_delta v))"
  shows "ip_address (removeprefix ''ip:'' (ln_src lk)) \<noteq> None"
proof -
  have "lk \<in> set (filter (link_wanted q) (dl_links base))"
    using assms(4) unfolding sankey_spec(1)[OF assms(1,2)] by (auto dest: in_set_takeD)
  then show ?thesis using assms(3) by (auto simp: link_wanted_def in_net_def split: option.splits)
qed


definition demo_window :: labelled_flow where
  "demo_window = \<lparr>lf_bucket_start = 5000000, lf_window_s = 5, lf_src_ip = ''10.0.0.1'', lf_dst_ip = ''52.1.2.3'', lf_dst_port = 443,
     lf_proto = 6, lf_bytes = 40, lf_packets = 2, lf_flow_count = 1,
     lf_candidate = \<lparr>ac_label_kind = Saas, ac_label = ''Zoom'', ac_app_id = Some 1\<rparr>, lf_lossy = False, lf_dropped_count = 0,
     lf_user_upn = ''unknown'', lf_groups = {||}\<rparr>"

definition demo_legacy :: publisher where
  "demo_legacy = \<lparr>sp_channel = ''sankey.live'', sp_aggregator = None, sp_group_index = None, sp_group_by = ''app'',
     sp_current_bucket = None, sp_pending = []\<rparr>"


end
