(* ===== verification/Schema.thy ===== *)
theory Schema
  imports Py_String
begin

text \<open>
  The database that the migrations build: the statements of \<open>migrate/alembic/versions\<close> (\<open>0001_init_flows.py\<close>,
  \<open>0002_init_identity.py\<close>, \<open>0003_init_catalogs.py\<close>, \<open>0005_notify_triggers.py\<close>; the seeding of \<open>0004\<close> is in the theory of the
  catalogue) as data, and what they do to the schema: which relations, columns, keys, indexes, policies and triggers there are.
  A statement that names what is not there, or creates what is, raises. \<open>DROP ... CASCADE\<close> takes with it the views that read a relation,
  its indexes, policies and triggers, and the foreign keys that point to it. Statements that change no object a later one could miss
  (\<open>COMMENT\<close>) are checked for the column they name.
\<close>

section \<open>Schemas\<close>

datatype sql_type = Timestamptz | Inet | Cidr | Int2 | Int4 | Int8 | Numeric | Text | TextArray | Jsonb

datatype sql_error = DuplicateObject | UndefinedTable | UndefinedColumn | WrongObjectType | NotNullViolation
  | InvalidConflictTarget | NotInPrerequisiteState | DataError

record column =
  co_name :: string
  co_type :: sql_type
  co_not_null :: bool
  co_default :: bool

definition col :: "string \<Rightarrow> sql_type \<Rightarrow> column" where
  "col n t = \<lparr>co_name = n, co_type = t, co_not_null = True, co_default = False\<rparr>"

definition opt_col :: "string \<Rightarrow> sql_type \<Rightarrow> column" where
  "opt_col n t = \<lparr>co_name = n, co_type = t, co_not_null = False, co_default = False\<rparr>"

definition def_col :: "string \<Rightarrow> sql_type \<Rightarrow> column" where
  "def_col n t = \<lparr>co_name = n, co_type = t, co_not_null = True, co_default = True\<rparr>"

datatype relation_kind = Table | MaterializedView

text \<open>\<open>rl_keys\<close> are the primary key and the unique constraints, \<open>rl_refs\<close> the tables of its foreign keys, \<open>rl_from\<close> what a view reads.\<close>

record relation =
  rl_name :: string
  rl_kind :: relation_kind
  rl_columns :: "column list"
  rl_keys :: "string list list"
  rl_refs :: "string list"
  rl_from :: "string list"

record index =
  ix_on :: string
  ix_columns :: "string list"
  ix_unique :: bool

record schema =
  sc_extensions :: "string list"
  sc_relations :: "relation list"
  sc_indexes :: "index list"
  sc_policies :: "(string \<times> string) list"
  sc_functions :: "(string \<times> string) list"
  sc_triggers :: "(string \<times> string \<times> string) list"

definition empty_schema :: schema where
  "empty_schema = \<lparr>sc_extensions = [], sc_relations = [], sc_indexes = [], sc_policies = [], sc_functions = [], sc_triggers = []\<rparr>"

definition relation_named :: "schema \<Rightarrow> string \<Rightarrow> relation option" where
  "relation_named s n = find (\<lambda>r. rl_name r = n) (sc_relations s)"

definition columns_of :: "relation \<Rightarrow> string list" where
  "columns_of r = map co_name (rl_columns r)"

section \<open>Statements that change the schema\<close>

datatype ddl =
    CreateExtension string
  | CreateTable relation
  | CreateHypertable string string
  | AddPolicy string string
  | CreateIndex index
  | CommentOn string string
  | CreateView relation "string list"
  | DropView string
  | DropTable string
  | CreateFunction string string
  | CreateTrigger string string string
  | DropTrigger string string
  | DropFunction string

text \<open>What a cascade takes: views come after the relations they read.\<close>

fun dropped :: "string list \<Rightarrow> relation list \<Rightarrow> string list" where
  "dropped D [] = D"
| "dropped D (r # rs) = dropped (if set (rl_from r) \<inter> set D \<noteq> {} then D @ [rl_name r] else D) rs"

definition drop_relation :: "string \<Rightarrow> schema \<Rightarrow> schema" where
  "drop_relation n s = (let D = dropped [n] (sc_relations s) in
     s\<lparr>sc_relations := map (\<lambda>r. r\<lparr>rl_refs := filter (\<lambda>m. m \<notin> set D) (rl_refs r)\<rparr>)
         (filter (\<lambda>r. rl_name r \<notin> set D) (sc_relations s)),
       sc_indexes := filter (\<lambda>i. ix_on i \<notin> set D) (sc_indexes s),
       sc_policies := filter (\<lambda>p. fst p \<notin> set D) (sc_policies s),
       sc_triggers := filter (\<lambda>t. fst t \<notin> set D) (sc_triggers s)\<rparr>)"

definition with_columns :: "schema \<Rightarrow> string \<Rightarrow> string list \<Rightarrow> schema \<Rightarrow> sql_error + schema" where
  "with_columns s n cs s1 =
     (case relation_named s n of
        None \<Rightarrow> Inl UndefinedTable
      | Some r \<Rightarrow> if set cs \<subseteq> set (columns_of r) then Inr s1 else Inl UndefinedColumn)"

definition drop_if :: "relation_kind \<Rightarrow> string \<Rightarrow> schema \<Rightarrow> sql_error + schema" where
  "drop_if k n s =
     (case relation_named s n of
        None \<Rightarrow> Inr s
      | Some r \<Rightarrow> if rl_kind r = k then Inr (drop_relation n s) else Inl WrongObjectType)"

fun run_ddl :: "schema \<Rightarrow> ddl \<Rightarrow> sql_error + schema" where
  "run_ddl s (CreateExtension e) = Inr (s\<lparr>sc_extensions := (if e \<in> set (sc_extensions s) then sc_extensions s else sc_extensions s @ [e])\<rparr>)"
| "run_ddl s (CreateTable r) =
     (if relation_named s (rl_name r) \<noteq> None then Inl DuplicateObject
      else if \<exists>n \<in> set (rl_refs r). relation_named s n = None then Inl UndefinedTable
      else Inr (s\<lparr>sc_relations := sc_relations s @ [r]\<rparr>))"
| "run_ddl s (CreateHypertable n c) = with_columns s n [c] (s\<lparr>sc_policies := sc_policies s @ [(n, ''hypertable '' @ c)]\<rparr>)"
| "run_ddl s (AddPolicy n p) = with_columns s n [] (s\<lparr>sc_policies := sc_policies s @ [(n, p)]\<rparr>)"
| "run_ddl s (CreateIndex i) = with_columns s (ix_on i) (ix_columns i) (s\<lparr>sc_indexes := sc_indexes s @ [i]\<rparr>)"
| "run_ddl s (CommentOn n c) = with_columns s n [c] s"
| "run_ddl s (CreateView r reads) =
     (if relation_named s (rl_name r) \<noteq> None then Inl DuplicateObject
      else with_columns s (hd (rl_from r)) reads (s\<lparr>sc_relations := sc_relations s @ [r]\<rparr>))"
| "run_ddl s (DropView n) = drop_if MaterializedView n s"
| "run_ddl s (DropTable n) = drop_if Table n s"
| "run_ddl s (CreateFunction f ch) = Inr (s\<lparr>sc_functions := filter (\<lambda>g. fst g \<noteq> f) (sc_functions s) @ [(f, ch)]\<rparr>)"
| "run_ddl s (CreateTrigger n t f) =
     (if (n, t) \<in> set (map (\<lambda>(m, u, g). (m, u)) (sc_triggers s)) then Inl DuplicateObject
      else if f \<notin> set (map fst (sc_functions s)) then Inl UndefinedTable
      else with_columns s n [] (s\<lparr>sc_triggers := sc_triggers s @ [(n, t, f)]\<rparr>))"
| "run_ddl s (DropTrigger n t) =
     (if relation_named s n = None then Inr s
      else Inr (s\<lparr>sc_triggers := filter (\<lambda>(m, u, g). \<not> (m = n \<and> u = t)) (sc_triggers s)\<rparr>))"
| "run_ddl s (DropFunction f) =
     (if \<exists>(n, t, g) \<in> set (sc_triggers s). g = f then Inl NotInPrerequisiteState
      else Inr (s\<lparr>sc_functions := filter (\<lambda>g. fst g \<noteq> f) (sc_functions s)\<rparr>))"

definition run_all :: "schema \<Rightarrow> ddl list \<Rightarrow> sql_error + schema" where
  "run_all s stmts = fold_r run_ddl s stmts"

section \<open>The revisions\<close>

definition flows_table :: relation where
  "flows_table = \<lparr>rl_name = ''flows'', rl_kind = Table,
     rl_columns = [col ''time'' Timestamptz, col ''src_ip'' Inet, col ''dst_ip'' Inet, col ''dst_port'' Int4, col ''proto'' Int2,
       col ''bytes'' Int8, col ''packets'' Int8, col ''flow_count'' Int4, col ''source'' Text],
     rl_keys = [], rl_refs = [], rl_from = []\<rparr>"

definition flows_1m_view :: relation where
  "flows_1m_view = \<lparr>rl_name = ''flows_1m'', rl_kind = MaterializedView,
     rl_columns = [opt_col ''bucket'' Timestamptz, opt_col ''src_ip'' Inet, opt_col ''dst_ip'' Inet, opt_col ''dst_port'' Int4, opt_col ''proto'' Int2,
       opt_col ''bytes'' Numeric, opt_col ''packets'' Numeric, opt_col ''flow_count'' Int8],
     rl_keys = [], rl_refs = [], rl_from = [''flows'']\<rparr>"

definition upgrade_0001 :: "ddl list" where
  "upgrade_0001 =
     [CreateExtension ''timescaledb'', CreateTable flows_table, CreateHypertable ''flows'' ''time'', AddPolicy ''flows'' ''retention 30 days'',
      CreateIndex \<lparr>ix_on = ''flows'', ix_columns = [''src_ip'', ''time''], ix_unique = False\<rparr>,
      CreateIndex \<lparr>ix_on = ''flows'', ix_columns = [''dst_ip'', ''dst_port'', ''time''], ix_unique = False\<rparr>,
      CommentOn ''flows'' ''source'',
      CreateView flows_1m_view [''time'', ''src_ip'', ''dst_ip'', ''dst_port'', ''proto'', ''bytes'', ''packets'', ''flow_count''],
      AddPolicy ''flows_1m'' ''refresh from 3 hours to 1 minute, every minute'']"

definition downgrade_0001 :: "ddl list" where
  "downgrade_0001 = [DropView ''flows_1m'', DropTable ''flows'']"

definition identity_events_table :: relation where
  "identity_events_table = \<lparr>rl_name = ''identity_events'', rl_kind = Table,
     rl_columns = [col ''time'' Timestamptz, col ''src_ip'' Inet, col ''user_upn'' Text, col ''source'' Text, col ''confidence'' Int2,
       col ''ttl_seconds'' Int4, col ''event_type'' Text, opt_col ''raw_id'' Text],
     rl_keys = [], rl_refs = [], rl_from = []\<rparr>"

definition user_groups_table :: relation where
  "user_groups_table = \<lparr>rl_name = ''user_groups'', rl_kind = Table,
     rl_columns = [col ''user_upn'' Text, col ''group_id'' Text, col ''group_name'' Text, col ''group_source'' Text, col ''refreshed_at'' Timestamptz],
     rl_keys = [[''user_upn'', ''group_id'']], rl_refs = [], rl_from = []\<rparr>"

definition group_members_view :: relation where
  "group_members_view = \<lparr>rl_name = ''group_members'', rl_kind = MaterializedView,
     rl_columns = [opt_col ''group_id'' Text, opt_col ''group_name'' Text, opt_col ''members'' TextArray, opt_col ''size'' Int8],
     rl_keys = [], rl_refs = [], rl_from = [''user_groups'']\<rparr>"

definition upgrade_0002 :: "ddl list" where
  "upgrade_0002 =
     [CreateTable identity_events_table, CreateHypertable ''identity_events'' ''time'', AddPolicy ''identity_events'' ''retention 30 days'',
      CreateIndex \<lparr>ix_on = ''identity_events'', ix_columns = [''src_ip'', ''time''], ix_unique = False\<rparr>,
      CreateIndex \<lparr>ix_on = ''identity_events'', ix_columns = [''user_upn'', ''time''], ix_unique = False\<rparr>,
      CreateTable user_groups_table,
      CreateIndex \<lparr>ix_on = ''user_groups'', ix_columns = [''group_id''], ix_unique = False\<rparr>,
      CreateView group_members_view [''group_id'', ''group_name'', ''user_upn''],
      CreateIndex \<lparr>ix_on = ''group_members'', ix_columns = [''group_id''], ix_unique = False\<rparr>]"

definition downgrade_0002 :: "ddl list" where
  "downgrade_0002 = [DropView ''group_members'', DropTable ''user_groups'', DropTable ''identity_events'']"

definition applications_table :: relation where
  "applications_table = \<lparr>rl_name = ''applications'', rl_kind = Table,
     rl_columns = [def_col ''id'' Int4, col ''name'' Text, opt_col ''description'' Text, opt_col ''owner'' Text, col ''dst_cidr'' Cidr,
       opt_col ''dst_port_min'' Int4, opt_col ''dst_port_max'' Int4, opt_col ''proto'' Int2, def_col ''priority'' Int4, def_col ''source'' Text,
       def_col ''created_at'' Timestamptz, def_col ''updated_at'' Timestamptz, opt_col ''updated_by'' Text],
     rl_keys = [[''id'']], rl_refs = [], rl_from = []\<rparr>"

definition application_audit_table :: relation where
  "application_audit_table = \<lparr>rl_name = ''application_audit'', rl_kind = Table,
     rl_columns = [def_col ''id'' Int8, col ''application_id'' Int4, def_col ''changed_at'' Timestamptz, col ''changed_by'' Text, col ''op'' Text,
       opt_col ''before'' Jsonb, opt_col ''after'' Jsonb],
     rl_keys = [[''id'']], rl_refs = [''applications''], rl_from = []\<rparr>"

definition saas_catalog_table :: relation where
  "saas_catalog_table = \<lparr>rl_name = ''saas_catalog'', rl_kind = Table,
     rl_columns = [def_col ''id'' Int4, col ''name'' Text, opt_col ''vendor'' Text, col ''fqdn_pattern'' Text, opt_col ''category'' Text,
       def_col ''source'' Text, def_col ''priority'' Int4],
     rl_keys = [[''id''], [''fqdn_pattern'']], rl_refs = [], rl_from = []\<rparr>"

definition dns_cache_table :: relation where
  "dns_cache_table = \<lparr>rl_name = ''dns_cache'', rl_kind = Table,
     rl_columns = [col ''dst_ip'' Inet, opt_col ''ptr'' Text, col ''resolved_at'' Timestamptz, def_col ''ttl_seconds'' Int4, col ''source'' Text],
     rl_keys = [[''dst_ip'']], rl_refs = [], rl_from = []\<rparr>"

definition port_defaults_table :: relation where
  "port_defaults_table = \<lparr>rl_name = ''port_defaults'', rl_kind = Table,
     rl_columns = [col ''port'' Int4, col ''proto'' Int2, col ''name'' Text, def_col ''source'' Text],
     rl_keys = [[''port'', ''proto'']], rl_refs = [], rl_from = []\<rparr>"

definition upgrade_0003 :: "ddl list" where
  "upgrade_0003 =
     [CreateTable applications_table,
      CreateIndex \<lparr>ix_on = ''applications'', ix_columns = [''dst_cidr''], ix_unique = False\<rparr>,
      CreateIndex \<lparr>ix_on = ''applications'', ix_columns = [''priority''], ix_unique = False\<rparr>,
      CreateTable application_audit_table, CreateTable saas_catalog_table,
      CreateIndex \<lparr>ix_on = ''saas_catalog'', ix_columns = [''fqdn_pattern''], ix_unique = False\<rparr>,
      CreateTable dns_cache_table, CreateTable port_defaults_table]"

definition downgrade_0003 :: "ddl list" where
  "downgrade_0003 = [DropTable ''port_defaults'', DropTable ''dns_cache'', DropTable ''saas_catalog'', DropTable ''application_audit'',
     DropTable ''applications'']"

definition notify_channels :: "(string \<times> string) list" where
  "notify_channels = [(''applications'', ''applications_changed''), (''saas_catalog'', ''saas_changed'')]"

definition upgrade_0005 :: "ddl list" where
  "upgrade_0005 = concat (map (\<lambda>(table, channel).
     [CreateFunction (''_notify_'' @ table) channel, CreateTrigger table (table @ ''_notify'') (''_notify_'' @ table)]) notify_channels)"

definition downgrade_0005 :: "ddl list" where
  "downgrade_0005 = concat (map (\<lambda>table. [DropTrigger table (table @ ''_notify''), DropFunction (''_notify_'' @ table)])
     [''applications'', ''saas_catalog''])"

text \<open>The chain, oldest first; \<open>0004\<close> changes rows only.\<close>

definition revisions :: "(ddl list \<times> ddl list) list" where
  "revisions = [(upgrade_0001, downgrade_0001), (upgrade_0002, downgrade_0002), (upgrade_0003, downgrade_0003), ([], []),
     (upgrade_0005, downgrade_0005)]"

definition migrate_to :: "nat \<Rightarrow> schema \<Rightarrow> sql_error + schema" where
  "migrate_to k s = run_all s (concat (map fst (take k revisions)))"

definition roll_back :: "nat \<Rightarrow> nat \<Rightarrow> schema \<Rightarrow> sql_error + schema" where
  "roll_back k j s = run_all s (concat (map snd (rev (drop j (take k revisions)))))"

section \<open>Beside other objects\<close>

text \<open>A schema next to that of another owner.\<close>

definition beside :: "schema \<Rightarrow> schema \<Rightarrow> schema" where
  "beside s t = \<lparr>sc_extensions = sc_extensions s @ filter (\<lambda>e. e \<notin> set (sc_extensions s)) (sc_extensions t),
     sc_relations = sc_relations s @ sc_relations t, sc_indexes = sc_indexes s @ sc_indexes t,
     sc_policies = sc_policies s @ sc_policies t, sc_functions = sc_functions s @ sc_functions t,
     sc_triggers = sc_triggers s @ sc_triggers t\<rparr>"

text \<open>No object of the schema has or uses one of the names.\<close>

definition apart :: "string set \<Rightarrow> string set \<Rightarrow> schema \<Rightarrow> bool" where
  "apart N F s \<longleftrightarrow>
     (\<forall>r \<in> set (sc_relations s). rl_name r \<notin> N \<and> set (rl_refs r) \<inter> N = {} \<and> set (rl_from r) \<inter> N = {}) \<and>
     (\<forall>i \<in> set (sc_indexes s). ix_on i \<notin> N) \<and> (\<forall>p \<in> set (sc_policies s). fst p \<notin> N) \<and>
     (\<forall>(n, t, f) \<in> set (sc_triggers s). n \<notin> N \<and> f \<notin> F) \<and> (\<forall>f \<in> set (sc_functions s). fst f \<notin> F)"

fun concerns :: "string set \<Rightarrow> string set \<Rightarrow> ddl \<Rightarrow> bool" where
  "concerns N F (CreateExtension e) = True"
| "concerns N F (CreateTable r) = (rl_name r \<in> N \<and> set (rl_refs r) \<subseteq> N)"
| "concerns N F (CreateHypertable n c) = (n \<in> N)"
| "concerns N F (AddPolicy n p) = (n \<in> N)"
| "concerns N F (CreateIndex i) = (ix_on i \<in> N)"
| "concerns N F (CommentOn n c) = (n \<in> N)"
| "concerns N F (CreateView r reads) = (rl_name r \<in> N \<and> hd (rl_from r) \<in> N)"
| "concerns N F (DropView n) = (n \<in> N)"
| "concerns N F (DropTable n) = (n \<in> N)"
| "concerns N F (CreateFunction f ch) = (f \<in> F)"
| "concerns N F (CreateTrigger n t f) = (n \<in> N \<and> f \<in> F)"
| "concerns N F (DropTrigger n t) = (n \<in> N)"
| "concerns N F (DropFunction f) = (f \<in> F)"

definition within :: "string set \<Rightarrow> schema \<Rightarrow> bool" where
  "within N t \<longleftrightarrow> rl_name ` set (sc_relations t) \<subseteq> N"

lemma beside_sel [simp]:
  "sc_extensions (beside s t) = sc_extensions s @ filter (\<lambda>e. e \<notin> set (sc_extensions s)) (sc_extensions t)"
  "sc_relations (beside s t) = sc_relations s @ sc_relations t" "sc_indexes (beside s t) = sc_indexes s @ sc_indexes t"
  "sc_policies (beside s t) = sc_policies s @ sc_policies t" "sc_functions (beside s t) = sc_functions s @ sc_functions t"
  "sc_triggers (beside s t) = sc_triggers s @ sc_triggers t"
  by (simp_all add: beside_def)

lemma find_append_none: "\<forall>x \<in> set xs. \<not> P x \<Longrightarrow> find P (xs @ ys) = find P ys"
  by (induction xs) auto

lemma relation_named_beside: "apart N F s \<Longrightarrow> n \<in> N \<Longrightarrow> relation_named (beside s t) n = relation_named t n"
  unfolding relation_named_def beside_sel by (rule find_append_none) (auto simp: apart_def)

lemma dropped_append: "dropped D (rs @ qs) = dropped (dropped D rs) qs"
  by (induction rs arbitrary: D) auto

lemma dropped_apart: "\<forall>r \<in> set rs. set (rl_from r) \<inter> set D = {} \<Longrightarrow> dropped D rs = D"
  by (induction rs) auto

lemma dropped_within: "set (dropped D rs) \<subseteq> set D \<union> rl_name ` set rs"
  by (induction rs arbitrary: D) (fastforce split: if_splits)+

lemma drop_beside:
  assumes "apart N F s" and "within N t" and "n \<in> N"
  shows "drop_relation n (beside s t) = beside s (drop_relation n t)"
proof -
  let ?D = "dropped [n] (sc_relations t)"
  have d: "dropped [n] (sc_relations s @ sc_relations t) = ?D"
    using assms(1,3) by (subst dropped_append, subst dropped_apart) (auto simp: apart_def)
  have sub: "set ?D \<subseteq> N" using dropped_within[of "[n]" "sc_relations t"] assms(2,3) by (auto simp: within_def)
  have r: "map (\<lambda>r. r\<lparr>rl_refs := filter (\<lambda>m. m \<notin> set ?D) (rl_refs r)\<rparr>) (filter (\<lambda>r. rl_name r \<notin> set ?D) (sc_relations s)) = sc_relations s"
  proof -
    have "filter (\<lambda>r. rl_name r \<notin> set ?D) (sc_relations s) = sc_relations s"
      using assms(1) sub by (auto simp: apart_def filter_id_conv)
    moreover have "r\<lparr>rl_refs := filter (\<lambda>m. m \<notin> set ?D) (rl_refs r)\<rparr> = r" if "r \<in> set (sc_relations s)" for r
    proof -
      have "filter (\<lambda>m. m \<notin> set ?D) (rl_refs r) = rl_refs r" using assms(1) sub that by (auto simp: apart_def filter_id_conv)
      then show ?thesis by simp
    qed
    ultimately show ?thesis by (simp cong: map_cong)
  qed
  have o: "filter (\<lambda>i. ix_on i \<notin> set ?D) (sc_indexes s) = sc_indexes s" "filter (\<lambda>p. fst p \<notin> set ?D) (sc_policies s) = sc_policies s"
    "filter (\<lambda>p. fst p \<notin> set ?D) (sc_triggers s) = sc_triggers s"
    using assms(1) sub by (fastforce simp: apart_def filter_id_conv)+
  show ?thesis by (simp add: drop_relation_def d r o Let_def beside_def)
qed

lemma within_drop: "within N t \<Longrightarrow> within N (drop_relation n t)"
  by (auto simp: within_def drop_relation_def Let_def)

lemma with_columns_beside:
  "apart N F s \<Longrightarrow> n \<in> N \<Longrightarrow> with_columns (beside s t) n cs (beside s t1) = map_sum id (beside s) (with_columns t n cs t1)"
  by (simp add: with_columns_def relation_named_beside split: option.splits)

lemma drop_if_beside:
  "apart N F s \<Longrightarrow> within N t \<Longrightarrow> n \<in> N \<Longrightarrow> drop_if k n (beside s t) = map_sum id (beside s) (drop_if k n t)"
  by (simp add: drop_if_def relation_named_beside drop_beside split: option.splits)

lemma beside_upd:
  "(beside s t)\<lparr>sc_relations := sc_relations s @ R\<rparr> = beside s (t\<lparr>sc_relations := R\<rparr>)"
  "(beside s t)\<lparr>sc_indexes := sc_indexes s @ I\<rparr> = beside s (t\<lparr>sc_indexes := I\<rparr>)"
  "(beside s t)\<lparr>sc_policies := sc_policies s @ P\<rparr> = beside s (t\<lparr>sc_policies := P\<rparr>)"
  "(beside s t)\<lparr>sc_functions := sc_functions s @ G\<rparr> = beside s (t\<lparr>sc_functions := G\<rparr>)"
  "(beside s t)\<lparr>sc_triggers := sc_triggers s @ T\<rparr> = beside s (t\<lparr>sc_triggers := T\<rparr>)"
  by (simp_all add: beside_def)

lemma run_ddl_beside:
  assumes "apart N F s" and "within N t" and "concerns N F st"
  shows "run_ddl (beside s t) st = map_sum id (beside s) (run_ddl t st)"
proof (cases st)
  case (CreateTable r)
  then have "(\<exists>n \<in> set (rl_refs r). relation_named (beside s t) n = None) = (\<exists>n \<in> set (rl_refs r). relation_named t n = None)"
    using assms relation_named_beside by (metis concerns.simps(2) subsetD)
  then show ?thesis using CreateTable assms by (auto simp add: relation_named_beside beside_upd)
next
  case (CreateFunction f ch)
  have "filter (\<lambda>g. fst g \<noteq> f) (sc_functions s) = sc_functions s"
    using assms CreateFunction by (fastforce simp: apart_def filter_id_conv)
  then show ?thesis by (simp add: CreateFunction beside_upd)
next
  case (DropFunction f)
  have f: "filter (\<lambda>g. fst g \<noteq> f) (sc_functions s) = sc_functions s"
    using assms DropFunction by (fastforce simp: apart_def filter_id_conv)
  have "(\<exists>(n, t, g) \<in> set (sc_triggers s @ sc_triggers t). g = f) = (\<exists>(n, t, g) \<in> set (sc_triggers t). g = f)"
    using assms DropFunction by (fastforce simp: apart_def)
  with f show ?thesis by (simp add: DropFunction beside_upd)
next
  case (CreateTrigger n u f)
  have "(n, u) \<notin> set (map (\<lambda>(m, u, g). (m, u)) (sc_triggers s))" "f \<notin> set (map fst (sc_functions s))"
    using assms CreateTrigger by (fastforce simp: apart_def)+
  then show ?thesis using CreateTrigger assms by (simp add: with_columns_beside beside_upd)
next
  case (DropTrigger n u)
  have "filter (\<lambda>(m, v, g). \<not> (m = n \<and> v = u)) (sc_triggers s) = sc_triggers s"
    using assms DropTrigger by (fastforce simp: apart_def filter_id_conv)
  then show ?thesis using DropTrigger assms by (simp add: relation_named_beside beside_upd)
next
  case (CreateExtension e)
  then show ?thesis by (auto simp: beside_def)
qed (use assms in \<open>simp_all add: with_columns_beside drop_if_beside relation_named_beside beside_upd\<close>)

lemma run_ddl_within: "run_ddl t st = Inr t1 \<Longrightarrow> within N t \<Longrightarrow> concerns N F st \<Longrightarrow> within N t1"
  by (cases st) (auto simp: with_columns_def drop_if_def within_drop split: if_splits option.splits, auto simp: within_def)

lemma run_all_beside:
  "apart N F s \<Longrightarrow> within N t \<Longrightarrow> list_all (concerns N F) stmts \<Longrightarrow>
   run_all (beside s t) stmts = map_sum id (beside s) (run_all t stmts)"
proof (induction stmts arbitrary: t)
  case (Cons st stmts)
  then show ?case
    by (cases "run_ddl t st") (auto simp: run_all_def run_ddl_beside dest: run_ddl_within)
qed (simp add: run_all_def)

section \<open>What the services ask of the database\<close>

text \<open>
  A query or change of a service with the columns it names. \<open>Insert\<close> carries the columns it fills and the target of its
  \<open>ON CONFLICT\<close>, if it names one.
\<close>

datatype sql =
    Select string "string list"
  | Insert string "string list" "string list option"
  | Update string "string list" "string list"
  | Delete string "string list"
  | RefreshConcurrently string
  | Notify string

definition on_relation :: "schema \<Rightarrow> string \<Rightarrow> string list \<Rightarrow> (relation \<Rightarrow> sql_error option) \<Rightarrow> sql_error option" where
  "on_relation s n cs check =
     (case relation_named s n of
        None \<Rightarrow> Some UndefinedTable
      | Some r \<Rightarrow> if set cs \<subseteq> set (columns_of r) then check r else Some UndefinedColumn)"

definition on_table :: "schema \<Rightarrow> string \<Rightarrow> string list \<Rightarrow> (relation \<Rightarrow> sql_error option) \<Rightarrow> sql_error option" where
  "on_table s n cs check = on_relation s n cs (\<lambda>r. if rl_kind r = Table then check r else Some WrongObjectType)"

text \<open>
  What the database refuses whatever the rows are: unknown objects, a row without a value for a column that needs one, a
  conflict target that is no key, and a concurrent refresh of a view without a unique index.
\<close>

fun refused :: "schema \<Rightarrow> sql \<Rightarrow> sql_error option" where
  "refused s (Select n cs) = on_relation s n cs (\<lambda>r. None)"
| "refused s (Insert n cs target) = on_table s n cs (\<lambda>r.
     if \<exists>c \<in> set (rl_columns r). co_not_null c \<and> \<not> co_default c \<and> co_name c \<notin> set cs then Some NotNullViolation
     else case target of None \<Rightarrow> None | Some k \<Rightarrow> if k \<in> set (rl_keys r) then None else Some InvalidConflictTarget)"
| "refused s (Update n sets reads) = on_table s n (sets @ reads) (\<lambda>r. None)"
| "refused s (Delete n reads) = on_table s n reads (\<lambda>r. None)"
| "refused s (RefreshConcurrently n) = on_relation s n [] (\<lambda>r.
     if rl_kind r \<noteq> MaterializedView then Some WrongObjectType
     else if \<exists>i \<in> set (sc_indexes s). ix_on i = n \<and> ix_unique i then None else Some NotInPrerequisiteState)"
| "refused s (Notify ch) = None"

definition copy_flows :: sql where
  "copy_flows = Insert ''flows'' [''time'', ''src_ip'', ''dst_ip'', ''dst_port'', ''proto'', ''bytes'', ''packets'', ''flow_count'', ''source''] None"

definition select_history :: sql where
  "select_history = Select ''flows_1m'' [''src_ip'', ''dst_ip'', ''dst_port'', ''proto'', ''bytes'', ''packets'', ''flow_count'', ''bucket'']"

definition select_raw :: sql where
  "select_raw = Select ''flows'' [''time'', ''src_ip'', ''dst_ip'', ''dst_port'', ''proto'', ''bytes'', ''packets'', ''flow_count'', ''source'']"

definition select_binding :: sql where
  "select_binding = Select ''identity_events'' [''user_upn'', ''source'', ''confidence'', ''ttl_seconds'', ''time'', ''src_ip'', ''event_type'']"

definition select_user_groups :: "sql list" where
  "select_user_groups = [Select ''user_groups'' [''group_name'', ''user_upn''], Select ''user_groups'' [''user_upn'', ''group_id'', ''group_name''],
     Select ''user_groups'' [''group_name'', ''group_id''], Select ''user_groups'' [''user_upn'', ''group_id''], Select ''user_groups'' [''refreshed_at'']]"

definition application_columns :: "string list" where
  "application_columns = [''id'', ''name'', ''description'', ''owner'', ''dst_cidr'', ''dst_port_min'', ''dst_port_max'', ''proto'', ''priority'',
     ''source'', ''created_at'', ''updated_at'', ''updated_by'']"

definition application_statements :: "sql list" where
  "application_statements =
     [Select ''applications'' application_columns,
      Insert ''applications'' [''name'', ''description'', ''owner'', ''dst_cidr'', ''dst_port_min'', ''dst_port_max'', ''proto'', ''priority'', ''source'',
        ''updated_by''] None,
      Insert ''application_audit'' [''application_id'', ''changed_by'', ''op'', ''after''] None,
      Update ''applications'' [''name'', ''description'', ''owner'', ''dst_cidr'', ''dst_port_min'', ''dst_port_max'', ''proto'', ''priority'',
        ''updated_at'', ''updated_by''] application_columns,
      Insert ''application_audit'' [''application_id'', ''changed_by'', ''op'', ''before'', ''after''] None,
      Delete ''applications'' [''id''],
      Select ''application_audit'' [''id'', ''application_id'', ''changed_at'', ''changed_by'', ''op'', ''before'', ''after'']]"

definition saas_columns :: "string list" where
  "saas_columns = [''id'', ''name'', ''vendor'', ''fqdn_pattern'', ''category'', ''source'', ''priority'']"

definition saas_statements :: "sql list" where
  "saas_statements =
     [Select ''saas_catalog'' saas_columns,
      Insert ''saas_catalog'' [''name'', ''vendor'', ''fqdn_pattern'', ''category'', ''source'', ''priority''] None,
      Update ''saas_catalog'' [''name'', ''vendor'', ''fqdn_pattern'', ''category'', ''priority''] saas_columns,
      Delete ''saas_catalog'' [''id'']]"

definition seed_statements :: "sql list" where
  "seed_statements =
     [Insert ''saas_catalog'' [''name'', ''vendor'', ''fqdn_pattern'', ''category'', ''source'', ''priority''] (Some [''fqdn_pattern'']),
      Insert ''port_defaults'' [''port'', ''proto'', ''name'', ''source''] None,
      Delete ''saas_catalog'' [''source''], Delete ''port_defaults'' [''source'']]"

definition resolver_statements :: "sql list" where
  "resolver_statements =
     [Select ''saas_catalog'' [''id'', ''name'', ''fqdn_pattern'', ''priority''],
      Insert ''dns_cache'' [''dst_ip'', ''ptr'', ''resolved_at'', ''source''] (Some [''dst_ip''])]"

definition correlator_tables :: "sql list" where
  "correlator_tables =
     [Select ''applications'' [''id'', ''name'', ''dst_cidr'', ''dst_port_min'', ''dst_port_max'', ''proto'', ''priority''],
      Select ''saas_catalog'' [''id'', ''name'', ''fqdn_pattern'', ''priority''],
      Select ''port_defaults'' [''port'', ''proto'', ''name'']]"

definition service_statements :: "sql list" where
  "service_statements = [copy_flows, select_history, select_raw, select_binding] @ select_user_groups @ application_statements @
     saas_statements @ seed_statements @ resolver_statements @ correlator_tables"

section \<open>Properties\<close>

definition app_relations :: "string list" where
  "app_relations = [''flows'', ''flows_1m'', ''identity_events'', ''user_groups'', ''group_members'', ''applications'', ''application_audit'',
     ''saas_catalog'', ''dns_cache'', ''port_defaults'']"

definition app_functions :: "string list" where
  "app_functions = [''_notify_applications'', ''_notify_saas_catalog'']"

definition foreign :: "schema \<Rightarrow> bool" where
  "foreign s \<longleftrightarrow> apart (set app_relations) (set app_functions) s"

lemma revisions_concern:
  "list_all (concerns (set app_relations) (set app_functions)) (concat (map fst revisions) @ concat (map snd revisions))"
  by code_simp

text \<open>On an empty database, each revision can be undone.\<close>

definition reversible :: "nat \<Rightarrow> nat \<Rightarrow> bool" where
  "reversible k j = (case (migrate_to k empty_schema, migrate_to j empty_schema) of
     (Inr t1, Inr t0) \<Rightarrow> roll_back k j t1 = Inr (t0\<lparr>sc_extensions := sc_extensions t1\<rparr>) | _ \<Rightarrow> False)"

lemma all_reversible: "list_all (\<lambda>k. list_all (reversible k) [0..<Suc k]) [0..<6]"
  by code_simp

lemma concern_parts:
  assumes "set rs \<subseteq> set revisions"
  shows "list_all (concerns (set app_relations) (set app_functions)) (concat (map fst rs))"
    and "list_all (concerns (set app_relations) (set app_functions)) (concat (map snd rs))"
  using revisions_concern assms by (fastforce simp: list_all_iff)+

lemma beside_empty [simp]: "beside s empty_schema = s"
  by (simp add: beside_def empty_schema_def)

lemma within_empty: "within N empty_schema"
  by (simp add: within_def empty_schema_def)

lemma migrate_foreign: "foreign s \<Longrightarrow> migrate_to k s = map_sum id (beside s) (migrate_to k empty_schema)"
  using run_all_beside[of "set app_relations" "set app_functions" s empty_schema] concern_parts(1)[of "take k revisions"]
  by (simp add: migrate_to_def foreign_def within_empty set_take_subset)

lemma migrated_within: "migrate_to k empty_schema = Inr t \<Longrightarrow> within (set app_relations) t"
proof -
  have "run_all t stmts = Inr t1 \<Longrightarrow> within N t \<Longrightarrow> list_all (concerns N F) stmts \<Longrightarrow> within N t1" for t t1 N F stmts
    by (induction stmts arbitrary: t) (auto simp: run_all_def bind_r_Inr dest: run_ddl_within)
  then show "migrate_to k empty_schema = Inr t \<Longrightarrow> within (set app_relations) t"
    using concern_parts(1)[of "take k revisions"]
    by (metis migrate_to_def set_take_subset within_empty)
qed

text \<open>
  C13: migrations can be applied and undone. In a database with any objects of others, every prefix of the chain of revisions
  runs without an error, and leaves the objects of others as they are; and rolling back from any revision to any earlier one gives
  exactly the schema of the earlier one, except that the extension of the first revision stays installed.
\<close>

theorem migrations_reversible:
  assumes "foreign s" and "j \<le> k" and "k \<le> 5"
  shows "\<exists>t0 t1. migrate_to j s = Inr (beside s t0) \<and> migrate_to k s = Inr (beside s t1) \<and>
    roll_back k j (beside s t1) = Inr (beside s (t0\<lparr>sc_extensions := sc_extensions t1\<rparr>))"
proof -
  have "reversible k j" using all_reversible assms(2,3) by (auto simp: list_all_iff le_less)
  then obtain t0 t1 where t: "migrate_to k empty_schema = Inr t1" "migrate_to j empty_schema = Inr t0"
    "roll_back k j t1 = Inr (t0\<lparr>sc_extensions := sc_extensions t1\<rparr>)"
    by (auto simp: reversible_def split: sum.splits)
  have "set (rev (drop j (take k revisions))) \<subseteq> set revisions"
    by (metis order_trans set_drop_subset set_rev set_take_subset)
  from concern_parts(2)[OF this] have "roll_back k j (beside s t1) = map_sum id (beside s) (roll_back k j t1)"
    using assms(1) migrated_within[OF t(1)] unfolding roll_back_def foreign_def by (intro run_all_beside)
  with t show ?thesis using assms(1) by (auto simp: migrate_foreign)
qed

definition visitor :: schema where
  "visitor = empty_schema\<lparr>sc_relations := [\<lparr>rl_name = ''notes'', rl_kind = Table, rl_columns = [col ''body'' Text], rl_keys = [],
     rl_refs = [], rl_from = []\<rparr>]\<rparr>"

lemma visitor_foreign: "foreign visitor"
  by code_simp

theorem migrations_reversible_witness:
  "\<exists>t0 t1. migrate_to 2 visitor = Inr (beside visitor t0) \<and> migrate_to 5 visitor = Inr (beside visitor t1) \<and>
    roll_back 5 2 (beside visitor t1) = Inr (beside visitor (t0\<lparr>sc_extensions := sc_extensions t1\<rparr>))"
  using migrations_reversible[OF visitor_foreign, of 2 5] by simp

fun targets :: "sql \<Rightarrow> string set" where
  "targets (Select n cs) = {n}"
| "targets (Insert n cs k) = {n}"
| "targets (Update n cs ds) = {n}"
| "targets (Delete n cs) = {n}"
| "targets (RefreshConcurrently n) = {n}"
| "targets (Notify ch) = {}"

lemma refused_beside: "apart N F s \<Longrightarrow> targets st \<subseteq> N \<Longrightarrow> refused (beside s t) st = refused t st"
proof (cases st)
  case (RefreshConcurrently n)
  assume a: "apart N F s" "targets st \<subseteq> N"
  then have "(\<exists>i \<in> set (sc_indexes s @ sc_indexes t). ix_on i = n \<and> ix_unique i) = (\<exists>i \<in> set (sc_indexes t). ix_on i = n \<and> ix_unique i)"
    using RefreshConcurrently by (auto simp: apart_def)
  then show ?thesis using a RefreshConcurrently by (simp add: on_relation_def relation_named_beside cong: if_cong)
qed (simp_all add: on_table_def on_relation_def relation_named_beside)

definition head_schema :: schema where
  "head_schema = (case migrate_to 5 empty_schema of Inl _ \<Rightarrow> empty_schema | Inr t \<Rightarrow> t)"

lemma head_facts:
  "migrate_to 5 empty_schema = Inr head_schema" "list_all (\<lambda>st. refused head_schema st = None) service_statements"
  "refused head_schema (RefreshConcurrently ''group_members'') = Some NotInPrerequisiteState"
  "relation_named head_schema ''flows'' = Some flows_table"
  by code_simp+

lemma statements_target: "list_all (\<lambda>st. targets st \<subseteq> set app_relations) service_statements"
  by code_simp

lemma head_of: "foreign s \<Longrightarrow> migrate_to 5 s = Inr s1 \<Longrightarrow> s1 = beside s head_schema"
  by (simp add: migrate_foreign head_facts)

text \<open>
  C33: the statements of the services fit the schema. On the schema that the migrations leave, in a database with any other objects,
  every statement that the services and the seeding execute names only relations and columns that exist, fills every column that needs a
  value, and names a key of the table where it resolves a conflict.
\<close>

theorem statements_fit_schema:
  assumes "foreign s" and "migrate_to 5 s = Inr s1" and "st \<in> set service_statements"
  shows "refused s1 st = None"
  using refused_beside[of _ _ s st head_schema] assms(1,3) head_facts(2) statements_target head_of[OF assms(1,2)]
  by (auto simp: foreign_def list_all_iff)

theorem statements_fit_schema_witness: "refused (beside visitor head_schema) copy_flows = None"
  using statements_fit_schema[OF visitor_foreign, of "beside visitor head_schema" copy_flows]
  by (simp add: migrate_foreign visitor_foreign head_facts(1) service_statements_def)

end
