(* ===== verification/Nac_Adapters.thy ===== *)
theory Nac_Adapters
  imports Event_Types Py_String
begin

text \<open>
  The network access control adapters of \<open>id-ingest/src/id_ingest/adapters\<close>: Cisco ISE
  (\<open>cisco_ise_adapter.py\<close>) and Aruba ClearPass (\<open>aruba_clearpass_adapter.py\<close>). Their regular
  expressions are written out as matchers at a position; \<open>finditer\<close> and \<open>search\<close> are the scans of the
  module \<open>re\<close>. The current time is the parameter \<open>now\<close>.
\<close>

section \<open>Scanning\<close>

text \<open>
  \<open>re.finditer\<close>: the leftmost match, then on from its end; a matcher gives the match and the rest of the
  text. (Every pattern used here matches at least one character.)
\<close>

function finditer :: "(string \<Rightarrow> ('a \<times> string) option) \<Rightarrow> string \<Rightarrow> 'a list" where
  "finditer m [] = []"
| "finditer m (c # s) =
     (case m (c # s) of
        None \<Rightarrow> finditer m s
      | Some (x, rest) \<Rightarrow> if length rest \<le> length s then x # finditer m rest else x # finditer m s)"
  by pat_completeness auto
termination by (relation "measure (\<lambda>(m, s). length s)") auto

definition dict_of_matches :: "(string \<times> string) list \<Rightarrow> (string, string) dict" where
  "dict_of_matches ms = foldl (\<lambda>d m. AList.update (fst m) (snd m) d) [] ms"

definition is_alpha :: "char \<Rightarrow> bool" where
  "is_alpha c \<longleftrightarrow> 65 \<le> code c \<and> code c \<le> 90 \<or> 97 \<le> code c \<and> code c \<le> 122"

section \<open>Cisco ISE\<close>

definition key_char :: "char \<Rightarrow> bool" where
  "key_char c \<longleftrightarrow> is_alpha c \<or> is_digit c \<or> c = CHR ''-''"

text \<open>
  \<open>[A-Za-z][A-Za-z0-9-]*\s*=\s*[^,]+\<close> at the start of a text. When only white space stands between the
  equals sign and the comma, the pattern gives one of the blanks back and takes it as the value.
\<close>

definition ise_match :: "string \<Rightarrow> ((string \<times> string) \<times> string) option" where
  "ise_match s =
     (if s = [] \<or> \<not> is_alpha (hd s) then None
      else let k = takeWhile key_char s;
               t = dropWhile is_space (dropWhile key_char s)
           in if t = [] \<or> hd t \<noteq> CHR ''='' then None
              else let sp = takeWhile is_space (tl t);
                       u = dropWhile is_space (tl t);
                       v = takeWhile (\<lambda>c. c \<noteq> CHR '','') u;
                       rest = dropWhile (\<lambda>c. c \<noteq> CHR '','') u
                   in if v \<noteq> [] then Some ((k, v), rest)
                      else if sp \<noteq> [] then Some ((k, [last sp]), rest)
                      else None)"

definition ise_kv :: "string \<Rightarrow> (string, string) dict" where
  "ise_kv txt1 = dict_of_matches (map (\<lambda>(k, v). (k, strip v)) (finditer ise_match txt1))"

definition ise_default_ttl :: int where "ise_default_ttl = 12 * 3600"

definition ise_parse :: "instant \<Rightarrow> string \<Rightarrow> identity_event option" where
  "ise_parse now txt1 =
     (if \<not> contains ''CISE_RADIUS_Accounting'' txt1 then None
      else let kv = ise_kv txt1;
               status = dict_get kv ''Acct-Status-Type'' [];
               ip = map_of kv ''Framed-IP-Address'';
               user = map_of kv ''UserName''
           in if \<not> truthy ip \<or> \<not> truthy user \<or> status \<notin> {''Start'', ''Stop''} then None
              else case (if status = ''Stop'' then Some 0
                         else py_int (dict_get kv ''Session-Timeout'' (show_int ise_default_ttl))) of
                None \<Rightarrow> None
              | Some ttl \<Rightarrow> Some \<lparr>ie_ts = now, ie_src_ip = the ip, ie_user_upn = the user,
                  ie_source = ''cisco_ise'',
                  ie_event_type = (if status = ''Stop'' then ''nac-auth-stop'' else ''nac-auth''),
                  ie_confidence = 95, ie_ttl_seconds = ttl,
                  ie_mac = map_of kv ''Calling-Station-ID'', ie_raw_id = map_of kv ''Acct-Session-Id''\<rparr>)"

section \<open>Aruba ClearPass\<close>

definition upto_bar :: "string \<Rightarrow> (string \<times> string) option" where
  "upto_bar s = (case partition_on CHR ''|'' s of (a, found, b) \<Rightarrow> if found \<and> a \<noteq> [] then Some (a, b) else None)"

definition all_digits :: "string \<Rightarrow> bool" where
  "all_digits s \<longleftrightarrow> (\<forall>c \<in> set s. is_digit c)"

text \<open>\<open>_HEADER\<close> at the start of a text: the name and the extension, which ends at a line break.\<close>

definition header_at :: "string \<Rightarrow> (string \<times> string) option" where
  "header_at s =
     (if \<not> starts_with ''CEF:0|'' s then None
      else case upto_bar (drop 6 s) of None \<Rightarrow> None | Some (vendor, s1) \<Rightarrow>
           case upto_bar s1 of None \<Rightarrow> None | Some (product, s2) \<Rightarrow>
           if product \<noteq> ''ClearPass'' then None else
           case upto_bar s2 of None \<Rightarrow> None | Some (version, s3) \<Rightarrow>
           case upto_bar s3 of None \<Rightarrow> None | Some (sig, s4) \<Rightarrow>
           if \<not> all_digits sig then None else
           case upto_bar s4 of None \<Rightarrow> None | Some (name, s5) \<Rightarrow>
           case upto_bar s5 of None \<Rightarrow> None | Some (sev, ext) \<Rightarrow>
           if \<not> all_digits sev then None
           else Some (name, takeWhile (\<lambda>c. code c \<noteq> 10) ext))"

fun header_search :: "string \<Rightarrow> (string \<times> string) option" where
  "header_search [] = None"
| "header_search (c # s) = (case header_at (c # s) of Some m \<Rightarrow> Some m | None \<Rightarrow> header_search s)"

text \<open>\<open>[a-zA-Z0-9]+=[^\s]+\<close> at the start of a text.\<close>

definition cef_key_char :: "char \<Rightarrow> bool" where
  "cef_key_char c \<longleftrightarrow> is_alpha c \<or> is_digit c"

definition cef_match :: "string \<Rightarrow> ((string \<times> string) \<times> string) option" where
  "cef_match s =
     (let k = takeWhile cef_key_char s; t = dropWhile cef_key_char s in
      if k = [] \<or> t = [] \<or> hd t \<noteq> CHR ''='' then None
      else let v = takeWhile (\<lambda>c. \<not> is_space c) (tl t) in
           if v = [] then None else Some ((k, v), dropWhile (\<lambda>c. \<not> is_space c) (tl t)))"

definition clearpass_default_ttl :: int where "clearpass_default_ttl = 12 * 3600"

definition clearpass_ttl :: "(string, string) dict \<Rightarrow> int option" where
  "clearpass_ttl kv =
     (case map_of kv ''cs2'' of
        Some t \<Rightarrow> if map_of kv ''cs2Label'' = Some ''Session-Timeout'' then py_int t else Some clearpass_default_ttl
      | None \<Rightarrow> Some clearpass_default_ttl)"

definition clearpass_parse :: "instant \<Rightarrow> string \<Rightarrow> identity_event option" where
  "clearpass_parse now txt1 =
     (case header_search txt1 of
        None \<Rightarrow> None
      | Some (name, ext) \<Rightarrow>
          let kv = dict_of_matches (finditer cef_match ext) in
          case clearpass_ttl kv of None \<Rightarrow> None | Some ttl \<Rightarrow>
          let stop = contains ''Stop'' name in
          case map_of kv ''src'' of None \<Rightarrow> None | Some src \<Rightarrow>
          case map_of kv ''suser'' of None \<Rightarrow> None | Some suser \<Rightarrow>
          Some \<lparr>ie_ts = now, ie_src_ip = src, ie_user_upn = suser, ie_source = ''aruba_clearpass'',
            ie_event_type = (if stop then ''nac-auth-stop'' else ''nac-auth''), ie_confidence = 95,
            ie_ttl_seconds = (if stop then 0 else ttl),
            ie_mac = map_of kv ''smac'', ie_raw_id = map_of kv ''externalId''\<rparr>)"

section \<open>Lemmas on scans\<close>

lemma finditer_skip:
  assumes "\<And>a b. p = a @ b \<Longrightarrow> b \<noteq> [] \<Longrightarrow> m (b @ s) = None"
  shows "finditer m (p @ s) = finditer m s"
  using assms
proof (induction p)
  case (Cons c p)
  have "m (c # p @ s) = None" using Cons.prems[of "[]" "c # p"] by simp
  moreover have "finditer m (p @ s) = finditer m s"
    by (rule Cons.IH) (use Cons.prems in \<open>metis append_Cons\<close>)
  ultimately show ?case by simp
qed simp

lemma finditer_hit:
  assumes "m s = Some (x, rest)" and "length rest < length s"
  shows "finditer m s = x # finditer m rest"
  using assms by (cases s) auto

lemma map_of_dict_of_matches:
  assumes "distinct (map fst ms)"
  shows "map_of (dict_of_matches ms) = map_of ms"
proof
  fix k
  have r: "find (\<lambda>x. fst x = k) xs = (case map_of xs k of None \<Rightarrow> None | Some v \<Rightarrow> Some (k, v))"
    for xs :: "(string \<times> string) list"
    by (induction xs) auto
  have "map_of (rev ms) k = map_of ms k"
    using assms by (metis distinct_rev map_of_inject_set rev_map set_rev)
  then show "map_of (dict_of_matches ms) k = map_of ms k"
    by (simp add: dict_of_matches_def map_of_update_fold r split: option.splits)
qed

section \<open>Accounting lines\<close>

text \<open>
  A RADIUS accounting line: a header without an equals sign or comma, then comma-separated fields, each
  with words before its key (as in \<open>Device IP Address=10.0.10.1\<close>), the key, and the value.
\<close>

definition ise_field :: "string \<times> string \<times> string \<Rightarrow> string" where
  "ise_field f = (case f of (lead, k, v) \<Rightarrow> CHR '','' # lead @ k @ CHR ''='' # v)"

lemma ise_field_simp: "ise_field (lead, k, v) = CHR '','' # lead @ k @ CHR ''='' # v"
  by (simp add: ise_field_def)

definition ise_line :: "string \<Rightarrow> (string \<times> string \<times> string) list \<Rightarrow> string" where
  "ise_line h fs = h @ concat (map ise_field fs)"

definition plain :: "string \<Rightarrow> bool" where
  "plain s \<longleftrightarrow> CHR ''='' \<notin> set s \<and> CHR '','' \<notin> set s"

definition ise_field_ok :: "string \<times> string \<times> string \<Rightarrow> bool" where
  "ise_field_ok f \<longleftrightarrow> (case f of (lead, k, v) \<Rightarrow>
     plain lead \<and> (lead = [] \<or> is_space (last lead)) \<and>
     k \<noteq> [] \<and> is_alpha (hd k) \<and> (\<forall>c \<in> set k. key_char c) \<and>
     v \<noteq> [] \<and> CHR '','' \<notin> set v \<and> \<not> is_space (hd v) \<and> \<not> is_space (last v))"

lemma char_classes [simp]:
  "\<not> is_alpha CHR ''=''" "\<not> is_alpha CHR '',''" "\<not> key_char CHR ''=''" "\<not> key_char CHR '',''"
  "\<not> is_space CHR ''=''" "\<not> is_space CHR '',''" "is_space CHR '' ''" "\<not> is_alpha CHR '' ''"
  "\<not> key_char CHR '' ''" "\<not> cef_key_char CHR ''=''" "\<not> cef_key_char CHR '' ''"
  by (simp_all add: is_alpha_def key_char_def is_digit_def is_space_def cef_key_char_def code_def)

lemma alpha_key [simp]: "is_alpha c \<Longrightarrow> key_char c" "key_char c \<Longrightarrow> \<not> is_space c" "cef_key_char c \<Longrightarrow> \<not> is_space c"
  by (auto simp: key_char_def is_alpha_def is_digit_def is_space_def cef_key_char_def code_def)

text \<open>No match starts in a stretch without equals signs that a comma, the end or a key follows.\<close>

lemma dropWhile_in: "(\<exists>c \<in> set a. \<not> P c) \<Longrightarrow> \<exists>x y. dropWhile P (a @ b) = x # y @ b \<and> x \<in> set a \<and> set y \<subseteq> set a"
  by (induction a) auto

lemma ise_match_None_plain:
  assumes "plain a" and "a \<noteq> []" and "b = [] \<or> hd b = CHR '',''"
  shows "ise_match (a @ b) = None"
proof -
  have b: "b = [] \<or> (\<exists>r. b = CHR '','' # r)" using assms(3) by (cases b) auto
  let ?u = "dropWhile key_char (a @ b)"
  have "\<exists>p. ?u = p @ b \<and> set p \<subseteq> set a"
  proof (cases "\<exists>c \<in> set a. \<not> key_char c")
    case True
    from dropWhile_in[OF this, of b] obtain x y where "?u = (x # y) @ b" "x \<in> set a" "set y \<subseteq> set a" by auto
    then show ?thesis by (intro exI[of _ "x # y"]) simp
  next
    case False
    then show ?thesis using b by (intro exI[of _ "[]"]) (auto simp: dropWhile_append2)
  qed
  then obtain p where p: "?u = p @ b" "set p \<subseteq> set a" by blast
  have "dropWhile is_space (p @ b) = [] \<or> hd (dropWhile is_space (p @ b)) \<in> set a \<union> {CHR '',''}"
  proof (cases "\<exists>c \<in> set p. \<not> is_space c")
    case True
    from dropWhile_in[OF this, of b] show ?thesis using p(2) by auto
  next
    case False
    then show ?thesis using b by (auto simp: dropWhile_append2)
  qed
  moreover have "CHR ''='' \<notin> set a \<union> {CHR '',''}" using assms(1) by (simp add: plain_def)
  ultimately show ?thesis unfolding ise_match_def Let_def p(1) by (metis (no_types, lifting))
qed

lemma ise_match_None_lead:
  assumes "plain a" and "a \<noteq> []" and "is_space (last a)" and "b \<noteq> []" and "is_alpha (hd b)"
  shows "ise_match (a @ b) = None"
proof -
  obtain c b' where b: "b = c # b'" "is_alpha c" using assms(4,5) by (cases b) auto
  have "\<exists>d \<in> set a. \<not> key_char d" using assms(2,3) by (meson alpha_key(2) last_in_set)
  from dropWhile_in[OF this, of b] obtain x y where
    u: "dropWhile key_char (a @ b) = (x # y) @ b" "set (x # y) \<subseteq> set a" by auto
  have "hd (dropWhile is_space ((x # y) @ b)) \<noteq> CHR ''=''"
  proof (cases "\<exists>d \<in> set (x # y). \<not> is_space d")
    case True
    from dropWhile_in[OF this, of b] show ?thesis using u(2) assms(1) by (auto simp: plain_def)
  next
    case False
    then have "dropWhile is_space ((x # y) @ b) = b" using b by (simp add: dropWhile_append2)
    then show ?thesis using b by auto
  qed
  then show ?thesis unfolding ise_match_def Let_def u(1) by simp
qed

lemma takeWhile_all: "(\<forall>c \<in> set a. P c) \<Longrightarrow> b = [] \<or> \<not> P (hd b) \<Longrightarrow> takeWhile P (a @ b) = a \<and> dropWhile P (a @ b) = b"
  by (cases b) (auto simp: takeWhile_append2 dropWhile_append2)

lemma ise_match_field:
  assumes "ise_field_ok (lead, k, v)" and "b = [] \<or> hd b = CHR '',''"
  shows "ise_match (k @ CHR ''='' # v @ b) = Some ((k, v), b)"
proof -
  have ok: "k \<noteq> []" "is_alpha (hd k)" "\<forall>c \<in> set k. key_char c" "v \<noteq> []" "\<forall>c \<in> set v. c \<noteq> CHR '',''"
    "\<not> is_space (hd v)"
    using assms(1) by (auto simp: ise_field_ok_def)
  have k: "takeWhile key_char (k @ CHR ''='' # v @ b) = k"
    "dropWhile key_char (k @ CHR ''='' # v @ b) = CHR ''='' # v @ b"
    using takeWhile_all[OF ok(3), of "CHR ''='' # v @ b"] by simp_all
  have v: "takeWhile (\<lambda>c. c \<noteq> CHR '','') (v @ b) = v" "dropWhile (\<lambda>c. c \<noteq> CHR '','') (v @ b) = b"
    using takeWhile_all[OF ok(5), of b] assms(2) by auto
  have "takeWhile is_space (v @ b) = []" "dropWhile is_space (v @ b) = v @ b"
    using ok(4,6) by (cases v; simp)+
  then show ?thesis using ok k v by (simp add: ise_match_def Let_def)
qed

lemma finditer_ise_fields:
  "\<forall>f \<in> set fs. ise_field_ok f \<Longrightarrow> finditer ise_match (concat (map ise_field fs)) = map snd fs"
proof (induction fs)
  case (Cons f fs)
  obtain lead k v where f: "f = (lead, k, v)" by (cases f)
  let ?b = "concat (map ise_field fs)"
  have b: "?b = [] \<or> hd ?b = CHR '',''" by (cases fs) (auto simp: ise_field_def split: prod.splits)
  have ok: "ise_field_ok (lead, k, v)" using Cons.prems f by simp
  then have l: "plain lead" "lead = [] \<or> is_space (last lead)" "k \<noteq> []" "is_alpha (hd k)"
    by (auto simp: ise_field_ok_def)
  let ?kv = "k @ CHR ''='' # v @ ?b"
  have "finditer ise_match (lead @ ?kv) = finditer ise_match ?kv"
  proof (rule finditer_skip)
    fix x y assume xy: "lead = x @ y" "y \<noteq> []"
    then show "ise_match (y @ ?kv) = None"
      using l by (intro ise_match_None_lead) (auto simp: plain_def)
  qed
  also have "\<dots> = (k, v) # finditer ise_match ?b"
    by (rule finditer_hit[where m = ise_match, OF ise_match_field[OF ok b]]) simp
  finally have "finditer ise_match (lead @ ?kv) = (k, v) # map snd fs" using Cons by simp
  moreover have "ise_match (CHR '','' # lead @ ?kv) = None" by (simp add: ise_match_def)
  ultimately show ?case by (simp add: f ise_field_simp)
qed simp

lemma ise_kv_line:
  assumes "plain h" and "\<forall>f \<in> set fs. ise_field_ok f" and "distinct (map (fst \<circ> snd) fs)"
  shows "map_of (ise_kv (ise_line h fs)) = map_of (map snd fs)"
proof -
  let ?b = "concat (map ise_field fs)"
  have b: "?b = [] \<or> hd ?b = CHR '',''" by (cases fs) (auto simp: ise_field_def split: prod.splits)
  have "finditer ise_match (h @ ?b) = finditer ise_match ?b"
    by (rule finditer_skip) (use assms(1) b in \<open>auto intro!: ise_match_None_plain simp: plain_def\<close>)
  then have "finditer ise_match (ise_line h fs) = map snd fs"
    using finditer_ise_fields[OF assms(2)] by (simp add: ise_line_def)
  moreover have "map (\<lambda>(k, v). (k, strip v)) (map snd fs) = map snd fs"
    using assms(2) by (auto simp: ise_field_ok_def strip_none intro!: map_idI)
  moreover have "distinct (map fst (map snd fs))" using assms(3) by (simp add: comp_def)
  ultimately show ?thesis by (simp add: ise_kv_def map_of_dict_of_matches del: map_map)
qed

section \<open>CEF lines\<close>

definition cef_field :: "string \<times> string \<Rightarrow> string" where
  "cef_field f = fst f @ CHR ''='' # snd f"

definition cef_ext :: "(string \<times> string) list \<Rightarrow> string" where
  "cef_ext fs = join_with '' '' (map cef_field fs)"

definition cef_line :: "string \<Rightarrow> string \<Rightarrow> string \<Rightarrow> nat \<Rightarrow> string \<Rightarrow> nat \<Rightarrow> (string \<times> string) list \<Rightarrow> string" where
  "cef_line pre vendor version sig name sev fs =
     pre @ ''CEF:0|'' @ vendor @ ''|ClearPass|'' @ version @ ''|'' @ show_nat sig @ ''|'' @ name @ ''|'' @
     show_nat sev @ ''|'' @ cef_ext fs"

definition cef_field_ok :: "string \<times> string \<Rightarrow> bool" where
  "cef_field_ok f \<longleftrightarrow> fst f \<noteq> [] \<and> (\<forall>c \<in> set (fst f). cef_key_char c) \<and>
     snd f \<noteq> [] \<and> (\<forall>c \<in> set (snd f). \<not> is_space c)"

definition segment_ok :: "string \<Rightarrow> bool" where
  "segment_ok s \<longleftrightarrow> s \<noteq> [] \<and> CHR ''|'' \<notin> set s"

lemma upto_bar_segment: "segment_ok a \<Longrightarrow> upto_bar (a @ CHR ''|'' # b) = Some (a, b)"
proof -
  assume a: "segment_ok a"
  then have "\<forall>c \<in> set a. c \<noteq> CHR ''|''" by (auto simp: segment_ok_def)
  from takeWhile_all[OF this, of "CHR ''|'' # b"] a show ?thesis
    by (simp add: upto_bar_def partition_on_def segment_ok_def)
qed

lemma digits_segment [simp]: "segment_ok (show_nat n)" "all_digits (show_nat n)"
  using show_nat_digits[of "CHR ''|''" n] show_nat_digits[of _ n]
  by (auto simp: segment_ok_def all_digits_def is_digit_def code_def)

lemma cef_match_field:
  assumes "cef_field_ok f" and "b = [] \<or> is_space (hd b)"
  shows "cef_match (cef_field f @ b) = Some (f, b)"
proof -
  have ok: "fst f \<noteq> []" "\<forall>c \<in> set (fst f). cef_key_char c" "snd f \<noteq> []" "\<forall>c \<in> set (snd f). \<not> is_space c"
    using assms(1) by (auto simp: cef_field_ok_def)
  show ?thesis
    using ok takeWhile_all[OF ok(2), of "CHR ''='' # snd f @ b"] takeWhile_all[OF ok(4), of b] assms(2)
    by (cases f) (auto simp: cef_match_def cef_field_def Let_def)
qed

lemma finditer_cef_ext: "\<forall>f \<in> set fs. cef_field_ok f \<Longrightarrow> finditer cef_match (cef_ext fs) = fs"
proof (induction fs rule: induct_list012)
  case (2 f)
  then have "cef_match (cef_field f) = Some (f, [])" using cef_match_field[of f "[]"] by simp
  moreover have "0 < length (cef_field f)" by (simp add: cef_field_def)
  ultimately show ?case by (simp add: cef_ext_def finditer_hit)
next
  case (3 f g fs)
  let ?b = "CHR '' '' # cef_ext (g # fs)"
  have "cef_match (cef_field f @ ?b) = Some (f, ?b)" using cef_match_field[of f ?b] 3(3) by simp
  moreover have "length ?b < length (cef_field f @ ?b)" by (simp add: cef_field_def)
  ultimately have "finditer cef_match (cef_field f @ ?b) = f # finditer cef_match ?b" by (rule finditer_hit)
  moreover have "cef_match ?b = None" by (simp add: cef_match_def)
  moreover have "cef_ext (f # g # fs) = cef_field f @ ?b" by (simp add: cef_ext_def)
  ultimately show ?case using 3 by simp
qed (simp add: cef_ext_def)

lemma cef_ext_no_newline:
  "\<forall>f \<in> set fs. cef_field_ok f \<Longrightarrow> takeWhile (\<lambda>c. code c \<noteq> 10) (cef_ext fs) = cef_ext fs"
proof -
  assume ok: "\<forall>f \<in> set fs. cef_field_ok f"
  have j: "set (join_with sep ps) \<subseteq> set sep \<union> \<Union> (set ` set ps)" for sep :: string and ps
    by (induction sep ps rule: join_with.induct) auto
  have nl: "code c \<noteq> 10" if "\<not> is_space c \<or> c = CHR '' ''" for c
    using that by (auto simp: is_space_def code_def)
  have "code c \<noteq> 10" if "c \<in> set (cef_ext fs)" for c
  proof (rule nl)
    have "c = CHR '' '' \<or> (\<exists>f \<in> set fs. c \<in> set (cef_field f))"
      using that j[of "'' ''" "map cef_field fs"] by (auto simp: cef_ext_def)
    then show "\<not> is_space c \<or> c = CHR '' ''"
      using ok by (auto simp: cef_field_def cef_field_ok_def)
  qed
  then show ?thesis by simp
qed

lemma header_at_line:
  assumes "segment_ok vendor" and "segment_ok version" and "segment_ok name" and "\<forall>f \<in> set fs. cef_field_ok f"
  shows "header_at (cef_line [] vendor version sig name sev fs) = Some (name, cef_ext fs)"
proof -
  have p: "segment_ok ''ClearPass''" by (simp add: segment_ok_def)
  show ?thesis
    using assms p upto_bar_segment digits_segment cef_ext_no_newline[OF assms(4)]
    by (simp add: header_at_def cef_line_def starts_with_def upto_bar_segment
        upto_bar_segment[OF p, simplified])
qed

lemma header_search_line:
  assumes "CHR ''|'' \<notin> set pre" and "header_at (''CEF:0|'' @ s) = Some m"
  shows "header_search (pre @ ''CEF:0|'' @ s) = Some m"
  using assms(1)
proof (induction pre)
  case (Cons c p)
  have "\<not> starts_with ''CEF:0|'' ((c # p) @ ''CEF:0|'' @ s)"
  proof
    assume "starts_with ''CEF:0|'' ((c # p) @ ''CEF:0|'' @ s)"
    then obtain q where t: "(c # p) @ ''CEF:0|'' @ s = ''CEF:0|'' @ q" by (auto simp: starts_with_iff)
    have nth: "((c # p) @ ''CEF:0|'' @ s) ! i = ''CEF:0|'' ! i" if "i < 6" for i
      unfolding t using that by (subst nth_append) simp
    show False
    proof (cases "length p < 5")
      case True
      have "''CEF:0|'' ! Suc (length p) = CHR ''C''" using nth[of "Suc (length p)"] True by (simp add: nth_append)
      moreover have "length p = 0 \<or> length p = 1 \<or> length p = 2 \<or> length p = 3 \<or> length p = 4"
        using True by linarith
      ultimately show False by auto
    next
      case False
      then have "(c # p) ! 5 = CHR ''|''" using nth[of 5] by (simp add: nth_append)
      then show False using Cons.prems False by (metis Suc_le_mono eval_nat_numeral(3) length_Cons not_less nth_mem less_Suc_eq_le)
    qed
  qed
  then have "header_at ((c # p) @ ''CEF:0|'' @ s) = None" by (simp add: header_at_def)
  then show ?case using Cons by simp
qed (use assms(2) in simp)

lemma ise_line_read:
  fixes h :: string and fs :: "(string \<times> string \<times> string) list"
  assumes "plain h" and "contains ''CISE_RADIUS_Accounting'' h"
    and "\<forall>f \<in> set fs. ise_field_ok f" and "distinct (map (fst \<circ> snd) fs)"
    and "map_of (map snd fs) ''Framed-IP-Address'' = Some ip" and "map_of (map snd fs) ''UserName'' = Some user"
    and "map_of (map snd fs) ''Acct-Status-Type'' = Some status"
    and "case map_of (map snd fs) ''Session-Timeout'' of None \<Rightarrow> timeout = 43200 | Some t \<Rightarrow> py_int t = Some timeout"
  shows "ise_parse now (ise_line h fs) =
    (if status \<in> {''Start'', ''Stop''}
     then Some \<lparr>ie_ts = now, ie_src_ip = ip, ie_user_upn = user, ie_source = ''cisco_ise'',
       ie_event_type = (if status = ''Stop'' then ''nac-auth-stop'' else ''nac-auth''), ie_confidence = 95,
       ie_ttl_seconds = (if status = ''Stop'' then 0 else timeout),
       ie_mac = map_of (map snd fs) ''Calling-Station-ID'', ie_raw_id = map_of (map snd fs) ''Acct-Session-Id''\<rparr>
     else None)"
proof -
  note m = ise_kv_line[OF assms(1,3,4)]
  have ne: "ip \<noteq> []" "user \<noteq> []"
    using assms(3,5,6) by (fastforce dest!: map_of_SomeD simp: ise_field_ok_def)+
  have d: "py_int (show_int ise_default_ttl) = Some 43200"
    using py_int_show_int[OF show_int_short, of 43200] by (simp add: ise_default_ttl_def)
  have "contains ''CISE_RADIUS_Accounting'' (ise_line h fs)"
    using assms(2) by (simp add: ise_line_def contains_append)
  moreover have "py_int (dict_get (ise_kv (ise_line h fs)) ''Session-Timeout'' (show_int ise_default_ttl)) = Some timeout"
    using assms(8) d by (auto simp: dict_get_def m split: option.splits)
  ultimately show ?thesis
    using ne assms(5-7) by (simp add: ise_parse_def Let_def m dict_get_def)
qed

section \<open>Properties\<close>

text \<open>
  An ISE accounting line is read back. For a line of the product's format with any further fields, in
  any order and with any words before the keys, that names a user and an address and whose status is
  \<open>Start\<close> (with a readable \<open>Session-Timeout\<close>, if it has one) or \<open>Stop\<close>, the adapter yields exactly the event with
  those values; any other status yields nothing.
\<close>

theorem ise_roundtrip:
  fixes h :: string and fs :: "(string \<times> string \<times> string) list"
  assumes "plain h" and "contains ''CISE_RADIUS_Accounting'' h"
    and "\<forall>f \<in> set fs. ise_field_ok f" and "distinct (map (fst \<circ> snd) fs)"
    and "map_of (map snd fs) ''Framed-IP-Address'' = Some ip" and "map_of (map snd fs) ''UserName'' = Some user"
    and "map_of (map snd fs) ''Acct-Status-Type'' = Some status"
    and "case map_of (map snd fs) ''Session-Timeout'' of None \<Rightarrow> timeout = 43200 | Some t \<Rightarrow> py_int t = Some timeout"
  shows "ise_parse now (ise_line h fs) =
    (if status \<in> {''Start'', ''Stop''}
     then Some \<lparr>ie_ts = now, ie_src_ip = ip, ie_user_upn = user, ie_source = ''cisco_ise'',
       ie_event_type = (if status = ''Stop'' then ''nac-auth-stop'' else ''nac-auth''), ie_confidence = 95,
       ie_ttl_seconds = (if status = ''Stop'' then 0 else timeout),
       ie_mac = map_of (map snd fs) ''Calling-Station-ID'', ie_raw_id = map_of (map snd fs) ''Acct-Session-Id''\<rparr>
     else None)"
  by (rule ise_line_read[OF assms])

definition ise_header :: string where "ise_header = ''<14>ise01 CISE_RADIUS_Accounting 0001''"

definition ise_stop_fields :: "(string \<times> string \<times> string) list" where
  "ise_stop_fields = [('' Device IP '', ''Address'', ''10.0.10.1''), ('' '', ''UserName'', ''alice''),
     ('' '', ''Framed-IP-Address'', ''10.0.12.34''), ('' '', ''Acct-Status-Type'', ''Stop'')]"

lemma ise_demo:
  "plain ise_header" "contains ''CISE_RADIUS_Accounting'' ise_header" "\<forall>f \<in> set ise_stop_fields. ise_field_ok f"
  "distinct (map (fst \<circ> snd) ise_stop_fields)"
  by (code_simp)+

theorem ise_roundtrip_witness:
  "ise_parse 7 (ise_line ise_header ise_stop_fields) = Some \<lparr>ie_ts = 7, ie_src_ip = ''10.0.12.34'',
     ie_user_upn = ''alice'', ie_source = ''cisco_ise'', ie_event_type = ''nac-auth-stop'', ie_confidence = 95,
     ie_ttl_seconds = 0, ie_mac = None, ie_raw_id = None\<rparr>"
  by (subst ise_roundtrip[OF ise_demo, where ip = "''10.0.12.34''" and user = "''alice''" and status = "''Stop''"
      and timeout = 43200]) (simp_all add: ise_stop_fields_def)

text \<open>
  A ClearPass CEF line is read back. For a line with any text before the CEF header, any vendor,
  version, signature, severity, event name and fields (without the separators of the format), the adapter
  yields exactly the event with those values; the name decides whether it is a stop, and the lifetime is
  the one labelled \<open>Session-Timeout\<close>, or twelve hours.
\<close>

theorem clearpass_roundtrip:
  fixes fs :: "(string \<times> string) list"
  assumes "CHR ''|'' \<notin> set pre" and "segment_ok vendor" and "segment_ok version" and "segment_ok name"
    and "\<forall>f \<in> set fs. cef_field_ok f" and "distinct (map fst fs)"
    and "map_of fs ''src'' = Some src" and "map_of fs ''suser'' = Some suser"
    and "map_of fs ''cs2Label'' = Some ''Session-Timeout'' \<and> map_of fs ''cs2'' = Some t \<and> py_int t = Some ttl \<or>
      (map_of fs ''cs2Label'' \<noteq> Some ''Session-Timeout'' \<or> map_of fs ''cs2'' = None) \<and> ttl = 43200"
  shows "clearpass_parse now (cef_line pre vendor version sig name sev fs) =
    Some \<lparr>ie_ts = now, ie_src_ip = src, ie_user_upn = suser, ie_source = ''aruba_clearpass'',
      ie_event_type = (if contains ''Stop'' name then ''nac-auth-stop'' else ''nac-auth''), ie_confidence = 95,
      ie_ttl_seconds = (if contains ''Stop'' name then 0 else ttl),
      ie_mac = map_of fs ''smac'', ie_raw_id = map_of fs ''externalId''\<rparr>"
proof -
  have "header_search (cef_line pre vendor version sig name sev fs) = Some (name, cef_ext fs)"
    using header_search_line[OF assms(1)] header_at_line[OF assms(2-5), of sig sev]
    by (simp add: cef_line_def)
  moreover have "map_of (dict_of_matches (finditer cef_match (cef_ext fs))) = map_of fs"
    using finditer_cef_ext[OF assms(5)] assms(6) by (simp add: map_of_dict_of_matches)
  ultimately show ?thesis
    using assms(7-9) by (auto simp: clearpass_parse_def clearpass_ttl_def clearpass_default_ttl_def Let_def
        split: option.splits)
qed

theorem clearpass_roundtrip_witness:
  "clearpass_parse 7 (cef_line ''<14>cppm01 '' ''Aruba Networks'' ''6.11'' 2001 ''Accounting-Start'' 1
     [(''src'', ''10.0.20.12''), (''suser'', ''bob''), (''cs2Label'', ''Session-Timeout''), (''cs2'', ''7200'')]) =
   Some \<lparr>ie_ts = 7, ie_src_ip = ''10.0.20.12'', ie_user_upn = ''bob'', ie_source = ''aruba_clearpass'',
     ie_event_type = ''nac-auth'', ie_confidence = 95, ie_ttl_seconds = 7200, ie_mac = None, ie_raw_id = None\<rparr>"
proof -
  let ?fs = "[(''src'', ''10.0.20.12''), (''suser'', ''bob''), (''cs2Label'', ''Session-Timeout''), (''cs2'', ''7200'')]"
  have ok: "\<forall>f \<in> set ?fs. cef_field_ok f" by code_simp
  have seg: "segment_ok ''Aruba Networks''" "segment_ok ''6.11''" "segment_ok ''Accounting-Start''" by code_simp+
  have t: "py_int ''7200'' = Some 7200" by code_simp
  show ?thesis
    by (subst clearpass_roundtrip[OF _ seg ok, where src = "''10.0.20.12''" and suser = "''bob''" and t = "''7200''"
        and ttl = 7200]) (simp_all add: t starts_with_def)
qed

end
