(* ===== verification/Signin_Adapters.thy ===== *)
theory Signin_Adapters
  imports Event_Types Ipaddress Nac_Adapters Datetime Json
begin

text \<open>
  The logon adapters of \<open>id-ingest/src/id_ingest/adapters\<close>: Windows event 4624 through Winlogbeat
  (\<open>ad_4624_adapter.py\<close>) and Entra sign-ins through Microsoft Graph (\<open>entra_signin_adapter.py\<close>).
  The JSON documents are records of the fields the code reads, \<open>None\<close> when absent, with values of the
  documented types; \<open>fetch\<close> (an authenticated GET) is a parameter.
\<close>

section \<open>Windows logons\<close>

record winlog_doc =
  wl_event_id :: "int option"
  wl_timestamp :: "string option"
  wl_logon_type :: "(int + string) option"
  wl_ip_address :: "string option"
  wl_target_user :: "string option"
  wl_target_domain :: "string option"
  wl_logon_guid :: "string option"

definition obj_key :: "(string \<times> json) list \<Rightarrow> string \<Rightarrow> (string \<times> json) list option" where
  "obj_key d k = (case map_of d k of None \<Rightarrow> Some [] | Some v \<Rightarrow> as_obj v)"

definition as_int_or_str :: "json \<Rightarrow> (int + string) option" where
  "as_int_or_str v = (case v of JInt i \<Rightarrow> Some (Inl i) | JStr s \<Rightarrow> Some (Inr s) | _ \<Rightarrow> None)"

definition winlog_of_json :: "json \<Rightarrow> winlog_doc option" where
  "winlog_of_json v = do {
     d \<leftarrow> as_obj v; eid \<leftarrow> opt_key as_int d ''event_id''; ts \<leftarrow> opt_key as_str d ''@timestamp'';
     w \<leftarrow> obj_key d ''winlog''; dat \<leftarrow> obj_key w ''event_data''; lt \<leftarrow> opt_key as_int_or_str dat ''LogonType'';
     ip \<leftarrow> opt_key as_str dat ''IpAddress''; u \<leftarrow> opt_key as_str dat ''TargetUserName'';
     dm \<leftarrow> opt_key as_str dat ''TargetDomainName''; g \<leftarrow> opt_key as_str dat ''LogonGuid'';
     Some \<lparr>wl_event_id = eid, wl_timestamp = ts, wl_logon_type = lt, wl_ip_address = ip, wl_target_user = u,
       wl_target_domain = dm, wl_logon_guid = g\<rparr> }"

definition winlog_loads :: "string \<Rightarrow> winlog_doc option" where
  "winlog_loads s = Option.bind (loads s) winlog_of_json"

definition confidence_by_logon_type :: "(string, int) dict" where
  "confidence_by_logon_type = [(''2'', 90), (''10'', 90), (''11'', 50), (''3'', 70)]"

definition accepted_logon_types :: "string list" where
  "accepted_logon_types = [''2'', ''3'', ''10'', ''11'']"

definition logon_event_id :: int where "logon_event_id = 4624"

definition ad_ttl_s :: int where "ad_ttl_s = 8 * 3600"

definition ad_payload :: "string \<Rightarrow> string" where
  "ad_payload txt1 = after_first '': '' txt1"

definition logon_type_str :: "(int + string) option \<Rightarrow> string" where
  "logon_type_str t = (case t of None \<Rightarrow> [] | Some (Inl i) \<Rightarrow> show_int i | Some (Inr s) \<Rightarrow> s)"

definition ad_upn :: "string \<Rightarrow> string option \<Rightarrow> string" where
  "ad_upn user domain = rstrip_where (\<lambda>c. c = CHR ''@'')
     (user @ ''@'' @ (case domain of None \<Rightarrow> [] | Some d \<Rightarrow> d))"

definition ad_parse :: "string \<Rightarrow> identity_event option" where
  "ad_parse txt1 =
     (case winlog_loads (ad_payload txt1) of None \<Rightarrow> None | Some doc \<Rightarrow>
      if wl_event_id doc \<noteq> Some logon_event_id then None
      else let logon_type = logon_type_str (wl_logon_type doc); ip = wl_ip_address doc in
        if logon_type \<notin> set accepted_logon_types \<or> \<not> truthy ip \<or> ip = Some ''-'' then None
        else case wl_target_user doc of None \<Rightarrow> None | Some user \<Rightarrow>
             case wl_timestamp doc of None \<Rightarrow> None | Some t \<Rightarrow>
             case fromisoformat (replace t ''Z'' ''+00:00'') of None \<Rightarrow> None | Some ts \<Rightarrow>
             Some \<lparr>ie_ts = ts, ie_src_ip = the ip, ie_user_upn = ad_upn user (wl_target_domain doc),
               ie_source = ''ad_4624'', ie_event_type = ''logon'',
               ie_confidence = dict_get confidence_by_logon_type logon_type 50, ie_ttl_seconds = ad_ttl_s,
               ie_mac = None, ie_raw_id = wl_logon_guid doc\<rparr>)"

section \<open>Pages of Microsoft Graph\<close>

record 'i page =
  pg_value :: "'i list"
  pg_next :: "string option"
  pg_delta :: "string option"

text \<open>
  \<open>while url: ... url = body.get("@odata.nextLink")\<close>, with the body of the loop as a function of the
  state that may raise or not return. A service whose links go round in a circle keeps the loop from ending, which is
  the value \<open>None\<close>.
\<close>

partial_function (option) paged :: "(string \<Rightarrow> py_error + 'i page) \<Rightarrow>
    ('s \<Rightarrow> 'i page \<Rightarrow> ('s \<times> (py_error + unit)) option) \<Rightarrow> string option \<Rightarrow> 's \<Rightarrow> ('s \<times> (py_error + unit)) option" where
  "paged fetch step url st =
     (if \<not> truthy url then Some (st, Inr ())
      else case fetch (the url) of
        Inl e \<Rightarrow> Some (st, Inl e)
      | Inr p \<Rightarrow> Option.bind (step st p) (\<lambda>(st1, r).
          case r of Inl e \<Rightarrow> Some (st1, Inl e) | Inr u \<Rightarrow> paged fetch step (pg_next p) st1))"

text \<open>A listing: the pages that the links lead through, from a first link to a page without one.\<close>

inductive listing :: "(string \<Rightarrow> py_error + 'i page) \<Rightarrow> string option \<Rightarrow> 'i page list \<Rightarrow> bool" for fetch where
  end_of: "\<not> truthy url \<Longrightarrow> listing fetch url []"
| link: "u \<noteq> [] \<Longrightarrow> fetch u = Inr p \<Longrightarrow> listing fetch (pg_next p) ps \<Longrightarrow> listing fetch (Some u) (p # ps)"

fun fold_pages :: "('s \<Rightarrow> 'p \<Rightarrow> ('s \<times> (py_error + unit)) option) \<Rightarrow> 's \<Rightarrow> 'p list \<Rightarrow>
    ('s \<times> (py_error + unit)) option" where
  "fold_pages step st [] = Some (st, Inr ())"
| "fold_pages step st (p # ps) = Option.bind (step st p) (\<lambda>(st1, r).
     case r of Inl e \<Rightarrow> Some (st1, Inl e) | Inr u \<Rightarrow> fold_pages step st1 ps)"

lemma paged_listing: "listing fetch url ps \<Longrightarrow> paged fetch step url st = fold_pages step st ps"
proof (induction arbitrary: st rule: listing.induct)
  case (end_of url)
  then show ?case by (subst paged.simps) simp
next
  case (link u p ps)
  then show ?case by (subst paged.simps) (cases "step st p", auto split: sum.splits)
qed

section \<open>Entra sign-ins\<close>

record signin =
  si_error_code :: "int option"
  si_ip_address :: "string option"
  si_upn :: "string option"
  si_created :: "string option"
  si_id :: "string option"

record entra_adapter =
  ea_tenant :: string
  ea_client :: string
  ea_secret :: string
  ea_cidrs :: "ip_net list"
  ea_poll :: int
  ea_delta_link :: "string option"

definition conf_in :: int where "conf_in = 80"
definition conf_out :: int where "conf_out = 40"
definition signin_ttl_s :: int where "signin_ttl_s = 3600"

definition graph_signins :: string where
  "graph_signins = ''https://graph.microsoft.com/v1.0/auditLogs/signIns?$filter=status/errorCode eq 0''"

text \<open>\<open>from_config\<close>, with the values of the required keys present: a bad network raises.\<close>

definition entra_from_config :: "string \<Rightarrow> string \<Rightarrow> string \<Rightarrow> string list \<Rightarrow> int \<Rightarrow> py_error + entra_adapter" where
  "entra_from_config tenant client secret raw_cidrs poll =
     (case those (map (ip_network True) raw_cidrs) of
        None \<Rightarrow> Inl ValueError
      | Some cidrs \<Rightarrow> Inr \<lparr>ea_tenant = tenant, ea_client = client, ea_secret = secret, ea_cidrs = cidrs,
          ea_poll = poll, ea_delta_link = None\<rparr>)"

definition entra_confidence :: "ip_net list \<Rightarrow> string \<Rightarrow> int" where
  "entra_confidence cidrs ip =
     (case ip_address ip of None \<Rightarrow> conf_out
      | Some addr \<Rightarrow> if list_ex (ip_in addr) cidrs then conf_in else conf_out)"

definition signin_event :: "ip_net list \<Rightarrow> signin \<Rightarrow> py_error + identity_event option" where
  "signin_event cidrs item =
     (if si_error_code item \<noteq> Some 0 then Inr None
      else if \<not> truthy (si_ip_address item) \<or> \<not> truthy (si_upn item) then Inr None
      else case si_created item of None \<Rightarrow> Inl KeyError | Some t \<Rightarrow>
           case fromisoformat (replace t ''Z'' ''+00:00'') of None \<Rightarrow> Inl ValueError | Some ts \<Rightarrow>
           Inr (Some \<lparr>ie_ts = ts, ie_src_ip = the (si_ip_address item), ie_user_upn = the (si_upn item),
             ie_source = ''entra_signin'', ie_event_type = ''logon'',
             ie_confidence = entra_confidence cidrs (the (si_ip_address item)), ie_ttl_seconds = signin_ttl_s,
             ie_mac = None, ie_raw_id = si_id item\<rparr>))"

text \<open>The events of a page are yielded one by one, so those before a bad item are out when it raises.\<close>

fun yield_items :: "ip_net list \<Rightarrow> signin list \<Rightarrow> identity_event list \<times> (py_error + unit)" where
  "yield_items cidrs [] = ([], Inr ())"
| "yield_items cidrs (i # is1) =
     (case signin_event cidrs i of
        Inl e \<Rightarrow> ([], Inl e)
      | Inr None \<Rightarrow> yield_items cidrs is1
      | Inr (Some ev) \<Rightarrow> (case yield_items cidrs is1 of (evs, r) \<Rightarrow> (ev # evs, r)))"

definition poll_page :: "entra_adapter \<times> identity_event list \<Rightarrow> signin page \<Rightarrow>
    ((entra_adapter \<times> identity_event list) \<times> (py_error + unit)) option" where
  "poll_page st p = Some
     (case st of (a, out) \<Rightarrow>
      case yield_items (ea_cidrs a) (pg_value p) of
        (evs, Inl e) \<Rightarrow> ((a, out @ evs), Inl e)
      | (evs, Inr u) \<Rightarrow>
          ((if \<not> truthy (pg_next p) \<and> truthy (pg_delta p) then a\<lparr>ea_delta_link := pg_delta p\<rparr> else a, out @ evs), Inr ()))"

definition poll_once :: "py_error + string \<Rightarrow> (string \<Rightarrow> string \<Rightarrow> py_error + signin page) \<Rightarrow> entra_adapter \<Rightarrow> ((entra_adapter \<times> identity_event list) \<times> (py_error + unit)) option" where
  "poll_once token fetch a =
     (case token of
        Inl e \<Rightarrow> Some ((a, []), Inl e)
      | Inr tok \<Rightarrow> paged (fetch tok) poll_page (py_or (ea_delta_link a) (Some graph_signins)) (a, []))"

section \<open>Lemmas\<close>

lemma after_first_here:
  assumes "\<not> contains '': '' (pre @ '':'')"
  shows "after_first '': '' (pre @ '': '' @ s) = s"
proof -
  have "find_sub '': '' (pre @ '': '' @ s) = Some (length pre)"
    using assms
  proof (induction pre)
    case (Cons c p)
    have "\<not> starts_with '': '' ((c # p) @ '': '' @ s)"
    proof
      assume "starts_with '': '' ((c # p) @ '': '' @ s)"
      then have "starts_with '': '' ((c # p) @ '':'')" by (cases p) (auto simp: starts_with_def)
      then show False using Cons.prems by simp
    qed
    then show ?case using Cons by simp
  qed (simp add: starts_with_def)
  then show ?thesis by (simp add: after_first_def)
qed

definition item_events :: "ip_net list \<Rightarrow> signin \<Rightarrow> identity_event list" where
  "item_events cidrs i = (case signin_event cidrs i of Inr (Some ev) \<Rightarrow> [ev] | _ \<Rightarrow> [])"

lemma yield_items_ok:
  assumes "\<forall>i \<in> set items. \<exists>r. signin_event cidrs i = Inr r"
  shows "yield_items cidrs items = (concat (map (item_events cidrs) items), Inr ())"
  using assms by (induction items) (auto simp: item_events_def split: option.splits)

lemma fold_poll_pages:
  assumes "listing fetch url ps"
    and "\<forall>p \<in> set ps. \<forall>i \<in> set (pg_value p). \<exists>r. signin_event (ea_cidrs a) i = Inr r"
  shows "fold_pages poll_page (a, out) ps = Some
    ((if ps \<noteq> [] \<and> truthy (pg_delta (last ps)) then a\<lparr>ea_delta_link := pg_delta (last ps)\<rparr> else a,
      out @ concat (map (item_events (ea_cidrs a)) (concat (map pg_value ps)))), Inr ())"
  using assms
proof (induction arbitrary: out rule: listing.induct)
  case (link u p ps)
  have y: "yield_items (ea_cidrs a) (pg_value p) =
      (concat (map (item_events (ea_cidrs a)) (pg_value p)), Inr ())"
    using link.prems by (intro yield_items_ok) simp
  have "truthy (pg_next p) \<longleftrightarrow> ps \<noteq> []" using link.hyps(3) by (auto elim: listing.cases)
  then show ?case using link.IH link.prems y by (cases "ps = []") (simp_all add: poll_page_def)
qed simp

section \<open>Properties\<close>

text \<open>
  A Windows logon is read and weighed. For a Winlogbeat line (any text up to the first colon and
  blank, then the document) of event 4624 with a user and a readable time, the adapter yields an event
  exactly for logon types 2, 3, 10 and 11 with an address: user and domain joined by \<open>@\<close>, eight hours of
  life, confidence 90 for interactive and remote logons, 70 for network and 50 for cached ones.
\<close>

theorem ad_logon_confidence:
  assumes "\<not> contains '': '' (pre @ '':'')" and "winlog_loads json = Some doc" and "wl_event_id doc = Some 4624"
    and "wl_logon_type doc = Some (Inr t)" and "wl_ip_address doc = Some ip"
    and "wl_target_user doc = Some user" and "wl_target_domain doc = Some domain"
    and "domain \<noteq> []" and "last domain \<noteq> CHR ''@''"
    and "wl_timestamp doc = Some ts" and "fromisoformat (replace ts ''Z'' ''+00:00'') = Some i"
  shows "ad_parse (pre @ '': '' @ json) =
    (if t \<in> {''2'', ''3'', ''10'', ''11''} \<and> ip \<noteq> [] \<and> ip \<noteq> ''-''
     then Some \<lparr>ie_ts = i, ie_src_ip = ip, ie_user_upn = user @ ''@'' @ domain, ie_source = ''ad_4624'',
       ie_event_type = ''logon'',
       ie_confidence = (if t \<in> {''2'', ''10''} then 90 else if t = ''3'' then 70 else 50),
       ie_ttl_seconds = 28800, ie_mac = None, ie_raw_id = wl_logon_guid doc\<rparr>
     else None)"
proof -
  have "ad_upn user (Some domain) = user @ ''@'' @ domain"
    using assms(8,9) by (cases domain rule: rev_cases) (auto simp: ad_upn_def rstrip_where_def)
  moreover have "ad_payload (pre @ '': '' @ json) = json"
    using after_first_here[OF assms(1)] by (simp add: ad_payload_def)
  ultimately show ?thesis
    using assms(2-) by (auto simp: ad_parse_def Let_def logon_event_id_def logon_type_str_def accepted_logon_types_def
        confidence_by_logon_type_def ad_ttl_s_def dict_get_def)
qed

definition demo_logon :: json where
  "demo_logon = JObj [(''event_id'', JInt 4624), (''@timestamp'', JStr ''2026-04-22T10:00:00Z''), (''winlog'', JObj [(''event_data'',
     JObj [(''LogonType'', JStr ''3''), (''IpAddress'', JStr ''10.0.12.34''), (''TargetUserName'', JStr ''alice''),
       (''TargetDomainName'', JStr ''CORP'')])])]"

theorem ad_logon_confidence_witness:
  "ad_parse (''DC01 winlogbeat[12]: '' @ dumps '','' '':'' demo_logon) =
    Some \<lparr>ie_ts = 1776852000000000, ie_src_ip = ''10.0.12.34'', ie_user_upn = ''alice@CORP'', ie_source = ''ad_4624'',
      ie_event_type = ''logon'', ie_confidence = 70, ie_ttl_seconds = 28800, ie_mac = None, ie_raw_id = None\<rparr>"
proof -
  have c: "\<not> contains '': '' (''DC01 winlogbeat[12]'' @ '':'')" by (simp add: starts_with_def)
  have "json_ok demo_logon" unfolding demo_logon_def using show_int_short[of 4624] by simp
  then have d: "winlog_loads (dumps '','' '':'' demo_logon) = winlog_of_json demo_logon"
    using loads_dumps[of demo_logon "[]" "[]"] by (simp add: winlog_loads_def)
  have t: "fromisoformat (replace ''2026-04-22T10:00:00Z'' ''Z'' ''+00:00'') = Some 1776852000000000" by code_simp
  have w: "winlog_of_json demo_logon = Some \<lparr>wl_event_id = Some 4624, wl_timestamp = Some ''2026-04-22T10:00:00Z'',
      wl_logon_type = Some (Inr ''3''), wl_ip_address = Some ''10.0.12.34'', wl_target_user = Some ''alice'',
      wl_target_domain = Some ''CORP'', wl_logon_guid = None\<rparr>" by code_simp
  show ?thesis
    using ad_logon_confidence[OF c d[unfolded w], where t = "''3''" and ip = "''10.0.12.34''" and user = "''alice''"
        and domain = "''CORP''" and ts = "''2026-04-22T10:00:00Z''" and i = 1776852000000000] t by simp
qed


definition demo_signins :: "signin page" where
  "demo_signins = \<lparr>pg_value = [\<lparr>si_error_code = Some 0, si_ip_address = Some ''10.1.2.3'', si_upn = Some ''bob'',
     si_created = Some ''2026-04-22T10:00:00Z'', si_id = Some ''7''\<rparr>], pg_next = None, pg_delta = Some ''d''\<rparr>"

definition demo_entra :: entra_adapter where
  "demo_entra = \<lparr>ea_tenant = ''t'', ea_client = ''c'', ea_secret = ''s'', ea_cidrs = [], ea_poll = 60, ea_delta_link = None\<rparr>"


end
