(* ===== verification/Group_Sync.thy ===== *)
theory Group_Sync
  imports Signin_Adapters
begin

text \<open>
  Group membership: \<open>id-ingest/src/id_ingest/group_sync\<close> with its two directories (\<open>ad_sync.py\<close> over
  LDAP, \<open>entra_sync.py\<close> over Microsoft Graph), the worker (\<open>worker.py\<close>) and the notifier
  (\<open>notifier.py\<close>). The LDAP client is the parameter \<open>search\<close>: the entries for a base, a filter and an
  attribute.
\<close>

record group_upsert =
  gu_user_upn :: string
  gu_group_id :: string
  gu_group_name :: string
  gu_group_source :: string

section \<open>Active Directory\<close>

text \<open>What the code reads of an entry: its name, its \<open>userPrincipalName\<close> and its named attributes.\<close>

record ldap_entry =
  le_dn :: string
  le_upn :: "string option"
  le_attrs :: "(string \<times> string list) list"

definition cn :: "string \<Rightarrow> string" where
  "cn dn = (let first = takeWhile (\<lambda>c. c \<noteq> CHR '','') dn in
     case partition_on CHR ''='' first of (a, found, b) \<Rightarrow> if found then b else first)"

text \<open>\<open>_RANGE.match\<close>: the upper bound in the name of a ranged attribute.\<close>

definition range_hi :: "string \<Rightarrow> string option" where
  "range_hi k =
     (if \<not> starts_with ''memberOf;range='' k then None
      else let t = drop 15 k; u = dropWhile is_digit t in
        if takeWhile is_digit t = [] \<or> u = [] \<or> hd u \<noteq> CHR ''-'' then None
        else let hi = takeWhile is_digit (tl u) in
          if hi \<noteq> [] then Some hi
          else if tl u \<noteq> [] \<and> hd (tl u) = CHR ''*'' then Some ''*''
          else None)"

definition range_attr :: "int \<Rightarrow> string" where
  "range_attr lo = ''memberOf;range='' @ show_int lo @ ''-*''"

partial_function (option) read_memberof :: "(string \<Rightarrow> string \<Rightarrow> string \<Rightarrow> py_error + ldap_entry list) \<Rightarrow> string \<Rightarrow>
    string \<Rightarrow> string list \<Rightarrow> (py_error + string list) option" where
  "read_memberof search user_dn attr groups =
     (case search user_dn ''(objectClass=user)'' attr of
        Inl e \<Rightarrow> Some (Inl e)
      | Inr entries \<Rightarrow>
          if entries = [] then Some (Inr groups)
          else let entry = hd entries;
                   groups1 = groups @ dict_get (le_attrs entry) attr [];
                   ranged = List.map_filter range_hi (map fst (le_attrs entry))
               in if ranged = [] \<or> hd ranged = ''*'' then Some (Inr groups1)
                  else (case py_int (hd ranged) of
                          None \<Rightarrow> Some (Inl ValueError)
                        | Some h \<Rightarrow> read_memberof search user_dn (range_attr (h + 1)) groups1))"

definition ad_upsert :: "string \<Rightarrow> string \<Rightarrow> group_upsert" where
  "ad_upsert upn dn = \<lparr>gu_user_upn = upn, gu_group_id = dn, gu_group_name = cn dn, gu_group_source = ''ad''\<rparr>"

definition ad_sync_user :: "(string \<Rightarrow> string \<Rightarrow> string \<Rightarrow> py_error + ldap_entry list) \<Rightarrow> string \<Rightarrow> string \<Rightarrow>
    (py_error + group_upsert list) option" where
  "ad_sync_user search base upn =
     (let local_part = takeWhile (\<lambda>c. c \<noteq> CHR ''@'') upn in
      case search base (''(userPrincipalName='' @ upn @ '')'') ''distinguishedName'' of
        Inl e \<Rightarrow> Some (Inl e)
      | Inr first \<Rightarrow>
          case (if first \<noteq> [] then Inr first
                else search base (''(sAMAccountName='' @ local_part @ '')'') ''distinguishedName'') of
            Inl e \<Rightarrow> Some (Inl e)
          | Inr [] \<Rightarrow> Some (Inr [])
          | Inr (entry # _) \<Rightarrow>
              map_option (map_sum id (map (ad_upsert upn))) (read_memberof search (le_dn entry) ''memberOf'' []))"

fun ad_sync_each :: "(string \<Rightarrow> string \<Rightarrow> string \<Rightarrow> py_error + ldap_entry list) \<Rightarrow> string \<Rightarrow> string list \<Rightarrow>
    (group_upsert list \<times> (py_error + unit)) option" where
  "ad_sync_each search base [] = Some ([], Inr ())"
| "ad_sync_each search base (u # us) =
     Option.bind (ad_sync_user search base u) (\<lambda>r. case r of
        Inl e \<Rightarrow> Some ([], Inl e)
      | Inr ups \<Rightarrow> map_option (\<lambda>(out, r1). (ups @ out, r1)) (ad_sync_each search base us))"

definition ad_sync_all :: "(string \<Rightarrow> string \<Rightarrow> string \<Rightarrow> py_error + ldap_entry list) \<Rightarrow> string \<Rightarrow>
    (group_upsert list \<times> (py_error + unit)) option" where
  "ad_sync_all search base =
     (case search base ''(objectClass=user)'' ''userPrincipalName'' of
        Inl e \<Rightarrow> Some ([], Inl e)
      | Inr entries \<Rightarrow> ad_sync_each search base
          (List.map_filter (\<lambda>e. if truthy (le_upn e) then le_upn e else None) entries))"

section \<open>Entra\<close>

record graph_object =
  go_type :: "string option"
  go_id :: "string option"
  go_display_name :: "string option"

fun entra_upserts :: "string \<Rightarrow> graph_object list \<Rightarrow> py_error + group_upsert list" where
  "entra_upserts upn [] = Inr []"
| "entra_upserts upn (g # gs) =
     (if go_type g \<noteq> Some ''#microsoft.graph.group'' then entra_upserts upn gs
      else case go_id g of
        None \<Rightarrow> Inl KeyError
      | Some i \<Rightarrow> bind_r (entra_upserts upn gs) (\<lambda>out.
          Inr (\<lparr>gu_user_upn = upn, gu_group_id = i, gu_group_name = the (py_or (go_display_name g) (Some i)),
            gu_group_source = ''entra''\<rparr> # out)))"

definition entra_user_page :: "string \<Rightarrow> group_upsert list \<Rightarrow> graph_object page \<Rightarrow>
    (group_upsert list \<times> (py_error + unit)) option" where
  "entra_user_page upn out p =
     Some (case entra_upserts upn (pg_value p) of Inl e \<Rightarrow> (out, Inl e) | Inr ups \<Rightarrow> (out @ ups, Inr ()))"

definition entra_sync_user :: "py_error + string \<Rightarrow> (string \<Rightarrow> string \<Rightarrow> py_error + graph_object page) \<Rightarrow> string \<Rightarrow>
    (py_error + group_upsert list) option" where
  "entra_sync_user token fetch upn =
     (case token of
        Inl e \<Rightarrow> Some (Inl e)
      | Inr tok \<Rightarrow> map_option (\<lambda>(out, r). map_sum id (\<lambda>_. out) r)
          (paged (fetch tok) (entra_user_page upn)
             (Some (''https://graph.microsoft.com/v1.0/users/'' @ upn @ ''/transitiveMemberOf'')) []))"

fun entra_sync_each :: "(string \<Rightarrow> (py_error + group_upsert list) option) \<Rightarrow> group_upsert list \<Rightarrow> string option list \<Rightarrow>
    (group_upsert list \<times> (py_error + unit)) option" where
  "entra_sync_each sync_user out [] = Some (out, Inr ())"
| "entra_sync_each sync_user out (u # us) =
     (if \<not> truthy u then entra_sync_each sync_user out us
      else Option.bind (sync_user (the u)) (\<lambda>r. case r of
        Inl e \<Rightarrow> Some (out, Inl e)
      | Inr ups \<Rightarrow> entra_sync_each sync_user (out @ ups) us))"

definition entra_sync_all :: "py_error + string \<Rightarrow> (string \<Rightarrow> string \<Rightarrow> py_error + string option page) \<Rightarrow>
    (string \<Rightarrow> (py_error + group_upsert list) option) \<Rightarrow> (py_error + group_upsert list) option" where
  "entra_sync_all token fetch sync_user =
     (case token of
        Inl e \<Rightarrow> Some (Inl e)
      | Inr tok \<Rightarrow> map_option (\<lambda>(out, r). map_sum id (\<lambda>_. out) r)
          (paged (fetch tok) (\<lambda>out p. entra_sync_each sync_user out (pg_value p))
             (Some ''https://graph.microsoft.com/v1.0/users?$select=userPrincipalName'') []))"

section \<open>The worker\<close>

text \<open>
  A directory as the worker sees it: what \<open>sync_user\<close> and \<open>sync_all\<close> give. The effects of the worker are
  the calls it makes and the SQL statements it executes.
\<close>

record directory =
  dir_sync_user :: "string \<Rightarrow> py_error + group_upsert list"
  dir_sync_all :: "py_error + group_upsert list"

datatype sync_effect = SyncUser nat string | SyncAll nat | Sql string

record group_sync_worker =
  gw_seen_upns :: "string set"
  gw_notifier :: bool

definition new_group_sync_worker :: "bool \<Rightarrow> group_sync_worker" where
  "new_group_sync_worker notifier = \<lparr>gw_seen_upns = {}, gw_notifier = notifier\<rparr>"

fun call_syncs :: "(directory \<Rightarrow> py_error + group_upsert list) \<Rightarrow> (nat \<Rightarrow> sync_effect) \<Rightarrow> nat \<Rightarrow> directory list \<Rightarrow>
    sync_effect list \<times> (py_error + unit)" where
  "call_syncs call eff i [] = ([], Inr ())"
| "call_syncs call eff i (d # ds) =
     (case call d of
        Inl e \<Rightarrow> ([eff i], Inl e)
      | Inr _ \<Rightarrow> (case call_syncs call eff (Suc i) ds of (effs, r) \<Rightarrow> (eff i # effs, r)))"

definition on_new_upn :: "directory list \<Rightarrow> group_sync_worker \<Rightarrow> string \<Rightarrow>
    group_sync_worker \<times> sync_effect list \<times> (py_error + unit)" where
  "on_new_upn syncs w upn =
     (if upn \<in> gw_seen_upns w then (w, [], Inr ())
      else (w\<lparr>gw_seen_upns := insert upn (gw_seen_upns w)\<rparr>,
            call_syncs (\<lambda>d. dir_sync_user d upn) (\<lambda>i. SyncUser i upn) 0 syncs))"

text \<open>\<open>refresh_and_notify\<close>: \<open>exec\<close> says whether a statement raises.\<close>

definition refresh_and_notify :: "(string \<Rightarrow> py_error option) \<Rightarrow> sync_effect list \<times> (py_error + unit)" where
  "refresh_and_notify exec =
     (let refresh = ''REFRESH MATERIALIZED VIEW CONCURRENTLY group_members;''; notify = ''NOTIFY groups_changed;'' in
      case exec refresh of
        Some e \<Rightarrow> ([Sql refresh], Inl e)
      | None \<Rightarrow> ([Sql refresh, Sql notify], case exec notify of Some e \<Rightarrow> Inl e | None \<Rightarrow> Inr ()))"

definition full_cycle :: "(string \<Rightarrow> py_error option) \<Rightarrow> directory list \<Rightarrow> group_sync_worker \<Rightarrow>
    sync_effect list \<times> (py_error + unit)" where
  "full_cycle exec syncs w =
     (case call_syncs dir_sync_all SyncAll 0 syncs of
        (effs, Inl e) \<Rightarrow> (effs, Inl e)
      | (effs, Inr _) \<Rightarrow>
          if gw_notifier w then (case refresh_and_notify exec of (sqls, r) \<Rightarrow> (effs @ sqls, r))
          else (effs, Inr ()))"

section \<open>Ranged retrieval\<close>

text \<open>
  A domain controller that hands out at most \<open>n\<close> values at a time, as the client shows it: each answer
  stands under the plain name and under the name of the range it really covers.
\<close>

definition bounded_attr :: "nat \<Rightarrow> nat \<Rightarrow> string" where
  "bounded_attr lo hi = ''memberOf;range='' @ show_nat lo @ ''-'' @ show_nat hi"

definition ad_answer :: "nat \<Rightarrow> string list \<Rightarrow> nat \<Rightarrow> ldap_entry" where
  "ad_answer n vs lo = \<lparr>le_dn = [], le_upn = None, le_attrs =
     (if length vs \<le> n then [(''memberOf'', vs)]
      else if length vs \<le> lo + n then [(''memberOf'', drop lo vs), (range_attr (int lo), drop lo vs)]
      else [(''memberOf'', take n (drop lo vs)), (bounded_attr lo (lo + n - 1), take n (drop lo vs))])\<rparr>"

lemma digit_chars [simp]: "\<not> is_digit CHR ''-''" "\<not> is_digit CHR ''*''"
  by (simp_all add: is_digit_def code_def)

lemma digit_prefix:
  "takeWhile is_digit (show_nat a @ CHR ''-'' # t) = show_nat a"
  "dropWhile is_digit (show_nat a @ CHR ''-'' # t) = CHR ''-'' # t"
proof -
  have "\<forall>c \<in> set (show_nat a). is_digit c" using show_nat_digits by blast
  from takeWhile_all[OF this, of "CHR ''-'' # t"]
  show "takeWhile is_digit (show_nat a @ CHR ''-'' # t) = show_nat a"
    "dropWhile is_digit (show_nat a @ CHR ''-'' # t) = CHR ''-'' # t"
    by simp_all
qed

lemma range_hi_simps [simp]:
  "range_hi ''memberOf'' = None"
  "range_hi (bounded_attr lo hi) = Some (show_nat hi)"
  "range_hi (range_attr (int lo)) = Some ''*''"
proof -
  have d: "takeWhile is_digit (show_nat hi) = show_nat hi" using show_nat_digits by simp
  show "range_hi (bounded_attr lo hi) = Some (show_nat hi)"
    by (simp add: range_hi_def bounded_attr_def starts_with_def digit_prefix d Let_def)
  show "range_hi (range_attr (int lo)) = Some ''*''"
    by (simp add: range_hi_def range_attr_def starts_with_def show_int_def digit_prefix Let_def)
qed (simp add: range_hi_def starts_with_def)

lemma attr_names_differ: "bounded_attr lo hi \<noteq> range_attr (int lo)" "''memberOf'' \<noteq> range_attr i"
proof -
  show "bounded_attr lo hi \<noteq> range_attr (int lo)"
  proof
    assume "bounded_attr lo hi = range_attr (int lo)"
    then have "show_nat hi = ''*''" by (metis option.inject range_hi_simps(2,3))
    then show False using show_nat_digits[of "CHR ''*''" hi] by simp
  qed
qed (simp add: range_attr_def)

lemma show_nat_hi: "hi < 10 ^ 30 \<Longrightarrow> py_int (show_nat hi) = Some (int hi)"
proof -
  assume "hi < 10 ^ 30"
  then have "\<bar>int hi\<bar> < 10 ^ 30"
    by (metis abs_of_nat of_nat_less_numeral_power_cancel_iff)
  from py_int_show_int[OF show_int_short[OF this]] show ?thesis by (simp add: show_int_def)
qed

lemma show_nat_not_star: "show_nat hi \<noteq> ''*''"
  using show_nat_digits[of "CHR ''*''" hi] by auto

lemma read_last_range:
  assumes "search dn ''(objectClass=user)'' (range_attr (int lo)) = Inr [ad_answer n vs lo]"
    and "n < length vs" and "length vs \<le> lo + n"
  shows "read_memberof search dn (range_attr (int lo)) gs = Some (Inr (gs @ drop lo vs))"
  using assms attr_names_differ(2)
  by (subst read_memberof.simps) (simp add: ad_answer_def dict_get_def map_filter_simps Let_def)

lemma read_middle_range:
  assumes "search dn ''(objectClass=user)'' (range_attr (int lo)) = Inr [ad_answer n vs lo]"
    and "lo + n < length vs" and "0 < n" and "length vs < 10 ^ 30"
  shows "read_memberof search dn (range_attr (int lo)) gs = read_memberof search dn (range_attr (int (lo + n))) gs"
proof -
  have p: "py_int (show_nat (lo + n - Suc 0)) = Some (int (lo + n - Suc 0))"
    using assms(2,4) by (intro show_nat_hi) linarith
  have q: "int (lo + n - Suc 0) + 1 = int (lo + n)" using assms(3) by simp
  show ?thesis
    using assms(1,2) attr_names_differ attr_names_differ[symmetric]
    by (subst read_memberof.simps)
      (simp add: ad_answer_def dict_get_def map_filter_simps Let_def show_nat_not_star p q del: of_nat_add of_nat_diff)
qed

lemma read_ranges:
  assumes "0 < n" and "length vs < 10 ^ 30"
    and "\<And>k. search dn ''(objectClass=user)'' (range_attr (int k)) = Inr [ad_answer n vs k]"
    and "n < length vs" and "n * k < length vs"
  shows "read_memberof search dn (range_attr (int (n * k))) gs =
    Some (Inr (gs @ drop (n * ((length vs - 1) div n)) vs))"
  using assms(5)
proof (induction "length vs - n * k" arbitrary: k rule: less_induct)
  case less
  show ?case
  proof (cases "length vs \<le> n * k + n")
    case True
    have "k = (length vs - 1) div n"
      using True less.prems assms(1)
      by (intro div_nat_eqI[symmetric]) (auto simp: algebra_simps)
    then show ?thesis using read_last_range[where search = search, OF assms(3,4) True] by simp
  next
    case False
    then have "read_memberof search dn (range_attr (int (n * k))) gs =
        read_memberof search dn (range_attr (int (n * k + n))) gs"
      by (intro read_middle_range[where search = search, OF assms(3) _ assms(1,2)]) simp
    then show ?thesis using less.hyps[of "Suc k"] False assms(1) by (simp add: algebra_simps)
  qed
qed

section \<open>Properties\<close>

text \<open>
  Ranged retrieval loses the middle. Against a domain controller that hands out at most \<open>n\<close> values
  at a time, \<open>_read_memberof\<close> returns, and reads every group of a user with at most \<open>2 * n\<close> groups; of a
  user with more it keeps the first and the last chunk alone, since the chunks between them come under a
  name other than the one asked for.
\<close>

theorem ranged_retrieval:
  assumes "0 < n" and "length vs < 10 ^ 30"
    and "search dn ''(objectClass=user)'' ''memberOf'' = Inr [ad_answer n vs 0]"
    and "\<And>k. search dn ''(objectClass=user)'' (range_attr (int k)) = Inr [ad_answer n vs k]"
  shows "read_memberof search dn ''memberOf'' [] = Some (Inr
      (take n vs @ (if length vs \<le> n then [] else drop (n * ((length vs - 1) div n)) vs))) \<and>
    (length vs \<le> 2 * n \<longrightarrow> read_memberof search dn ''memberOf'' [] = Some (Inr vs))"
proof -
  have r: "read_memberof search dn ''memberOf'' [] = Some (Inr
      (take n vs @ (if length vs \<le> n then [] else drop (n * ((length vs - 1) div n)) vs)))"
  proof (cases "length vs \<le> n")
    case True
    then show ?thesis
      using assms(3) by (subst read_memberof.simps) (simp add: ad_answer_def dict_get_def map_filter_simps Let_def)
  next
    case False
    have p: "py_int (show_nat (n - Suc 0)) = Some (int (n - Suc 0))"
      using False assms(2) by (intro show_nat_hi) linarith
    have q: "int (n - Suc 0) + 1 = int (n * 1)" using assms(1) by simp
    have "read_memberof search dn ''memberOf'' [] = read_memberof search dn (range_attr (int (n * 1))) (take n vs)"
      using False assms(3)
      by (subst read_memberof.simps)
        (simp add: ad_answer_def dict_get_def map_filter_simps Let_def show_nat_not_star p q del: of_nat_diff)
    then show ?thesis using read_ranges[where search = search and k = 1, OF assms(1,2,4)] False by simp
  qed
  moreover have "drop (n * ((length vs - 1) div n)) vs = drop n vs" if "n < length vs" "length vs \<le> 2 * n"
  proof -
    have "(length vs - 1) div n = 1" using that assms(1) by (intro div_nat_eqI) auto
    then show ?thesis by simp
  qed
  ultimately show ?thesis by simp
qed

definition two_at_a_time :: "string list \<Rightarrow> string \<Rightarrow> string \<Rightarrow> string \<Rightarrow> py_error + ldap_entry list" where
  "two_at_a_time vs base flt attr =
     Inr [ad_answer 2 vs (if attr = ''memberOf'' then 0 else dec_val (takeWhile is_digit (drop 15 attr)))]"

lemma two_at_a_time_range: "two_at_a_time vs dn f (range_attr (int k)) = Inr [ad_answer 2 vs k]"
  by (simp add: two_at_a_time_def range_attr_def show_int_def digit_prefix)

theorem ranged_retrieval_witness:
  "read_memberof (two_at_a_time [''a'', ''b'', ''c'', ''d'', ''e'']) ''u'' ''memberOf'' [] = Some (Inr [''a'', ''b'', ''e''])"
  using ranged_retrieval[where n = 2 and vs = "[''a'', ''b'', ''c'', ''d'', ''e'']" and dn = "''u''" and
      search = "two_at_a_time [''a'', ''b'', ''c'', ''d'', ''e'']", OF _ _ _ two_at_a_time_range]
  by (simp add: two_at_a_time_def)

lemma call_syncs_effects:
  "call_syncs call eff i ds = (effs, r) \<Longrightarrow> \<exists>m \<le> length ds. effs = map eff [i..<i + m] \<and> ((\<exists>u. r = Inr u) \<longrightarrow> m = length ds)"
proof (induction ds arbitrary: i effs r)
  case (Cons d ds)
  show ?case
  proof (cases "call d")
    case (Inl e)
    then show ?thesis using Cons.prems by (intro exI[of _ 1]) auto
  next
    case (Inr g)
    obtain effs1 where c: "call_syncs call eff (Suc i) ds = (effs1, r)" "effs = eff i # effs1"
      using Cons.prems Inr by (auto split: prod.splits)
    from Cons.IH[OF c(1)] obtain m where "m \<le> length ds" "effs1 = map eff [Suc i..<Suc i + m]"
      "(\<exists>u. r = Inr u) \<longrightarrow> m = length ds" by blast
    then show ?thesis using c(2) by (intro exI[of _ "Suc m"]) (auto simp: upt_conv_Cons simp del: upt_Suc)
  qed
qed simp

lemma call_syncs_cong:
  "list_all2 (\<lambda>d d1. map_sum id (\<lambda>_. ()) (call d) = map_sum id (\<lambda>_. ()) (call1 d1)) ds ds1 \<Longrightarrow>
   call_syncs call eff i ds = call_syncs call1 eff i ds1"
proof (induction arbitrary: i rule: list_all2_induct)
  case (Cons d ds d1 ds1)
  then show ?case by (cases "call d"; cases "call1 d1") simp_all
qed simp

text \<open>The calls for a stream of names, going on after those that raise.\<close>

fun sync_run :: "directory list \<Rightarrow> group_sync_worker \<Rightarrow> string list \<Rightarrow> group_sync_worker \<times> sync_effect list" where
  "sync_run syncs w [] = (w, [])"
| "sync_run syncs w (u # us) =
     (case on_new_upn syncs w u of (w1, effs, _) \<Rightarrow>
      case sync_run syncs w1 us of (w2, effs1) \<Rightarrow> (w2, effs @ effs1))"

lemma sync_run_once:
  "sync_run syncs w us = (w1, effs) \<Longrightarrow>
   distinct effs \<and> gw_seen_upns w1 = gw_seen_upns w \<union> set us \<and>
   (\<forall>e \<in> set effs. \<exists>i u. e = SyncUser i u \<and> i < length syncs \<and> u \<in> set us - gw_seen_upns w)"
proof (induction us arbitrary: w effs)
  case (Cons u us)
  obtain w2 effs2 r where o: "on_new_upn syncs w u = (w2, effs2, r)" by (cases "on_new_upn syncs w u")
  obtain effs3 where s: "sync_run syncs w2 us = (w1, effs3)" and e: "effs = effs2 @ effs3"
    using Cons.prems o by (auto split: prod.splits)
  note ih = Cons.IH[OF s]
  show ?case
  proof (cases "u \<in> gw_seen_upns w")
    case True
    then have "w2 = w" "effs2 = []" using o by (auto simp: on_new_upn_def)
    then show ?thesis using ih e True by auto
  next
    case False
    then have w2: "gw_seen_upns w2 = insert u (gw_seen_upns w)"
      and c: "call_syncs (\<lambda>d. dir_sync_user d u) (\<lambda>i. SyncUser i u) 0 syncs = (effs2, r)"
      using o by (auto simp: on_new_upn_def)
    from call_syncs_effects[OF c] obtain m where m: "m \<le> length syncs" "effs2 = map (\<lambda>i. SyncUser i u) [0..<m]" by auto
    then have "distinct effs2" by (auto simp: distinct_map inj_on_def)
    then show ?thesis using ih e w2 m False by fastforce
  qed
qed simp

text \<open>
  Group synchronisation writes nothing. What a cycle or a new name does depends only on which
  calls raise, never on the groups the directories return; the statements executed are at most the refresh
  of the view and the notification; and in the life of the process a name is looked up in a directory at
  most once, also when the lookup failed.
\<close>

theorem sync_discards_groups:
  "(list_all2 (\<lambda>d d1. (\<forall>u. map_sum id (\<lambda>_. ()) (dir_sync_user d u) = map_sum id (\<lambda>_. ()) (dir_sync_user d1 u)) \<and>
       map_sum id (\<lambda>_. ()) (dir_sync_all d) = map_sum id (\<lambda>_. ()) (dir_sync_all d1)) ds ds1 \<longrightarrow>
     full_cycle exec ds w = full_cycle exec ds1 w \<and> on_new_upn ds w u = on_new_upn ds1 w u) \<and>
   (\<forall>q. Sql q \<in> set (fst (full_cycle exec ds w)) \<longrightarrow>
     q \<in> {''REFRESH MATERIALIZED VIEW CONCURRENTLY group_members;'', ''NOTIFY groups_changed;''}) \<and>
   distinct (snd (sync_run ds (new_group_sync_worker b) us)) \<and>
   (\<forall>q. Sql q \<notin> set (snd (sync_run ds (new_group_sync_worker b) us)))"
proof (intro conjI impI allI)
  assume l: "list_all2 (\<lambda>d d1. (\<forall>u. map_sum id (\<lambda>_. ()) (dir_sync_user d u) = map_sum id (\<lambda>_. ()) (dir_sync_user d1 u)) \<and>
       map_sum id (\<lambda>_. ()) (dir_sync_all d) = map_sum id (\<lambda>_. ()) (dir_sync_all d1)) ds ds1"
  have "call_syncs dir_sync_all SyncAll 0 ds = call_syncs dir_sync_all SyncAll 0 ds1"
    by (rule call_syncs_cong) (rule list_all2_mono[OF l], blast)
  then show "full_cycle exec ds w = full_cycle exec ds1 w" by (simp add: full_cycle_def)
  have "call_syncs (\<lambda>d. dir_sync_user d u) (\<lambda>i. SyncUser i u) 0 ds =
      call_syncs (\<lambda>d. dir_sync_user d u) (\<lambda>i. SyncUser i u) 0 ds1"
    by (rule call_syncs_cong) (rule list_all2_mono[OF l], blast)
  then show "on_new_upn ds w u = on_new_upn ds1 w u" by (simp add: on_new_upn_def)
next
  fix q assume q: "Sql q \<in> set (fst (full_cycle exec ds w))"
  obtain effs r where c: "call_syncs dir_sync_all SyncAll 0 ds = (effs, r)" by (cases "call_syncs dir_sync_all SyncAll 0 ds")
  have "Sql q \<notin> set effs" using call_syncs_effects[OF c] by auto
  then show "q \<in> {''REFRESH MATERIALIZED VIEW CONCURRENTLY group_members;'', ''NOTIFY groups_changed;''}"
    using q c by (auto simp: full_cycle_def refresh_and_notify_def Let_def split: sum.splits if_splits option.splits)
next
  obtain w1 effs where r: "sync_run ds (new_group_sync_worker b) us = (w1, effs)"
    by (cases "sync_run ds (new_group_sync_worker b) us")
  from sync_run_once[OF r] show "distinct (snd (sync_run ds (new_group_sync_worker b) us))" using r by simp
  fix q from sync_run_once[OF r] show "Sql q \<notin> set (snd (sync_run ds (new_group_sync_worker b) us))" using r by auto
qed

theorem sync_discards_groups_witness:
  "full_cycle (\<lambda>_. None) [\<lparr>dir_sync_user = \<lambda>u. Inr [ad_upsert u ''CN=Sales,DC=x''], dir_sync_all = Inr []\<rparr>]
     (new_group_sync_worker True) =
   full_cycle (\<lambda>_. None) [\<lparr>dir_sync_user = \<lambda>_. Inr [], dir_sync_all = Inr [ad_upsert ''u'' ''CN=Sales,DC=x'']\<rparr>]
     (new_group_sync_worker True)"
  using sync_discards_groups[of "[\<lparr>dir_sync_user = \<lambda>u. Inr [ad_upsert u ''CN=Sales,DC=x''], dir_sync_all = Inr []\<rparr>]"
      "[\<lparr>dir_sync_user = \<lambda>_. Inr [], dir_sync_all = Inr [ad_upsert ''u'' ''CN=Sales,DC=x'']\<rparr>]" "\<lambda>_. None"
      "new_group_sync_worker True"] by simp

text \<open>
  The groups of an Entra user: on a finite listing whose groups have identifiers, \<open>sync_user\<close> returns one
  row per group object of the listing, in order, and nothing for other directory objects.
\<close>

definition group_row_of :: "string \<Rightarrow> graph_object \<Rightarrow> group_upsert" where
  "group_row_of upn g = \<lparr>gu_user_upn = upn, gu_group_id = the (go_id g),
     gu_group_name = the (py_or (go_display_name g) (go_id g)), gu_group_source = ''entra''\<rparr>"

abbreviation is_group :: "graph_object \<Rightarrow> bool" where
  "is_group g \<equiv> go_type g = Some ''#microsoft.graph.group''"

lemma entra_upserts_ok:
  "\<forall>g \<in> set gs. is_group g \<longrightarrow> go_id g \<noteq> None \<Longrightarrow>
   entra_upserts upn gs = Inr (map (group_row_of upn) (filter is_group gs))"
  by (induction gs) (auto simp: group_row_of_def)

lemma entra_pages_ok:
  "\<forall>p \<in> set ps. \<forall>g \<in> set (pg_value p). is_group g \<longrightarrow> go_id g \<noteq> None \<Longrightarrow>
   fold_pages (entra_user_page upn) out ps =
     Some (out @ map (group_row_of upn) (filter is_group (concat (map pg_value ps))), Inr ())"
  by (induction ps arbitrary: out) (auto simp: entra_user_page_def entra_upserts_ok)

theorem entra_sync_user_complete:
  assumes "listing (fetch tok) (Some (''https://graph.microsoft.com/v1.0/users/'' @ upn @ ''/transitiveMemberOf'')) ps"
    and "\<forall>p \<in> set ps. \<forall>g \<in> set (pg_value p). is_group g \<longrightarrow> go_id g \<noteq> None"
  shows "entra_sync_user (Inr tok) fetch upn =
    Some (Inr (map (group_row_of upn) (filter is_group (concat (map pg_value ps)))))"
  unfolding entra_sync_user_def sum.case paged_listing[OF assms(1)] entra_pages_ok[OF assms(2)] by simp

end
