(* ===== verification/Storage.thy ===== *)
theory Storage
  imports Schema Writer Group_Sync
begin

text \<open>
  The database behind the services: which rows the \<open>COPY\<close> of the writer accepts (\<open>correlator/pipeline/writer.py\<close>, \<open>_flush\<close>) and which statements of the group
  synchronisation run, on the schema of the migrations. \<open>inet_ok\<close> says which texts the driver takes for an address. Integers have the ranges of
  their types, a text holds no NUL, an instant is one that a \<open>datetime\<close> can hold.
\<close>

section \<open>Values\<close>

datatype sql_value = VTime instant | VText string | VInt int

fun fits :: "(string \<Rightarrow> bool) \<Rightarrow> sql_type \<Rightarrow> sql_value \<Rightarrow> bool" where
  "fits inet_ok Timestamptz (VTime t) = representable t"
| "fits inet_ok Inet (VText s) = inet_ok s"
| "fits inet_ok Text (VText s) = (CHR 0x00 \<notin> set s)"
| "fits inet_ok Int2 (VInt i) = (- (2 ^ 15) \<le> i \<and> i < 2 ^ 15)"
| "fits inet_ok Int4 (VInt i) = (- (2 ^ 31) \<le> i \<and> i < 2 ^ 31)"
| "fits inet_ok Int8 (VInt i) = (- (2 ^ 63) \<le> i \<and> i < 2 ^ 63)"
| "fits inet_ok _ _ = False"

definition row_values :: "flow_record \<Rightarrow> (string \<times> sql_value) list" where
  "row_values r = [(''time'', VTime (fr_time r)), (''src_ip'', VText (fr_src_ip r)), (''dst_ip'', VText (fr_dst_ip r)),
     (''dst_port'', VInt (fr_dst_port r)), (''proto'', VInt (fr_proto r)), (''bytes'', VInt (fr_bytes r)), (''packets'', VInt (fr_packets r)),
     (''flow_count'', VInt (fr_flow_count r)), (''source'', VText (fr_source r))]"

definition row_fits :: "(string \<Rightarrow> bool) \<Rightarrow> relation \<Rightarrow> flow_record \<Rightarrow> bool" where
  "row_fits inet_ok t r \<longleftrightarrow> list_all (\<lambda>(n, v). case find (\<lambda>c. co_name c = n) (rl_columns t) of
     None \<Rightarrow> False | Some c \<Rightarrow> fits inet_ok (co_type c) v) (row_values r)"

text \<open>\<open>copy_records_to_table\<close> takes a batch as a whole.\<close>

definition copy_records :: "(string \<Rightarrow> bool) \<Rightarrow> schema \<Rightarrow> flow_record list \<Rightarrow> bool" where
  "copy_records inet_ok s rows \<longleftrightarrow> refused s copy_flows = None \<and>
     (case relation_named s ''flows'' of None \<Rightarrow> False | Some t \<Rightarrow> list_all (row_fits inet_ok t) rows)"

section \<open>Batches\<close>

text \<open>The batches that a run hands to \<open>_flush\<close>, whatever becomes of them.\<close>

fun batches :: "writer \<Rightarrow> writer_input list \<Rightarrow> flow_record list list" where
  "batches w [] = []"
| "batches w (i # is) = (case writer_step (\<lambda>_. True) w i of (w1, b, _) \<Rightarrow> (if b = [] then [] else [b]) @ batches w1 is)"

lemma step_batch:
  assumes "writer_step (\<lambda>_. True) w i = (w1, b, x)"
  shows "writer_step copy w i = (w1, if b = [] \<or> copy b then (b, []) else ([], b))" and "x = []"
  using assms by (auto simp: writer_step_def Let_def flush_safe_def flush_rows_def split: writer_input.splits if_splits)

lemma run_batches:
  "writer_run copy w is = (w1, ok, lost) \<Longrightarrow>
   ok = concat (filter copy (batches w is)) \<and> lost = concat (filter (\<lambda>b. \<not> copy b) (batches w is))"
proof (induction "is" arbitrary: w ok lost)
  case (Cons i "is")
  obtain w2 b where s: "writer_step (\<lambda>_. True) w i = (w2, b, [])"
    using step_batch(2) by (metis surj_pair)
  obtain ok2 lost2 where r: "writer_run copy w2 is = (w1, ok2, lost2)"
    "ok = (if b = [] \<or> copy b then b else []) @ ok2" "lost = (if b = [] \<or> copy b then [] else b) @ lost2"
    using Cons.prems step_batch(1)[OF s, of copy] by (auto split: prod.splits if_splits)
  show ?case using Cons.IH[OF r(1)] by (auto simp: s r(2,3))
qed simp

lemma run_batches_all: "writer_run copy w is = (w1, ok, lost) \<Longrightarrow>
   concat (batches w is) @ wr_buf w1 = wr_buf w @ map flow_record_of (items_of is)"
proof -
  assume r: "writer_run copy w is = (w1, ok, lost)"
  obtain ok2 lost2 w2 where t: "writer_run (\<lambda>_. True) w is = (w2, ok2, lost2)" by (metis surj_pair)
  have "fst (writer_run copy w is) = fst (writer_run (\<lambda>_. True) w is)"
  proof (induction "is" arbitrary: w)
    case (Cons i "is")
    obtain v b where s: "writer_step (\<lambda>_. True) w i = (v, b, [])" using step_batch(2) by (metis surj_pair)
    from Cons[of v] show ?case
      using step_batch(1)[OF s, of copy] by (auto simp: s split: prod.splits)
  qed simp
  then have "w2 = w1" by (simp add: r t)
  then show ?thesis using writer_run_order[OF _ t] run_batches[OF t] by simp
qed

definition storable :: "(string \<Rightarrow> bool) \<Rightarrow> flow_record \<Rightarrow> bool" where
  "storable inet_ok r \<longleftrightarrow> representable (fr_time r) \<and> inet_ok (fr_src_ip r) \<and> inet_ok (fr_dst_ip r) \<and>
     - (2 ^ 31) \<le> fr_dst_port r \<and> fr_dst_port r < 2 ^ 31 \<and> - (2 ^ 15) \<le> fr_proto r \<and> fr_proto r < 2 ^ 15 \<and>
     - (2 ^ 63) \<le> fr_bytes r \<and> fr_bytes r < 2 ^ 63 \<and> - (2 ^ 63) \<le> fr_packets r \<and> fr_packets r < 2 ^ 63 \<and>
     - (2 ^ 31) \<le> fr_flow_count r \<and> fr_flow_count r < 2 ^ 31 \<and> CHR 0x00 \<notin> set (fr_source r)"

lemma row_fits_flows: "row_fits inet_ok flows_table r = storable inet_ok r"
  by (auto simp: row_fits_def row_values_def flows_table_def col_def storable_def)

lemma copy_head:
  assumes "foreign s" and "migrate_to 5 s = Inr s1"
  shows "copy_records inet_ok s1 = list_all (storable inet_ok)"
proof -
  have a: "apart (set app_relations) (set app_functions) s" using assms(1) by (simp add: foreign_def)
  have "refused s1 copy_flows = None"
    using refused_beside[OF a, of copy_flows head_schema] head_facts(2) head_of[OF assms]
    by (simp add: copy_flows_def app_relations_def service_statements_def)
  moreover have "relation_named s1 ''flows'' = Some flows_table"
    using relation_named_beside[OF a, of "''flows''" head_schema] head_facts(4) head_of[OF assms] by (simp add: app_relations_def)
  moreover have "row_fits inet_ok flows_table = storable inet_ok" using row_fits_flows by blast
  ultimately show ?thesis by (intro ext) (simp add: copy_records_def)
qed

lemma batch_sizes:
  "int (length (wr_buf w)) < wr_batch_size w \<Longrightarrow> b \<in> set (batches w is) \<Longrightarrow> b \<noteq> [] \<and> int (length b) \<le> wr_batch_size w"
proof (induction "is" arbitrary: w)
  case (Cons i "is")
  obtain v c where s: "writer_step (\<lambda>_. True) w i = (v, c, [])" using step_batch(2) by (metis surj_pair)
  have p: "0 < wr_batch_size w" using Cons.prems(1) by linarith
  have c: "int (length c) \<le> wr_batch_size w"
    using s Cons.prems(1) by (auto simp: writer_step_def Let_def flush_safe_def flush_rows_def split: writer_input.splits if_splits)
  have "int (length (wr_buf v)) < wr_batch_size v" "wr_batch_size v = wr_batch_size w"
    using writer_step_buf(2,3)[OF s] p Cons.prems(1) by auto
  with Cons.IH[of v] Cons.prems(2) c show ?case by (auto simp: s split: if_splits)
qed simp

section \<open>Properties\<close>

text \<open>
  C12: what the table of flows receives. On the migrated schema, after any run of the writer, the flows taken are the batches, in order, and then
  the buffer; a batch has at most \<open>batch_size\<close> rows; a batch whose rows all fit the columns is stored as a whole and in order; and a batch
  with a single row that does not fit, because its address is no address or a number exceeds its column, is lost as a whole, with all the
  flows of other sources that are in it.
\<close>

theorem poisoned_batch_lost:
  assumes "foreign s" and "migrate_to 5 s = Inr s1" and "0 < n"
    and "writer_run (copy_records inet_ok s1) (new_writer n ms now) is = (w, ok, lost)"
    and "bs = batches (new_writer n ms now) is"
  shows "concat bs @ wr_buf w = map flow_record_of (items_of is) \<and> (\<forall>b \<in> set bs. b \<noteq> [] \<and> int (length b) \<le> n) \<and>
    ok = concat (filter (\<lambda>b. \<forall>r \<in> set b. storable inet_ok r) bs) \<and>
    lost = concat (filter (\<lambda>b. \<exists>r \<in> set b. \<not> storable inet_ok r) bs)"
proof -
  have c: "copy_records inet_ok s1 = (\<lambda>b. \<forall>r \<in> set b. storable inet_ok r)"
    by (simp add: copy_head[OF assms(1,2)] list_all_iff fun_eq_iff)
  show ?thesis
    using run_batches[OF assms(4)] run_batches_all[OF assms(4)] batch_sizes[of "new_writer n ms now"] assms(3,5)
    by (auto simp: c new_writer_def)
qed

definition labelled_at :: "string \<Rightarrow> labelled_flow" where
  "labelled_at ip = (demo_flow 0)\<lparr>lf_src_ip := ip, lf_dst_ip := ''1.1.1.1''\<rparr>"

theorem poisoned_batch_lost_witness:
  "case writer_run (copy_records (\<lambda>s. s \<in> {''10.0.0.1'', ''1.1.1.1''}) head_schema) (new_writer 2 500 0)
       (map (\<lambda>ip. Item (labelled_at ip) 1) [''10.0.0.1'', ''a'', ''10.0.0.1'', ''10.0.0.1'']) of
     (w, ok, lost) \<Rightarrow> ok = map (flow_record_of \<circ> labelled_at) [''10.0.0.1'', ''10.0.0.1''] \<and>
       lost = map (flow_record_of \<circ> labelled_at) [''10.0.0.1'', ''a'']"
proof -
  let ?is = "map (\<lambda>ip. Item (labelled_at ip) 1) [''10.0.0.1'', ''a'', ''10.0.0.1'', ''10.0.0.1'']"
  let ?ok = "\<lambda>s. s \<in> {''10.0.0.1'', ''1.1.1.1''}"
  obtain w ok lost where r: "writer_run (copy_records ?ok head_schema) (new_writer 2 500 0) ?is = (w, ok, lost)" by (metis surj_pair)
  have f: "foreign empty_schema" by code_simp
  have b: "batches (new_writer 2 500 0) ?is =
      [map (flow_record_of \<circ> labelled_at) [''10.0.0.1'', ''a''], map (flow_record_of \<circ> labelled_at) [''10.0.0.1'', ''10.0.0.1'']]"
    by (simp add: new_writer_def writer_step_def Let_def flush_safe_def flush_rows_def)
  have s: "storable ?ok (flow_record_of (labelled_at ''10.0.0.1''))" "\<not> storable ?ok (flow_record_of (labelled_at ''a''))"
    by (simp_all add: storable_def flow_record_of_def labelled_at_def demo_flow_def representable_def epoch_ord_def us_per_day_def)
  show ?thesis using poisoned_batch_lost[OF f head_facts(1) _ r b[symmetric]] s unfolding r by simp
qed

text \<open>The statements of the notifier as texts; \<open>RuntimeError\<close> stands for the exception of the driver.\<close>

definition statement_of :: "string \<Rightarrow> sql option" where
  "statement_of stmt =
     (if starts_with ''REFRESH MATERIALIZED VIEW CONCURRENTLY '' stmt
      then Some (RefreshConcurrently (takeWhile (\<lambda>c. c \<noteq> CHR '';'') (drop (length ''REFRESH MATERIALIZED VIEW CONCURRENTLY '') stmt)))
      else if starts_with ''NOTIFY '' stmt then Some (Notify (takeWhile (\<lambda>c. c \<noteq> CHR '';'') (drop (length ''NOTIFY '') stmt)))
      else None)"

definition exec_sql :: "schema \<Rightarrow> string \<Rightarrow> py_error option" where
  "exec_sql s stmt = (case statement_of stmt of None \<Rightarrow> None | Some st \<Rightarrow> map_option (\<lambda>_. RuntimeError) (refused s st))"

text \<open>
  C34: a change of groups is never announced. On the migrated schema the view \<open>group_members\<close> has no unique index, which its concurrent
  refresh needs: whatever the directories answer, a full cycle of the group synchronisation ends with an exception, and \<open>NOTIFY groups_changed\<close>,
  which comes after the refresh, is not executed, so that the correlator keeps the groups of its start.
\<close>

theorem groups_never_notified:
  assumes "foreign s" and "migrate_to 5 s = Inr s1" and "gw_notifier w" and "full_cycle (exec_sql s1) syncs w = (effs, r)"
  shows "(\<exists>e. r = Inl e) \<and> Sql ''NOTIFY groups_changed;'' \<notin> set effs"
proof -
  have a: "apart (set app_relations) (set app_functions) s" using assms(1) by (simp add: foreign_def)
  have "refused s1 (RefreshConcurrently ''group_members'') = Some NotInPrerequisiteState"
    using refused_beside[OF a, of "RefreshConcurrently ''group_members''" head_schema] head_facts(3) head_of[OF assms(1,2)]
    by (simp add: app_relations_def)
  then have x: "exec_sql s1 ''REFRESH MATERIALIZED VIEW CONCURRENTLY group_members;'' = Some RuntimeError"
    by (simp add: exec_sql_def statement_of_def starts_with_def)
  obtain effs1 r1 where c: "call_syncs dir_sync_all SyncAll 0 syncs = (effs1, r1)" by fastforce
  have "Sql q \<notin> set effs1" for q
    using call_syncs_effects[of dir_sync_all SyncAll 0 syncs] c by auto
  with assms(3,4) x c show ?thesis
    by (auto simp: full_cycle_def refresh_and_notify_def Let_def split: sum.splits)
qed

theorem groups_never_notified_witness:
  "case full_cycle (exec_sql head_schema) [] (new_group_sync_worker True) of
     (effs, r) \<Rightarrow> r \<noteq> Inr () \<and> Sql ''NOTIFY groups_changed;'' \<notin> set effs"
proof -
  have f: "foreign empty_schema" by code_simp
  obtain effs r where c: "full_cycle (exec_sql head_schema) [] (new_group_sync_worker True) = (effs, r)" by fastforce
  from groups_never_notified[OF f head_facts(1) _ c] show ?thesis unfolding c by (auto simp: new_group_sync_worker_def)
qed

end
