(* ===== verification/Api_History.thy ===== *)
theory Api_History
  imports Api_Flows Storage
begin

text \<open>
  The historical diagram: the continuous aggregate \<open>flows_1m\<close> over the stored flows (\<open>migrate/alembic/versions/0001_init_flows.py\<close>), its refresh
  policy, and the query of \<open>api/src/api/routers/flows.py\<close> on it. The order in which the database returns the groups of a query is left open, and
  its cast of an \<open>inet\<close> to text is the parameter \<open>shw\<close>.
\<close>

section \<open>Grouping\<close>

text \<open>\<open>GROUP BY\<close>: one entry for every key, with the rows that have it.\<close>

definition group_rows :: "('r \<Rightarrow> 'k) \<Rightarrow> 'r list \<Rightarrow> ('k \<times> 'r list) list" where
  "group_rows key rows = map (\<lambda>k. (k, filter (\<lambda>r. key r = k) rows)) (remdups (map key rows))"

lemma sum_by_key:
  fixes m :: "'r \<Rightarrow> int"
  assumes "finite K" and "key ` set rows \<subseteq> K"
  shows "(\<Sum>k\<in>K. sum_list (map m (filter (\<lambda>r. key r = k) rows))) = sum_list (map m rows)"
  using assms(2)
proof (induction rows)
  case (Cons r rows)
  have "(\<Sum>k\<in>K. sum_list (map m (filter (\<lambda>x. key x = k) (r # rows)))) =
      (\<Sum>k\<in>K. (if key r = k then m r else 0) + sum_list (map m (filter (\<lambda>x. key x = k) rows)))"
    by (rule sum.cong) auto
  also have "\<dots> = m r + sum_list (map m rows)" using Cons assms(1) by (simp add: sum.distrib)
  finally show ?case by simp
qed simp

lemma group_rows_sum:
  "sum_list (map (\<lambda>(k, rs). sum_list (map m rs)) (filter (\<lambda>(k, rs). P k) (group_rows key rows))) =
   (sum_list (map m (filter (\<lambda>r. P (key r)) rows)) :: int)"
proof -
  have "sum_list (map (\<lambda>(k, rs). sum_list (map m rs)) (filter (\<lambda>(k, rs). P k) (group_rows key rows))) =
      sum_list (map (\<lambda>k. sum_list (map m (filter (\<lambda>r. key r = k) rows))) (filter P (remdups (map key rows))))"
    by (simp add: group_rows_def filter_map comp_def)
  also have "\<dots> = (\<Sum>k\<in>set (filter P (map key rows)). sum_list (map m (filter (\<lambda>r. key r = k) rows)))"
    by (simp add: sum_list_distinct_conv_sum_set)
  also have "\<dots> = (\<Sum>k\<in>set (filter P (map key rows)). sum_list (map m (filter (\<lambda>r. key r = k) (filter (\<lambda>r. P (key r)) rows))))"
    by (rule sum.cong) (auto intro!: arg_cong[of _ _ "\<lambda>l. sum_list (map m l)"] filter_cong)
  also have "\<dots> = sum_list (map m (filter (\<lambda>r. P (key r)) rows))"
    by (rule sum_by_key) auto
  finally show ?thesis .
qed

lemma group_rows_keys: "map fst (group_rows key rows) = remdups (map key rows)"
  by (simp add: group_rows_def comp_def)

section \<open>The view of minutes\<close>

definition us_per_minute :: int where
  "us_per_minute = 60 * us_per_s"

definition time_bucket :: "instant \<Rightarrow> instant" where
  "time_bucket t = t div us_per_minute * us_per_minute"

type_synonym talk = "inet \<times> inet \<times> int \<times> int"

definition talk_key :: "raw_flow \<Rightarrow> talk" where
  "talk_key r = (rf_src_ip r, rf_dst_ip r, rf_dst_port r, rf_proto r)"

record minute_row =
  mi_bucket :: instant
  mi_key :: talk
  mi_bytes :: int
  mi_packets :: int
  mi_flow_count :: int

definition minute_rows :: "raw_flow list \<Rightarrow> minute_row list" where
  "minute_rows flows = map (\<lambda>((b, k), rs). \<lparr>mi_bucket = b, mi_key = k, mi_bytes = sum_list (map rf_bytes rs),
       mi_packets = sum_list (map rf_packets rs), mi_flow_count = sum_list (map rf_flow_count rs)\<rparr>)
     (group_rows (\<lambda>r. (time_bucket (rf_time r), talk_key r)) flows)"

text \<open>
  A run of the refresh policy replaces the minutes that lie in its window, from three hours to one minute ago, by those of the table; what is older
  stays as it was.
\<close>

definition refreshed :: "instant \<Rightarrow> instant \<Rightarrow> bool" where
  "refreshed now b \<longleftrightarrow> now - 180 * us_per_minute \<le> b \<and> b + us_per_minute \<le> now - us_per_minute"

definition refresh_policy :: "instant \<Rightarrow> raw_flow list \<Rightarrow> minute_row list \<Rightarrow> minute_row list" where
  "refresh_policy now flows view = filter (\<lambda>m. \<not> refreshed now (mi_bucket m)) view @
     filter (\<lambda>m. refreshed now (mi_bucket m)) (minute_rows flows)"

definition flows_1m :: "(instant \<times> raw_flow list) list \<Rightarrow> minute_row list" where
  "flows_1m runs = foldl (\<lambda>view (now, flows). refresh_policy now flows view) [] runs"

text \<open>The table that the last run covering a minute has seen.\<close>

definition last_seen :: "(instant \<times> raw_flow list) list \<Rightarrow> instant \<Rightarrow> raw_flow list" where
  "last_seen runs b = (case find (\<lambda>(now, _). refreshed now b) (rev runs) of None \<Rightarrow> [] | Some (_, flows) \<Rightarrow> flows)"

abbreviation of_minute :: "instant \<Rightarrow> raw_flow list \<Rightarrow> raw_flow list" where
  "of_minute b flows \<equiv> filter (\<lambda>r. time_bucket (rf_time r) = b) flows"

lemma minute_rows_of_minute: "filter (\<lambda>m. mi_bucket m = b) (minute_rows flows) = minute_rows (of_minute b flows)"
proof -
  let ?key = "\<lambda>r. (time_bucket (rf_time r), talk_key r)"
  have k: "filter (\<lambda>k. fst k = b) (remdups (map ?key flows)) = remdups (map ?key (of_minute b flows))"
    by (simp add: remdups_filter[symmetric] filter_map comp_def)
  have "filter (\<lambda>(k, rs). fst k = b) (group_rows ?key flows) =
      map (\<lambda>k. (k, filter (\<lambda>r. ?key r = k) flows)) (filter (\<lambda>k. fst k = b) (remdups (map ?key flows)))"
    by (simp add: group_rows_def filter_map comp_def)
  also have "\<dots> = group_rows ?key (of_minute b flows)"
    unfolding k group_rows_def by (auto intro!: filter_cong)
  finally show ?thesis
    by (simp add: minute_rows_def filter_map comp_def case_prod_unfold)
qed

lemma flows_1m_snoc: "flows_1m (runs @ [(now, flows)]) = refresh_policy now flows (flows_1m runs)"
  by (simp add: flows_1m_def)

lemma flows_1m_minute: "filter (\<lambda>m. mi_bucket m = b) (flows_1m runs) = minute_rows (of_minute b (last_seen runs b))"
proof (induction runs rule: rev_induct)
  case Nil
  show ?case by (simp add: flows_1m_def last_seen_def minute_rows_def group_rows_def)
next
  case (snoc x runs)
  obtain now flows where x: "x = (now, flows)" by force
  have f: "filter (\<lambda>m. mi_bucket m = b) (filter (\<lambda>m. Q (mi_bucket m)) ms) = (if Q b then filter (\<lambda>m. mi_bucket m = b) ms else [])" for Q and ms :: "minute_row list"
    by (induction ms) auto
  show ?case
    using snoc.IH f[of "\<lambda>b. \<not> refreshed now b"] f[of "refreshed now"]
    by (auto simp: x flows_1m_snoc refresh_policy_def last_seen_def minute_rows_of_minute)
qed

text \<open>A view that is up to date in a range of time holds the minutes of the table there.\<close>

definition up_to_date :: "(instant \<times> raw_flow list) list \<Rightarrow> raw_flow list \<Rightarrow> instant \<Rightarrow> instant \<Rightarrow> bool" where
  "up_to_date runs flows f t \<longleftrightarrow> (\<forall>b. f \<le> b \<and> b < t \<longrightarrow> of_minute b (last_seen runs b) = of_minute b flows)"

lemma up_to_date_rows:
  assumes "up_to_date runs flows f t"
  shows "mset (filter (\<lambda>m. f \<le> mi_bucket m \<and> mi_bucket m < t) (flows_1m runs)) =
    mset (filter (\<lambda>m. f \<le> mi_bucket m \<and> mi_bucket m < t) (minute_rows flows))"
proof (rule multiset_eqI)
  fix m :: minute_row
  have c: "count (mset (filter (\<lambda>m. f \<le> mi_bucket m \<and> mi_bucket m < t) ms)) m =
      (if f \<le> mi_bucket m \<and> mi_bucket m < t then count (mset (filter (\<lambda>x. mi_bucket x = mi_bucket m) ms)) m else 0)" for ms :: "minute_row list"
    by (induction ms) auto
  show "count (mset (filter (\<lambda>m. f \<le> mi_bucket m \<and> mi_bucket m < t) (flows_1m runs))) m =
      count (mset (filter (\<lambda>m. f \<le> mi_bucket m \<and> mi_bucket m < t) (minute_rows flows))) m"
    using assms unfolding c up_to_date_def flows_1m_minute minute_rows_of_minute by simp
qed

section \<open>The historical query\<close>

definition history_group :: "(inet \<Rightarrow> string) \<Rightarrow> talk \<times> minute_row list \<Rightarrow> history_row" where
  "history_group shw g = (case g of ((src, dst, port, proto), rs) \<Rightarrow> \<lparr>hr_src_ip = shw src, hr_dst_ip = shw dst, hr_dst_port = port,
     hr_bytes = sum_list (map mi_bytes rs), hr_flow_count = sum_list (map mi_flow_count rs)\<rparr>)"

definition history_select :: "(inet \<Rightarrow> string) \<Rightarrow> minute_row list \<Rightarrow> instant \<Rightarrow> instant \<Rightarrow> history_row list" where
  "history_select shw view f t =
     map (history_group shw) (group_rows mi_key (filter (\<lambda>m. f \<le> mi_bucket m \<and> mi_bucket m < t) view))"

text \<open>The labels that the diagram gives a stored flow.\<close>

definition history_labels :: "(inet \<Rightarrow> string) \<Rightarrow> talk \<Rightarrow> string \<times> string" where
  "history_labels shw k = (case k of (src, dst, port, _) \<Rightarrow> (''ip:'' @ shw src, ''app:'' @ shw dst @ '':'' @ show_int port))"

definition link_labels :: "link \<Rightarrow> string \<times> string" where
  "link_labels lk = (ln_src lk, ln_dst lk)"

lemma history_group_link:
  "link_labels (history_link (history_group shw g)) = history_labels shw (fst g)"
  "ln_bytes (history_link (history_group shw g)) = sum_list (map mi_bytes (snd g))"
  "ln_flows (history_link (history_group shw g)) = sum_list (map mi_flow_count (snd g))"
  by (simp_all add: link_labels_def history_link_def history_group_def history_labels_def split: prod.splits)

text \<open>The links of a range carry the amounts of the groups: for every choice of labels they sum to those of the rows of the view.\<close>

lemma history_links_sum:
  fixes view :: "minute_row list" and f t :: instant and shw :: "inet \<Rightarrow> string"
  defines "rows \<equiv> filter (\<lambda>m. f \<le> mi_bucket m \<and> mi_bucket m < t) view"
    and "links \<equiv> map history_link (history_select shw view f t)"
  shows "sum_list (map ln_bytes (filter (\<lambda>lk. P (link_labels lk)) links)) =
      sum_list (map mi_bytes (filter (\<lambda>m. P (history_labels shw (mi_key m))) rows))"
    and "sum_list (map ln_flows (filter (\<lambda>lk. P (link_labels lk)) links)) =
      sum_list (map mi_flow_count (filter (\<lambda>m. P (history_labels shw (mi_key m))) rows))"
  using group_rows_sum[of mi_bytes "\<lambda>k. P (history_labels shw k)" mi_key rows]
    group_rows_sum[of mi_flow_count "\<lambda>k. P (history_labels shw k)" mi_key rows]
  by (simp_all add: links_def history_select_def rows_def[symmetric] filter_map comp_def history_group_link case_prod_unfold)

text \<open>And the rows of the view carry those of the stored flows.\<close>

lemma minute_rows_sum:
  "sum_list (map mi_bytes (filter (\<lambda>m. P (mi_bucket m) (mi_key m)) (minute_rows flows))) =
     sum_list (map rf_bytes (filter (\<lambda>r. P (time_bucket (rf_time r)) (talk_key r)) flows))"
  "sum_list (map mi_flow_count (filter (\<lambda>m. P (mi_bucket m) (mi_key m)) (minute_rows flows))) =
     sum_list (map rf_flow_count (filter (\<lambda>r. P (time_bucket (rf_time r)) (talk_key r)) flows))"
  using group_rows_sum[of _ "\<lambda>k. P (fst k) (snd k)" "\<lambda>r. (time_bucket (rf_time r), talk_key r)" flows]
  by (simp_all add: minute_rows_def filter_map comp_def case_prod_unfold)

definition in_range :: "instant \<Rightarrow> instant \<Rightarrow> raw_flow \<Rightarrow> bool" where
  "in_range f t r \<longleftrightarrow> f \<le> time_bucket (rf_time r) \<and> time_bucket (rf_time r) < t"

lemma history_sum:
  assumes "up_to_date runs flows f t" and "mset rows = mset (history_select shw (flows_1m runs) f t)"
  shows "sum_list (map ln_bytes (filter (\<lambda>lk. P (link_labels lk)) (map history_link rows))) =
      sum_list (map rf_bytes (filter (\<lambda>r. in_range f t r \<and> P (history_labels shw (talk_key r))) flows))"
    and "sum_list (map ln_flows (filter (\<lambda>lk. P (link_labels lk)) (map history_link rows))) =
      sum_list (map rf_flow_count (filter (\<lambda>r. in_range f t r \<and> P (history_labels shw (talk_key r))) flows))"
proof -
  have l: "sum_list (map g (filter Q (map history_link rows))) =
      sum_list (map g (filter Q (map history_link (history_select shw (flows_1m runs) f t))))" for g :: "link \<Rightarrow> int" and Q
    using assms(2) by (intro sum_list_perm) simp
  have v: "sum_list (map g (filter Q (filter (\<lambda>m. f \<le> mi_bucket m \<and> mi_bucket m < t) (flows_1m runs)))) =
      sum_list (map g (filter Q (filter (\<lambda>m. f \<le> mi_bucket m \<and> mi_bucket m < t) (minute_rows flows))))" for g :: "minute_row \<Rightarrow> int" and Q
    using up_to_date_rows[OF assms(1)] by (intro sum_list_perm) (simp only: mset_filter)
  note s = minute_rows_sum[of "\<lambda>b k. P (history_labels shw k) \<and> f \<le> b \<and> b < t" flows]
  show "sum_list (map ln_bytes (filter (\<lambda>lk. P (link_labels lk)) (map history_link rows))) =
      sum_list (map rf_bytes (filter (\<lambda>r. in_range f t r \<and> P (history_labels shw (talk_key r))) flows))"
    unfolding l history_links_sum v using s(1) by (simp add: in_range_def conj_ac)
  show "sum_list (map ln_flows (filter (\<lambda>lk. P (link_labels lk)) (map history_link rows))) =
      sum_list (map rf_flow_count (filter (\<lambda>r. in_range f t r \<and> P (history_labels shw (talk_key r))) flows))"
    unfolding l history_links_sum v using s(2) by (simp add: in_range_def conj_ac)
qed

section \<open>Properties\<close>

definition wanted_labels :: "sankey_query \<Rightarrow> string \<times> string \<Rightarrow> bool" where
  "wanted_labels q p \<longleftrightarrow> link_wanted q \<lparr>ln_src = fst p, ln_dst = snd p, ln_bytes = 0, ln_flows = 0, ln_users = 0\<rparr>"

lemma link_wanted_labels: "link_wanted q lk = wanted_labels q (link_labels lk)"
  by (cases "ip_network False (the (sq_src_cidr q))") (simp_all add: link_wanted_def wanted_labels_def link_labels_def)

lemma historical_base:
  assumes "\<not> sq_live q" and "sq_from q = Some f" and "sq_to q = Some t"
  obtains base where "base_delta now stored history q = Inr base" and "dl_links base = map history_link (history f t)"
    and "dl_nodes_left base = []" and "dl_nodes_right base = []"
  using assms by (auto simp: base_delta_def)

text \<open>
  C5: the historical diagram adds up what is stored. When the view of minutes is up to date in the range that is asked for, in whatever order
  the database returns the groups, a diagram that is not truncated shows, for every set of labels, exactly the bytes and flows of the stored
  rows whose minute lies in the range, whose labels pass the filters of the request and are in the set; but it has no nodes, so that every
  link of it refers to nodes that are not there.
\<close>

theorem history_shows_stored:
  assumes "up_to_date runs flows f t" and "mset (history f t) = mset (history_select shw (flows_1m runs) f t)"
    and "\<not> sq_live q" and "sq_from q = Some f" and "sq_to q = Some t"
    and "sankey now stored history q = Inr v" and "\<not> sv_truncated v"
  defines "shown \<equiv> dl_links (sv_delta v)"
    and "asked \<equiv> \<lambda>P. filter (\<lambda>r. in_range f t r \<and> wanted_labels q (history_labels shw (talk_key r)) \<and> P (history_labels shw (talk_key r))) flows"
  shows "sum_list (map ln_bytes (filter (\<lambda>lk. P (link_labels lk)) shown)) = sum_list (map rf_bytes (asked P)) \<and>
    sum_list (map ln_flows (filter (\<lambda>lk. P (link_labels lk)) shown)) = sum_list (map rf_flow_count (asked P)) \<and>
    dl_nodes_left (sv_delta v) = [] \<and> dl_nodes_right (sv_delta v) = []"
proof -
  obtain base where b: "base_delta now stored history q = Inr base" "dl_links base = map history_link (history f t)"
    "dl_nodes_left base = []" "dl_nodes_right base = []" by (rule historical_base[OF assms(3,4,5)])
  note spec = sankey_spec[OF b(1) assms(6)]
  let ?w = "filter (link_wanted q) (map history_link (history f t))"
  have "shown = sort_key (\<lambda>lk. - ln_bytes lk) ?w" using spec(1,3) assms(7) by (simp add: shown_def b(2))
  then have m: "mset shown = mset ?w" by simp
  have "sum_list (map g (filter (\<lambda>lk. P (link_labels lk)) shown)) =
      sum_list (map g (filter (\<lambda>lk. wanted_labels q (link_labels lk) \<and> P (link_labels lk)) (map history_link (history f t))))"
    for g :: "link \<Rightarrow> int"
    using m by (intro sum_list_perm) (simp add: link_wanted_labels filter_filter_mset conj_ac)
  then show ?thesis
    using history_sum[OF assms(1,2), of "\<lambda>p. wanted_labels q p \<and> P p"] spec(4,5) b(3,4) by (simp add: asked_def)
qed

definition demo_inet_text :: "inet \<Rightarrow> string" where
  "demo_inet_text a = show_int (int (snd a)) @ ''/32''"

definition demo_raw :: "instant \<Rightarrow> nat \<Rightarrow> int \<Rightarrow> int \<Rightarrow> raw_flow" where
  "demo_raw s src proto n = \<lparr>rf_time = s * us_per_s, rf_src_ip = (4, src), rf_dst_ip = (4, 9), rf_dst_port = 53, rf_proto = proto, rf_bytes = n,
     rf_packets = 1, rf_flow_count = 1, rf_source = ''palo_alto''\<rparr>"

definition demo_history_query :: "string option \<Rightarrow> sankey_query" where
  "demo_history_query net = \<lparr>sq_live = False, sq_limit = 200, sq_src_cidr = net, sq_dst_app = None, sq_group = [],
     sq_user = None, sq_exclude_groups = None, sq_from = Some 0, sq_to = Some (120 * us_per_s)\<rparr>"

definition demo_runs :: "(instant \<times> raw_flow list) list" where
  "demo_runs = [(200 * us_per_s, [demo_raw 10 1 6 5]), (260 * us_per_s, [demo_raw 10 1 6 5, demo_raw 30 1 6 2, demo_raw 70 1 17 3, demo_raw 500 1 6 7])]"

lemma demo_runs_up_to_date: "up_to_date demo_runs (snd (demo_runs ! 1)) 0 (120 * us_per_s)"
  by (auto simp: up_to_date_def last_seen_def demo_runs_def refreshed_def us_per_minute_def us_per_s_def)

lemma demo_history: "history_select demo_inet_text (flows_1m demo_runs) 0 (120 * us_per_s) =
   [\<lparr>hr_src_ip = ''1/32'', hr_dst_ip = ''9/32'', hr_dst_port = 53, hr_bytes = 7, hr_flow_count = 2\<rparr>,
    \<lparr>hr_src_ip = ''1/32'', hr_dst_ip = ''9/32'', hr_dst_port = 53, hr_bytes = 3, hr_flow_count = 1\<rparr>]"
  by code_simp

theorem history_shows_stored_witness:
  "\<exists>v. sankey 0 None (\<lambda>f t. history_select demo_inet_text (flows_1m demo_runs) f t) (demo_history_query None) = Inr v \<and>
     length (dl_links (sv_delta v)) = 2 \<and> sum_list (map ln_bytes (dl_links (sv_delta v))) = 10"
proof -
  let ?h = "\<lambda>f t. history_select demo_inet_text (flows_1m demo_runs) f t" and ?q = "demo_history_query None"
  have q: "\<not> sq_live ?q" "sq_from ?q = Some 0" "sq_to ?q = Some (120 * us_per_s)" "\<not> truthy (sq_src_cidr ?q)"
    by (simp_all add: demo_history_query_def truthy_def)
  obtain base where b: "base_delta 0 None ?h ?q = Inr base" "dl_links base = map history_link (?h 0 (120 * us_per_s))"
    by (rule historical_base[OF q(1,2,3)])
  obtain v where s: "sankey 0 None ?h ?q = Inr v"
    using q(4) unfolding sankey_def b(1) bind_r_simps filter_links_spec by (simp add: Let_def demo_history_query_def)
  have w: "length (filter (link_wanted ?q) (dl_links base)) = 2" unfolding b(2) demo_history by code_simp
  have nt: "\<not> sv_truncated v" using sankey_spec(3)[OF b(1) s] w by (simp add: demo_history_query_def)
  have l: "length (dl_links (sv_delta v)) = 2" using sankey_spec(1)[OF b(1) s] w by (simp add: demo_history_query_def)
  have a: "sum_list (map rf_bytes (filter (\<lambda>r. in_range 0 (120 * us_per_s) r \<and> wanted_labels ?q (history_labels demo_inet_text (talk_key r)) \<and> True)
      (snd (demo_runs ! 1)))) = 10" by code_simp
  show ?thesis
    using history_shows_stored[OF demo_runs_up_to_date refl q(1,2,3) s nt, of "\<lambda>_. True"] s l unfolding a by simp
qed

text \<open>
  A source network empties the historical diagram. The cast of an \<open>inet\<close> to text writes the prefix length with the address, so the source labels
  of the diagram are no addresses for the filter of the request: with a source network the request is refused, when that is no network, or its
  answer has no link, whatever is stored.
\<close>

theorem history_net_empty:
  assumes "\<And>a. CHR ''/'' \<in> set (shw a)" and "mset (history f t) = mset (history_select shw view f t)"
    and "\<not> sq_live q" and "sq_from q = Some f" and "sq_to q = Some t" and "truthy (sq_src_cidr q)"
    and "1 \<le> sq_limit q" and "sq_limit q \<le> 1000"
  shows "sankey now stored history q = Inl (Http 400) \<or>
    (\<exists>v. sankey now stored history q = Inr v \<and> dl_links (sv_delta v) = [] \<and> sv_total_links v = 0)"
proof -
  obtain base where b: "base_delta now stored history q = Inr base" "dl_links base = map history_link (history f t)"
    by (rule historical_base[OF assms(3,4,5)])
  have "in_net net (ln_src (history_link r)) = False" if "r \<in> set (history f t)" for net r
  proof -
    have "r \<in> set (history_select shw view f t)" using that assms(2) by (metis set_mset_mset)
    then have "CHR ''/'' \<in> set (hr_src_ip r)"
      using assms(1) by (auto simp: history_select_def history_group_def split: prod.splits)
    then show ?thesis by (simp add: in_net_def history_link_def removeprefix_def starts_with_def ip_address_def)
  qed
  then have "\<not> link_wanted q (history_link r)" if "r \<in> set (history f t)" for r
    using that assms(6) by (cases "ip_network False (the (sq_src_cidr q))") (simp_all add: link_wanted_def)
  then have w: "filter (link_wanted q) (dl_links base) = []" by (simp add: b(2) filter_empty_conv)
  show ?thesis
  proof (cases "ip_network False (the (sq_src_cidr q))")
    case None
    then show ?thesis using assms(6-8) unfolding sankey_def b(1) bind_r_simps filter_links_spec by simp
  next
    case (Some net)
    then obtain v where s: "sankey now stored history q = Inr v"
      using assms(7,8) unfolding sankey_def b(1) bind_r_simps filter_links_spec by (simp add: Let_def)
    show ?thesis using sankey_spec(1,2)[OF b(1) s] s w by simp
  qed
qed

theorem history_net_empty_witness:
  "\<exists>v. sankey 0 None (\<lambda>f t. history_select demo_inet_text (flows_1m demo_runs) f t) (demo_history_query (Some ''0.0.0.0/0'')) = Inr v \<and>
     dl_links (sv_delta v) = []"
proof -
  have "split_on CHR ''/'' ''0.0.0.0/0'' = [''0.0.0.0'', ''0'']" "ipv4_int ''0.0.0.0'' = Some 0" by code_simp+
  moreover have "prefix_string V4 ''0'' = Some 0" by (simp add: prefix_string_def dec_val_def max_str_digits_def) code_simp
  ultimately have n: "ip_network False ''0.0.0.0/0'' \<noteq> None" by (simp add: ip_network_def mk_network_def make_netmask_def Let_def)
  let ?h = "\<lambda>f t. history_select demo_inet_text (flows_1m demo_runs) f t" and ?q = "demo_history_query (Some ''0.0.0.0/0'')"
  have q: "\<not> sq_live ?q" "sq_from ?q = Some 0" "sq_to ?q = Some (120 * us_per_s)" "truthy (sq_src_cidr ?q)" "sq_src_cidr ?q = Some ''0.0.0.0/0''"
    "1 \<le> sq_limit ?q" "sq_limit ?q \<le> 1000"
    by (simp_all add: demo_history_query_def truthy_def)
  obtain base where b: "base_delta 0 None ?h ?q = Inr base" by (rule historical_base[OF q(1,2,3)])
  have ne: "sankey 0 None ?h ?q \<noteq> Inl (Http 400)"
    using n unfolding sankey_def b bind_r_simps filter_links_spec by (simp add: Let_def q(5-7) linorder_not_less)
  have sl: "CHR ''/'' \<in> set (demo_inet_text a)" for a by (simp add: demo_inet_text_def)
  have "mset (?h 0 (120 * us_per_s)) = mset (history_select demo_inet_text (flows_1m demo_runs) 0 (120 * us_per_s))" ..
  from history_net_empty[of demo_inet_text ?h 0 "120 * us_per_s" "flows_1m demo_runs" ?q 0 None, OF sl this q(1,2,3,4,6,7)] ne show ?thesis by blast
qed

text \<open>
  A flow that is stored more than three hours after its time is never in the view of minutes: no run of the policy that sees it covers its minute.
\<close>

lemma find_Some_in: "find P xs = Some y \<Longrightarrow> y \<in> set xs \<and> P y"
  by (induction xs) (auto split: if_splits)

lemma late_flow_unseen:
  assumes "\<forall>(now, flows) \<in> set runs. r \<in> set flows \<longrightarrow> time_bucket (rf_time r) < now - 180 * us_per_minute"
  shows "r \<notin> set (last_seen runs (time_bucket (rf_time r)))"
proof (cases "find (\<lambda>(now, _). refreshed now (time_bucket (rf_time r))) (rev runs)")
  case (Some y)
  then have "y \<in> set runs" "refreshed (fst y) (time_bucket (rf_time r))" using find_Some_in[OF Some] by auto
  then show ?thesis using assms Some by (fastforce simp: last_seen_def refreshed_def)
qed (simp add: last_seen_def)

end
