(* ===== verification/Pipeline_Flow.thy ===== *)
theory Pipeline_Flow
  imports Correlator
begin

text \<open>
  The balance of the correlator process (\<open>correlator/main.py\<close>): what enters \<open>_run\<close> through the flow stream and where it leaves again, over all
  interleavings of its tasks.
\<close>

section \<open>Amounts\<close>

text \<open>A flow counts by its bytes, its packets or the number of flows.\<close>

datatype amount = Bytes | Packets | Flows

fun ev_amount :: "amount \<Rightarrow> flow_event \<Rightarrow> int" where
  "ev_amount Bytes ev = fe_bytes ev" | "ev_amount Packets ev = fe_packets ev" | "ev_amount Flows ev = 1"

fun acc_amount :: "amount \<Rightarrow> acc \<Rightarrow> int" where
  "acc_amount Bytes a = acc_bytes a" | "acc_amount Packets a = acc_packets a" | "acc_amount Flows a = acc_flow_count a"

fun lf_amount :: "amount \<Rightarrow> labelled_flow \<Rightarrow> int" where
  "lf_amount Bytes f = lf_bytes f" | "lf_amount Packets f = lf_packets f" | "lf_amount Flows f = lf_flow_count f"

fun fr_amount :: "amount \<Rightarrow> flow_record \<Rightarrow> int" where
  "fr_amount Bytes r = fr_bytes r" | "fr_amount Packets r = fr_packets r" | "fr_amount Flows r = fr_flow_count r"

abbreviation core_amount :: "amount \<Rightarrow> instant \<times> flow_key \<times> acc \<Rightarrow> int" where
  "core_amount x c \<equiv> acc_amount x (snd (snd c))"

text \<open>What is inside the process on the way to the table: the queues, the open windows, the flow in the labeller's hand, the writer's buffer.\<close>

definition in_flight :: "amount \<Rightarrow> 't pipeline \<Rightarrow> int" where
  "in_flight x s = sum_list (map (ev_amount x) (items (pl_raw s))) + held (core_amount x) (pl_windower s) +
     (case pl_hold s of None \<Rightarrow> 0 | Some lf \<Rightarrow> lf_amount x lf) + sum_list (map (lf_amount x) (items (pl_mid s))) +
     sum_list (map (lf_amount x) (items (pl_wq s))) + sum_list (map (fr_amount x) (wr_buf (pl_writer s)))"

fun taken :: "amount \<Rightarrow> pl_effect \<Rightarrow> int" where
  "taken x (Took ev) = ev_amount x ev" | "taken x _ = 0"

fun stored :: "amount \<Rightarrow> pl_effect \<Rightarrow> int" where
  "stored x (Wrote ok lost) = sum_list (map (fr_amount x) ok)" | "stored x _ = 0"

fun refused_rows :: "amount \<Rightarrow> pl_effect \<Rightarrow> int" where
  "refused_rows x (Wrote ok lost) = sum_list (map (fr_amount x) lost)" | "refused_rows x _ = 0"

fun pushed_out :: "amount \<Rightarrow> pl_effect \<Rightarrow> int" where
  "pushed_out x (Windowed cs) = sum_list (map (core_amount x) cs)"
| "pushed_out x (Demuxed ws ss) = sum_list (map (lf_amount x) ws)"
| "pushed_out x _ = 0"

definition sum_over :: "(pl_effect \<Rightarrow> int) \<Rightarrow> pl_effect list \<Rightarrow> int" where
  "sum_over f effs = sum_list (map f effs)"

inductive pl_run :: "'t itree \<Rightarrow> 't pipeline \<Rightarrow> pl_effect list \<Rightarrow> 't pipeline \<Rightarrow> bool" for T where
  start: "pl_run T s [] s"
| more_step: "pl_run T s effs s1 \<Longrightarrow> pl_step T s1 eff s2 \<Longrightarrow> pl_run T s (effs @ [eff]) s2"

section \<open>Stages\<close>

lemma acc_amount_add: "acc_amount x (acc_add ev a) = acc_amount x a + ev_amount x ev" "acc_amount x empty_acc = 0"
  by (cases x; simp add: acc_add_def empty_acc_def)+

lemma window_balance:
  assumes "windower_step w i = Inr w1" and "windower_inv w"
  shows "held (core_amount x) w1 + sum_list (map (core_amount x) (step_lost w i)) =
    held (core_amount x) w + (case i of Timeout _ \<Rightarrow> 0 | Event ev \<Rightarrow> ev_amount x ev)"
proof (cases i)
  case (Timeout now)
  then show ?thesis using assms held_emit_ready[OF assms(2), of "core_amount x" now]
    by (simp add: windower_step_def step_lost_def split: if_splits)
next
  case (Event ev)
  have "held (core_amount x) (record_event w ev) = held (core_amount x) w + ev_amount x ev"
    by (rule held_record_event) (simp_all add: acc_amount_add)
  then show ?thesis using assms(1) Event held_emit_ready[OF record_event_inv[OF assms(2)], of "core_amount x" ev "fe_ts ev"]
    by (simp add: windower_step_def step_lost_def split: if_splits)
qed

lemma label_amount: "label_flow T rs get ix en f = (ix1, Inr (lf, ws)) \<Longrightarrow> lf_amount x lf = core_amount x (wf_core f)"
  by (cases x) (auto simp: label_flow_def labelled_of_def wf_core_def Let_def split: sum.splits prod.splits option.splits)

lemma held_take:
  "get_nowait (wd_out w) = Inr (f, q) \<Longrightarrow> held (core_amount x) w = core_amount x (wf_core f) + held (core_amount x) (w\<lparr>wd_out := q\<rparr>)"
  by (auto simp: held_def get_nowait_def split: list.splits)

lemma put_amount: "put_nowait q y = Inr q1 \<Longrightarrow> sum_list (map f (items q1)) = sum_list (map f (items q)) + (f y :: int)"
  by (auto simp: put_nowait_def split: if_splits)

lemma get_amount: "get_nowait q = Inr (y, q1) \<Longrightarrow> sum_list (map f (items q)) = (f y :: int) + sum_list (map f (items q1))"
  by (auto simp: get_nowait_def split: list.splits)

lemma demux_amount:
  assumes "queue_within n q"
  shows "sum_list (map f (items (demux_put q y))) + sum_list (map f (evicted q)) = sum_list (map f (items q)) + (f y :: int)"
proof (cases "queue_full q")
  case True
  then have "items q \<noteq> []" by (auto simp: queue_full_def)
  then obtain z zs where "items q = z # zs" by (cases "items q") auto
  then show ?thesis using True assms demux_put_full[OF True] by (simp add: evicted_def queue_within_def)
qed (simp add: demux_put_room evicted_def)

lemma write_amount:
  assumes "writer_step copy w i = (w1, ok, lost)"
  shows "sum_list (map (fr_amount x) (wr_buf w)) + sum_list (map (lf_amount x) (items_of [i])) =
    sum_list (map (fr_amount x) ok) + sum_list (map (fr_amount x) lost) + sum_list (map (fr_amount x) (wr_buf w1))"
proof -
  have e: "fr_amount x (flow_record_of lf) = lf_amount x lf" for lf by (cases x) (simp_all add: flow_record_of_def)
  have "sum_mset (image_mset (fr_amount x) (mset (wr_buf w) + mset (map flow_record_of (items_of [i])))) =
      sum_mset (image_mset (fr_amount x) (mset ok + mset lost + mset (wr_buf w1)))"
    using writer_step_buf(1)[OF assms] by simp
  then show ?thesis by (simp add: sum_mset_sum_list e comp_def flip: mset_map)
qed

section \<open>The balance\<close>

lemma step_balance:
  assumes "pl_step T s eff s1" and "pl_inv n batch s"
  shows "in_flight x s1 + stored x eff + refused_rows x eff + pushed_out x eff = in_flight x s + taken x eff"
  using assms(1)
proof (cases rule: pl_step.cases)
  case (arrive ev q)
  then show ?thesis using put_amount[OF arrive(3), of "ev_amount x"] by (simp add: in_flight_def)
next
  case (window_event ev q w)
  have "windower_inv (pl_windower s)" using assms(2) by (simp add: pl_inv_def)
  from window_balance[OF window_event(4) this, of x] window_event(1,2) get_amount[OF window_event(3), of "ev_amount x"]
  show ?thesis by (simp add: in_flight_def)
next
  case (window_tick now w)
  have "windower_inv (pl_windower s)" using assms(2) by (simp add: pl_inv_def)
  from window_balance[OF window_tick(3) this, of x] window_tick(1,2) show ?thesis by (simp add: in_flight_def)
next
  case (label f q get ix lf writes)
  then show ?thesis using held_take[OF label(4), of x] label_amount[OF label(5), of x] by (simp add: in_flight_def)
next
  case (label_put lf q)
  then show ?thesis using put_amount[OF label_put(4), of "lf_amount x"] by (simp add: in_flight_def)
next
  case (demux_item lf q)
  have "queue_within n (pl_wq s)" using assms(2) by (simp add: pl_inv_def)
  from demux_amount[OF this, of "lf_amount x" lf] get_amount[OF demux_item(3), of "lf_amount x"] demux_item(1,2)
  show ?thesis by (simp add: in_flight_def)
next
  case (write_item lf q copy now w ok lost)
  then show ?thesis using write_amount[OF write_item(4), of x] get_amount[OF write_item(3), of "lf_amount x"]
    by (simp add: in_flight_def items_of_def)
next
  case (write_tick copy now w ok lost)
  then show ?thesis using write_amount[OF write_tick(3), of x] by (simp add: in_flight_def items_of_def)
qed (simp_all add: in_flight_def)

lemma run_reachable: "pl_run T s effs s1 \<Longrightarrow> pl_reachable T s s1"
  unfolding pl_reachable_def by (induction rule: pl_run.induct) (auto intro: rtranclp.rtrancl_into_rtrancl)

text \<open>
  A quantity that each step balances is balanced by every run: \<open>flight\<close> is what the process holds, \<open>gain\<close> and \<open>loss\<close> what an effect brings in
  and takes out.
\<close>

locale balanced =
  fixes T :: "'t itree" and flight :: "'t pipeline \<Rightarrow> int" and gain loss :: "pl_effect \<Rightarrow> int"
  assumes step: "pl_step T s eff s1 \<Longrightarrow> pl_inv n batch s \<Longrightarrow> flight s1 + loss eff = flight s + gain eff"
begin

lemma run:
  assumes "pl_run T s0 effs s" and "pl_inv n batch s0" and "0 < n" and "0 < batch"
  shows "pl_inv n batch s \<and> flight s + sum_over loss effs = flight s0 + sum_over gain effs"
  using assms(1,2)
proof (induction rule: pl_run.induct)
  case (start s)
  then show ?case by (simp add: sum_over_def)
next
  case (more_step s effs s1 eff s2)
  then have i: "pl_inv n batch s1" by simp
  show ?case using more_step step[OF more_step(2) i] pl_step_inv[OF more_step(2) i assms(3,4)] by (simp add: sum_over_def)
qed

end

interpretation table: balanced T "in_flight x" "taken x" "\<lambda>eff. stored x eff + refused_rows x eff + pushed_out x eff" for T x
proof unfold_locales
  show "in_flight x s1 + (stored x eff + refused_rows x eff + pushed_out x eff) = in_flight x s + taken x eff"
    if "pl_step T s eff s1" "pl_inv n batch s" for s eff s1 n batch
    using step_balance[OF that, of x] by simp
qed

lemma sum_over_add: "sum_over (\<lambda>e. f e + g e) effs = sum_over f effs + sum_over g effs"
  by (simp add: sum_over_def sum_list_addf)

lemma new_pipeline_empty: "in_flight x (new_pipeline n w batch flush ex fl rs gi) = 0"
  by (simp add: in_flight_def new_pipeline_def new_windower_def new_writer_def held_def)

section \<open>Properties\<close>

text \<open>
  C2: no flow is lost or counted twice on the way to the table, except where the code says so. From the start of the correlator, after any
  interleaving of its tasks, in bytes, in packets and in flows: what was taken from the stream is what the table has received, plus what its
  copies refused, plus what full queues pushed out at the windower and the demultiplexer, plus what is still in the queues, in open
  windows, in the labeller and in the buffer of the writer, which is what a stop of the process loses, since it is acknowledged already.
\<close>

theorem pipeline_conserves:
  assumes "pl_run T (new_pipeline n w batch flush ex fl rs gi) effs s"
    and "0 < n" and "0 < batch" and "w \<noteq> 0" and "nets_ok (rs_manual rs)"
  shows "sum_over (taken x) effs =
    sum_over (stored x) effs + sum_over (refused_rows x) effs + sum_over (pushed_out x) effs + in_flight x s"
  using table.run[OF assms(1) new_pipeline_inv[OF assms(2-5)] assms(2,3), of x] by (simp add: new_pipeline_empty sum_over_add)

theorem pipeline_conserves_witness:
  "sum_over (taken Bytes) [Took (ev_at 0 7)] = in_flight Bytes
     ((new_pipeline 2 5 10 500 {||} 500 demo_tables new_group_index :: iset pipeline)\<lparr>pl_raw := \<lparr>maxsize = 2, items = [ev_at 0 7]\<rparr>\<rparr>)"
proof -
  let ?s = "new_pipeline 2 5 10 500 {||} 500 demo_tables new_group_index :: iset pipeline"
  have "pl_step list_tree ?s (Took (ev_at 0 7)) (?s\<lparr>pl_raw := \<lparr>maxsize = 2, items = [ev_at 0 7]\<rparr>\<rparr>)"
    by (rule arrive) (simp add: put_nowait_def queue_full_def new_pipeline_def)
  then have "pl_run list_tree ?s [Took (ev_at 0 7)] (?s\<lparr>pl_raw := \<lparr>maxsize = 2, items = [ev_at 0 7]\<rparr>\<rparr>)"
    using pl_run.more_step[OF pl_run.start] by fastforce
  from pipeline_conserves[OF this _ _ _ demo_nets, of Bytes] show ?thesis by (simp add: sum_over_def)
qed

section \<open>The side of the diagram\<close>

text \<open>What is inside the process on the way to the diagram; the publisher keeps the flows of the window it collects.\<close>

definition in_flight_live :: "amount \<Rightarrow> 't pipeline \<Rightarrow> int" where
  "in_flight_live x s = sum_list (map (ev_amount x) (items (pl_raw s))) + held (core_amount x) (pl_windower s) +
     (case pl_hold s of None \<Rightarrow> 0 | Some lf \<Rightarrow> lf_amount x lf) + sum_list (map (lf_amount x) (items (pl_mid s))) +
     sum_list (map (lf_amount x) (items (pl_sq s))) + sum_list (map (lf_amount x) (sp_pending (pl_pub s)))"

fun delta_amount :: "amount \<Rightarrow> delta \<Rightarrow> int" where
  "delta_amount Bytes d = link_bytes d" | "delta_amount Flows d = link_flows d" | "delta_amount Packets d = 0"

fun shown :: "amount \<Rightarrow> pl_effect \<Rightarrow> int" where
  "shown x (Sent (Some d)) = delta_amount x d" | "shown x _ = 0"

fun pushed_out_live :: "amount \<Rightarrow> pl_effect \<Rightarrow> int" where
  "pushed_out_live x (Windowed cs) = sum_list (map (core_amount x) cs)"
| "pushed_out_live x (Demuxed ws ss) = sum_list (map (lf_amount x) ss)"
| "pushed_out_live x _ = 0"

lemma sankey_amount:
  assumes "sankey_step sp lf = Inr (sp1, od)" and "x \<noteq> Packets"
  shows "shown x (Sent od) + sum_list (map (lf_amount x) (sp_pending sp1)) = sum_list (map (lf_amount x) (sp_pending sp)) + lf_amount x lf"
proof -
  have "lf_amount Bytes = lf_bytes" "lf_amount Flows = lf_flow_count" by (simp_all add: fun_eq_iff)
  then show ?thesis using sankey_step_ok[of sp lf] assms by (cases x; cases od) auto
qed

lemma step_balance_live:
  assumes "pl_step T s eff s1" and "pl_inv n batch s" and "x \<noteq> Packets"
  shows "in_flight_live x s1 + shown x eff + pushed_out_live x eff = in_flight_live x s + taken x eff"
  using assms(1)
proof (cases rule: pl_step.cases)
  case (arrive ev q)
  then show ?thesis using put_amount[OF arrive(3), of "ev_amount x"] by (simp add: in_flight_live_def)
next
  case (window_event ev q w)
  have "windower_inv (pl_windower s)" using assms(2) by (simp add: pl_inv_def)
  from window_balance[OF window_event(4) this, of x] window_event(1,2) get_amount[OF window_event(3), of "ev_amount x"]
  show ?thesis by (simp add: in_flight_live_def)
next
  case (window_tick now w)
  have "windower_inv (pl_windower s)" using assms(2) by (simp add: pl_inv_def)
  from window_balance[OF window_tick(3) this, of x] window_tick(1,2) show ?thesis by (simp add: in_flight_live_def)
next
  case (label f q get ix lf writes)
  then show ?thesis using held_take[OF label(4), of x] label_amount[OF label(5), of x] by (simp add: in_flight_live_def)
next
  case (label_put lf q)
  then show ?thesis using put_amount[OF label_put(4), of "lf_amount x"] by (simp add: in_flight_live_def)
next
  case (demux_item lf q)
  have "queue_within n (pl_sq s)" using assms(2) by (simp add: pl_inv_def)
  from demux_amount[OF this, of "lf_amount x" lf] get_amount[OF demux_item(3), of "lf_amount x"] demux_item(1,2)
  show ?thesis by (simp add: in_flight_live_def)
next
  case (publish lf q pub d)
  then show ?thesis using sankey_amount[OF publish(4) assms(3)] get_amount[OF publish(3), of "lf_amount x"]
    by (simp add: in_flight_live_def)
qed (simp_all add: in_flight_live_def)

text \<open>A diagram carries no packets, so it is the bytes and the flows that are balanced.\<close>

definition carried :: "bool \<Rightarrow> amount" where
  "carried b = (if b then Bytes else Flows)"

interpretation live: balanced T "in_flight_live (carried b)" "taken (carried b)" "\<lambda>eff. shown (carried b) eff + pushed_out_live (carried b) eff"
  for T b
proof unfold_locales
  have c: "carried b \<noteq> Packets" by (simp add: carried_def)
  show "in_flight_live (carried b) s1 + (shown (carried b) eff + pushed_out_live (carried b) eff) = in_flight_live (carried b) s + taken (carried b) eff"
    if "pl_step T s eff s1" "pl_inv n batch s" for s eff s1 n batch
    using step_balance_live[OF that c] by simp
qed

lemma new_pipeline_empty_live: "in_flight_live x (new_pipeline n w batch flush ex fl rs gi) = 0"
  by (simp add: in_flight_live_def new_pipeline_def new_windower_def held_def)



end
