(* ===== verification/Api_Services.thy ===== *)
theory Api_Services
  imports Keyset Group_Index Identity_Index Api_Cursor
begin

text \<open>
  The read services of the API: group members (\<open>api/src/api/services/groups_service.py\<close> with
  \<open>routers/groups.py\<close>) and identities at a point in time (\<open>services/identity_service.py\<close> with
  \<open>routers/identity.py\<close>). Tables are lists of rows; texts are ordered by code point.
\<close>

section \<open>Group members\<close>

record members_page =
  mp_group_id :: string
  mp_group_name :: string
  mp_size :: int
  mp_members :: "string list"
  mp_next_cursor :: "string option"

definition members_of :: "group_row list \<Rightarrow> string \<Rightarrow> string list" where
  "members_of rows gid = map gr_user_upn (filter (\<lambda>r. gr_group_id r = gid) rows)"

definition members_after :: "group_row list \<Rightarrow> string \<Rightarrow> string \<Rightarrow> nat \<Rightarrow> string list" where
  "members_after rows gid after n = take n (sort (filter (\<lambda>u. after < u) (members_of rows gid)))"

definition get_members :: "group_row list \<Rightarrow> string \<Rightarrow> string option \<Rightarrow> nat \<Rightarrow>
    py_error + members_page option" where
  "get_members rows gid cursor page_size =
     bind_r (if \<not> truthy cursor then Inr [] else decode_member (the cursor)) (\<lambda>after.
     let of_group = filter (\<lambda>r. gr_group_id r = gid) rows; size1 = int (length of_group) in
     if size1 = 0 then Inr None
     else let top = foldl max [] (map gr_group_name of_group);
              members = members_after rows gid after page_size
          in if length members = page_size \<and> members = [] then Inl IndexError
             else Inr (Some \<lparr>mp_group_id = gid, mp_group_name = (if top = [] then gid else top), mp_size = size1,
               mp_members = members,
               mp_next_cursor = (if length members = page_size then Some (encode_member (last members)) else None)\<rparr>))"

definition get_group :: "group_row list \<Rightarrow> string \<Rightarrow> string option \<Rightarrow> nat \<Rightarrow>
    api_error + members_page" where
  "get_group rows gid cursor page_size =
     (if page_size < 1 \<or> 200 < page_size then Inl (Http 422)
      else case get_members rows gid cursor page_size of
        Inl ValueError \<Rightarrow> Inl (Http 400)
      | Inl e \<Rightarrow> Inl (Raised e)
      | Inr None \<Rightarrow> Inl (Http 404)
      | Inr (Some p) \<Rightarrow> Inr p)"

fun members_page_no :: "group_row list \<Rightarrow> string \<Rightarrow> nat \<Rightarrow> nat \<Rightarrow>
    members_page option" where
  "members_page_no rows gid n 0 = (case get_group rows gid None n of Inl _ \<Rightarrow> None | Inr p \<Rightarrow> Some p)"
| "members_page_no rows gid n (Suc k) =
     (case members_page_no rows gid n k of None \<Rightarrow> None | Some p \<Rightarrow>
      case mp_next_cursor p of None \<Rightarrow> None | Some c \<Rightarrow>
      case get_group rows gid (Some c) n of Inl _ \<Rightarrow> None | Inr p1 \<Rightarrow> Some p1)"

interpretation by_name: keyset "(<) :: string \<Rightarrow> string \<Rightarrow> bool"
  by unfold_locales auto

definition all_members :: "group_row list \<Rightarrow> string \<Rightarrow> string list" where
  "all_members rows gid = sort (members_of rows gid)"

lemma all_members_sorted: "distinct (members_of rows gid) \<Longrightarrow> sorted_wrt (<) (all_members rows gid)"
  unfolding all_members_def strict_sorted_iff by simp

lemma members_after_start:
  "\<forall>u \<in> set (members_of rows gid). u \<noteq> [] \<Longrightarrow> members_after rows gid [] n = take n (all_members rows gid)"
proof -
  assume "\<forall>u \<in> set (members_of rows gid). u \<noteq> []"
  then have "filter (\<lambda>u. [] < u) (members_of rows gid) = members_of rows gid"
    by (auto simp: filter_id_conv neq_Nil_conv)
  then show ?thesis by (simp add: members_after_def all_members_def)
qed

lemma members_after_nth:
  assumes "distinct (members_of rows gid)" and "j < length (all_members rows gid)"
  shows "members_after rows gid (all_members rows gid ! j) n = take n (drop (Suc j) (all_members rows gid))"
  using by_name.filter_after[OF all_members_sorted[OF assms(1)] assms(2)]
  by (simp add: members_after_def all_members_def filter_sort[of _ "\<lambda>x. x", symmetric])

lemma get_group_after:
  assumes "1 \<le> n" and "n \<le> 200" and "members_of rows gid \<noteq> []"
    and "\<not> truthy cursor \<and> after = [] \<or> truthy cursor \<and> decode_member (the cursor) = Inr after"
  shows "\<exists>nm. get_group rows gid cursor n = Inr \<lparr>mp_group_id = gid, mp_group_name = nm,
    mp_size = int (length (members_of rows gid)), mp_members = members_after rows gid after n,
    mp_next_cursor = (if length (members_after rows gid after n) = n then Some (encode_member (last (members_after rows gid after n))) else None)\<rparr>"
  using assms by (auto simp: get_group_def get_members_def Let_def members_of_def)

text \<open>
  The \<open>k\<close>-th page of \<open>n\<close> members.
\<close>

definition members_shape :: "string list \<Rightarrow> nat \<Rightarrow> nat \<Rightarrow> members_page \<Rightarrow> bool" where
  "members_shape xs n k p \<longleftrightarrow> mp_members p = take n (drop (k * n) xs) \<and> mp_size p = int (length xs) \<and>
     mp_next_cursor p = (if k * n + n \<le> length xs then Some (encode_member (xs ! (k * n + n - 1))) else None)"

lemma members_shape_intro:
  assumes "mp_members p = take n (drop (k * n) xs)" and "mp_size p = int (length xs)" and "1 \<le> n"
    and "mp_next_cursor p = (if length (mp_members p) = n then Some (encode_member (last (mp_members p))) else None)"
  shows "members_shape xs n k p"
proof -
  have "length (mp_members p) = n \<longleftrightarrow> k * n + n \<le> length xs" using assms(1,3) by auto
  moreover have "last (mp_members p) = xs ! (k * n + n - 1)" if "k * n + n \<le> length xs"
  proof -
    have "mp_members p \<noteq> []" "length (mp_members p) = n" using that assms(1,3) by auto
    then show ?thesis using that assms(1,3) by (simp add: last_conv_nth)
  qed
  ultimately show ?thesis using assms(1,2,4) by (simp add: members_shape_def)
qed

lemma length_all_members [simp]: "length (all_members rows gid) = length (members_of rows gid)"
  by (simp add: all_members_def)

lemma members_page_no_spec:
  assumes "distinct (members_of rows gid)" and "\<forall>u \<in> set (members_of rows gid). u \<noteq> []"
    and "members_of rows gid \<noteq> []" and "1 \<le> n" and "n \<le> 200"
  shows "if k * n \<le> length (all_members rows gid)
    then \<exists>p. members_page_no rows gid n k = Some p \<and> members_shape (all_members rows gid) n k p
    else members_page_no rows gid n k = None"
proof (induction k)
  case 0
  from get_group_after[where cursor = None and after = "[]", OF assms(4,5,3)] obtain nm where
    "get_group rows gid None n = Inr \<lparr>mp_group_id = gid, mp_group_name = nm,
      mp_size = int (length (members_of rows gid)), mp_members = members_after rows gid [] n,
      mp_next_cursor = (if length (members_after rows gid [] n) = n then Some (encode_member (last (members_after rows gid [] n))) else None)\<rparr>"
    by (auto simp: truthy_def)
  then show ?case using members_after_start assms(2,4) by (auto intro!: members_shape_intro)
next
  case (Suc k)
  let ?S = "all_members rows gid"
  show ?case
  proof (cases "k * n + n \<le> length ?S")
    case True
    let ?j = "k * n + n - 1"
    obtain p where p: "members_page_no rows gid n k = Some p" "members_shape ?S n k p"
      using Suc True by auto
    then have c: "mp_next_cursor p = Some (encode_member (?S ! ?j))" using True by (simp add: members_shape_def)
    have j: "?j < length ?S" "Suc ?j = Suc k * n" using True assms(4) by auto
    have "?S ! ?j \<in> set (members_of rows gid)" using nth_mem[OF j(1)] by (simp add: all_members_def)
    then have ok: "encode_member (?S ! ?j) \<noteq> []" "decode_member (encode_member (?S ! ?j)) = Inr (?S ! ?j)"
      using assms(2) encode_member_ne member_roundtrip by auto
    from get_group_after[where cursor = "Some (encode_member (?S ! ?j))" and after = "?S ! ?j",
        OF assms(4,5,3)] ok obtain p1 where
      p1: "get_group rows gid (Some (encode_member (?S ! ?j))) n = Inr p1" "mp_size p1 = int (length ?S)"
      "mp_members p1 = members_after rows gid (?S ! ?j) n"
      "mp_next_cursor p1 = (if length (mp_members p1) = n then Some (encode_member (last (mp_members p1))) else None)"
      by auto
    have "members_shape ?S n (Suc k) p1"
      using p1 members_after_nth[OF assms(1) j(1)] unfolding j(2) by (intro members_shape_intro assms(4)) simp_all
    then show ?thesis using p(1) c p1(1) True by (simp add: add.commute)
  next
    case False
    then show ?thesis using Suc by (auto simp: members_shape_def split: if_splits)
  qed
qed

lemma concat_chunks: "concat (map (\<lambda>k. take n (drop (k * n) xs)) [0..<m]) = take (m * n) xs"
proof (induction m)
  case (Suc m)
  then show ?case using take_add[of "m * n" n xs] by (simp add: add.commute)
qed simp

section \<open>Identities\<close>

record identity_row =
  ir_time :: instant
  ir_src_ip :: string
  ir_user_upn :: string
  ir_source :: string
  ir_confidence :: int
  ir_ttl_seconds :: int
  ir_event_type :: string

record identity_resolution =
  rs_user_upn :: string
  rs_source :: string
  rs_confidence :: int
  rs_groups :: "string list"
  rs_ttl_remaining :: int

definition row_covers :: "string \<Rightarrow> instant \<Rightarrow> identity_row \<Rightarrow> bool" where
  "row_covers ip at r \<longleftrightarrow> ir_src_ip r = ip \<and> ir_time r \<le> at \<and> at \<le> ir_time r + ir_ttl_seconds r * us_per_s \<and>
     ir_event_type r \<noteq> ''nac-auth-stop''"

definition service_row :: "identity_row list \<Rightarrow> string \<Rightarrow> instant \<Rightarrow> identity_row option" where
  "service_row rows ip at =
     (case sort_key (\<lambda>r. (- ir_confidence r, - ir_time r)) (filter (row_covers ip at) rows) of
        [] \<Rightarrow> None | r # _ \<Rightarrow> Some r)"

definition service_resolve :: "identity_row list \<Rightarrow> group_row list \<Rightarrow> string \<Rightarrow> instant \<Rightarrow> identity_resolution option" where
  "service_resolve rows groups ip at =
     (case service_row rows ip at of
        None \<Rightarrow> None
      | Some r \<Rightarrow> Some \<lparr>rs_user_upn = ir_user_upn r, rs_source = ir_source r, rs_confidence = ir_confidence r,
          rs_groups = sort (map gr_group_name (filter (\<lambda>g. gr_user_upn g = ir_user_upn r) groups)),
          rs_ttl_remaining = max 0 ((ir_ttl_seconds r * us_per_s - (at - ir_time r)) div us_per_s)\<rparr>)"

text \<open>The event of a row, as the correlator receives it.\<close>

definition row_event :: "identity_row \<Rightarrow> identity_dict" where
  "row_event r = \<lparr>id_ts = Some (TsTime (ir_time r)), id_src_ip = Some (ir_src_ip r), id_user_upn = Some (ir_user_upn r),
     id_source = Some (ir_source r), id_event_type = Some (ir_event_type r), id_confidence = Some (ir_confidence r),
     id_ttl_seconds = Some (ir_ttl_seconds r)\<rparr>"

definition index_of :: "'t itree \<Rightarrow> identity_row list \<Rightarrow> 't identity_index" where
  "index_of T rows = foldl (\<lambda>ix r. fst (insert_event T ix (row_event r))) new_identity_index rows"

lemma index_of_held:
  "interval_tree_laws T \<Longrightarrow>
   held_at T (index_of T rows) = foldl (\<lambda>S r. spec_insert (row_event r) S) (\<lambda>_. {}) rows"
proof (induction rows rule: rev_induct)
  case Nil
  then show ?case by (simp add: index_of_def held_at_def new_identity_index_def fun_eq_iff)
next
  case (snoc r rows)
  then show ?case using insert_event_held[of T "index_of T rows"] by (simp add: index_of_def)
qed

lemma spec_insert_row:
  "spec_insert (row_event r) S =
     (if ir_event_type r = ''nac-auth-stop'' \<or> ir_ttl_seconds r = 0
      then S(ir_src_ip r := {iv \<in> S (ir_src_ip r). ir_user_upn r \<noteq> b_user_upn (iv_data iv)})
      else if 0 < ir_ttl_seconds r
      then S(ir_src_ip r := insert \<lparr>iv_begin = ir_time r, iv_end = ir_time r + ir_ttl_seconds r * us_per_s,
        iv_data = \<lparr>b_user_upn = ir_user_upn r, b_confidence = ir_confidence r, b_source = ir_source r, b_t_start = ir_time r\<rparr>\<rparr>
        (S (ir_src_ip r)))
      else S)"
  by (simp add: spec_insert_def row_event_def ev_ts_def key_r_def is_stop_def ev_binding_def)

section \<open>Properties\<close>

text \<open>
  C28: following the cursors of a group lists its members. For a group with members and a page size
  in range, the walk ends, and its pages together are all members of the group, each once, in order; every page
  reports the size of the group.
\<close>

theorem members_walk_complete:
  assumes "distinct (members_of rows gid)" and "\<forall>u \<in> set (members_of rows gid). u \<noteq> []"
    and "members_of rows gid \<noteq> []" and "1 \<le> n" and "n \<le> 200"
  defines "last_page \<equiv> length (members_of rows gid) div n"
  shows "(\<forall>k \<le> last_page. \<exists>p. members_page_no rows gid n k = Some p \<and> mp_size p = int (length (members_of rows gid))) \<and>
    members_page_no rows gid n (Suc last_page) = None \<and>
    concat (map (\<lambda>k. mp_members (the (members_page_no rows gid n k))) [0..<Suc last_page]) = all_members rows gid"
proof -
  let ?S = "all_members rows gid" and ?l = "length (members_of rows gid)"
  note spec = members_page_no_spec[OF assms(1-5)]
  have le: "k * n \<le> ?l" if "k \<le> last_page" for k
    using that div_times_less_eq_dividend[of ?l n] mult_le_mono1[OF that, of n] unfolding last_page_def by linarith
  have gt: "?l < Suc last_page * n"
    using assms(4) dividend_less_div_times[of n ?l] unfolding last_page_def by (simp add: add.commute)
  have p: "\<exists>p. members_page_no rows gid n k = Some p \<and> members_shape ?S n k p" if "k \<le> last_page" for k
    using spec[of k] le[OF that] by simp
  have "members_page_no rows gid n (Suc last_page) = None" using spec[of "Suc last_page"] gt by simp
  moreover have "map (\<lambda>k. mp_members (the (members_page_no rows gid n k))) [0..<Suc last_page] =
      map (\<lambda>k. take n (drop (k * n) ?S)) [0..<Suc last_page]"
  proof (rule map_cong[OF refl])
    fix k assume "k \<in> set [0..<Suc last_page]"
    then have "k \<le> last_page" by auto
    from p[OF this] show "mp_members (the (members_page_no rows gid n k)) = take n (drop (k * n) ?S)"
      by (auto simp: members_shape_def)
  qed
  moreover have "take (Suc last_page * n) ?S = ?S" using gt by simp
  ultimately show ?thesis using p concat_chunks[of n ?S "Suc last_page"]
    by (metis length_all_members members_shape_def)
qed

definition demo_members :: "group_row list" where
  "demo_members = map (\<lambda>u. \<lparr>gr_user_upn = u, gr_group_id = ''g'', gr_group_name = ''Sales''\<rparr>) [''bob'', ''ann'', ''cy'']"

theorem members_walk_complete_witness:
  "concat (map (\<lambda>k. mp_members (the (members_page_no demo_members ''g'' 2 k))) [0..<2]) =
     [''ann'', ''bob'', ''cy'']"
proof -
  have m: "members_of demo_members ''g'' = [''bob'', ''ann'', ''cy'']" by (simp add: members_of_def demo_members_def)
  have s: "all_members demo_members ''g'' = [''ann'', ''bob'', ''cy'']" unfolding all_members_def m by code_simp
  have l: "Suc (length [''bob'', ''ann'', ''cy''] div 2) = 2" by simp
  note walk = members_walk_complete[of demo_members "''g''" 2, unfolded m s l]
  show ?thesis by (rule walk[THEN conjunct2, THEN conjunct2]) simp_all
qed

text \<open>
  The identity service and the identity index differ on stops. When a user is bound to an address and
  then stopped there before the binding ends, and nothing else is known of the address, the service goes on
  answering with the user up to the end of the binding, included; the index of the correlator, given the same
  events, answers with nobody.
\<close>

theorem service_ignores_stops:
  assumes "interval_tree_laws T" and "ir_src_ip stop = ir_src_ip on" and "ir_user_upn stop = ir_user_upn on"
    and "ir_event_type stop = ''nac-auth-stop''" and "ir_event_type on \<noteq> ''nac-auth-stop''" and "0 < ir_ttl_seconds on"
    and "ir_time on \<le> ir_time stop" and "ir_time stop \<le> at" and "at \<le> ir_time on + ir_ttl_seconds on * us_per_s"
  shows "map_option rs_user_upn (service_resolve [on, stop] groups (ir_src_ip on) at) = Some (ir_user_upn on) \<and>
    snd (resolve T (index_of T [on, stop]) (ir_src_ip on) at) = Inr None"
proof
  have "filter (row_covers (ir_src_ip on) at) [on, stop] = [on]"
    using assms by (simp add: row_covers_def)
  then show "map_option rs_user_upn (service_resolve [on, stop] groups (ir_src_ip on) at) = Some (ir_user_upn on)"
    by (simp add: service_resolve_def service_row_def)
  have "held_at T (index_of T [on, stop]) (ir_src_ip on) = {}"
    using assms by (simp add: index_of_held spec_insert_row)
  then show "snd (resolve T (index_of T [on, stop]) (ir_src_ip on) at) = Inr None"
    using resolve_held[OF assms(1), of "index_of T [on, stop]" "ir_src_ip on" at]
    by (auto simp: resolves_to_def live_def split: option.splits)
qed

definition demo_on :: identity_row where
  "demo_on = \<lparr>ir_time = 0, ir_src_ip = ''10.0.0.1'', ir_user_upn = ''ann'', ir_source = ''cisco_ise'', ir_confidence = 95,
     ir_ttl_seconds = 100, ir_event_type = ''nac-auth''\<rparr>"

theorem service_ignores_stops_witness:
  "map_option rs_user_upn (service_resolve [demo_on, demo_on\<lparr>ir_time := 5, ir_event_type := ''nac-auth-stop''\<rparr>] []
      ''10.0.0.1'' 50) = Some ''ann'' \<and>
   snd (resolve list_tree (index_of list_tree
      [demo_on, demo_on\<lparr>ir_time := 5, ir_event_type := ''nac-auth-stop''\<rparr>]) ''10.0.0.1'' 50) = Inr None"
  using service_ignores_stops[OF list_tree_laws, of "demo_on\<lparr>ir_time := 5, ir_event_type := ''nac-auth-stop''\<rparr>" demo_on 50]
  by (simp add: demo_on_def us_per_s_def)

end
