(* ===== verification/Api_Status.thy ===== *)
theory Api_Status
  imports Api_Services Json
begin

text \<open>
  The status and identity endpoints: \<open>api/src/api/routers/adapters.py\<close>, \<open>api/src/api/routers/identity.py\<close>, the health
  checks of \<open>api/src/api/main.py\<close> with \<open>db.py\<close> and \<open>redis.py\<close>, and the request counter of \<open>api/src/api/metrics.py\<close>. Parameters: the
  validation of a JSON value by the two models (\<open>None\<close> when it raises), and what Redis and Postgres answer.
\<close>

section \<open>Identity\<close>

record identity_view =
  iv_user_upn :: "string option"
  iv_source :: "string option"
  iv_confidence :: "int option"
  iv_groups :: "string list"
  iv_ttl_remaining :: "int option"

definition resolve_endpoint :: "identity_row list \<Rightarrow> group_row list \<Rightarrow> string \<Rightarrow> instant \<Rightarrow> identity_view" where
  "resolve_endpoint rows groups src_ip at =
     (case service_resolve rows groups src_ip at of
        None \<Rightarrow> \<lparr>iv_user_upn = None, iv_source = None, iv_confidence = None, iv_groups = [], iv_ttl_remaining = None\<rparr>
      | Some hit \<Rightarrow> \<lparr>iv_user_upn = Some (rs_user_upn hit), iv_source = Some (rs_source hit), iv_confidence = Some (rs_confidence hit),
          iv_groups = rs_groups hit, iv_ttl_remaining = Some (rs_ttl_remaining hit)\<rparr>)"

section \<open>Adapters and statistics\<close>

record adapter_health =
  ah_name :: string
  ah_kind :: string
  ah_enabled :: bool
  ah_events_per_sec :: rat
  ah_queue_depth :: int
  ah_last_event_ts :: "string option"

record stats =
  st_flows_per_sec :: rat
  st_unknown_user_ratio :: rat
  st_redis_lag_ms :: rat
  st_lossy_windows_total :: int
  st_group_sync_age_us :: "instant option"

definition new_stats :: stats where
  "new_stats = \<lparr>st_flows_per_sec = 0, st_unknown_user_ratio = 0, st_redis_lag_ms = 0, st_lossy_windows_total = 0,
     st_group_sync_age_us = None\<rparr>"

definition adapter_entry :: "(json \<Rightarrow> adapter_health option) \<Rightarrow> string option \<Rightarrow> adapter_health option" where
  "adapter_entry valid raw = (if \<not> truthy raw then None else Option.bind (loads (the raw)) valid)"

definition adapters :: "(json \<Rightarrow> adapter_health option) \<Rightarrow> string list \<Rightarrow> (string \<Rightarrow> string option) \<Rightarrow> adapter_health list" where
  "adapters valid keys get = List.map_filter (\<lambda>k. adapter_entry valid (get k)) keys"

text \<open>Ages are exact microseconds; \<open>latest\<close> is \<open>MAX(refreshed_at)\<close>.\<close>

definition group_sync_age :: "instant \<Rightarrow> instant option \<Rightarrow> instant option" where
  "group_sync_age now latest = map_option (\<lambda>t. max 0 (now - t)) latest"

text \<open>\<open>query\<close> is the answer of the database, \<open>None\<close> when it raises, which is suppressed.\<close>

definition stats_endpoint :: "(json \<Rightarrow> stats option) \<Rightarrow> string option \<Rightarrow> instant \<Rightarrow> instant option option \<Rightarrow> stats" where
  "stats_endpoint valid raw now query =
     (let base = (if \<not> truthy raw then new_stats else case Option.bind (loads (the raw)) valid of None \<Rightarrow> new_stats | Some s \<Rightarrow> s) in
      case query of None \<Rightarrow> base | Some latest \<Rightarrow> base\<lparr>st_group_sync_age_us := group_sync_age now latest\<rparr>)"

section \<open>Health\<close>

text \<open>The module variables \<open>_engine\<close> and \<open>_client\<close>: whether they are initialised, and whether the service behind answers.\<close>

definition ping :: "bool \<Rightarrow> bool \<Rightarrow> bool" where
  "ping initialised answers = (if \<not> initialised then False else answers)"

definition ready :: "bool \<Rightarrow> bool \<Rightarrow> bool \<Rightarrow> bool \<Rightarrow> int \<times> string \<times> bool \<times> bool" where
  "ready db_init db_answers redis_init redis_answers =
     (let db_ok = ping db_init db_answers; redis_ok = ping redis_init redis_answers; healthy = db_ok \<and> redis_ok in
      (if healthy then 200 else 503, if healthy then ''ok'' else ''degraded'', db_ok, redis_ok))"

text \<open>\<open>MetricsMiddleware.dispatch\<close>: \<open>route\<close> is the path of the matched route or the path of the request.\<close>

definition count_request :: "(string \<times> string, int) dict \<Rightarrow> string \<Rightarrow> api_error + int \<Rightarrow> (string \<times> string, int) dict" where
  "count_request m route res = (case res of Inl _ \<Rightarrow> m | Inr status \<Rightarrow> dict_alter (route, show_int status) 0 (\<lambda>n. n + 1) m)"

section \<open>Properties\<close>

lemma service_row_best:
  "service_row rows ip at = Some r \<Longrightarrow> r \<in> set rows \<and> row_covers ip at r \<and>
     (\<forall>s \<in> set rows. row_covers ip at s \<longrightarrow> (- ir_confidence r, - ir_time r) \<le> (- ir_confidence s, - ir_time s))"
proof -
  let ?k = "\<lambda>r. (- ir_confidence r, - ir_time r)" and ?xs = "filter (row_covers ip at) rows"
  assume "service_row rows ip at = Some r"
  then obtain ys where s: "sort_key ?k ?xs = r # ys" by (auto simp: service_row_def split: list.splits)
  then have "set (r # ys) = set ?xs" by (metis set_sort)
  moreover have "\<forall>y \<in> set ys. ?k r \<le> ?k y" using sorted_sort_key[of ?k ?xs] unfolding s by simp
  ultimately show ?thesis by (auto simp del: less_eq_prod_simp)
qed

lemma service_row_None: "service_row rows ip at = None \<longleftrightarrow> (\<forall>r \<in> set rows. \<not> row_covers ip at r)"
proof -
  let ?s = "sort_key (\<lambda>r. (- ir_confidence r, - ir_time r)) (filter (row_covers ip at) rows)"
  have "service_row rows ip at = None \<longleftrightarrow> set ?s = {}" unfolding service_row_def by (cases ?s) auto
  then show ?thesis by auto
qed

text \<open>
  The shape of an identity answer. The endpoint answers with no user exactly when no binding covers the instant, and
  then every other field is empty. Otherwise all fields are there: the user, source and confidence of a covering row of highest confidence,
  the names of exactly the groups of that user, sorted, and a remaining lifetime between nothing and the lifetime of the row.
\<close>

theorem identity_answer_shape:
  fixes rows :: "identity_row list" and groups :: "group_row list" and ip :: string and at :: instant
  defines "v \<equiv> resolve_endpoint rows groups ip at"
  shows "(iv_user_upn v = None \<longleftrightarrow> (\<forall>r \<in> set rows. \<not> row_covers ip at r)) \<and>
    (case iv_user_upn v of
       None \<Rightarrow> iv_source v = None \<and> iv_confidence v = None \<and> iv_groups v = [] \<and> iv_ttl_remaining v = None
     | Some u \<Rightarrow> (\<exists>r \<in> set rows. row_covers ip at r \<and> ir_user_upn r = u \<and> iv_source v = Some (ir_source r) \<and>
         iv_confidence v = Some (ir_confidence r) \<and> (\<forall>s \<in> set rows. row_covers ip at s \<longrightarrow> ir_confidence s \<le> ir_confidence r) \<and>
         sorted (iv_groups v) \<and> set (iv_groups v) = gr_group_name ` {g \<in> set groups. gr_user_upn g = u} \<and>
         (\<exists>n. iv_ttl_remaining v = Some n \<and> 0 \<le> n \<and> n \<le> ir_ttl_seconds r)))"
proof (cases "service_row rows ip at")
  case None
  then show ?thesis by (simp add: v_def resolve_endpoint_def service_resolve_def flip: service_row_None)
next
  case (Some r)
  note b = service_row_best[OF Some]
  have c: "ir_time r \<le> at" "at \<le> ir_time r + ir_ttl_seconds r * us_per_s" using b by (simp_all add: row_covers_def)
  have "(ir_ttl_seconds r * us_per_s - (at - ir_time r)) div us_per_s \<le> (ir_ttl_seconds r * us_per_s) div us_per_s"
    using c(1) by (intro zdiv_mono1) (simp_all add: us_per_s_def)
  moreover have "0 \<le> ir_ttl_seconds r" using c by (simp add: us_per_s_def)
  ultimately have "max 0 ((ir_ttl_seconds r * us_per_s - (at - ir_time r)) div us_per_s) \<le> ir_ttl_seconds r" by (simp add: us_per_s_def)
  moreover have "\<forall>s \<in> set rows. row_covers ip at s \<longrightarrow> ir_confidence s \<le> ir_confidence r" using b by (auto simp: less_eq_prod_simp)
  moreover have "iv_user_upn v \<noteq> None" by (simp add: v_def resolve_endpoint_def service_resolve_def Some)
  ultimately show ?thesis
    using b Some service_row_None[of rows ip at]
    by (auto simp: v_def resolve_endpoint_def service_resolve_def intro!: bexI[of _ r])
qed

definition demo_binding :: identity_row where
  "demo_binding = \<lparr>ir_time = 0, ir_src_ip = ''10.0.0.1'', ir_user_upn = ''ann'', ir_source = ''ad_4624'', ir_confidence = 90, ir_ttl_seconds = 60,
     ir_event_type = ''logon''\<rparr>"

theorem identity_answer_shape_witness:
  "\<exists>n. iv_ttl_remaining (resolve_endpoint [demo_binding] [] ''10.0.0.1'' 5000000) = Some n \<and> 0 \<le> n \<and> n \<le> 60"
proof -
  have "row_covers ''10.0.0.1'' 5000000 demo_binding" by (simp add: row_covers_def demo_binding_def us_per_s_def)
  with identity_answer_shape[of "[demo_binding]" "[]" "''10.0.0.1''" 5000000] show ?thesis
    by (auto simp: demo_binding_def split: option.splits)
qed

text \<open>
  Every answered request is counted once: the counters add up to the number of responses, and requests that raise are not in them.
\<close>

theorem requests_counted:
  "dict_sum id (foldl (\<lambda>m (route, res). count_request m route res) m reqs) =
     dict_sum id m + int (length (filter (\<lambda>(route, res). \<not> isl res) reqs))"
proof -
  have one: "dict_sum id (dict_alter k 0 (\<lambda>n. n + 1) d) = dict_sum id d + 1" for k :: "string \<times> string" and d :: "(string \<times> string, int) dict"
    by (induction d) auto
  show ?thesis by (induction reqs arbitrary: m) (auto simp: count_request_def one split: sum.splits)
qed

end
