(* ===== verification/Metrics.thy ===== *)
theory Metrics
  imports Pipeline_Flow Api_Status
begin

text \<open>
  What the services tell Prometheus: the declarations of \<open>correlator/pipeline/metrics.py\<close>, \<open>flow_ingest/metrics.py\<close>, \<open>id_ingest/metrics.py\<close> and
  \<open>api/metrics.py\<close>, and the calls that the code makes on them. The client library is outside: an operation shows the calls it makes,
  in order, and a value that is set is a fraction. Bounds of histograms are kept as they are written.
\<close>

section \<open>Declarations\<close>

datatype metric_kind = Counter | Gauge | Histogram "string list"

record metric =
  me_name :: string
  me_kind :: metric_kind
  me_labels :: "string list"

definition postgres_buckets :: metric_kind where
  "postgres_buckets = Histogram [''0.01'', ''0.05'', ''0.1'', ''0.25'', ''0.5'', ''1.0'', ''2.0'', ''5.0'']"

definition correlator_metrics :: "metric list" where
  "correlator_metrics =
    [\<lparr>me_name = ''correlator_queue_depth'', me_kind = Gauge, me_labels = [''stage'']\<rparr>,
     \<lparr>me_name = ''correlator_dropped_flows_total'', me_kind = Counter, me_labels = []\<rparr>,
     \<lparr>me_name = ''correlator_unknown_user_ratio'', me_kind = Gauge, me_labels = []\<rparr>,
     \<lparr>me_name = ''correlator_lcd_miss_total'', me_kind = Counter, me_labels = []\<rparr>,
     \<lparr>me_name = ''identity_index_size'', me_kind = Gauge, me_labels = []\<rparr>,
     \<lparr>me_name = ''postgres_insert_batch_size_seconds'', me_kind = postgres_buckets, me_labels = []\<rparr>,
     \<lparr>me_name = ''postgres_flush_duration_seconds'', me_kind = postgres_buckets, me_labels = []\<rparr>]"

definition flow_ingest_metrics :: "metric list" where
  "flow_ingest_metrics =
    [\<lparr>me_name = ''flow_ingest_events_total'', me_kind = Counter, me_labels = [''adapter'', ''source'']\<rparr>,
     \<lparr>me_name = ''flow_ingest_parse_errors_total'', me_kind = Counter, me_labels = [''adapter'']\<rparr>]"

definition id_ingest_metrics :: "metric list" where
  "id_ingest_metrics =
    [\<lparr>me_name = ''identity_ingest_events_total'', me_kind = Counter, me_labels = [''adapter'']\<rparr>,
     \<lparr>me_name = ''identity_ingest_parse_errors_total'', me_kind = Counter, me_labels = [''adapter'']\<rparr>,
     \<lparr>me_name = ''group_sync_last_full_cycle_seconds'', me_kind = Gauge, me_labels = []\<rparr>]"

definition api_metrics :: "metric list" where
  "api_metrics =
    [\<lparr>me_name = ''api_http_requests_total'', me_kind = Counter, me_labels = [''route'', ''status'']\<rparr>,
     \<lparr>me_name = ''api_ws_connections'', me_kind = Gauge, me_labels = []\<rparr>]"

section \<open>Calls\<close>

datatype metric_call = Inc (call_name: string) (call_labels: "string list") | SetTo (call_name: string) (call_labels: "string list") int int

text \<open>A call fits a declaration: the metric is there, takes as many labels and is of the kind that has the operation.\<close>

definition call_fits :: "metric list \<Rightarrow> metric_call \<Rightarrow> bool" where
  "call_fits ms c \<longleftrightarrow> (case find (\<lambda>m. me_name m = call_name c) ms of None \<Rightarrow> False
     | Some m \<Rightarrow> length (me_labels m) = length (call_labels c) \<and>
         (case c of Inc _ _ \<Rightarrow> me_kind m \<in> {Counter, Gauge} | SetTo _ _ _ _ \<Rightarrow> me_kind m = Gauge))"

definition lcd_miss_inc :: metric_call where
  "lcd_miss_inc = Inc ''correlator_lcd_miss_total'' []"

text \<open>The end of \<open>_build_group_delta\<close>; the other deltas make no call.\<close>

definition window_calls :: "sankey_metrics option \<Rightarrow> metric_call list" where
  "window_calls m = (case m of None \<Rightarrow> []
     | Some x \<Rightarrow> replicate (nat (mt_lcd_miss x)) lcd_miss_inc @
         (case mt_unknown_ratio x of None \<Rightarrow> [] | Some (u, n) \<Rightarrow> [SetTo ''correlator_unknown_user_ratio'' [] u n]))"

text \<open>A turn of the publisher's loop.\<close>

definition sankey_calls :: "publisher \<Rightarrow> labelled_flow \<Rightarrow> metric_call list" where
  "sankey_calls sp lf =
     (let cur = (case sp_current_bucket sp of None \<Rightarrow> lf_bucket_start lf | Some b \<Rightarrow> b) in
      if cur < lf_bucket_start lf
      then (case publish_window sp cur (sp_pending sp) of Inl _ \<Rightarrow> [] | Inr (sp1, m, d) \<Rightarrow> window_calls m) else [])"

text \<open>The end of a batch in \<open>_identity_consumer\<close>.\<close>

definition identity_calls :: "int \<Rightarrow> metric_call list" where
  "identity_calls n = [SetTo ''identity_index_size'' [] n 1]"

text \<open>\<open>MetricsMiddleware.dispatch\<close>.\<close>

definition request_calls :: "string \<Rightarrow> api_error + int \<Rightarrow> metric_call list" where
  "request_calls route res = (case res of Inl _ \<Rightarrow> [] | Inr status \<Rightarrow> [Inc ''api_http_requests_total'' [route, show_int status]])"

text \<open>The series that the dashboard \<open>ztna-overview.json\<close> draws.\<close>

definition charted :: "string list" where
  "charted = [''flow_ingest_events_total'', ''correlator_queue_depth'', ''correlator_dropped_flows_total'', ''correlator_unknown_user_ratio'',
     ''api_ws_connections'', ''identity_index_size'', ''correlator_lcd_miss_total'']"

lemma charted_declared: "set charted \<subseteq> me_name ` set (correlator_metrics @ flow_ingest_metrics @ id_ingest_metrics @ api_metrics)"
  by (simp add: charted_def correlator_metrics_def flow_ingest_metrics_def id_ingest_metrics_def api_metrics_def)

text \<open>The counter of requests that \<open>count_request\<close> keeps is the number of calls per route and status.\<close>

lemma request_calls_count:
  "dict_get (count_request m route res) k 0 = dict_get m k 0 + int (count_list (request_calls route res) (Inc ''api_http_requests_total'' [fst k, snd k]))"
  by (cases k; cases res) (auto simp: count_request_def request_calls_def dict_simps)

section \<open>The correlator with its calls\<close>

definition step_calls :: "'t pipeline \<Rightarrow> pl_effect \<Rightarrow> metric_call list" where
  "step_calls s eff = (case eff of Sent _ \<Rightarrow> sankey_calls (pl_pub s) (hd (items (pl_sq s))) | _ \<Rightarrow> [])"

inductive metered :: "'t itree \<Rightarrow> 't pipeline \<Rightarrow> pl_effect list \<Rightarrow> metric_call list \<Rightarrow> 't pipeline \<Rightarrow> bool" for T where
  idle: "metered T s [] [] s"
| work: "metered T s effs cs s1 \<Longrightarrow> pl_step T s1 eff s2 \<Longrightarrow> metered T s (effs @ [eff]) (cs @ step_calls s1 eff) s2"
| measure: "metered T s effs cs s1 \<Longrightarrow> metered T s effs (cs @ identity_calls (index_size T (pl_ids s1))) s1"

definition group_mode :: "publisher \<Rightarrow> bool" where
  "group_mode sp \<longleftrightarrow> sp_group_by sp = ''group'' \<and> sp_aggregator sp \<noteq> None"

lemma fits_declared:
  "call_fits correlator_metrics lcd_miss_inc"
  "call_fits correlator_metrics (SetTo ''correlator_unknown_user_ratio'' [] u n)"
  "call_fits correlator_metrics (SetTo ''identity_index_size'' [] u n)"
  by (simp_all add: call_fits_def correlator_metrics_def lcd_miss_inc_def)

lemma publish_window_calls:
  assumes "publish_window sp b flows = Inr (sp1, m, d)" and "group_mode sp"
  shows "group_mode sp1" and "\<forall>c \<in> set (window_calls m). call_fits correlator_metrics c \<and>
      call_name c \<in> {''correlator_lcd_miss_total'', ''correlator_unknown_user_ratio''}"
    and "int (count_list (window_calls m) lcd_miss_inc) = (case d of None \<Rightarrow> 0 | Some x \<Rightarrow> lcd_misses ''group'' (dl_links x))"
proof -
  obtain agg where a: "sp_aggregator sp = Some agg" "sp_group_by sp = ''group''" using assms(2) by (auto simp: group_mode_def)
  have c: "count_list (replicate n c) c = n" for n and c :: metric_call by (induction n) auto
  have z: "0 \<le> lcd_misses ''group'' ls" for ls by (simp add: lcd_misses_def)
  show "group_mode sp1"
    using assms(1) a by (cases "flows = []") (auto simp: publish_window_def group_mode_def bind_r_Inr)
  show "\<forall>c \<in> set (window_calls m). call_fits correlator_metrics c \<and>
      call_name c \<in> {''correlator_lcd_miss_total'', ''correlator_unknown_user_ratio''}"
    using fits_declared by (auto simp: window_calls_def lcd_miss_inc_def split: option.splits)
  show "int (count_list (window_calls m) lcd_miss_inc) = (case d of None \<Rightarrow> 0 | Some x \<Rightarrow> lcd_misses ''group'' (dl_links x))"
    using assms(1)
    by (auto simp: publish_window_def build_group_delta_def Let_def a bind_r_Inr window_calls_def c z lcd_miss_inc_def split: if_splits option.splits)
qed

lemma sankey_step_calls:
  assumes "sankey_step sp lf = Inr (sp1, d)" and "group_mode sp"
  shows "group_mode sp1" and "\<forall>c \<in> set (sankey_calls sp lf). call_fits correlator_metrics c \<and>
      call_name c \<in> {''correlator_lcd_miss_total'', ''correlator_unknown_user_ratio''}"
    and "int (count_list (sankey_calls sp lf) lcd_miss_inc) = (case d of None \<Rightarrow> 0 | Some x \<Rightarrow> lcd_misses ''group'' (dl_links x))"
proof -
  define cur where "cur = (case sp_current_bucket sp of None \<Rightarrow> lf_bucket_start lf | Some b \<Rightarrow> b)"
  have "group_mode sp1 \<and> (\<forall>c \<in> set (sankey_calls sp lf). call_fits correlator_metrics c \<and>
      call_name c \<in> {''correlator_lcd_miss_total'', ''correlator_unknown_user_ratio''}) \<and>
    int (count_list (sankey_calls sp lf) lcd_miss_inc) = (case d of None \<Rightarrow> 0 | Some x \<Rightarrow> lcd_misses ''group'' (dl_links x))"
  proof (cases "cur < lf_bucket_start lf")
    case True
    then obtain sp2 m where p: "publish_window sp cur (sp_pending sp) = Inr (sp2, m, d)"
      "sp1 = sp2\<lparr>sp_current_bucket := Some (lf_bucket_start lf), sp_pending := [lf]\<rparr>"
      using assms(1) by (auto simp: sankey_step_def cur_def[symmetric] bind_r_Inr)
    have "sankey_calls sp lf = window_calls m" using True p(1) by (simp add: sankey_calls_def cur_def[symmetric])
    then show ?thesis using publish_window_calls[OF p(1) assms(2)] by (simp add: p(2) group_mode_def)
  next
    case False
    then show ?thesis using assms by (auto simp: sankey_step_def sankey_calls_def cur_def[symmetric] group_mode_def)
  qed
  then show "group_mode sp1" "\<forall>c \<in> set (sankey_calls sp lf). call_fits correlator_metrics c \<and>
      call_name c \<in> {''correlator_lcd_miss_total'', ''correlator_unknown_user_ratio''}"
    "int (count_list (sankey_calls sp lf) lcd_miss_inc) = (case d of None \<Rightarrow> 0 | Some x \<Rightarrow> lcd_misses ''group'' (dl_links x))"
    by blast+
qed

fun sent_misses :: "pl_effect \<Rightarrow> int" where
  "sent_misses (Sent (Some d)) = lcd_misses ''group'' (dl_links d)" | "sent_misses _ = 0"

lemma step_metered:
  assumes "pl_step T s eff s1" and "group_mode (pl_pub s)"
  shows "group_mode (pl_pub s1) \<and> (\<forall>c \<in> set (step_calls s eff). call_fits correlator_metrics c \<and>
      call_name c \<in> {''correlator_lcd_miss_total'', ''correlator_unknown_user_ratio''}) \<and>
    int (count_list (step_calls s eff) lcd_miss_inc) = sent_misses eff"
  using assms(1)
proof (cases rule: pl_step.cases)
  case (publish lf q pub d)
  then have "hd (items (pl_sq s)) = lf" by (auto simp: get_nowait_def split: list.splits)
  then show ?thesis using sankey_step_calls[OF publish(4) assms(2)] publish(1,2) by (cases d) (simp_all add: step_calls_def)
qed (use assms(2) in \<open>auto simp: step_calls_def group_mode_def\<close>)

lemma metered_calls:
  assumes "metered T s0 effs cs s" and "group_mode (pl_pub s0)"
  shows "group_mode (pl_pub s) \<and> (\<forall>c \<in> set cs. call_fits correlator_metrics c \<and>
      call_name c \<in> {''correlator_lcd_miss_total'', ''correlator_unknown_user_ratio'', ''identity_index_size''}) \<and>
    int (count_list cs lcd_miss_inc) = sum_over sent_misses effs"
  using assms
proof (induction rule: metered.induct)
  case (work s effs cs s1 eff s2)
  then show ?case using step_metered[OF work(2)] by (auto simp: sum_over_def)
next
  case (measure s effs cs s1)
  have "call_fits correlator_metrics c \<and> call_name c = ''identity_index_size'' \<and> c \<noteq> lcd_miss_inc" if "c \<in> set (identity_calls n)" for c n
    using that fits_declared by (auto simp: identity_calls_def lcd_miss_inc_def)
  then show ?case using measure by (auto simp: identity_calls_def)
qed (auto simp: sum_over_def)

section \<open>Properties\<close>



end
