(* ===== verification/Pipeline_Progress.thy ===== *)
theory Pipeline_Progress
  imports Pipeline_Flow
begin

text \<open>
  Progress of the correlator process (\<open>correlator/main.py\<close>): its tasks wait for each other at bounded queues, and the labeller blocks on a full one. Here it is
  shown that no flow can get stuck: whatever has happened, the tasks can run on until everything that was taken has left on the side
  of the table.
\<close>

section \<open>Runs that only drain\<close>

text \<open>A step that takes no new event, whose demultiplexer pushes nothing out and whose copy is accepted.\<close>

fun drains :: "pl_effect \<Rightarrow> bool" where
  "drains (Took _) = False"
| "drains (Demuxed ws ss) = (ws = [] \<and> ss = [])"
| "drains (Wrote ok lost) = (lost = [])"
| "drains _ = True"

definition can_reach :: "'t itree \<Rightarrow> 't pipeline \<Rightarrow> 't pipeline \<Rightarrow> bool" where
  "can_reach T s s1 \<longleftrightarrow> (\<exists>effs. pl_run T s effs s1 \<and> (\<forall>e \<in> set effs. drains e))"

definition fit :: "int \<Rightarrow> int \<Rightarrow> 't pipeline \<Rightarrow> bool" where
  "fit n batch s \<longleftrightarrow> pl_inv n batch s \<and> 0 < n \<and> 0 < batch \<and> 0 < wd_window_s (pl_windower s)"

lemma pl_run_trans: "pl_run T s1 effs2 s2 \<Longrightarrow> pl_run T s effs1 s1 \<Longrightarrow> pl_run T s (effs1 @ effs2) s2"
proof (induction rule: pl_run.induct)
  case (more_step s2 effs s3 eff s4)
  then show ?case using pl_run.more_step[of T s "effs1 @ effs" s3 eff s4] by simp
qed simp

lemma reach_refl: "can_reach T s s"
  unfolding can_reach_def using pl_run.start by fastforce

lemma reach_step: "pl_step T s e s1 \<Longrightarrow> drains e \<Longrightarrow> can_reach T s s1"
  unfolding can_reach_def using pl_run.more_step[OF pl_run.start] by fastforce

lemma reach_trans: "can_reach T s s1 \<Longrightarrow> can_reach T s1 s2 \<Longrightarrow> can_reach T s s2"
  unfolding can_reach_def using pl_run_trans by (fastforce intro: exI)

lemma step_window: "pl_step T s e s1 \<Longrightarrow> pl_inv n batch s \<Longrightarrow> wd_window_s (pl_windower s1) = wd_window_s (pl_windower s)"
  by (erule pl_step.cases) (auto simp: pl_inv_def dest: windower_step_window)

lemma run_fit: "pl_run T s effs s1 \<Longrightarrow> fit n batch s \<Longrightarrow> fit n batch s1"
proof (induction rule: pl_run.induct)
  case (more_step s effs s1 eff s2)
  then have "fit n batch s1" by simp
  then show ?case using pl_step_inv[OF more_step(2)] step_window[OF more_step(2)] by (auto simp: fit_def)
qed

lemma reach_fit: "can_reach T s s1 \<Longrightarrow> fit n batch s \<Longrightarrow> fit n batch s1"
  unfolding can_reach_def using run_fit by blast

section \<open>Stage by stage\<close>

lemma get_first: "items q = x # xs \<Longrightarrow> get_nowait q = Inr (x, q\<lparr>items := xs\<rparr>)"
  by (simp add: get_nowait_def)

lemma drain_writer:
  "\<exists>s1. can_reach T s s1 \<and> items (pl_wq s1) = [] \<and> pl_raw s1 = pl_raw s \<and> pl_windower s1 = pl_windower s \<and> pl_hold s1 = pl_hold s \<and>
     pl_mid s1 = pl_mid s \<and> pl_sq s1 = pl_sq s"
proof (induction "items (pl_wq s)" arbitrary: s)
  case Nil
  then show ?case using reach_refl by metis
next
  case (Cons lf xs)
  obtain w ok lost where w: "writer_step (\<lambda>_. True) (pl_writer s) (Item lf 0) = (w, ok, lost)" by (metis surj_pair)
  have l: "lost = []" using w by (auto simp: writer_step_def flush_safe_def flush_rows_def Let_def split: if_splits)
  let ?s = "s\<lparr>pl_wq := (pl_wq s)\<lparr>items := xs\<rparr>, pl_writer := w\<rparr>"
  have "can_reach T s ?s" using write_item[OF get_first[OF Cons(2)[symmetric]] w, of T] l by (auto intro: reach_step)
  moreover obtain s1 where "can_reach T ?s s1" "items (pl_wq s1) = []" "pl_raw s1 = pl_raw s" "pl_windower s1 = pl_windower s"
    "pl_hold s1 = pl_hold s" "pl_mid s1 = pl_mid s" "pl_sq s1 = pl_sq s"
    using Cons(1)[of ?s] by auto
  ultimately show ?case using reach_trans by blast
qed

lemma drain_sankey:
  "\<exists>s1. can_reach T s s1 \<and> items (pl_sq s1) = [] \<and> pl_raw s1 = pl_raw s \<and> pl_windower s1 = pl_windower s \<and> pl_hold s1 = pl_hold s \<and>
     pl_mid s1 = pl_mid s \<and> pl_wq s1 = pl_wq s"
proof (induction "items (pl_sq s)" arbitrary: s)
  case Nil
  then show ?case using reach_refl by metis
next
  case (Cons lf xs)
  obtain pub d where p: "sankey_step (pl_pub s) lf = Inr (pub, d)" using sankey_step_ok[of "pl_pub s" lf] by blast
  let ?s = "s\<lparr>pl_sq := (pl_sq s)\<lparr>items := xs\<rparr>, pl_pub := pub\<rparr>"
  have "can_reach T s ?s" using publish[OF get_first[OF Cons(2)[symmetric]] p, of T] by (auto intro: reach_step)
  moreover obtain s1 where "can_reach T ?s s1" "items (pl_sq s1) = []" "pl_raw s1 = pl_raw s" "pl_windower s1 = pl_windower s"
    "pl_hold s1 = pl_hold s" "pl_mid s1 = pl_mid s" "pl_wq s1 = pl_wq s"
    using Cons(1)[of ?s] by auto
  ultimately show ?case using reach_trans by blast
qed

text \<open>Everything behind the labeller is empty.\<close>

definition behind_empty :: "'t pipeline \<Rightarrow> bool" where
  "behind_empty s \<longleftrightarrow> items (pl_mid s) = [] \<and> items (pl_wq s) = [] \<and> items (pl_sq s) = []"

lemma empty_room: "fit n batch s \<Longrightarrow> behind_empty s \<Longrightarrow> \<not> queue_full (pl_mid s) \<and> \<not> queue_full (pl_wq s) \<and> \<not> queue_full (pl_sq s)"
  by (auto simp: fit_def pl_inv_def queue_within_def behind_empty_def queue_full_def)

lemma drain_consumers:
  "\<exists>s1. can_reach T s s1 \<and> items (pl_wq s1) = [] \<and> items (pl_sq s1) = [] \<and> pl_raw s1 = pl_raw s \<and> pl_windower s1 = pl_windower s \<and>
     pl_hold s1 = pl_hold s \<and> pl_mid s1 = pl_mid s"
proof -
  obtain s1 where a: "can_reach T s s1" "items (pl_wq s1) = []" "pl_raw s1 = pl_raw s" "pl_windower s1 = pl_windower s"
    "pl_hold s1 = pl_hold s" "pl_mid s1 = pl_mid s" using drain_writer by blast
  obtain s2 where "can_reach T s1 s2" "items (pl_sq s2) = []" "pl_raw s2 = pl_raw s1" "pl_windower s2 = pl_windower s1"
    "pl_hold s2 = pl_hold s1" "pl_mid s2 = pl_mid s1" "pl_wq s2 = pl_wq s1" using drain_sankey by blast
  with a show ?thesis using reach_trans by metis
qed

lemma drain_behind:
  "fit n batch s \<Longrightarrow> \<exists>s1. can_reach T s s1 \<and> behind_empty s1 \<and> pl_raw s1 = pl_raw s \<and> pl_windower s1 = pl_windower s \<and> pl_hold s1 = pl_hold s"
proof (induction "length (items (pl_mid s))" arbitrary: s)
  case 0
  then show ?case using drain_consumers[of T s] unfolding behind_empty_def by auto
next
  case (Suc k)
  obtain s1 where a: "can_reach T s s1" "items (pl_wq s1) = []" "items (pl_sq s1) = []" "pl_raw s1 = pl_raw s"
    "pl_windower s1 = pl_windower s" "pl_hold s1 = pl_hold s" "pl_mid s1 = pl_mid s" using drain_consumers by blast
  have f: "fit n batch s1" by (rule reach_fit[OF a(1) Suc(3)])
  then have nf: "\<not> queue_full (pl_wq s1)" "\<not> queue_full (pl_sq s1)"
    using a(2,3) by (auto simp: fit_def pl_inv_def queue_within_def queue_full_def)
  obtain lf xs where m: "items (pl_mid s1) = lf # xs" using Suc(2) a(7) by (cases "items (pl_mid s)") auto
  let ?s = "s1\<lparr>pl_mid := (pl_mid s1)\<lparr>items := xs\<rparr>, pl_wq := demux_put (pl_wq s1) lf, pl_sq := demux_put (pl_sq s1) lf\<rparr>"
  have "evicted (pl_wq s1) = []" "evicted (pl_sq s1) = []" using nf by (simp_all add: evicted_def)
  then have r: "can_reach T s1 ?s" using demux_item[OF get_first[OF m], of T] by (auto intro: reach_step)
  have "k = length (items (pl_mid ?s))" using Suc(2) m a(7) by simp
  from Suc(1)[OF this reach_fit[OF r f]]
  obtain s2 where "can_reach T ?s s2" "behind_empty s2" "pl_raw s2 = pl_raw s1" "pl_windower s2 = pl_windower s1" "pl_hold s2 = pl_hold s1" by auto
  with a r show ?case using reach_trans by metis
qed

lemma drain_hold:
  assumes "fit n batch s"
  shows "\<exists>s1. can_reach T s s1 \<and> behind_empty s1 \<and> pl_hold s1 = None \<and> pl_raw s1 = pl_raw s \<and> pl_windower s1 = pl_windower s"
proof -
  obtain s1 where a: "can_reach T s s1" "behind_empty s1" "pl_raw s1 = pl_raw s" "pl_windower s1 = pl_windower s" "pl_hold s1 = pl_hold s"
    using drain_behind[OF assms] by blast
  have f: "fit n batch s1" by (rule reach_fit[OF a(1) assms])
  show ?thesis
  proof (cases "pl_hold s")
    case None
    with a show ?thesis by (intro exI[of _ s1]) simp
  next
    case (Some lf)
    let ?q = "(pl_mid s1)\<lparr>items := items (pl_mid s1) @ [lf]\<rparr>" and ?s = "\<lambda>q. s1\<lparr>pl_mid := q, pl_hold := None\<rparr>"
    have "put_nowait (pl_mid s1) lf = Inr ?q" using empty_room[OF f a(2)] by (simp add: put_nowait_def)
    with Some a(5) have r: "can_reach T s1 (?s ?q)" using label_put[of s1 lf ?q T] by (auto intro: reach_step)
    obtain s2 where b: "can_reach T (?s ?q) s2" "behind_empty s2" "pl_raw s2 = pl_raw s1" "pl_windower s2 = pl_windower s1" "pl_hold s2 = None"
      using drain_behind[OF reach_fit[OF r f]] by auto
    have "can_reach T s s2" using reach_trans[OF reach_trans[OF a(1) r] b(1)] .
    with a(3,4) b(2-5) show ?thesis by (intro exI[of _ s2]) simp
  qed
qed

lemma drain_windows:
  assumes "interval_tree_laws T"
  shows "fit n batch s \<Longrightarrow> \<exists>s1. can_reach T s s1 \<and> behind_empty s1 \<and> pl_hold s1 = None \<and> pl_raw s1 = pl_raw s \<and>
    items (wd_out (pl_windower s1)) = [] \<and> wd_buckets (pl_windower s1) = wd_buckets (pl_windower s)"
proof (induction "length (items (wd_out (pl_windower s)))" arbitrary: s)
  case 0
  then show ?case using drain_hold[OF 0(2), of T] by auto
next
  case (Suc k)
  obtain s1 where a: "can_reach T s s1" "behind_empty s1" "pl_hold s1 = None" "pl_raw s1 = pl_raw s" "pl_windower s1 = pl_windower s"
    using drain_hold[OF Suc(3)] by blast
  have f: "fit n batch s1" by (rule reach_fit[OF a(1) Suc(3)])
  obtain wf xs where m: "items (wd_out (pl_windower s1)) = wf # xs" using Suc(2) a(5) by (cases "items (wd_out (pl_windower s))") auto
  have "nets_ok (rs_manual (pl_resolver s1))" using f by (simp add: fit_def pl_inv_def)
  then obtain ix lf ws where l: "label_flow T (pl_resolver s1) (\<lambda>_. None) (pl_ids s1) (Some (pl_groups s1)) wf = (ix, Inr (lf, ws))"
    using label_flow_total[OF assms] by blast
  let ?s = "s1\<lparr>pl_windower := (pl_windower s1)\<lparr>wd_out := (wd_out (pl_windower s1))\<lparr>items := xs\<rparr>\<rparr>, pl_ids := ix, pl_hold := Some lf\<rparr>"
  have r: "can_reach T s1 ?s" using label[OF a(3) get_first[OF m] l] by (auto intro: reach_step)
  have "k = length (items (wd_out (pl_windower ?s)))" using Suc(2) m a(5) by simp
  from Suc(1)[OF this reach_fit[OF r f]]
  obtain s2 where "can_reach T ?s s2" "behind_empty s2" "pl_hold s2 = None" "pl_raw s2 = pl_raw s1"
    "items (wd_out (pl_windower s2)) = []" "wd_buckets (pl_windower s2) = wd_buckets (pl_windower s1)" by auto
  with a r show ?case using reach_trans by metis
qed

lemma drain_raw:
  assumes "interval_tree_laws T"
  shows "fit n batch s \<Longrightarrow> \<exists>s1. can_reach T s s1 \<and> behind_empty s1 \<and> pl_hold s1 = None \<and> items (pl_raw s1) = [] \<and>
    items (wd_out (pl_windower s1)) = []"
proof (induction "length (items (pl_raw s))" arbitrary: s)
  case 0
  then show ?case using drain_windows[OF assms 0(2)] by auto
next
  case (Suc k)
  obtain ev xs where m: "items (pl_raw s) = ev # xs" using Suc(2) by (cases "items (pl_raw s)") auto
  have "wd_window_s (pl_windower s) \<noteq> 0" using Suc(3) by (simp add: fit_def)
  then obtain w where w: "windower_step (pl_windower s) (Event ev) = Inr w" by (simp add: windower_step_def)
  let ?s = "s\<lparr>pl_raw := (pl_raw s)\<lparr>items := xs\<rparr>, pl_windower := w\<rparr>"
  have r: "can_reach T s ?s" using window_event[OF get_first[OF m] w, of T] by (auto intro: reach_step)
  have "k = length (items (pl_raw ?s))" using Suc(2) m by simp
  from Suc(1)[OF this reach_fit[OF r Suc(3)]] r show ?case using reach_trans by blast
qed

text \<open>A time at which every open window is over.\<close>

lemma late_enough:
  assumes "0 < wd_window_s w"
  shows "\<exists>now. \<forall>b \<in> set bs. b \<le> threshold w now"
proof -
  define L where "L = wd_window_s w * us_per_s"
  define m where "m = fold max bs 0"
  have le: "y \<le> fold max xs y \<and> (\<forall>b \<in> set xs. b \<le> fold max xs y)" for xs and y :: int
  proof (induction xs arbitrary: y)
    case (Cons a xs)
    show ?case using Cons[of "max a y"] by auto
  qed simp
  have L: "0 < L" using assms by (simp add: L_def us_per_s_def)
  have m: "0 \<le> m" "\<forall>b \<in> set bs. b \<le> m" using le[of 0 bs] by (auto simp: m_def)
  have "bucket_start (wd_window_s w) (m + 2 * L) = (m + 2 * L) div L * L"
    using bucket_start_div[OF assms, of "m + 2 * L"] m L by (simp add: L_def)
  moreover have "m + 2 * L - L < (m + 2 * L) div L * L"
    using L pos_mod_bound[OF L, of "m + 2 * L"] div_mult_mod_eq[of "m + 2 * L" L] by linarith
  ultimately have "m \<le> threshold w (m + 2 * L)" unfolding threshold_def L_def[symmetric] by linarith
  then show ?thesis using m(2) by (meson order_trans)
qed

text \<open>The process holds nothing on the side of the table, and nothing is queued for the publisher.\<close>

definition drained :: "'t pipeline \<Rightarrow> bool" where
  "drained s \<longleftrightarrow> items (pl_raw s) = [] \<and> wd_buckets (pl_windower s) = [] \<and> items (wd_out (pl_windower s)) = [] \<and> pl_hold s = None \<and>
     behind_empty s \<and> wr_buf (pl_writer s) = []"

lemma sum_over_zero: "\<forall>e \<in> set effs. f e = 0 \<Longrightarrow> sum_over f effs = 0"
  by (induction effs) (auto simp: sum_over_def)

lemma drain_all:
  assumes "interval_tree_laws T" and "fit n batch s"
  shows "\<exists>s1. can_reach T s s1 \<and> drained s1"
proof -
  obtain s1 where a: "can_reach T s s1" "items (pl_raw s1) = []" using drain_raw[OF assms] by blast
  have f1: "fit n batch s1" by (rule reach_fit[OF a(1) assms(2)])
  then have "0 < wd_window_s (pl_windower s1)" by (simp add: fit_def)
  then obtain now where now: "\<forall>b \<in> set (map fst (wd_buckets (pl_windower s1))). b \<le> threshold (pl_windower s1) now"
    using late_enough by blast
  let ?w = "emit_ready (pl_windower s1) now" and ?s = "\<lambda>w. s1\<lparr>pl_windower := w\<rparr>"
  have "buckets_ok (pl_windower s1)" "wd_window_s (pl_windower s1) \<noteq> 0" using f1 by (auto simp: fit_def pl_inv_def windower_inv_def)
  then have b: "wd_buckets ?w = []" and "windower_step (pl_windower s1) (Timeout now) = Inr ?w"
    using now by (auto simp: emit_ready_unfold windower_step_def filter_empty_conv not_less)
  then have r2: "can_reach T s1 (?s ?w)" using window_tick[of s1 now ?w T] by (auto intro: reach_step)
  obtain s3 where c: "can_reach T (?s ?w) s3" "behind_empty s3" "pl_hold s3 = None" "pl_raw s3 = pl_raw s1"
    "items (wd_out (pl_windower s3)) = []" "wd_buckets (pl_windower s3) = []"
    using drain_windows[OF assms(1) reach_fit[OF r2 f1]] b by auto
  obtain w ok lost where w: "writer_step (\<lambda>_. True) (pl_writer s3) (Expired 0) = (w, ok, lost)" by (metis surj_pair)
  then have l: "lost = []" "wr_buf w = []" by (auto simp: writer_step_def flush_safe_def flush_rows_def split: if_splits)
  have "can_reach T s3 (s3\<lparr>pl_writer := w\<rparr>)" using write_tick[OF w, of T] l(1) by (auto intro: reach_step)
  moreover have "drained (s3\<lparr>pl_writer := w\<rparr>)" using a(2) c l(2) by (simp add: drained_def behind_empty_def)
  ultimately show ?thesis using a(1) r2 c(1) reach_trans by metis
qed

section \<open>Properties\<close>



end
