(* ===== verification/Lifecycle.thy ===== *)
theory Lifecycle
  imports Syslog_Receiver
begin

text \<open>
  Starting and stopping: \<open>start\<close> and \<open>stop\<close> of the syslog receiver (\<open>common/src/ztna_common/syslog_receiver.py\<close>) with the endpoints it opens,
  the health checks of the identity adapters that use it, and the \<open>finally\<close> clause of the identity service (\<open>id_ingest/main.py\<close>) with
  the scheduler of \<open>group_sync/worker.py\<close>.

  What the operating system answers to a bind is an argument. \<open>waits\<close> says whether \<open>Server.wait_closed\<close> of the event loop waits for the open
  connections, as that of the standard library does from Python 3.12 on.
\<close>

section \<open>The endpoints of a receiver\<close>

datatype stop_phase = NotCalled | Waiting | Stopped

text \<open>\<open>li_server\<close> is whether \<open>_tcp_server\<close> is set; a connection has a number, the address of its peer and its buffer.\<close>

record listener =
  li_port :: int
  li_rc :: receiver
  li_udp_port :: int
  li_tcp_port :: int
  li_udp :: bool
  li_server :: bool
  li_accepts :: bool
  li_conns :: "(nat, string \<times> string) dict"
  li_stop :: stop_phase

definition new_listener :: "int \<Rightarrow> int \<Rightarrow> listener" where
  "new_listener port queue_max = \<lparr>li_port = port, li_rc = new_receiver queue_max, li_udp_port = 0, li_tcp_port = 0, li_udp = False,
     li_server = False, li_accepts = False, li_conns = [], li_stop = NotCalled\<rparr>"

text \<open>\<open>start\<close>: the second component tells whether it returned; otherwise a bind raised. A port of 0 lets the system choose one for each endpoint.\<close>

definition receiver_start :: "(int \<Rightarrow> int option) \<Rightarrow> (int \<Rightarrow> int option) \<Rightarrow> listener \<Rightarrow> listener \<times> bool" where
  "receiver_start bind_udp bind_tcp l =
     (case bind_udp (li_port l) of None \<Rightarrow> (l, False)
      | Some u \<Rightarrow> let l1 = l\<lparr>li_udp := True, li_udp_port := u\<rparr> in
          (case bind_tcp (if li_port l \<noteq> 0 then li_port l else 0) of None \<Rightarrow> (l1, False)
           | Some t \<Rightarrow> (l1\<lparr>li_server := True, li_accepts := True, li_tcp_port := t\<rparr>, True)))"

definition says_listening :: "listener \<Rightarrow> bool" where
  "says_listening l \<longleftrightarrow> li_udp_port l \<noteq> 0 \<or> li_tcp_port l \<noteq> 0"

datatype net_input = Datagram string string | Connect nat string | Chunk nat string | Eof nat | StopCalled | Resumed

definition receiver_stop :: "listener \<Rightarrow> listener" where
  "receiver_stop l = (if li_server l then l\<lparr>li_accepts := False, li_stop := Waiting\<rparr> else l\<lparr>li_udp := False, li_stop := Stopped\<rparr>)"

text \<open>\<open>stop\<close> goes on after \<open>wait_closed\<close>.\<close>

definition receiver_stop_rest :: "bool \<Rightarrow> listener \<Rightarrow> listener" where
  "receiver_stop_rest waits l =
     (if li_stop l = Waiting \<and> (waits \<longrightarrow> li_conns l = []) then l\<lparr>li_udp := False, li_stop := Stopped\<rparr> else l)"

fun net_step :: "bool \<Rightarrow> (string \<Rightarrow> string) \<Rightarrow> listener \<Rightarrow> net_input \<Rightarrow> listener" where
  "net_step waits dec l (Datagram data addr) = (if li_udp l then l\<lparr>li_rc := datagram_received dec (li_rc l) data addr\<rparr> else l)"
| "net_step waits dec l (Connect c peer) =
     (if li_accepts l \<and> map_of (li_conns l) c = None then l\<lparr>li_conns := AList.update c (peer, []) (li_conns l)\<rparr> else l)"
| "net_step waits dec l (Chunk c data) = (case map_of (li_conns l) c of None \<Rightarrow> l
     | Some (peer, buf) \<Rightarrow> (case drain_buffer dec (buf @ data) peer (li_rc l) of (rest, rc) \<Rightarrow>
         l\<lparr>li_rc := rc, li_conns := AList.update c (peer, rest) (li_conns l)\<rparr>))"
| "net_step waits dec l (Eof c) = l\<lparr>li_conns := AList.delete c (li_conns l)\<rparr>"
| "net_step waits dec l StopCalled = (if li_stop l = NotCalled then receiver_stop l else l)"
| "net_step waits dec l Resumed = receiver_stop_rest waits l"

abbreviation net_run :: "bool \<Rightarrow> (string \<Rightarrow> string) \<Rightarrow> listener \<Rightarrow> net_input list \<Rightarrow> listener" where
  "net_run waits dec \<equiv> foldl (net_step waits dec)"

section \<open>Behaviour\<close>

text \<open>A receiver that is up: both endpoints are open, or \<open>stop\<close> waits for the connections.\<close>

definition up :: "listener \<Rightarrow> bool" where
  "up l \<longleftrightarrow> li_udp l \<and> li_server l \<and> li_udp_port l \<noteq> 0 \<and> li_stop l \<noteq> Stopped"

definition down :: "listener \<Rightarrow> bool" where
  "down l \<longleftrightarrow> \<not> li_udp l \<and> \<not> li_accepts l \<and> li_conns l = [] \<and> li_stop l = Stopped"

lemma start_up: "receiver_start bind_udp bind_tcp (new_listener port qm) = (l, True) \<Longrightarrow> (\<forall>p u. bind_udp p = Some u \<longrightarrow> u \<noteq> 0) \<Longrightarrow>
   up l \<and> li_accepts l \<and> li_conns l = [] \<and> li_stop l = NotCalled"
  by (auto simp: receiver_start_def new_listener_def up_def Let_def split: option.splits)

lemma map_of_delete: "map_of (AList.delete k d) = (map_of d)(k := None)"
  by (rule delete_conv')

lemma up_step:
  assumes "up l" and "map_of (li_conns l) c \<noteq> None" and "i \<noteq> Eof c"
  shows "up (net_step True dec l i)" and "map_of (li_conns (net_step True dec l i)) c \<noteq> None"
    and "li_udp_port (net_step True dec l i) = li_udp_port l"
proof -
  have n: "li_conns l \<noteq> []" using assms(2) by auto
  show "up (net_step True dec l i)" "map_of (li_conns (net_step True dec l i)) c \<noteq> None" "li_udp_port (net_step True dec l i) = li_udp_port l"
    using assms n
    by (cases i; auto simp: up_def receiver_stop_def receiver_stop_rest_def update_conv' map_of_delete split: option.splits prod.splits)+
qed

lemma up_run:
  "up l \<Longrightarrow> map_of (li_conns l) c \<noteq> None \<Longrightarrow> Eof c \<notin> set ins \<Longrightarrow>
   up (net_run True dec l ins) \<and> map_of (li_conns (net_run True dec l ins)) c \<noteq> None \<and> li_udp_port (net_run True dec l ins) = li_udp_port l"
proof (induction ins arbitrary: l)
  case (Cons i ins)
  then show ?case using up_step[OF Cons.prems(1,2), of i] by auto
qed simp

lemma down_run: "down l \<Longrightarrow> net_run waits dec l ins = l"
proof (induction ins)
  case (Cons i ins)
  then have "net_step waits dec l i = l"
    by (cases i) (auto simp: down_def receiver_stop_rest_def)
  then show ?case using Cons by simp
qed simp

lemma eofs_run: "net_run waits dec l (map Eof cs) = l\<lparr>li_conns := filter (\<lambda>p. fst p \<notin> set cs) (li_conns l)\<rparr>"
proof (induction cs arbitrary: l)
  case (Cons c cs)
  have "filter (\<lambda>p. fst p \<notin> set cs) (AList.delete c (li_conns l)) = filter (\<lambda>p. fst p \<notin> set (c # cs)) (li_conns l)"
    by (auto simp: AList.delete_eq intro!: filter_cong)
  then show ?case using Cons[of "net_step waits dec l (Eof c)"] by simp
qed simp

section \<open>Properties\<close>


definition demo_listener :: listener where
  "demo_listener = foldl (net_step True id) (fst (receiver_start Some Some (new_listener 514 100))) [Connect 1 ''10.0.0.9'', StopCalled]"


section \<open>Failed starts\<close>

text \<open>
  A receiver whose second bind fails keeps its datagram endpoint: \<open>run\<close> of an adapter calls \<open>start\<close> before its \<open>try\<close>, so nothing calls \<open>stop\<close>.
\<close>

lemma failed_start_leaks:
  assumes "bind_udp (li_port l) = Some u" and "bind_tcp (li_port l) = None" and "receiver_start bind_udp bind_tcp l = (l1, ok)"
  shows "\<not> ok \<and> li_udp l1"
  using assms by (auto simp: receiver_start_def Let_def split: if_splits)

section \<open>The end of the identity service\<close>

text \<open>
  \<open>GroupSyncWorker.start\<close> starts the scheduler, \<open>aclose\<close> shuts it down; \<open>shut\<close> is what \<open>AsyncIOScheduler.shutdown\<close> raises, given whether the
  scheduler runs. The \<open>finally\<close> clause of \<open>_main\<close> closes the worker, then the producer; the result is the exception that leaves it.
\<close>

record id_resources =
  ir_scheduler :: bool
  ir_producer :: bool

definition id_startup :: "nat \<Rightarrow> id_resources" where
  "id_startup syncs = \<lparr>ir_scheduler = 0 < syncs, ir_producer = True\<rparr>"

definition worker_aclose :: "(bool \<Rightarrow> 'e option) \<Rightarrow> id_resources \<Rightarrow> id_resources \<times> 'e option" where
  "worker_aclose shut r = (case shut (ir_scheduler r) of None \<Rightarrow> (r\<lparr>ir_scheduler := False\<rparr>, None) | Some e \<Rightarrow> (r, Some e))"

definition producer_aclose :: "id_resources \<Rightarrow> id_resources" where
  "producer_aclose r = r\<lparr>ir_producer := False\<rparr>"

definition id_finally :: "(bool \<Rightarrow> 'e option) \<Rightarrow> 'e option \<Rightarrow> id_resources \<Rightarrow> id_resources \<times> 'e option" where
  "id_finally shut raised r = (case worker_aclose shut r of (r1, Some e) \<Rightarrow> (r1, Some e) | (r1, None) \<Rightarrow> (producer_aclose r1, raised))"

text \<open>
  A scheduler that was not started refuses to shut down, as its documentation says. So an identity service with no directory to synchronise
  ends with that exception, in place of the one that ended it, and leaves its connection to Redis open; one with a directory
  closes both and passes the exception on.
\<close>

lemma id_service_ends:
  assumes "shut True = None" and "shut False = Some e"
  shows "id_finally shut raised (id_startup n) =
    (if n = 0 then (id_startup n, Some e) else (\<lparr>ir_scheduler = False, ir_producer = False\<rparr>, raised))"
  using assms by (simp add: id_finally_def worker_aclose_def producer_aclose_def id_startup_def)

section \<open>The end of the correlator\<close>

text \<open>
  The tasks that \<open>_run\<close> of \<open>correlator/main.py\<close> starts, and what it does on a signal: the tasks are cancelled, the connection of the group index is
  closed whatever that raises, then the pool and then Redis. An argument is what a close raises; the result is the exception that leaves \<open>_run\<close>.
\<close>

definition correlator_tasks :: "string list" where
  "correlator_tasks = [''xread'', ''identity-consumer'', ''windower'', ''labeller'', ''demux'', ''writer'', ''sankey-pub'', ''reload'']"

record correlator_resources =
  cr_tasks :: "string list"
  cr_groups_conn :: bool
  cr_pool :: bool
  cr_redis :: bool

definition correlator_started :: correlator_resources where
  "correlator_started = \<lparr>cr_tasks = correlator_tasks, cr_groups_conn = True, cr_pool = True, cr_redis = True\<rparr>"

definition correlator_shutdown :: "'e option \<Rightarrow> 'e option \<Rightarrow> 'e option \<Rightarrow> correlator_resources \<Rightarrow> correlator_resources \<times> 'e option" where
  "correlator_shutdown close_groups close_pool close_redis r =
     (let r1 = r\<lparr>cr_tasks := [], cr_groups_conn := (close_groups \<noteq> None)\<rparr> in
      case close_pool of Some e \<Rightarrow> (r1, Some e)
      | None \<Rightarrow> (let r2 = r1\<lparr>cr_pool := False\<rparr> in
          case close_redis of Some e \<Rightarrow> (r2, Some e) | None \<Rightarrow> (r2\<lparr>cr_redis := False\<rparr>, None)))"

lemma correlator_shutdown_result:
  assumes "correlator_shutdown g p d correlator_started = (r, e)"
  shows "cr_tasks r = [] \<and> (e = None \<longleftrightarrow> \<not> cr_pool r \<and> \<not> cr_redis r) \<and> (e = None \<longleftrightarrow> p = None \<and> d = None) \<and> (cr_pool r \<longrightarrow> cr_redis r)"
  using assms by (auto simp: correlator_shutdown_def correlator_started_def Let_def split: option.splits)

section \<open>A helper for reloads\<close>

text \<open>
  \<open>listen_for_reload\<close> of \<open>correlator/pipeline/app_resolver.py\<close>: after a connection it calls \<open>reload_fn\<close> for every notification on the two channels
  until it is cancelled, and closes the connection in any case. \<open>raised\<close> is what a call of \<open>add_listener\<close> raises, per channel.
\<close>

definition reload_channels :: "string list" where
  "reload_channels = [''applications_changed'', ''saas_changed'']"

text \<open>The channels it is subscribed to, and the exception that ends it.\<close>

fun add_listeners :: "(string \<Rightarrow> 'e option) \<Rightarrow> string list \<Rightarrow> string list \<times> 'e option" where
  "add_listeners raised [] = ([], None)"
| "add_listeners raised (c # cs) = (case raised c of Some e \<Rightarrow> ([], Some e)
     | None \<Rightarrow> (case add_listeners raised cs of (chs, r) \<Rightarrow> (c # chs, r)))"

definition listen_for_reload :: "(string \<Rightarrow> 'e option) \<Rightarrow> string list \<Rightarrow> nat \<times> 'e option" where
  "listen_for_reload raised msgs = (case add_listeners raised reload_channels of
     (chs, Some e) \<Rightarrow> (0, Some e) | (chs, None) \<Rightarrow> (length (filter (\<lambda>n. n \<in> set chs) msgs), None))"

lemma listen_for_reload_calls:
  assumes "\<And>c. raised c = None"
  shows "listen_for_reload raised msgs =
    (count_list msgs ''applications_changed'' + count_list msgs ''saas_changed'', None)"
proof -
  have l: "add_listeners raised cs = (cs, None)" for cs using assms by (induction cs) auto
  have "length (filter (\<lambda>n. n \<in> set reload_channels) msgs) = count_list msgs ''applications_changed'' + count_list msgs ''saas_changed''"
    by (induction msgs) (auto simp: reload_channels_def)
  then show ?thesis by (simp add: listen_for_reload_def l)
qed

end
