(* ===== verification/Identity_Path.thy ===== *)
theory Identity_Path
  imports Id_Ingest Syslog_Receiver
begin

text \<open>
  The way of an identity from the wire to the identity index: the \<open>run\<close> loops, configuration and health of the syslog adapters
  (\<open>id-ingest/src/id_ingest/adapters\<close>), the publishing loop of \<open>_main\<close> (\<open>id_ingest/main.py\<close>), the stream, and the consumer of the correlator.
\<close>

section \<open>Construction\<close>

text \<open>A configuration value is an integer or a text.\<close>

definition cfg_str :: "int + string \<Rightarrow> string" where
  "cfg_str v = (case v of Inl i \<Rightarrow> show_int i | Inr s \<Rightarrow> s)"

definition cfg_int :: "int + string \<Rightarrow> py_error + int" where
  "cfg_int v = (case v of Inl i \<Rightarrow> Inr i | Inr s \<Rightarrow> (case py_int s of None \<Rightarrow> Inl ValueError | Some i \<Rightarrow> Inr i))"

definition syslog_from_config :: "int \<Rightarrow> (string, int + string) dict \<Rightarrow> py_error + string \<times> int" where
  "syslog_from_config default_port cfg =
     (let host = cfg_str (dict_get cfg ''host'' (dict_get cfg ''bind'' (Inr ''0.0.0.0''))) in
      bind_r (cfg_int (dict_get cfg ''port'' (Inl default_port))) (\<lambda>port. Inr (host, port)))"

definition ise_from_config :: "(string, int + string) dict \<Rightarrow> py_error + string \<times> int" where
  "ise_from_config cfg = syslog_from_config 517 cfg"

definition clearpass_from_config :: "(string, int + string) dict \<Rightarrow> py_error + string \<times> int" where
  "clearpass_from_config cfg = syslog_from_config 518 cfg"

definition ad_from_config :: "(string, int + string) dict \<Rightarrow> py_error + string \<times> int" where
  "ad_from_config cfg = syslog_from_config 516 cfg"

text \<open>With the configuration that \<open>_build_adapter\<close> passes, every adapter listens on all addresses at the port of the settings.\<close>

lemma built_ports:
  assumes "cfg = [(''port'', Inl p)]"
  shows "ise_from_config cfg = Inr (''0.0.0.0'', p)" "clearpass_from_config cfg = Inr (''0.0.0.0'', p)" "ad_from_config cfg = Inr (''0.0.0.0'', p)"
  by (simp_all add: assms ise_from_config_def clearpass_from_config_def ad_from_config_def syslog_from_config_def cfg_str_def cfg_int_def dict_get_def)

definition listening :: "int \<Rightarrow> int \<Rightarrow> bool" where
  "listening udp_port tcp_port \<longleftrightarrow> udp_port \<noteq> 0 \<or> tcp_port \<noteq> 0"

section \<open>Loops\<close>

text \<open>The parser of a syslog adapter. (The line is encoded as UTF-8 and decoded again, which gives it back.)\<close>

fun id_parse :: "instant \<Rightarrow> id_adapter \<Rightarrow> string \<Rightarrow> identity_event option" where
  "id_parse now (Ad4624 _) line = ad_parse line"
| "id_parse now (CiscoIse _) line = ise_parse now line"
| "id_parse now (ArubaClearpass _) line = clearpass_parse now line"
| "id_parse now (EntraSignin _) line = None"

text \<open>One turn of \<open>run\<close>: the next message of the adapter's own receiver.\<close>

definition id_adapter_turn :: "instant \<Rightarrow> id_adapter \<Rightarrow> receiver \<Rightarrow> receiver \<times> identity_event option" where
  "id_adapter_turn now a rc =
     (case get_nowait (rc_queue rc) of
        Inl _ \<Rightarrow> (rc, None)
      | Inr ((peer, line), q) \<Rightarrow> (rc\<lparr>rc_queue := q\<rparr>, id_parse now a line))"

text \<open>\<open>_run_adapter\<close>: an exception ends it.\<close>

fun id_serve :: "(xadd_cmd list \<Rightarrow> py_error option) \<Rightarrow> directory list \<Rightarrow> id_adapter \<Rightarrow> instant list \<Rightarrow> receiver \<times> group_sync_worker \<Rightarrow>
    (py_error + receiver \<times> group_sync_worker) \<times> xadd_cmd list \<times> sync_effect list" where
  "id_serve exec syncs a [] st = (Inr st, [], [])"
| "id_serve exec syncs a (now # nows) (rc, w) =
     (case id_adapter_turn now a rc of
        (rc1, None) \<Rightarrow> id_serve exec syncs a nows (rc1, w)
      | (rc1, Some ev) \<Rightarrow> (case run_adapter_event exec syncs w ev of
          (w1, cmds, effs, Inl e) \<Rightarrow> (Inl e, cmds, effs)
        | (w1, cmds, effs, Inr _) \<Rightarrow> (case id_serve exec syncs a nows (rc1, w1) of
            (r, cmds2, effs2) \<Rightarrow> (r, cmds @ cmds2, effs @ effs2))))"

definition understood :: "id_adapter \<Rightarrow> instant list \<Rightarrow> message list \<Rightarrow> identity_event list" where
  "understood a nows msgs = List.map_filter (\<lambda>(now, msg). id_parse now a (snd msg)) (zip nows msgs)"

lemma understood_Cons:
  "understood a (now # nows) (msg # msgs) = (case id_parse now a (snd msg) of None \<Rightarrow> [] | Some ev \<Rightarrow> [ev]) @ understood a nows msgs"
  by (simp add: understood_def List.map_filter_def split: option.splits)

lemma consume_append: "consume T ix (cs @ ds) = consume T (consume T ix cs) ds"
  by (simp add: consume_def identity_batch_def Let_def)

text \<open>The dictionary that the identity index receives for an event.\<close>

definition index_event :: "identity_event \<Rightarrow> identity_dict" where
  "index_event ev = (wire_dict ev)\<lparr>id_ts := Some (TsTime (ie_ts ev))\<rparr>"

lemma run_event_cmds: "run_adapter_event exec syncs w ev = (w1, cmds, effs, r) \<Longrightarrow> cmds = snd (xadd_identity exec make_producer ev)"
  by (auto simp: run_adapter_event_def split: prod.splits sum.splits if_splits)

lemma id_serve_consumed:
  assumes "id_serve exec syncs a nows (rc, w) = (Inr st, cmds, effs)" and "items (rc_queue rc) = msgs" and "length nows = length msgs"
    and "\<forall>ev \<in> set (understood a nows msgs). identity_ok ev"
  shows "consume T ix cmds = foldl (\<lambda>ix ev. fst (insert_event T ix (index_event ev))) ix (understood a nows msgs)"
  using assms
proof (induction nows arbitrary: rc w msgs cmds effs ix)
  case Nil
  then show ?case by (simp add: understood_def consume_def identity_batch_def List.map_filter_def)
next
  case (Cons now nows)
  obtain msg rest where m: "msgs = msg # rest" "length nows = length rest" using Cons.prems(3) by (cases msgs) auto
  let ?rc = "rc\<lparr>rc_queue := (rc_queue rc)\<lparr>items := rest\<rparr>\<rparr>"
  have t: "id_adapter_turn now a rc = (?rc, id_parse now a (snd msg))"
    using Cons.prems(2) by (cases msg) (simp add: id_adapter_turn_def get_nowait_def m(1))
  have ok: "\<forall>ev \<in> set (understood a nows rest). identity_ok ev" using Cons.prems(4) by (auto simp: m(1) understood_Cons)
  show ?case
  proof (cases "id_parse now a (snd msg)")
    case None
    then have "id_serve exec syncs a nows (?rc, w) = (Inr st, cmds, effs)" using Cons.prems(1) t by simp
    from Cons.IH[OF this _ m(2) ok] show ?thesis by (simp add: m(1) understood_Cons None)
  next
    case (Some ev)
    obtain w1 c1 e1 c2 e2 r where r: "run_adapter_event exec syncs w ev = (w1, c1, e1, Inr r)"
      "id_serve exec syncs a nows (?rc, w1) = (Inr st, c2, e2)" "cmds = c1 @ c2"
      using Cons.prems(1) t Some by (auto split: prod.splits sum.splits)
    have ok1: "identity_ok ev" using Cons.prems(4) by (simp add: m(1) understood_Cons Some)
    have "consume T ix c1 = fst (insert_event T ix (index_event ev))"
      using consume_published[OF ok1, of T ix exec make_producer] run_event_cmds[OF r(1)] by (simp add: index_event_def)
    with Cons.IH[OF r(2) _ m(2) ok] show ?thesis by (simp add: m(1) understood_Cons Some r(3) consume_append)
  qed
qed

section \<open>Properties\<close>

text \<open>
  C9: a burst of identity lines reaches the index. After any burst of datagrams to a syslog adapter, a turn per message kept and
  no exception, the correlator that has consumed the stream holds, for every address, exactly the bindings that the events of the newest
  \<open>queue_max\<close> lines leave, applied in order to what it held before: logons add, stops take away, nothing else changes.
\<close>

theorem identity_burst_reaches_index:
  assumes "interval_tree_laws T" and "\<forall>d \<in> set ds. datagram_ok dec d" and "0 < n"
    and "rc = receive_all dec (new_receiver n) (map wire ds)"
    and "id_serve exec syncs a nows (rc, w) = (Inr st, cmds, effs)"
    and "evs = understood a nows (keep_last (nat n) (map message_of ds))"
    and "length nows = min (nat n) (length ds)" and "\<forall>ev \<in> set evs. identity_ok ev"
  shows "held_at T (consume T ix cmds) = foldl (\<lambda>S ev. spec_insert (index_event ev) S) (held_at T ix) evs"
proof -
  have "rq.bounded (new_receiver n)" using assms(3) by (simp add: rq.bounded_def new_receiver_def)
  from rq.contents_foldl[OF this, of "map message_of ds"]
  have q: "items (rc_queue rc) = keep_last (nat n) (map message_of ds)"
    by (simp add: assms(4) receive_all_enqueues[OF assms(2)] new_receiver_def)
  have c: "consume T ix cmds = foldl (\<lambda>ix ev. fst (insert_event T ix (index_event ev))) ix evs"
    using id_serve_consumed[OF assms(5) q] assms(6-8) by simp
  have "held_at T (foldl (\<lambda>ix ev. fst (insert_event T ix (index_event ev))) ix evs) =
      foldl (\<lambda>S ev. spec_insert (index_event ev) S) (held_at T ix) evs" for ix :: "'a identity_index"
    by (induction evs arbitrary: ix) (simp_all add: insert_event_held[OF assms(1)])
  then show ?thesis by (simp add: c)
qed

definition radius_start :: string where
  "radius_start = ise_line ise_header [('' '', ''UserName'', ''alice''), ('' '', ''Framed-IP-Address'', ''10.0.12.34''),
     ('' '', ''Acct-Status-Type'', ''Start'')]"

definition radius_start_event :: identity_event where
  "radius_start_event = \<lparr>ie_ts = 7, ie_src_ip = ''10.0.12.34'', ie_user_upn = ''alice'', ie_source = ''cisco_ise'',
     ie_event_type = ''nac-auth'', ie_confidence = 95, ie_ttl_seconds = 43200, ie_mac = None, ie_raw_id = None\<rparr>"

lemma radius_start_event_ok: "identity_ok radius_start_event"
  by code_simp

lemma radius_start_datagram: "datagram_ok id (''10.0.0.9'', radius_start, [nl])"
  by (simp add: datagram_ok_def radius_start_def ise_line_def ise_field_def ise_header_def nl_def cr_def)

lemma radius_start_read: "ise_parse 7 radius_start = Some radius_start_event"
proof -
  let ?fs = "[('' '', ''UserName'', ''alice''), ('' '', ''Framed-IP-Address'', ''10.0.12.34''), ('' '', ''Acct-Status-Type'', ''Start'')]"
  have ok: "\<forall>f \<in> set ?fs. ise_field_ok f" by code_simp
  show ?thesis
    by (simp add: radius_start_def radius_start_event_def ise_line_read[OF ise_demo(1,2) ok, where ip = "''10.0.12.34''" and
        user = "''alice''" and status = "''Start''" and timeout = 43200])
qed

theorem identity_burst_reaches_index_witness:
  "held_at list_tree (consume list_tree new_identity_index (fst (snd (id_serve (\<lambda>_. None) [] (CiscoIse 517) [7]
     (receive_all id (new_receiver 1) [(''10.0.0.9'', radius_start @ [nl])], new_group_sync_worker False))))) ''10.0.12.34'' =
   {\<lparr>iv_begin = 7, iv_end = 7 + 43200 * us_per_s,
      iv_data = \<lparr>b_user_upn = ''alice'', b_confidence = 95, b_source = ''cisco_ise'', b_t_start = 7\<rparr>\<rparr>}"
proof -
  let ?d = "(''10.0.0.9'', radius_start, [nl])" and ?w = "new_group_sync_worker False"
  let ?rc = "receive_all id (new_receiver 1) (map wire [?d])"
  have q: "items (rc_queue ?rc) = [message_of ?d]"
    using radius_start_datagram receive_all_enqueues[of "[?d]" id "new_receiver 1"]
    by (simp add: enqueue_def new_receiver_def put_nowait_def queue_full_def message_of_def)
  obtain st cmds effs where s: "id_serve (\<lambda>_. None) [] (CiscoIse 517) [7] (?rc, ?w) = (Inr st, cmds, effs)"
    using q by (simp add: id_adapter_turn_def get_nowait_def message_of_def radius_start_read run_adapter_event_def xadd_identity_def Let_def)
  have e: "[radius_start_event] = understood (CiscoIse 517) [7] (keep_last (nat 1) (map message_of [?d]))"
    by (simp add: message_of_def understood_def List.map_filter_def radius_start_read)
  have "held_at list_tree (consume list_tree new_identity_index cmds) =
      foldl (\<lambda>S ev. spec_insert (index_event ev) S) (held_at list_tree new_identity_index) [radius_start_event]"
    by (rule identity_burst_reaches_index[OF list_tree_laws _ _ refl s e]) (simp_all add: radius_start_datagram radius_start_event_ok)
  moreover have "held_at list_tree new_identity_index ''10.0.12.34'' = {}" by (simp add: held_at_def new_identity_index_def)
  ultimately show ?thesis
    using s by (simp add: wire_def spec_insert_def index_event_def
        wire_dict_def radius_start_event_def ev_ts_def key_r_def is_stop_def ev_binding_def us_per_s_def)
qed

end
