(* ===== verification/Resolver_Worker.thy ===== *)
theory Resolver_Worker
  imports App_Resolver
begin

text \<open>
  The reverse DNS worker: \<open>resolver/src/resolver/resolver_worker.py\<close>. Times and rates are rational
  numbers where the code has floats (rounding is not modelled); \<open>dns\<close> is the lookup (\<open>None\<close> when it
  raises) and \<open>pg_ok\<close> whether the upsert succeeds. A call returns what it wrote.
\<close>

section \<open>The token bucket\<close>

record token_bucket =
  tb_rate :: rat
  tb_capacity :: rat
  tb_tokens :: rat
  tb_last :: rat

definition new_bucket :: "rat \<Rightarrow> rat \<Rightarrow> token_bucket" where
  "new_bucket rate now = \<lparr>tb_rate = rate, tb_capacity = max 1 rate, tb_tokens = max 1 rate, tb_last = now\<rparr>"

text \<open>
  \<open>take\<close> at \<open>now\<close>: refill, then spend a token or sleep for the missing part; \<open>woke\<close> is the clock after
  the sleep. \<open>wait_time\<close> is the time asked for, which divides by the rate.
\<close>

definition refilled :: "token_bucket \<Rightarrow> rat \<Rightarrow> rat" where
  "refilled b now = min (tb_capacity b) (tb_tokens b + (now - tb_last b) * tb_rate b)"

definition wait_time :: "token_bucket \<Rightarrow> rat \<Rightarrow> py_error + rat" where
  "wait_time b now = (if tb_rate b = 0 then Inl ZeroDivisionError else Inr ((1 - refilled b now) / tb_rate b))"

definition take_token :: "token_bucket \<Rightarrow> rat \<Rightarrow> rat \<Rightarrow> token_bucket \<times> (py_error + unit)" where
  "take_token b now woke =
     (let b1 = b\<lparr>tb_tokens := refilled b now, tb_last := now\<rparr> in
      if tb_tokens b1 < 1
      then (case wait_time b now of
              Inl e \<Rightarrow> (b1, Inl e)
            | Inr w \<Rightarrow> (b1\<lparr>tb_tokens := 0, tb_last := woke\<rparr>, Inr ()))
      else (b1\<lparr>tb_tokens := tb_tokens b1 - 1\<rparr>, Inr ()))"

text \<open>
  A run of \<open>take\<close> calls as the clock allows: each starts no earlier than the last one ended, and a
  sleep lasts at least as long as asked.
\<close>

inductive takes :: "token_bucket \<Rightarrow> nat \<Rightarrow> token_bucket \<Rightarrow> bool" where
  none: "takes b 0 b"
| more: "takes b n c \<Longrightarrow> tb_last c \<le> now \<Longrightarrow> now \<le> woke \<Longrightarrow>
    (\<forall>w. wait_time c now = Inr w \<longrightarrow> refilled c now < 1 \<longrightarrow> now + w \<le> woke) \<Longrightarrow>
    take_token c now woke = (d, Inr ()) \<Longrightarrow> takes b (Suc n) d"

section \<open>The worker\<close>

datatype worker_effect = SetEx string string int | Upsert string "string option" string

record resolver_worker =
  rw_saas :: "saas_row list"
  rw_ptr_ttl_s :: int
  rw_saas_ttl_s :: int
  rw_bucket :: token_bucket

definition ptr_name :: "(string \<Rightarrow> string option option) \<Rightarrow> string \<Rightarrow> string" where
  "ptr_name dns ip = (case dns ip of None \<Rightarrow> [] | Some None \<Rightarrow> [] | Some (Some n) \<Rightarrow> n)"

definition new_resolver_worker :: "saas_row list \<Rightarrow> rat \<Rightarrow> int \<Rightarrow> int \<Rightarrow> rat \<Rightarrow> resolver_worker" where
  "new_resolver_worker saas rate ptr_ttl saas_ttl now =
     \<lparr>rw_saas = saas, rw_ptr_ttl_s = ptr_ttl, rw_saas_ttl_s = saas_ttl, rw_bucket = new_bucket rate now\<rparr>"

definition process_one :: "resolver_worker \<Rightarrow> (string \<Rightarrow> string option) \<Rightarrow> (string \<Rightarrow> string option option) \<Rightarrow> bool \<Rightarrow>
    rat \<Rightarrow> rat \<Rightarrow> string \<Rightarrow> resolver_worker \<times> worker_effect list \<times> (py_error + unit)" where
  "process_one rw get dns pg_ok now woke ip =
     (case get (''dns:ptr:'' @ ip) of
        Some _ \<Rightarrow> (rw, [], Inr ())
      | None \<Rightarrow>
          let (b, taken) = take_token (rw_bucket rw) now woke;
              rw = rw\<lparr>rw_bucket := b\<rparr>
          in case taken of
            Inl e \<Rightarrow> (rw, [], Inl e)
          | Inr _ \<Rightarrow>
            let name = ptr_name dns ip;
                set_ptr = SetEx (''dns:ptr:'' @ ip) name (rw_ptr_ttl_s rw)
            in if \<not> pg_ok then (rw, [set_ptr], Inl RuntimeError)
               else let up = Upsert ip (if name = [] then None else Some name) ''ptr'' in
                 (case (if name \<noteq> [] then match (rw_saas rw) name else None) of
                    None \<Rightarrow> (rw, [set_ptr, up], Inr ())
                  | Some row \<Rightarrow> (rw, [set_ptr, up,
                      SetEx (''dns:saas:'' @ ip) (show_int (sr_id row)) (rw_saas_ttl_s rw)], Inr ())))"

text \<open>One turn of the loop: \<open>blpop\<close> gives an address or times out; an exception is logged.\<close>

definition worker_turn :: "resolver_worker \<Rightarrow> (string \<Rightarrow> string option) \<Rightarrow> (string \<Rightarrow> string option option) \<Rightarrow> bool \<Rightarrow>
    rat \<Rightarrow> rat \<Rightarrow> string option \<Rightarrow> resolver_worker \<times> worker_effect list" where
  "worker_turn rw get dns pg_ok now woke item =
     (case item of
        None \<Rightarrow> (rw, [])
      | Some ip \<Rightarrow> (case process_one rw get dns pg_ok now woke ip of (rw1, ws, _) \<Rightarrow> (rw1, ws)))"

text \<open>The keys of Redis after the writes of a call (none has expired yet).\<close>

fun apply_effect :: "(string \<Rightarrow> string option) \<Rightarrow> worker_effect \<Rightarrow> string \<Rightarrow> string option" where
  "apply_effect kv (SetEx k v ttl) = kv(k \<mapsto> v)"
| "apply_effect kv (Upsert ip p s) = kv"

section \<open>Rate\<close>

definition credit :: "token_bucket \<Rightarrow> rat" where
  "credit b = tb_tokens b - tb_rate b * tb_last b"

lemma take_spends_one:
  assumes "take_token b now woke = (d, Inr ())" and "0 < tb_rate b" and "tb_last b \<le> now" and "now \<le> woke"
    and "\<forall>w. wait_time b now = Inr w \<longrightarrow> refilled b now < 1 \<longrightarrow> now + w \<le> woke"
  shows "credit d \<le> credit b - 1" "tb_rate d = tb_rate b" "0 \<le> tb_tokens b \<Longrightarrow> 0 \<le> tb_tokens d"
    "tb_capacity d = tb_capacity b"
proof -
  have r: "refilled b now \<le> tb_tokens b + (now - tb_last b) * tb_rate b" by (simp add: refilled_def)
  have w: "wait_time b now = Inr ((1 - refilled b now) / tb_rate b)" using assms(2) by (simp add: wait_time_def)
  show "credit d \<le> credit b - 1"
  proof (cases "refilled b now < 1")
    case True
    then have "now + (1 - refilled b now) / tb_rate b \<le> woke" using assms(5) w by blast
    then have "tb_rate b * (now + (1 - refilled b now) / tb_rate b) \<le> tb_rate b * woke"
      using assms(2) by (simp add: mult_left_mono)
    then have "tb_rate b * now + (1 - refilled b now) \<le> tb_rate b * woke"
      using assms(2) by (simp add: distrib_left)
    moreover have "d = b\<lparr>tb_tokens := 0, tb_last := woke\<rparr>" using True assms(1) w by (simp add: take_token_def Let_def)
    ultimately show ?thesis using r by (simp add: credit_def algebra_simps)
  next
    case False
    then have "d = b\<lparr>tb_last := now, tb_tokens := refilled b now - 1\<rparr>" using assms(1) by (simp add: take_token_def Let_def)
    then show ?thesis using r by (simp add: credit_def algebra_simps)
  qed
  show "tb_rate d = tb_rate b" "tb_capacity d = tb_capacity b" "0 \<le> tb_tokens b \<Longrightarrow> 0 \<le> tb_tokens d"
    using assms(1) w by (auto simp: take_token_def Let_def split: if_splits)
qed

lemma takes_credit:
  "takes b n c \<Longrightarrow> 0 < tb_rate b \<Longrightarrow> 0 \<le> tb_tokens b \<Longrightarrow>
   credit c \<le> credit b - of_nat n \<and> tb_rate c = tb_rate b \<and> 0 \<le> tb_tokens c"
proof (induction rule: takes.induct)
  case (more b n c now woke d)
  then have "credit c \<le> credit b - of_nat n" "tb_rate c = tb_rate b" "0 \<le> tb_tokens c" by auto
  with take_spends_one[of c now woke d] more show ?case by fastforce
qed simp

section \<open>Properties\<close>

text \<open>
  The rate limit. From a fresh bucket at time \<open>t\<close> with rate \<open>r\<close>, the \<open>n\<close>-th lookup is let through no
  earlier than the time at which the bucket has been given \<open>n\<close> tokens: \<open>n\<close> is at most the capacity
  \<open>max 1 r\<close> plus \<open>r\<close> times the time elapsed.
\<close>

theorem bucket_rate_limit:
  assumes "takes (new_bucket r t) n c" and "0 < r"
  shows "of_nat n \<le> max 1 r + r * (tb_last c - t)"
proof -
  have "credit c \<le> credit (new_bucket r t) - of_nat n" "tb_rate c = r" "0 \<le> tb_tokens c"
    using takes_credit[OF assms(1)] assms(2) by (simp_all add: new_bucket_def)
  then have "of_nat n \<le> max 1 r - r * t + r * tb_last c"
    by (simp add: credit_def new_bucket_def)
  then show ?thesis by (simp add: algebra_simps)
qed

theorem bucket_rate_limit_witness:
  "takes (new_bucket 2 0) 1 ((new_bucket 2 0)\<lparr>tb_tokens := 1\<rparr>) \<and> (of_nat 1 :: rat) \<le> max 1 2 + 2 * (0 - 0)"
proof -
  have t: "takes (new_bucket 2 0) (Suc 0) ((new_bucket 2 0)\<lparr>tb_tokens := 1\<rparr>)"
    by (rule more[OF none, where now = 0 and woke = 0])
      (simp_all add: new_bucket_def take_token_def refilled_def Let_def)
  from bucket_rate_limit[OF this] t show ?thesis by (simp add: new_bucket_def)
qed

lemma find_unique:
  "distinct (map f xs) \<Longrightarrow> x \<in> set xs \<Longrightarrow> find (\<lambda>y. f y = f x) xs = Some x"
  by (induction xs) auto

lemma match_in_table: "match (new_saas_matcher rows) n = Some r \<Longrightarrow> r \<in> set rows"
  using sm.hit_least[of rows n r] by blast

lemma take_ok: "tb_rate b \<noteq> 0 \<Longrightarrow> \<exists>d. take_token b now woke = (d, Inr ())"
  by (simp add: take_token_def wait_time_def Let_def)

lemma worker_turn_keys:
  assumes "get (''dns:ptr:'' @ ip) = None" and "ptr_name dns ip = n" and "n \<noteq> []"
    and "match (rw_saas rw) n = Some row" and "tb_rate (rw_bucket rw) \<noteq> 0"
  shows "foldl apply_effect get (snd (worker_turn rw get dns True now woke (Some ip))) =
    get(''dns:ptr:'' @ ip \<mapsto> n, ''dns:saas:'' @ ip \<mapsto> show_int (sr_id row))"
  using assms take_ok[OF assms(5), of now woke] by (auto simp: worker_turn_def process_one_def Let_def)

text \<open>
  What the resolver learns, the correlator uses. Both services hold the same catalogue, with
  distinct identifiers. When the resolver takes an address that has no PTR entry and whose name
  matches a catalogue row, the correlator, reading the keys it wrote, labels a flow to that address that
  no manual application and no firewall name covers with exactly that row.
\<close>

theorem resolver_feeds_correlator:
  fixes get :: "string \<Rightarrow> string option" and dns :: "string \<Rightarrow> string option option"
    and rw :: resolver_worker and now woke :: rat
  assumes "load_tables rs manual saas ports = Inr rs1" and "distinct (map se_id saas)"
    and "\<forall>e \<in> set saas. \<bar>se_id e\<bar> < 10 ^ 30"
    and "rw_saas rw = new_saas_matcher (map row_of_entry saas)" and "tb_rate (rw_bucket rw) \<noteq> 0"
    and "get (''dns:ptr:'' @ ip) = None" and "ptr_name dns ip = n" and "n \<noteq> []"
    and "match (rw_saas rw) n = Some row"
    and "manual_hit rs1 ip port proto = Inr None" and "\<not> truthy fqdn"
  defines "keys \<equiv> foldl apply_effect get (snd (worker_turn rw get dns True now woke (Some ip)))"
  shows "resolve_app rs1 keys ip port proto fqdn =
    Inr (\<lparr>ac_label_kind = Ptr, ac_label = sr_name row, ac_app_id = Some (sr_id row)\<rparr>, [])"
proof -
  have k: "keys = get(''dns:ptr:'' @ ip \<mapsto> n, ''dns:saas:'' @ ip \<mapsto> show_int (sr_id row))"
    unfolding keys_def
    by (rule worker_turn_keys[where get = get and ip = ip and dns = dns and n = n and rw = rw and row = row])
      (use assms(5-9) in auto)
  obtain e where e: "e \<in> set saas" "row = row_of_entry e"
    using match_in_table assms(4,9) by (metis imageE list.set_map)
  have id: "sr_id row = se_id e" "sr_name row = se_name e" by (simp_all add: e row_of_entry_def)
  have sorted: "rs_saas_sorted rs1 = sort_key entry_rank saas" using assms(1) by (simp add: load_tables_ok)
  have "distinct (map se_id (sort_key entry_rank saas))"
    using assms(2) by (metis distinct_map distinct_sort set_sort)
  then have "find (\<lambda>x. se_id x = se_id e) (rs_saas_sorted rs1) = Some e"
    unfolding sorted using e(1) by (intro find_unique) simp_all
  moreover have "py_int (show_int (sr_id row)) = Some (se_id e)"
    using py_int_show_int[OF show_int_short] assms(3) e(1) id(1) by simp
  ultimately have "saas_by_id rs1 (Some (show_int (sr_id row))) = Some e"
    by (simp add: saas_by_id_def)
  then show ?thesis
    using assms(8,10,11) by (simp add: resolve_app_def k id)
qed

definition zoom_worker :: resolver_worker where
  "zoom_worker = new_resolver_worker (new_saas_matcher (map row_of_entry [zoom])) 50 3600 3600 0"

theorem resolver_feeds_correlator_witness:
  "resolve_app demo_tables (foldl apply_effect (\<lambda>_. None) (snd (worker_turn zoom_worker
      (\<lambda>_. None) (\<lambda>_. Some (Some ''us02.zoom.us'')) True 0 0 (Some ''x'')))) ''x'' 443 6 None =
    Inr (\<lparr>ac_label_kind = Ptr, ac_label = ''Zoom'', ac_app_id = Some 3\<rparr>, [])"
proof -
  let ?g = "\<lambda>_. None" and ?d = "\<lambda>_. Some (Some ''us02.zoom.us'')"
  have x: "manual_hit demo_tables ''x'' 443 6 = Inr None" by (simp add: manual_hit_def read_ip_simps)
  have "suffix_match (''us02'' @ ''.zoom.us'') ''.zoom.us''" by (rule suffix_match_suffix)
  then have m: "match (rw_saas zoom_worker) ''us02.zoom.us'' = Some (row_of_entry zoom)"
    by (simp add: match_def new_saas_matcher_def zoom_worker_def new_resolver_worker_def)
      (simp add: row_of_entry_def zoom_def)
  note i = resolver_feeds_correlator[where rw = zoom_worker and get = ?g and dns = ?d and fqdn = None
      and ip = "''x''" and n = "''us02.zoom.us''" and row = "row_of_entry zoom" and port = 443 and proto = 6
      and now = 0 and woke = 0, OF demo_load]
  show ?thesis
    by (subst i) (use m x in \<open>simp_all add: zoom_def row_of_entry_def ptr_name_def zoom_worker_def
        new_resolver_worker_def new_bucket_def\<close>)
qed

end
