(* ===== verification/Api_Auth.thy ===== *)
theory Api_Auth
  imports Keyset Py_String
begin

text \<open>
  Authentication of the API: roles (\<open>api/src/api/auth/roles.py\<close>), signed sessions (\<open>auth/session.py\<close>),
  token verification and key cache (\<open>auth/jwt_verify.py\<close>, \<open>auth/jwks.py\<close>), the login endpoints
  (\<open>auth/router.py\<close>) and the CSRF middleware (\<open>middleware_csrf.py\<close>). The signing serializer and the JWT
  library are parameters; \<open>dumps p t\<close> is the token of a payload signed at second \<open>t\<close>, and \<open>loads tok ttl now\<close> its
  payload, \<open>None\<close> when the signature is bad or older than \<open>ttl\<close>.
\<close>

section \<open>Roles\<close>

datatype role = Viewer | Editor | Admin

record role_map =
  rm_viewer :: "string set"
  rm_editor :: "string set"
  rm_admin :: "string set"

fun hierarchy :: "role \<Rightarrow> role set" where
  "hierarchy Viewer = {Viewer}"
| "hierarchy Editor = {Viewer, Editor}"
| "hierarchy Admin = {Viewer, Editor, Admin}"

definition roles_from_groups :: "string list \<Rightarrow> role_map \<Rightarrow> role set" where
  "roles_from_groups groups m =
     (if set groups \<inter> rm_admin m \<noteq> {} then hierarchy Admin
      else if set groups \<inter> rm_editor m \<noteq> {} then hierarchy Editor
      else if set groups \<inter> rm_viewer m \<noteq> {} then hierarchy Viewer
      else {})"

record user =
  us_user_upn :: string
  us_roles :: "role set"

definition require_role :: "role \<Rightarrow> user \<Rightarrow> api_error + user" where
  "require_role r u = (if r \<notin> us_roles u then Inl (Http 403) else Inr u)"

section \<open>Settings and the role map\<close>

record api_settings =
  as_oidc_issuer :: string
  as_oidc_client_id :: string
  as_group_ids_viewer :: string
  as_group_ids_editor :: string
  as_group_ids_admin :: string
  as_session_secret :: string
  as_access_token_ttl_s :: int
  as_oidc_client_secret :: string
  as_oidc_redirect_uri :: string
  as_database_url :: string
  as_mock_session_enabled :: bool

definition split_ids :: "string \<Rightarrow> string set" where
  "split_ids val = set (filter (\<lambda>x. x \<noteq> []) (split_on CHR '','' val))"

definition role_map_of :: "api_settings \<Rightarrow> role_map" where
  "role_map_of s = \<lparr>rm_viewer = split_ids (as_group_ids_viewer s), rm_editor = split_ids (as_group_ids_editor s),
     rm_admin = split_ids (as_group_ids_admin s)\<rparr>"

section \<open>Sessions\<close>

record session_data =
  sd_user_upn :: string
  sd_roles :: "role set"
  sd_csrf :: string
  sd_exp :: int

record 'p serializer =
  sz_dumps :: "string \<Rightarrow> 'p \<Rightarrow> int \<Rightarrow> string"
  sz_loads :: "string \<Rightarrow> string \<Rightarrow> int \<Rightarrow> int \<Rightarrow> 'p option"

definition session_ttl :: int where "session_ttl = 8 * 3600"

definition min_secret_bytes :: nat where "min_secret_bytes = 32"

definition session_encode :: "session_data serializer \<Rightarrow> string \<Rightarrow> int \<Rightarrow> session_data \<Rightarrow> py_error + string" where
  "session_encode Z secret now d =
     (if length secret < min_secret_bytes then Inl ValueError else Inr (sz_dumps Z secret d now))"

definition session_decode :: "session_data serializer \<Rightarrow> string \<Rightarrow> int \<Rightarrow> string \<Rightarrow> py_error + session_data" where
  "session_decode Z secret now token =
     (if length secret < min_secret_bytes then Inl ValueError
      else case sz_loads Z secret token session_ttl now of
        None \<Rightarrow> Inl ValueError
      | Some d \<Rightarrow> if sd_exp d < now then Inl ValueError else Inr d)"

section \<open>Keys and tokens\<close>

record 'k jwks_cache =
  jc_ttl :: int
  jc_keys :: "(string, 'k) dict"
  jc_fetched_at :: int

definition new_jwks_cache :: "int \<Rightarrow> 'k jwks_cache" where
  "new_jwks_cache ttl = \<lparr>jc_ttl = ttl, jc_keys = [], jc_fetched_at = 0\<rparr>"

definition jwks_stale :: "'k jwks_cache \<Rightarrow> int \<Rightarrow> bool" where
  "jwks_stale c now \<longleftrightarrow> jc_keys c = [] \<or> jc_ttl c < now - jc_fetched_at c"

text \<open>\<open>_refresh\<close>: \<open>fetched\<close> is the document the provider returns, or the exception of the request.\<close>

definition jwks_refresh :: "py_error + (string \<times> 'k) list \<Rightarrow> int \<Rightarrow> 'k jwks_cache \<Rightarrow> 'k jwks_cache \<times> (py_error + unit)" where
  "jwks_refresh fetched now c =
     (case fetched of
        Inl e \<Rightarrow> (c, Inl e)
      | Inr ks \<Rightarrow> (c\<lparr>jc_keys := foldl (\<lambda>d k. AList.update (fst k) (snd k) d) [] ks, jc_fetched_at := now\<rparr>, Inr ()))"

definition jwks_get_key :: "py_error + (string \<times> 'k) list \<Rightarrow> py_error + (string \<times> 'k) list \<Rightarrow> int \<Rightarrow>
    'k jwks_cache \<Rightarrow> string \<Rightarrow> 'k jwks_cache \<times> (py_error + 'k)" where
  "jwks_get_key fetched1 fetched2 now c kid =
     (case (if jwks_stale c now then jwks_refresh fetched1 now c else (c, Inr ())) of
        (c1, Inl e) \<Rightarrow> (c1, Inl e)
      | (c1, Inr _) \<Rightarrow>
          (case map_of (jc_keys c1) kid of
             Some k \<Rightarrow> (c1, Inr k)
           | None \<Rightarrow>
              (case jwks_refresh fetched2 now c1 of
                 (c2, Inl e) \<Rightarrow> (c2, Inl e)
               | (c2, Inr _) \<Rightarrow>
                   (case map_of (jc_keys c2) kid of Some k \<Rightarrow> (c2, Inr k) | None \<Rightarrow> (c2, Inl KeyError)))))"

record claims =
  cl_upn :: "string option"
  cl_sub :: "string option"
  cl_groups :: "string list"

datatype token_error = InvalidToken | TokenRaised py_error

text \<open>
  \<open>verify_jwt\<close>: \<open>header\<close> gives the \<open>kid\<close> of a token's header (\<open>None\<close> if it is malformed), \<open>decode\<close> the verified
  claims for a key, an audience and an issuer.
\<close>

definition verify_jwt :: "(string \<Rightarrow> string option option) \<Rightarrow> (string \<Rightarrow> py_error + 'k) \<Rightarrow>
    (string \<Rightarrow> 'k \<Rightarrow> string \<Rightarrow> string \<Rightarrow> claims option) \<Rightarrow> string \<Rightarrow> string \<Rightarrow> string \<Rightarrow> token_error + claims" where
  "verify_jwt header get_key decode audience issuer token =
     (case header token of
        None \<Rightarrow> Inl InvalidToken
      | Some kid \<Rightarrow>
          if \<not> truthy kid then Inl InvalidToken
          else case get_key (the kid) of
            Inl e \<Rightarrow> Inl (if e = KeyError then InvalidToken else TokenRaised e)
          | Inr k \<Rightarrow> (case decode token k audience issuer of None \<Rightarrow> Inl InvalidToken | Some c \<Rightarrow> Inr c))"

section \<open>Requests\<close>

record request =
  rq_method :: string
  rq_authorization :: string
  rq_session :: "string option"
  rq_csrf_cookie :: "string option"
  rq_csrf_header :: "string option"
  rq_oidc_state :: "string option"
  rq_forwarded_uri :: string

text \<open>\<open>auth_header.split(None, 1)[1]\<close> of a header that starts with \<open>Bearer\<close> and a blank.\<close>

definition bearer_token :: "string \<Rightarrow> py_error + string" where
  "bearer_token h =
     (let rest = dropWhile (\<lambda>c. \<not> is_space c) (dropWhile is_space h); t = dropWhile is_space rest
      in if t = [] then Inl IndexError else Inr t)"

definition current_user :: "api_settings \<Rightarrow> session_data serializer \<Rightarrow> (string \<Rightarrow> token_error + claims) \<Rightarrow> int \<Rightarrow> request \<Rightarrow>
    api_error + user" where
  "current_user s Z verify now r =
     (if starts_with ''bearer '' (lower (rq_authorization r)) then
        (case bearer_token (rq_authorization r) of
           Inl e \<Rightarrow> Inl (Raised e)
         | Inr t \<Rightarrow> (case verify t of
             Inl InvalidToken \<Rightarrow> Inl (Http 401)
           | Inl (TokenRaised e) \<Rightarrow> Inl (Raised e)
           | Inr c \<Rightarrow> Inr \<lparr>us_user_upn = (case cl_upn c of Some u \<Rightarrow> u | None \<Rightarrow>
                 (case cl_sub c of Some u \<Rightarrow> u | None \<Rightarrow> ''unknown'')),
               us_roles = roles_from_groups (cl_groups c) (role_map_of s)\<rparr>))
      else if truthy (rq_session r) then
        (case session_decode Z (as_session_secret s) now (the (rq_session r)) of
           Inl e \<Rightarrow> Inl (Http 401)
         | Inr d \<Rightarrow> Inr \<lparr>us_user_upn = sd_user_upn d, us_roles = sd_roles d\<rparr>)
      else Inl (Http 401))"

definition csrf_dispatch :: "request \<Rightarrow> bool" where
  "csrf_dispatch r \<longleftrightarrow>
     rq_method r \<in> {''GET'', ''HEAD'', ''OPTIONS''} \<or> rq_session r = None \<or>
     (truthy (rq_csrf_cookie r) \<and> rq_csrf_cookie r = rq_csrf_header r)"

text \<open>
  \<open>callback\<close>: the session and CSRF cookies it sets; \<open>exchange\<close> is what the provider gives for the code and
  \<open>fresh\<close> the random token.
\<close>

definition callback :: "api_settings \<Rightarrow> session_data serializer \<Rightarrow> (string \<Rightarrow> py_error + claims) \<Rightarrow> string \<Rightarrow> int \<Rightarrow>
    request \<Rightarrow> string \<Rightarrow> string \<Rightarrow> api_error + string \<times> string" where
  "callback s Z exchange fresh now r code1 state =
     (if rq_oidc_state r \<noteq> Some state then Inl (Http 400)
      else case exchange code1 of
        Inl e \<Rightarrow> Inl (Raised e)
      | Inr c \<Rightarrow> (case cl_upn c of
          None \<Rightarrow> Inl (Raised KeyError)
        | Some u \<Rightarrow> (case session_encode Z (as_session_secret s) now
              \<lparr>sd_user_upn = u, sd_roles = roles_from_groups (cl_groups c) (role_map_of s), sd_csrf = fresh,
               sd_exp = now + as_access_token_ttl_s s\<rparr> of
            Inl e \<Rightarrow> Inl (Raised e)
          | Inr tok \<Rightarrow> Inr (tok, fresh))))"

definition verify_forward :: "user \<Rightarrow> request \<Rightarrow> api_error + string \<times> role set" where
  "verify_forward u r =
     (if starts_with ''/traefik'' (rq_forwarded_uri r) \<and> Admin \<notin> us_roles u then Inl (Http 403)
      else Inr (us_user_upn u, us_roles u))"

text \<open>A protected endpoint: the middleware first, then the dependency on the role.\<close>

definition guarded :: "api_settings \<Rightarrow> session_data serializer \<Rightarrow> (string \<Rightarrow> token_error + claims) \<Rightarrow> int \<Rightarrow> role \<Rightarrow>
    request \<Rightarrow> api_error + user" where
  "guarded s Z verify now role r =
     (if \<not> csrf_dispatch r then Inl (Http 403) else bind_r (current_user s Z verify now r) (require_role role))"

section \<open>Laws of the serializer\<close>

text \<open>A token opens exactly with the secret that signed it and no later than \<open>ttl\<close> seconds after.\<close>

definition serializer_laws :: "'p serializer \<Rightarrow> bool" where
  "serializer_laws Z \<longleftrightarrow>
     (\<forall>k p t ttl now. sz_loads Z k (sz_dumps Z k p t) ttl now = (if now - t \<le> ttl then Some p else None)) \<and>
     (\<forall>k tok ttl now p. sz_loads Z k tok ttl now = Some p \<longrightarrow> (\<exists>t. tok = sz_dumps Z k p t \<and> now - t \<le> ttl)) \<and>
     (\<forall>k p t. sz_dumps Z k p t \<noteq> [])"

section \<open>A concrete serializer\<close>

text \<open>
  A serializer that satisfies the laws: texts with a mark before every character and a stop at the end,
  integers as a sign and a tally, and on reading the check that the token is the one that would be written.
\<close>

definition enc_str :: "string \<Rightarrow> string" where
  "enc_str s = concat (map (\<lambda>c. [CHR ''x'', c]) s) @ ''.''"

fun dec_str :: "string \<Rightarrow> string \<times> string" where
  "dec_str (m # c # s) = (if m = CHR ''x'' then (case dec_str s of (t, r) \<Rightarrow> (c # t, r)) else ([], c # s))"
| "dec_str s = ([], [])"

definition enc_int :: "int \<Rightarrow> string" where
  "enc_int i = (if i < 0 then CHR ''-'' else CHR ''+'') # enc_str (replicate (nat \<bar>i\<bar>) CHR ''x'')"

definition dec_int :: "string \<Rightarrow> int \<times> string" where
  "dec_int s = (case dec_str (tl s) of (t, r) \<Rightarrow> (if s \<noteq> [] \<and> hd s = CHR ''-'' then - int (length t) else int (length t), r))"

definition enc_roles :: "role set \<Rightarrow> string" where
  "enc_roles R = map (\<lambda>x. if x \<in> R then CHR ''1'' else CHR ''0'') [Viewer, Editor, Admin]"

definition dec_roles :: "string \<Rightarrow> role set" where
  "dec_roles s = set (map snd (filter (\<lambda>p. fst p = CHR ''1'') (zip s [Viewer, Editor, Admin])))"

definition tally_dumps :: "string \<Rightarrow> session_data \<Rightarrow> int \<Rightarrow> string" where
  "tally_dumps k d t = enc_str k @ enc_int t @ enc_str (sd_user_upn d) @ enc_roles (sd_roles d) @ enc_str (sd_csrf d) @
     enc_int (sd_exp d) @ ''.''"

definition tally_read :: "string \<Rightarrow> string \<times> session_data \<times> int" where
  "tally_read tok =
     (case dec_str tok of (k, s1) \<Rightarrow> case dec_int s1 of (t, s2) \<Rightarrow> case dec_str s2 of (u, s3) \<Rightarrow>
      case dec_str (drop 3 s3) of (c, s4) \<Rightarrow> case dec_int s4 of (e, s5) \<Rightarrow>
      (k, \<lparr>sd_user_upn = u, sd_roles = dec_roles (take 3 s3), sd_csrf = c, sd_exp = e\<rparr>, t))"

definition tally_serializer :: "session_data serializer" where
  "tally_serializer = \<lparr>sz_dumps = tally_dumps,
     sz_loads = (\<lambda>k tok ttl now. case tally_read tok of (k1, d, t) \<Rightarrow>
       if k1 = k \<and> tally_dumps k d t = tok \<and> now - t \<le> ttl then Some d else None)\<rparr>"

lemma dec_enc_str: "s1 \<noteq> [] \<Longrightarrow> dec_str (enc_str s @ s1) = (s, s1)"
proof (induction s)
  case Nil
  then show ?case by (cases s1) (simp_all add: enc_str_def)
qed (simp add: enc_str_def)

lemma dec_enc_int: "s1 \<noteq> [] \<Longrightarrow> dec_int (enc_int i @ s1) = (i, s1)"
  by (simp add: dec_int_def enc_int_def dec_enc_str)

lemma dec_enc_roles: "dec_roles (enc_roles R) = R"
proof (rule set_eqI)
  fix x show "x \<in> dec_roles (enc_roles R) \<longleftrightarrow> x \<in> R"
    by (cases x) (auto simp: dec_roles_def enc_roles_def)
qed

lemma enc_ne [simp]: "enc_str s \<noteq> []" "enc_int i \<noteq> []" "length (enc_roles R) = 3"
  by (simp_all add: enc_str_def enc_int_def enc_roles_def)

lemma tally_read_dumps: "tally_read (tally_dumps k d t) = (k, d, t)"
proof -
  have ne: "enc_roles R @ s \<noteq> []" for R s using enc_ne(3)[of R] by (cases "enc_roles R") auto
  show ?thesis
    by (simp add: tally_read_def tally_dumps_def dec_enc_str dec_enc_int dec_enc_roles ne del: append_is_Nil_conv)
qed

lemma tally_laws: "serializer_laws tally_serializer"
proof -
  have "tally_dumps k d t \<noteq> []" for k d t by (simp add: tally_dumps_def)
  then show ?thesis
    by (auto simp: serializer_laws_def tally_serializer_def tally_read_dumps split: prod.splits if_splits)
qed

section \<open>Properties\<close>

text \<open>The groups that carry a role.\<close>

fun role_groups :: "role_map \<Rightarrow> role \<Rightarrow> string set" where
  "role_groups m Viewer = rm_viewer m \<union> rm_editor m \<union> rm_admin m"
| "role_groups m Editor = rm_editor m \<union> rm_admin m"
| "role_groups m Admin = rm_admin m"

lemma roles_from_groups_iff: "r \<in> roles_from_groups gs m \<longleftrightarrow> set gs \<inter> role_groups m r \<noteq> {}"
  by (cases r) (auto simp: roles_from_groups_def)

lemma loads_signed:
  "serializer_laws Z \<Longrightarrow> sz_loads Z k tok ttl now = Some p \<Longrightarrow> \<exists>t. tok = sz_dumps Z k p t \<and> now - t \<le> ttl"
  unfolding serializer_laws_def by blast

lemma session_path:
  assumes "\<not> starts_with ''bearer '' (lower (rq_authorization r))" and "rq_session r = Some tok" and "tok \<noteq> []"
  shows "current_user s Z verify now r = (case session_decode Z (as_session_secret s) now tok of
     Inl e \<Rightarrow> Inl (Http 401) | Inr d \<Rightarrow> Inr \<lparr>us_user_upn = sd_user_upn d, us_roles = sd_roles d\<rparr>)"
  using assms by (simp add: current_user_def)

lemma guarded_session:
  assumes "serializer_laws Z" and "callback s Z exchange fresh t r0 code1 state = Inr (tok, csrf)"
    and "exchange code1 = Inr c" and "cl_upn c = Some u"
    and "\<not> starts_with ''bearer '' (lower (rq_authorization r))" and "rq_session r = Some tok" and "csrf_dispatch r"
  shows "guarded s Z verify now role r =
    (if now \<le> t + min (as_access_token_ttl_s s) 28800
     then if set (cl_groups c) \<inter> role_groups (role_map_of s) role \<noteq> {}
       then Inr \<lparr>us_user_upn = u, us_roles = roles_from_groups (cl_groups c) (role_map_of s)\<rparr>
       else Inl (Http 403)
     else Inl (Http 401))"
proof -
  let ?d = "\<lparr>sd_user_upn = u, sd_roles = roles_from_groups (cl_groups c) (role_map_of s), sd_csrf = fresh,
      sd_exp = t + as_access_token_ttl_s s\<rparr>"
  have sec: "\<not> length (as_session_secret s) < min_secret_bytes" and tok: "tok = sz_dumps Z (as_session_secret s) ?d t"
    using assms(2-4) by (auto simp: callback_def session_encode_def split: if_splits)
  have ne: "tok \<noteq> []" and ld: "sz_loads Z (as_session_secret s) tok session_ttl now =
      (if now - t \<le> 28800 then Some ?d else None)"
    using assms(1) unfolding tok serializer_laws_def session_ttl_def by simp_all
  show ?thesis
    using session_path[OF assms(5,6) ne, of s Z verify now] sec ld assms(7)
    by (auto simp: guarded_def session_decode_def require_role_def roles_from_groups_iff)
qed


definition demo_api :: api_settings where
  "demo_api = \<lparr>as_oidc_issuer = ''https://idp'', as_oidc_client_id = ''ztna'', as_group_ids_viewer = ''g1,g2'',
     as_group_ids_editor = ''g3'', as_group_ids_admin = '''', as_session_secret = replicate 32 CHR ''s'',
     as_access_token_ttl_s = 3600, as_oidc_client_secret = [], as_oidc_redirect_uri = ''https://app/api/auth/callback'',
     as_database_url = [], as_mock_session_enabled = False\<rparr>"

definition demo_request :: request where
  "demo_request = \<lparr>rq_method = ''GET'', rq_authorization = '''', rq_session = None, rq_csrf_cookie = None,
     rq_csrf_header = None, rq_oidc_state = Some ''st'', rq_forwarded_uri = ''''\<rparr>"


text \<open>
  C24: nobody enters without credentials. Whoever reaches an endpoint that needs a role has it, and either
  presented a verified bearer token whose groups carry the role, or a session cookie signed with the server's
  secret at most eight hours ago, not expired, for that user and role; and a mutation that carried a session
  cookie repeated a non-empty CSRF cookie in its header.
\<close>

theorem guarded_sound:
  assumes "serializer_laws Z" and "guarded s Z verify now role r = Inr u"
  shows "role \<in> us_roles u \<and>
    (if starts_with ''bearer '' (lower (rq_authorization r))
     then \<exists>t c. bearer_token (rq_authorization r) = Inr t \<and> verify t = Inr c \<and>
       set (cl_groups c) \<inter> role_groups (role_map_of s) role \<noteq> {}
     else \<exists>d t. rq_session r = Some (sz_dumps Z (as_session_secret s) d t) \<and> now - t \<le> 28800 \<and> now \<le> sd_exp d \<and>
       us_user_upn u = sd_user_upn d \<and> us_roles u = sd_roles d) \<and>
    (rq_method r \<notin> {''GET'', ''HEAD'', ''OPTIONS''} \<and> rq_session r \<noteq> None \<longrightarrow>
       truthy (rq_csrf_cookie r) \<and> rq_csrf_header r = rq_csrf_cookie r)"
proof -
  have csrf: "csrf_dispatch r" and cu: "current_user s Z verify now r = Inr u" and role: "role \<in> us_roles u"
    using assms(2) by (auto simp: guarded_def bind_r_Inr require_role_def split: if_splits)
  show ?thesis
  proof (cases "starts_with ''bearer '' (lower (rq_authorization r))")
    case True
    then show ?thesis
      using cu role csrf by (auto simp: current_user_def csrf_dispatch_def roles_from_groups_iff
          split: sum.splits token_error.splits)
  next
    case False
    then obtain tok d where tok: "rq_session r = Some tok" and
      d: "session_decode Z (as_session_secret s) now tok = Inr d" "u = \<lparr>us_user_upn = sd_user_upn d, us_roles = sd_roles d\<rparr>"
      using cu by (auto simp: current_user_def truthy_def split: if_splits sum.splits option.splits)
    then have ld: "sz_loads Z (as_session_secret s) tok session_ttl now = Some d" and "now \<le> sd_exp d"
      by (auto simp: session_decode_def split: if_splits option.splits)
    from loads_signed[OF assms(1) ld] obtain t where "tok = sz_dumps Z (as_session_secret s) d t" "now - t \<le> 28800"
      by (auto simp: session_ttl_def)
    then show ?thesis using False tok d \<open>now \<le> sd_exp d\<close> role csrf by (auto simp: csrf_dispatch_def)
  qed
qed

definition demo_session :: session_data where
  "demo_session = \<lparr>sd_user_upn = ''ann'', sd_roles = {Viewer}, sd_csrf = ''c'', sd_exp = 10\<rparr>"

theorem guarded_sound_witness:
  "guarded demo_api tally_serializer (\<lambda>_. Inl InvalidToken) 5 Viewer
     (demo_request\<lparr>rq_session := Some (tally_dumps (as_session_secret demo_api) demo_session 0)\<rparr>) =
     Inr \<lparr>us_user_upn = ''ann'', us_roles = {Viewer}\<rparr> \<and>
   (\<exists>d t. Some (tally_dumps (as_session_secret demo_api) demo_session 0) =
     Some (sz_dumps tally_serializer (as_session_secret demo_api) d t) \<and> 5 - t \<le> 28800 \<and> 5 \<le> sd_exp d)"
proof -
  let ?r = "demo_request\<lparr>rq_session := Some (tally_dumps (as_session_secret demo_api) demo_session 0)\<rparr>"
  have nb: "\<not> starts_with ''bearer '' (lower (rq_authorization ?r))"
    by (simp add: demo_request_def starts_with_def lower_def)
  have ne: "tally_dumps k d t \<noteq> []" for k d t by (simp add: tally_dumps_def)
  have "sz_loads tally_serializer (as_session_secret demo_api) (tally_dumps (as_session_secret demo_api) demo_session 0)
      session_ttl 5 = Some demo_session"
    by (simp add: tally_serializer_def tally_read_dumps session_ttl_def)
  then have g: "guarded demo_api tally_serializer (\<lambda>_. Inl InvalidToken) 5 Viewer ?r =
      Inr \<lparr>us_user_upn = ''ann'', us_roles = {Viewer}\<rparr>"
    using session_path[OF nb _ ne] by (simp add: guarded_def csrf_dispatch_def session_decode_def require_role_def)
      (simp add: demo_request_def demo_api_def min_secret_bytes_def demo_session_def)
  from guarded_sound[OF tally_laws g] nb g show ?thesis by auto
qed

text \<open>
  The key cache of the endpoints. \<open>current_user\<close> builds a new cache for every request, so a request whose key
  document cannot be fetched fails whatever was fetched before, and every request fetches it.
\<close>

definition request_get_key :: "py_error + (string \<times> 'k) list \<Rightarrow> py_error + (string \<times> 'k) list \<Rightarrow> int \<Rightarrow> string \<Rightarrow> py_error + 'k" where
  "request_get_key fetched1 fetched2 now kid = snd (jwks_get_key fetched1 fetched2 now (new_jwks_cache 3600) kid)"

theorem key_cache_never_hits:
  "request_get_key (Inl e) fetched2 now kid = Inl e"
  by (simp add: request_get_key_def jwks_get_key_def jwks_stale_def new_jwks_cache_def jwks_refresh_def)

text \<open>A cache that is kept, on the other hand, answers from memory within its lifetime and otherwise by the last document.\<close>

theorem jwks_get_key_spec:
  assumes "jc_keys c \<noteq> []" and "now - jc_fetched_at c \<le> jc_ttl c" and "map_of (jc_keys c) kid = Some k"
  shows "jwks_get_key fetched1 fetched2 now c kid = (c, Inr k)"
  using assms by (simp add: jwks_get_key_def jwks_stale_def)

end
