(* ===== verification/Api_Applications.thy ===== *)
theory Api_Applications
  imports Api_Auth
begin

text \<open>
  The application catalogue of the API: \<open>api/src/api/routers/applications.py\<close> with \<open>schemas/applications.py\<close>
  and \<open>require_editor\<close> of \<open>dependencies.py\<close>. The tables \<open>applications\<close> and \<open>application_audit\<close> are the state;
  \<open>db_ok\<close> says whether the database accepts the values of a row (a network without host bits, integers in range), and \<open>now\<close> is its clock.
\<close>

record application_in =
  ai_name :: string
  ai_description :: "string option"
  ai_owner :: "string option"
  ai_dst_cidr :: string
  ai_dst_port_min :: "int option"
  ai_dst_port_max :: "int option"
  ai_proto :: "int option"
  ai_priority :: int

record application =
  ap_id :: nat
  ap_body :: application_in
  ap_source :: string
  ap_created_at :: instant
  ap_updated_at :: instant
  ap_updated_by :: string

datatype audit_op = OpCreate | OpUpdate

record audit_entry =
  au_application_id :: nat
  au_changed_at :: instant
  au_changed_by :: string
  au_op :: audit_op
  au_before :: "application option"
  au_after :: "application option"

record app_db =
  db_apps :: "application list"
  db_audit :: "audit_entry list"
  db_next_id :: nat

definition empty_app_db :: app_db where
  "empty_app_db = \<lparr>db_apps = [], db_audit = [], db_next_id = 1\<rparr>"

text \<open>The validation of \<open>ApplicationIn\<close>; a body that fails is answered 422.\<close>

definition port_ok :: "int option \<Rightarrow> bool" where
  "port_ok p = (case p of None \<Rightarrow> True | Some n \<Rightarrow> 0 \<le> n \<and> n \<le> 65535)"

definition body_ok :: "application_in \<Rightarrow> bool" where
  "body_ok b \<longleftrightarrow> 1 \<le> length (ai_name b) \<and> length (ai_name b) \<le> 200 \<and> port_ok (ai_dst_port_min b) \<and> port_ok (ai_dst_port_max b)"

text \<open>The dictionary that \<open>current_user\<close> returns, as far as texts are read from it.\<close>

type_synonym user_dict = "(string, string) dict"

definition user_dict_of :: "user \<Rightarrow> user_dict" where
  "user_dict_of u = [(''user_upn'', us_user_upn u)]"

definition require_editor :: "user \<Rightarrow> api_error + user" where
  "require_editor u = (if Editor \<notin> us_roles u then Inl (Http 403) else Inr u)"

definition find_app :: "app_db \<Rightarrow> nat \<Rightarrow> application option" where
  "find_app db i = find (\<lambda>a. ap_id a = i) (db_apps db)"

definition list_apps :: "app_db \<Rightarrow> nat \<Rightarrow> nat \<Rightarrow> application list" where
  "list_apps db limit offset =
     take limit (drop offset (sort_key (\<lambda>a. (- ai_priority (ap_body a), ap_id a)) (db_apps db)))"

definition create_app :: "(application_in \<Rightarrow> bool) \<Rightarrow> instant \<Rightarrow> user_dict \<Rightarrow> application_in \<Rightarrow> app_db \<Rightarrow>
    app_db \<times> (api_error + application)" where
  "create_app db_ok now user1 body db =
     (if \<not> body_ok body then (db, Inl (Http 422))
      else case lookup_r user1 ''upn'' of
        Inl e \<Rightarrow> (db, Inl (Raised e))
      | Inr by1 \<Rightarrow>
          if \<not> db_ok body then (db, Inl (Raised RuntimeError))
          else let row = \<lparr>ap_id = db_next_id db, ap_body = body, ap_source = ''manual'', ap_created_at = now,
                     ap_updated_at = now, ap_updated_by = by1\<rparr>;
                   entry = \<lparr>au_application_id = ap_id row, au_changed_at = now, au_changed_by = by1, au_op = OpCreate,
                     au_before = None, au_after = Some row\<rparr>
               in (\<lparr>db_apps = db_apps db @ [row], db_audit = db_audit db @ [entry], db_next_id = Suc (db_next_id db)\<rparr>, Inr row))"

definition update_app :: "(application_in \<Rightarrow> bool) \<Rightarrow> instant \<Rightarrow> user_dict \<Rightarrow> nat \<Rightarrow> application_in \<Rightarrow> app_db \<Rightarrow>
    app_db \<times> (api_error + application)" where
  "update_app db_ok now user1 i body db =
     (if \<not> body_ok body then (db, Inl (Http 422))
      else case find_app db i of
        None \<Rightarrow> (db, Inl (Http 404))
      | Some before \<Rightarrow> (case lookup_r user1 ''upn'' of
          Inl e \<Rightarrow> (db, Inl (Raised e))
        | Inr by1 \<Rightarrow>
            if \<not> db_ok body then (db, Inl (Raised RuntimeError))
            else let after = before\<lparr>ap_body := body, ap_updated_at := now, ap_updated_by := by1\<rparr>;
                     entry = \<lparr>au_application_id = i, au_changed_at = now, au_changed_by = by1, au_op = OpUpdate,
                       au_before = Some before, au_after = Some after\<rparr>
                 in (db\<lparr>db_apps := map (\<lambda>a. if ap_id a = i then after else a) (db_apps db),
                        db_audit := db_audit db @ [entry]\<rparr>, Inr after)))"

text \<open>Deleting cascades to the audit rows of the application.\<close>

definition delete_app :: "nat \<Rightarrow> app_db \<Rightarrow> app_db \<times> (api_error + unit)" where
  "delete_app i db =
     (case find_app db i of
        None \<Rightarrow> (db, Inl (Http 404))
      | Some before \<Rightarrow> (db\<lparr>db_apps := filter (\<lambda>a. ap_id a \<noteq> i) (db_apps db),
          db_audit := filter (\<lambda>e. au_application_id e \<noteq> i) (db_audit db)\<rparr>, Inr ()))"

definition get_audit :: "nat \<Rightarrow> app_db \<Rightarrow> audit_entry list" where
  "get_audit i db = sort_key (\<lambda>e. - au_changed_at e) (filter (\<lambda>e. au_application_id e = i) (db_audit db))"

text \<open>A request on the catalogue, after authentication.\<close>

datatype app_request = Create user_dict application_in | Update user_dict nat application_in | Delete nat

fun app_step :: "(application_in \<Rightarrow> bool) \<Rightarrow> app_db \<Rightarrow> instant \<times> app_request \<Rightarrow> app_db" where
  "app_step db_ok db (now, Create u b) = fst (create_app db_ok now u b db)"
| "app_step db_ok db (now, Update u i b) = fst (update_app db_ok now u i b db)"
| "app_step db_ok db (now, Delete i) = fst (delete_app i db)"

section \<open>The audit trail\<close>

definition trail :: "app_db \<Rightarrow> nat \<Rightarrow> audit_entry list" where
  "trail db i = filter (\<lambda>e. au_application_id e = i) (db_audit db)"

text \<open>A trail leads to a row: it starts with a creation, each entry goes on from the one before, the last one gives the row.\<close>

fun leads_to :: "application option \<Rightarrow> audit_entry list \<Rightarrow> application option \<Rightarrow> bool" where
  "leads_to a [] b \<longleftrightarrow> a = b"
| "leads_to a (e # es) b \<longleftrightarrow> au_before e = a \<and> leads_to (au_after e) es b"

definition audit_inv :: "app_db \<Rightarrow> bool" where
  "audit_inv db \<longleftrightarrow> distinct (map ap_id (db_apps db)) \<and> (\<forall>a \<in> set (db_apps db). ap_id a < db_next_id db) \<and>
     (\<forall>i. leads_to None (trail db i) (find_app db i))"

lemma leads_to_snoc [simp]: "leads_to a (es @ [e]) b \<longleftrightarrow> leads_to a es (au_before e) \<and> au_after e = b"
  by (induction es arbitrary: a) auto

lemma find_map_update:
  "(\<And>a. ap_id (f a) = ap_id a) \<Longrightarrow> find (\<lambda>a. ap_id a = j) (map f xs) = map_option f (find (\<lambda>a. ap_id a = j) xs)"
  by (induction xs) auto

lemma find_app_mem: "find_app db i = Some a \<Longrightarrow> ap_id a = i \<and> a \<in> set (db_apps db)"
  by (auto simp: find_app_def find_Some_iff)

lemma find_append: "find P (xs @ ys) = (case find P xs of None \<Rightarrow> find P ys | Some x \<Rightarrow> Some x)"
  by (induction xs) auto

lemma find_filter_id: "find (\<lambda>a. ap_id a = j) (filter (\<lambda>a. ap_id a \<noteq> i) xs) = (if j = i then None else find (\<lambda>a. ap_id a = j) xs)"
  by (induction xs) auto

lemma create_inv:
  assumes "audit_inv db"
  shows "audit_inv (fst (create_app db_ok now u b db))"
proof -
  have fresh: "find_app db (db_next_id db) = None"
    using assms find_app_mem[of db "db_next_id db"]
    by (cases "find_app db (db_next_id db)") (auto simp: audit_inv_def)
  have l: "leads_to None (trail db i) (find_app db i)" for i using assms by (simp add: audit_inv_def)
  have n: "db_next_id db \<notin> ap_id ` set (db_apps db)" using assms by (auto simp: audit_inv_def)
  let ?row = "\<lambda>by1. \<lparr>ap_id = db_next_id db, ap_body = b, ap_source = ''manual'', ap_created_at = now,
      ap_updated_at = now, ap_updated_by = by1\<rparr>"
  let ?db = "\<lambda>by1. \<lparr>db_apps = db_apps db @ [?row by1], db_audit = db_audit db @ [\<lparr>au_application_id = db_next_id db,
      au_changed_at = now, au_changed_by = by1, au_op = OpCreate, au_before = None, au_after = Some (?row by1)\<rparr>],
      db_next_id = Suc (db_next_id db)\<rparr>"
  have t: "trail (?db by1) i = (if i = db_next_id db then trail db i @ [last (db_audit (?db by1))] else trail db i)" for by1 i
    by (auto simp: trail_def)
  have f: "find_app (?db by1) i = (if i = db_next_id db then Some (?row by1) else find_app db i)" for by1 i
    using fresh by (auto simp: find_app_def find_append split: option.splits)
  have "leads_to None (trail (?db by1) i) (find_app (?db by1) i)" for by1 i
    unfolding t f using l[of i] l[of "db_next_id db"] fresh by simp
  moreover have "distinct (map ap_id (db_apps (?db by1)))" "\<forall>a \<in> set (db_apps (?db by1)). ap_id a < db_next_id (?db by1)" for by1
    using assms n by (auto simp: audit_inv_def)
  ultimately have "audit_inv (?db by1)" for by1 unfolding audit_inv_def by blast
  then show ?thesis using assms by (auto simp: create_app_def Let_def split: sum.splits)
qed

lemma update_inv:
  assumes "audit_inv db"
  shows "audit_inv (fst (update_app db_ok now u i b db))"
proof (cases "find_app db i")
  case (Some before)
  have id: "ap_id before = i" using find_app_mem[OF Some] by blast
  let ?after = "\<lambda>by1. before\<lparr>ap_body := b, ap_updated_at := now, ap_updated_by := by1\<rparr>"
  let ?f = "\<lambda>by1 a. if ap_id a = i then ?after by1 else a"
  have m: "map ap_id (map (?f by1) xs) = map ap_id xs" for by1 xs using id by (induction xs) auto
  have fd: "find (\<lambda>a. ap_id a = j) (map (?f by1) (db_apps db)) = map_option (?f by1) (find_app db j)" for j by1
    unfolding find_app_def by (rule find_map_update) (simp add: id)
  have l: "leads_to None (trail db j) (find_app db j)" for j using assms by (simp add: audit_inv_def)
  have j: "map_option (?f by1) (find_app db j) = find_app db j" if "j \<noteq> i" for j by1
    using find_app_mem[of db j] that by (cases "find_app db j") auto
  have "audit_inv (db\<lparr>db_apps := map (?f by1) (db_apps db), db_audit := db_audit db @ [\<lparr>au_application_id = i,
      au_changed_at = now, au_changed_by = by1, au_op = OpUpdate, au_before = Some before, au_after = Some (?after by1)\<rparr>]\<rparr>)"
    (is "audit_inv ?db") for by1
  proof -
    have "leads_to None (trail ?db k) (find_app ?db k)" for k
    proof (cases "k = i")
      case True
      have "find_app ?db i = Some (?after by1)" using fd[of i by1] Some id by (simp add: find_app_def)
      moreover have "trail ?db i = trail db i @ [last (db_audit ?db)]" by (simp add: trail_def)
      ultimately show ?thesis using l[of i] Some True by simp
    next
      case False
      then have "trail ?db k = trail db k" by (simp add: trail_def)
      moreover have "find_app ?db k = find_app db k" using fd[of k by1] j[OF False] by (simp add: find_app_def)
      ultimately show ?thesis using l by simp
    qed
    moreover have "distinct (map ap_id (map (?f by1) (db_apps db)))" unfolding m using assms by (simp add: audit_inv_def)
    then have "distinct (map ap_id (db_apps ?db))" by simp
    moreover have "\<forall>a \<in> set (db_apps ?db). ap_id a < db_next_id ?db"
      using assms id find_app_mem[OF Some] by (auto simp: audit_inv_def)
    ultimately show ?thesis by (simp only: audit_inv_def) blast
  qed
  then show ?thesis using assms Some by (auto simp: update_app_def Let_def split: sum.splits)
qed (simp add: update_app_def assms)

lemma delete_inv: "audit_inv db \<Longrightarrow> audit_inv (fst (delete_app i db))"
proof -
  assume inv: "audit_inv db"
  have t: "filter (\<lambda>x. au_application_id x \<noteq> i \<and> au_application_id x = k) xs =
      (if k = i then [] else filter (\<lambda>x. au_application_id x = k) xs)" for k xs
    by (induction xs) auto
  show ?thesis
    using inv by (auto simp: delete_app_def audit_inv_def trail_def find_app_def find_filter_id distinct_map_filter t
        split: option.splits)
qed

lemma app_step_inv: "audit_inv db \<Longrightarrow> audit_inv (app_step db_ok db q)"
  by (cases "(db_ok, db, q)" rule: app_step.cases) (simp_all add: create_inv update_inv delete_inv)

section \<open>Properties\<close>


text \<open>
  No signed-in editor can create or change an application. The dictionary that authentication returns
  has no key \<open>upn\<close>, which both handlers read: a valid request fails and the tables stay as they
  are.
\<close>

theorem editors_cannot_write:
  assumes "require_editor u = Inr u1" and "body_ok body"
  shows "create_app db_ok now (user_dict_of u1) body db = (db, Inl (Raised KeyError)) \<and>
    update_app db_ok now (user_dict_of u1) i body db =
      (db, Inl (if find_app db i = None then Http 404 else Raised KeyError))"
  using assms by (auto simp: create_app_def update_app_def user_dict_of_def lookup_r_def split: option.splits)

definition demo_body :: application_in where
  "demo_body = \<lparr>ai_name = ''CRM'', ai_description = None, ai_owner = None, ai_dst_cidr = ''10.0.0.0/24'',
     ai_dst_port_min = Some 443, ai_dst_port_max = Some 443, ai_proto = Some 6, ai_priority = 100\<rparr>"

theorem editors_cannot_write_witness:
  "create_app (\<lambda>_. True) 0 (user_dict_of \<lparr>us_user_upn = ''ann'', us_roles = {Viewer, Editor}\<rparr>) demo_body empty_app_db =
     (empty_app_db, Inl (Raised KeyError))"
  using editors_cannot_write[of "\<lparr>us_user_upn = ''ann'', us_roles = {Viewer, Editor}\<rparr>"
      "\<lparr>us_user_upn = ''ann'', us_roles = {Viewer, Editor}\<rparr>" demo_body "\<lambda>_. True" 0 empty_app_db]
  by (simp add: require_editor_def demo_body_def body_ok_def port_ok_def)

end
