(* ===== verification/Saas_Catalog.thy ===== *)
theory Saas_Catalog
  imports Api_Applications App_Resolver
begin

text \<open>
  The SaaS catalogue: \<open>api/src/api/routers/saas.py\<close> with \<open>schemas/saas.py\<close>, the seeding of the table by the migration
  \<open>0004_seed_saas_and_ports.py\<close>, its notifications (\<open>0005_notify_triggers.py\<close>), and the queries with which the two services read it
  (\<open>_load_saas\<close> of the resolver, \<open>_load_app_resolver\<close> of the correlator). The table is the state, with its keys as the
  migration \<open>0003_init_catalogs.py\<close> declares them; \<open>db_ok\<close> says whether the database accepts the values of a row, and
  its refusals are a \<open>RuntimeError\<close>. An operation returns the notifications of its transaction.
\<close>

section \<open>The table and its endpoints\<close>

record saas_in =
  si_name :: string
  si_vendor :: "string option"
  si_fqdn_pattern :: string
  si_category :: "string option"
  si_priority :: int

record catalog_row =
  cr_id :: int
  cr_body :: saas_in
  cr_source :: string

record saas_db =
  sd_rows :: "catalog_row list"
  sd_next :: int

definition empty_saas_db :: saas_db where
  "empty_saas_db = \<lparr>sd_rows = [], sd_next = 1\<rparr>"

definition saas_in_ok :: "saas_in \<Rightarrow> bool" where
  "saas_in_ok b \<longleftrightarrow> 1 \<le> length (si_name b) \<and> 2 \<le> length (si_fqdn_pattern b)"

type_synonym notification = "string \<times> string"

text \<open>\<open>pg_notify('saas_changed', ...)\<close> of the row trigger.\<close>

definition saas_notify :: "int \<Rightarrow> notification" where
  "saas_notify i = (''saas_changed'', show_int i)"

definition pattern_taken :: "saas_db \<Rightarrow> int \<Rightarrow> string \<Rightarrow> bool" where
  "pattern_taken db i p \<longleftrightarrow> (\<exists>r \<in> set (sd_rows db). cr_id r \<noteq> i \<and> si_fqdn_pattern (cr_body r) = p)"

definition list_saas :: "saas_db \<Rightarrow> catalog_row list" where
  "list_saas db = sort_key cr_id (sd_rows db)"

text \<open>A refused insertion has already taken its number from the sequence.\<close>

definition create_saas :: "(saas_in \<Rightarrow> bool) \<Rightarrow> user \<Rightarrow> saas_in \<Rightarrow> saas_db \<Rightarrow>
    saas_db \<times> (api_error + catalog_row) \<times> notification list" where
  "create_saas db_ok u body db =
     (case require_editor u of
        Inl e \<Rightarrow> (db, Inl e, [])
      | Inr _ \<Rightarrow>
          if \<not> saas_in_ok body then (db, Inl (Http 422), [])
          else if \<not> db_ok body then (db, Inl (Raised RuntimeError), [])
          else if pattern_taken db (sd_next db) (si_fqdn_pattern body)
            then (db\<lparr>sd_next := sd_next db + 1\<rparr>, Inl (Raised RuntimeError), [])
          else let row = \<lparr>cr_id = sd_next db, cr_body = body, cr_source = ''manual''\<rparr>
               in (\<lparr>sd_rows = sd_rows db @ [row], sd_next = sd_next db + 1\<rparr>, Inr row, [saas_notify (cr_id row)]))"

definition update_saas :: "(saas_in \<Rightarrow> bool) \<Rightarrow> user \<Rightarrow> int \<Rightarrow> saas_in \<Rightarrow> saas_db \<Rightarrow>
    saas_db \<times> (api_error + catalog_row) \<times> notification list" where
  "update_saas db_ok u i body db =
     (case require_editor u of
        Inl e \<Rightarrow> (db, Inl e, [])
      | Inr _ \<Rightarrow>
          if \<not> saas_in_ok body then (db, Inl (Http 422), [])
          else if \<not> db_ok body then (db, Inl (Raised RuntimeError), [])
          else (case find (\<lambda>r. cr_id r = i) (sd_rows db) of
             None \<Rightarrow> (db, Inl (Http 404), [])
           | Some row \<Rightarrow>
               if pattern_taken db i (si_fqdn_pattern body) then (db, Inl (Raised RuntimeError), [])
               else (db\<lparr>sd_rows := map (\<lambda>r. if cr_id r = i then r\<lparr>cr_body := body\<rparr> else r) (sd_rows db)\<rparr>,
                     Inr (row\<lparr>cr_body := body\<rparr>), [saas_notify i])))"

definition delete_saas :: "user \<Rightarrow> int \<Rightarrow> saas_db \<Rightarrow> saas_db \<times> (api_error + unit) \<times> notification list" where
  "delete_saas u i db =
     (case require_editor u of
        Inl e \<Rightarrow> (db, Inl e, [])
      | Inr _ \<Rightarrow> (db\<lparr>sd_rows := filter (\<lambda>r. cr_id r \<noteq> i) (sd_rows db)\<rparr>, Inr (),
          map (\<lambda>r. saas_notify (cr_id r)) (filter (\<lambda>r. cr_id r = i) (sd_rows db))))"

section \<open>Seeding\<close>

text \<open>
  The rows of \<open>saas_catalog.csv\<close> as \<open>csv.DictReader\<close> gives them. A missing column, a priority that is no number or too large for its column, and
  a missing value that the table needs raise, and the transaction of the migration is rolled back; a pattern that is there already is left alone.
\<close>

definition seed_row :: "(string, string option) dict \<Rightarrow> py_error + saas_in \<times> string" where
  "seed_row row =
     bind_r (lookup_r row ''priority'') (\<lambda>ps.
       case ps of None \<Rightarrow> Inl TypeError | Some digits \<Rightarrow>
       case py_int digits of None \<Rightarrow> Inl ValueError | Some pr \<Rightarrow>
       bind_r (lookup_r row ''name'') (\<lambda>name.
       bind_r (lookup_r row ''vendor'') (\<lambda>vendor.
       bind_r (lookup_r row ''fqdn_pattern'') (\<lambda>pat.
       bind_r (lookup_r row ''category'') (\<lambda>cat.
       bind_r (lookup_r row ''source'') (\<lambda>src.
         case (name, pat, src) of
           (Some n, Some p, Some sc) \<Rightarrow>
             if - (2 ^ 31) \<le> pr \<and> pr < 2 ^ 31
             then Inr (\<lparr>si_name = n, si_vendor = vendor, si_fqdn_pattern = p, si_category = cat, si_priority = pr\<rparr>, sc)
             else Inl RuntimeError
         | _ \<Rightarrow> Inl RuntimeError))))))"

definition seed_one :: "saas_db \<Rightarrow> (string, string option) dict \<Rightarrow> py_error + saas_db" where
  "seed_one db row = bind_r (seed_row row) (\<lambda>(body, src).
     Inr (if pattern_taken db (sd_next db) (si_fqdn_pattern body) then db\<lparr>sd_next := sd_next db + 1\<rparr>
          else \<lparr>sd_rows = sd_rows db @ [\<lparr>cr_id = sd_next db, cr_body = body, cr_source = src\<rparr>], sd_next = sd_next db + 1\<rparr>))"

definition seed_saas :: "(string, string option) dict list \<Rightarrow> saas_db \<Rightarrow> py_error + saas_db" where
  "seed_saas rows db = fold_r seed_one db rows"

definition unseed_saas :: "saas_db \<Rightarrow> saas_db" where
  "unseed_saas db = db\<lparr>sd_rows := filter (\<lambda>r. cr_source r \<noteq> ''seeded'') (sd_rows db)\<rparr>"

section \<open>The readers\<close>

text \<open>\<open>_load_saas\<close> and the catalogue query of \<open>_load_app_resolver\<close>, on the rows in the order the database returns them.\<close>

definition load_saas :: "catalog_row list \<Rightarrow> saas_row list" where
  "load_saas rows = new_saas_matcher (map (\<lambda>r. \<lparr>sr_id = cr_id r, sr_name = si_name (cr_body r),
     sr_pattern = si_fqdn_pattern (cr_body r), sr_priority = si_priority (cr_body r)\<rparr>) rows)"

definition entry_of :: "catalog_row \<Rightarrow> saas_entry" where
  "entry_of r = \<lparr>se_id = cr_id r, se_name = si_name (cr_body r), se_pattern = si_fqdn_pattern (cr_body r),
     se_priority = si_priority (cr_body r)\<rparr>"

section \<open>Histories\<close>

datatype saas_request =
    PostSaas user saas_in
  | PutSaas user int saas_in
  | DeleteSaas user int
  | SeedSaas "(string, string option) dict list"
  | UnseedSaas

fun saas_step :: "(saas_in \<Rightarrow> bool) \<Rightarrow> saas_db \<Rightarrow> saas_request \<Rightarrow> saas_db" where
  "saas_step db_ok db (PostSaas u b) = fst (create_saas db_ok u b db)"
| "saas_step db_ok db (PutSaas u i b) = fst (update_saas db_ok u i b db)"
| "saas_step db_ok db (DeleteSaas u i) = fst (delete_saas u i db)"
| "saas_step db_ok db (SeedSaas rows) = (case seed_saas rows db of Inl _ \<Rightarrow> db | Inr db1 \<Rightarrow> db1)"
| "saas_step db_ok db UnseedSaas = unseed_saas db"

text \<open>Both keys of the table, and the sequence ahead of them.\<close>

definition saas_inv :: "saas_db \<Rightarrow> bool" where
  "saas_inv db \<longleftrightarrow> distinct (map cr_id (sd_rows db)) \<and> distinct (map (\<lambda>r. si_fqdn_pattern (cr_body r)) (sd_rows db)) \<and>
     (\<forall>r \<in> set (sd_rows db). cr_id r < sd_next db)"

lemma pattern_free:
  "\<not> pattern_taken db i p \<Longrightarrow> \<forall>r \<in> set (sd_rows db). cr_id r \<noteq> i \<longrightarrow> si_fqdn_pattern (cr_body r) \<noteq> p"
  by (auto simp: pattern_taken_def)

lemma insert_inv:
  assumes "saas_inv db" and "\<not> pattern_taken db (sd_next db) (si_fqdn_pattern b)"
  shows "saas_inv \<lparr>sd_rows = sd_rows db @ [\<lparr>cr_id = sd_next db, cr_body = b, cr_source = src\<rparr>], sd_next = sd_next db + 1\<rparr>"
proof -
  have lt: "cr_id r < sd_next db" if "r \<in> set (sd_rows db)" for r using assms(1) that by (simp add: saas_inv_def)
  then have "sd_next db \<notin> cr_id ` set (sd_rows db)" by (metis imageE less_irrefl)
  moreover have "si_fqdn_pattern b \<notin> (\<lambda>r. si_fqdn_pattern (cr_body r)) ` set (sd_rows db)"
    using pattern_free[OF assms(2)] lt by fastforce
  ultimately show ?thesis using assms(1) by (auto simp: saas_inv_def dest: lt intro: less_imp_le)
qed

lemma next_inv: "saas_inv db \<Longrightarrow> saas_inv (db\<lparr>sd_next := sd_next db + 1\<rparr>)"
  by (auto simp: saas_inv_def intro: less_trans)

lemma filter_inv: "saas_inv db \<Longrightarrow> saas_inv (db\<lparr>sd_rows := filter P (sd_rows db)\<rparr>)"
  by (auto simp: saas_inv_def distinct_map_filter)

lemma create_saas_inv: "saas_inv db \<Longrightarrow> saas_inv (fst (create_saas db_ok u b db))"
  by (auto simp: create_saas_def Let_def insert_inv next_inv split: sum.splits)

lemma update_saas_inv:
  assumes "saas_inv db"
  shows "saas_inv (fst (update_saas db_ok u i b db))"
proof -
  let ?f = "\<lambda>r. if cr_id r = i then r\<lparr>cr_body := b\<rparr> else r"
  have "saas_inv (db\<lparr>sd_rows := map ?f (sd_rows db)\<rparr>)" if "\<not> pattern_taken db i (si_fqdn_pattern b)"
  proof -
    have id: "cr_id (?f r) = cr_id r" for r by simp
    have "inj_on (\<lambda>r. si_fqdn_pattern (cr_body (?f r))) (set (sd_rows db))"
      using assms pattern_free[OF that] unfolding saas_inv_def distinct_map inj_on_def by (auto split: if_splits)
    moreover have "distinct (sd_rows db)" using assms by (auto simp: saas_inv_def distinct_map)
    ultimately show ?thesis using assms by (auto simp add: saas_inv_def distinct_map comp_def id simp del: if_split)
  qed
  then show ?thesis using assms by (auto simp: update_saas_def split: sum.splits option.splits)
qed

lemma seed_saas_inv: "saas_inv db \<Longrightarrow> seed_saas rows db = Inr db1 \<Longrightarrow> saas_inv db1"
proof (induction rows arbitrary: db)
  case (Cons row rows)
  then obtain db2 where s: "seed_one db row = Inr db2" "seed_saas rows db2 = Inr db1"
    by (auto simp: seed_saas_def bind_r_Inr)
  obtain body src where "db2 = (if pattern_taken db (sd_next db) (si_fqdn_pattern body) then db\<lparr>sd_next := sd_next db + 1\<rparr>
      else \<lparr>sd_rows = sd_rows db @ [\<lparr>cr_id = sd_next db, cr_body = body, cr_source = src\<rparr>], sd_next = sd_next db + 1\<rparr>)"
    using s(1) by (auto simp: seed_one_def bind_r_Inr simp del: if_split)
  then have "saas_inv db2" using Cons.prems(1) by (simp add: insert_inv next_inv)
  with Cons.IH s(2) show ?case by blast
qed (simp add: seed_saas_def)

lemma saas_step_inv: "saas_inv db \<Longrightarrow> saas_inv (saas_step db_ok db q)"
  by (cases "(db_ok, db, q)" rule: saas_step.cases)
    (auto simp: create_saas_inv update_saas_inv delete_saas_def unseed_saas_def filter_inv seed_saas_inv split: sum.splits)

lemma saas_history_inv: "saas_inv (foldl (saas_step db_ok) empty_saas_db qs)"
proof -
  have "saas_inv db \<Longrightarrow> saas_inv (foldl (saas_step db_ok) db qs)" for db
    by (induction qs arbitrary: db) (simp_all add: saas_step_inv)
  then show ?thesis by (simp add: saas_inv_def empty_saas_db_def)
qed

lemma match_entries:
  "match (new_saas_matcher (map row_of_entry es)) fqdn =
     map_option row_of_entry (find (\<lambda>s. suffix_match fqdn (se_pattern s)) (sort_key entry_rank es))"
proof -
  have "sr_pattern (row_of_entry e) = se_pattern e" for e by (simp add: row_of_entry_def)
  then show ?thesis by (simp add: match_def new_saas_matcher_def sort_key_map find_map)
qed

section \<open>Properties\<close>

text \<open>What a catalogue says of a name: the matching row that is best by priority, then length of the pattern, then age.\<close>

definition catalogue_says :: "saas_db \<Rightarrow> string \<Rightarrow> catalog_row \<Rightarrow> bool" where
  "catalogue_says db fqdn r \<longleftrightarrow> r \<in> set (sd_rows db) \<and> suffix_match fqdn (si_fqdn_pattern (cr_body r)) \<and>
     (\<forall>s \<in> set (sd_rows db). suffix_match fqdn (si_fqdn_pattern (cr_body s)) \<longrightarrow> entry_rank (entry_of r) \<le> entry_rank (entry_of s))"

text \<open>Whatever order the rows come in, the loaded table answers as the catalogue says.\<close>

lemma loaded_says:
  assumes "saas_inv db" and "set es = entry_of ` set (sd_rows db)" and "load_tables rs manual es ports = Inr rs1"
  shows "saas_hit rs1 fqdn = Some e \<longleftrightarrow> (\<exists>r. catalogue_says db fqdn r \<and> e = entry_of r)"
proof -
  have "inj_on cr_id (set (sd_rows db))" using assms(1) by (simp add: saas_inv_def distinct_map)
  then have "inj_on entry_rank (set es)" by (auto simp: assms(2) inj_on_def entry_rank_def entry_of_def)
  from st.hit_iff[OF this, of rs fqdn e] show ?thesis
    using assms(2) by (auto simp: saas_hit_loaded[OF assms(3)] st.hit_build catalogue_says_def entry_of_def)
qed

text \<open>
  C10: the catalogue means the same to both services. After any history of requests, seedings and their reversal,
  whatever order the database returns the rows in, the correlator that has loaded them labels a name with exactly the entry that the
  catalogue gives it, and the resolver service, which may see another order, matches the entry with the same identifier.
\<close>

theorem catalogue_means_the_same:
  assumes "db = foldl (saas_step db_ok) empty_saas_db qs" and "set rows = set (sd_rows db)" and "set rows2 = set (sd_rows db)"
    and "load_tables rs manual (map entry_of rows) ports = Inr rs1"
  shows "(saas_hit rs1 fqdn = Some e \<longleftrightarrow> (\<exists>r. catalogue_says db fqdn r \<and> e = entry_of r)) \<and>
    map_option sr_id (match (load_saas rows2) fqdn) = map_option se_id (saas_hit rs1 fqdn)"
proof -
  have inv: "saas_inv db" unfolding assms(1) by (rule saas_history_inv)
  have iff: "saas_hit rs2 fqdn = Some e \<longleftrightarrow> (\<exists>r. catalogue_says db fqdn r \<and> e = entry_of r)"
    if "set rows3 = set (sd_rows db)" "load_tables rs0 [] (map entry_of rows3) [] = Inr rs2 \<or> load_tables rs manual (map entry_of rows3) ports = Inr rs2"
    for rs0 rows3 rs2 e
    using that loaded_says[OF inv, of "map entry_of rows3"] by auto
  obtain rs2 where l: "load_tables new_app_resolver [] (map entry_of rows2) [] = Inr rs2" by (simp add: load_tables_def)
  have same: "saas_hit rs2 fqdn = saas_hit rs1 fqdn" using iff[OF assms(3)] iff[OF assms(2)] l assms(4) by (metis option.exhaust)
  have "load_saas rows2 = new_saas_matcher (map row_of_entry (map entry_of rows2))"
    by (simp add: load_saas_def row_of_entry_def entry_of_def comp_def)
  then have "match (load_saas rows2) fqdn = map_option row_of_entry (saas_hit rs2 fqdn)"
    by (simp only: match_entries saas_hit_loaded[OF l])
  then have "map_option sr_id (match (load_saas rows2) fqdn) = map_option se_id (saas_hit rs2 fqdn)"
    by (cases "saas_hit rs2 fqdn") (simp_all add: row_of_entry_def)
  with same iff[OF assms(2)] assms(4) show ?thesis by metis
qed

definition demo_editor :: user where
  "demo_editor = \<lparr>us_user_upn = ''ann'', us_roles = {Viewer, Editor}\<rparr>"

definition demo_saas :: saas_in where
  "demo_saas = \<lparr>si_name = ''Zoom'', si_vendor = None, si_fqdn_pattern = ''.zoom.us'', si_category = None, si_priority = 100\<rparr>"

theorem catalogue_means_the_same_witness:
  "\<exists>rs1. load_tables new_app_resolver [] (map entry_of [\<lparr>cr_id = 1, cr_body = demo_saas, cr_source = ''manual''\<rparr>]) [] = Inr rs1 \<and>
     map_option sr_id (match (load_saas [\<lparr>cr_id = 1, cr_body = demo_saas, cr_source = ''manual''\<rparr>]) ''us02.zoom.us'') =
     map_option se_id (saas_hit rs1 ''us02.zoom.us'')"
proof -
  let ?rows = "[\<lparr>cr_id = 1, cr_body = demo_saas, cr_source = ''manual''\<rparr>]"
  have db: "set ?rows = set (sd_rows (foldl (saas_step (\<lambda>_. True)) empty_saas_db [PostSaas demo_editor demo_saas]))"
    by (simp add: create_saas_def require_editor_def demo_editor_def saas_in_ok_def demo_saas_def pattern_taken_def empty_saas_db_def Let_def)
  obtain rs1 where "load_tables new_app_resolver [] (map entry_of ?rows) [] = Inr rs1" by (auto simp: load_tables_def)
  with catalogue_means_the_same[OF refl db db this, of "''us02.zoom.us''"] show ?thesis by blast
qed

text \<open>
  What a catalogue request does, on every branch. Creating succeeds exactly for an editor with a valid body whose pattern is free and
  whose values the database takes; then the table has exactly the new row more. Otherwise the answer says which of the conditions
  failed (403 before 422 before the database), and the rows are as before. Updating and deleting leave the rows with other
  identifiers alone. Listeners are notified exactly for the rows that changed.
\<close>

theorem saas_request_outcomes:
  assumes "create_saas db_ok u b db = (db1, res, ns)" and "update_saas db_ok u i b db = (db2, res2, ns2)"
    and "delete_saas u i db = (db3, res3, ns3)" and "saas_inv db"
  shows "res = (if Editor \<notin> us_roles u then Inl (Http 403) else if \<not> saas_in_ok b then Inl (Http 422)
        else if \<not> db_ok b \<or> pattern_taken db (sd_next db) (si_fqdn_pattern b) then Inl (Raised RuntimeError)
        else Inr \<lparr>cr_id = sd_next db, cr_body = b, cr_source = ''manual''\<rparr>) \<and>
    (case res of Inl _ \<Rightarrow> sd_rows db1 = sd_rows db \<and> ns = []
      | Inr r \<Rightarrow> sd_rows db1 = sd_rows db @ [r] \<and> r \<notin> set (sd_rows db) \<and> ns = [saas_notify (cr_id r)]) \<and>
    (case res2 of Inl _ \<Rightarrow> db2 = db \<and> ns2 = []
      | Inr r \<Rightarrow> cr_id r = i \<and> cr_body r = b \<and> set (sd_rows db2) = insert r {s \<in> set (sd_rows db). cr_id s \<noteq> i} \<and> ns2 = [saas_notify i]) \<and>
    (case res3 of Inl _ \<Rightarrow> db3 = db \<and> ns3 = []
      | Inr _ \<Rightarrow> set (sd_rows db3) = {s \<in> set (sd_rows db). cr_id s \<noteq> i} \<and>
          ns3 = (if i \<in> cr_id ` set (sd_rows db) then [saas_notify i] else []))"
proof -
  have fresh: "r \<in> set (sd_rows db) \<Longrightarrow> cr_id r < sd_next db" for r using assms(4) by (simp add: saas_inv_def)
  have one: "map (\<lambda>r. saas_notify (cr_id r)) (filter (\<lambda>r. cr_id r = i) rs) = (if i \<in> cr_id ` set rs then [saas_notify i] else [])"
    if "distinct (map cr_id rs)" for rs
    using that by (induction rs) (auto simp: filter_empty_conv)
  have upd: "set (map (\<lambda>s. if cr_id s = i then s\<lparr>cr_body := b\<rparr> else s) (sd_rows db)) =
      insert (r\<lparr>cr_body := b\<rparr>) {s \<in> set (sd_rows db). cr_id s \<noteq> i}"
    if "r \<in> set (sd_rows db)" "cr_id r = i" for r
  proof -
    have "s = r" if "s \<in> set (sd_rows db)" "cr_id s = i" for s
      using that \<open>r \<in> set (sd_rows db)\<close> \<open>cr_id r = i\<close> assms(4) by (auto simp: saas_inv_def distinct_map inj_on_def)
    define A where "A = {s \<in> set (sd_rows db). cr_id s \<noteq> i}"
    have "set (sd_rows db) = insert r A" unfolding A_def using that \<open>\<And>s. s \<in> set (sd_rows db) \<Longrightarrow> cr_id s = i \<Longrightarrow> s = r\<close> by blast
    moreover have "(\<lambda>s. if cr_id s = i then s\<lparr>cr_body := b\<rparr> else s) ` A = A" by (force simp: A_def image_iff)
    ultimately show ?thesis using that(2) unfolding set_map A_def[symmetric] by (simp only: image_insert refl if_True)
  qed
  have c: "res = (if Editor \<notin> us_roles u then Inl (Http 403) else if \<not> saas_in_ok b then Inl (Http 422)
        else if \<not> db_ok b \<or> pattern_taken db (sd_next db) (si_fqdn_pattern b) then Inl (Raised RuntimeError)
        else Inr \<lparr>cr_id = sd_next db, cr_body = b, cr_source = ''manual''\<rparr>)"
    using assms(1) by (auto simp: create_saas_def require_editor_def Let_def split: if_splits)
  have c2: "case res of Inl _ \<Rightarrow> sd_rows db1 = sd_rows db \<and> ns = []
      | Inr r \<Rightarrow> sd_rows db1 = sd_rows db @ [r] \<and> r \<notin> set (sd_rows db) \<and> ns = [saas_notify (cr_id r)]"
    using assms(1) fresh[of "\<lparr>cr_id = sd_next db, cr_body = b, cr_source = ''manual''\<rparr>"]
    by (auto simp: create_saas_def require_editor_def Let_def split: if_splits)
  have c3: "case res2 of Inl _ \<Rightarrow> db2 = db \<and> ns2 = []
      | Inr r \<Rightarrow> cr_id r = i \<and> cr_body r = b \<and> set (sd_rows db2) = insert r {s \<in> set (sd_rows db). cr_id s \<noteq> i} \<and> ns2 = [saas_notify i]"
  proof (cases "find (\<lambda>r. cr_id r = i) (sd_rows db)")
    case None
    then show ?thesis using assms(2) by (auto simp: update_saas_def require_editor_def split: if_splits)
  next
    case (Some r)
    then have "r \<in> set (sd_rows db)" "cr_id r = i" by (auto simp: find_Some_iff)
    note r = this upd[OF this]
    have "(db2, res2, ns2) = (if Editor \<notin> us_roles u then (db, Inl (Http 403), []) else if \<not> saas_in_ok b then (db, Inl (Http 422), [])
        else if \<not> db_ok b \<or> pattern_taken db i (si_fqdn_pattern b) then (db, Inl (Raised RuntimeError), [])
        else (db\<lparr>sd_rows := map (\<lambda>s. if cr_id s = i then s\<lparr>cr_body := b\<rparr> else s) (sd_rows db)\<rparr>, Inr (r\<lparr>cr_body := b\<rparr>), [saas_notify i]))"
      unfolding assms(2)[symmetric] by (simp add: update_saas_def require_editor_def Some)
    then show ?thesis using r by (simp del: set_map split: if_split_asm)
  qed
  have c4: "case res3 of Inl _ \<Rightarrow> db3 = db \<and> ns3 = []
      | Inr _ \<Rightarrow> set (sd_rows db3) = {s \<in> set (sd_rows db). cr_id s \<noteq> i} \<and>
          ns3 = (if i \<in> cr_id ` set (sd_rows db) then [saas_notify i] else [])"
    using assms(3,4) one[of "sd_rows db"] by (auto simp: delete_saas_def require_editor_def saas_inv_def split: if_splits)
  from c c2 c3 c4 show ?thesis by blast
qed

theorem saas_request_outcomes_witness:
  "\<exists>db1 ns. create_saas (\<lambda>_. True) \<lparr>us_user_upn = ''bob'', us_roles = {Viewer}\<rparr> demo_saas empty_saas_db = (db1, Inl (Http 403), ns) \<and>
     sd_rows db1 = []"
proof -
  let ?u = "\<lparr>us_user_upn = ''bob'', us_roles = {Viewer}\<rparr>"
  obtain db1 res ns where c: "create_saas (\<lambda>_. True) ?u demo_saas empty_saas_db = (db1, res, ns)" by (metis prod_cases3)
  obtain db2 res2 ns2 where d: "update_saas (\<lambda>_. True) ?u 1 demo_saas empty_saas_db = (db2, res2, ns2)" by (metis prod_cases3)
  obtain db3 res3 ns3 where e: "delete_saas ?u 1 empty_saas_db = (db3, res3, ns3)" by (metis prod_cases3)
  from saas_request_outcomes[OF c d e] c show ?thesis by (auto simp: saas_inv_def empty_saas_db_def)
qed

text \<open>
  Reversing the seeding. When the seeds carry the source \<open>seeded\<close> and the table held no such rows, the downgrade after the upgrade
  leaves exactly the rows that were there before.
\<close>

theorem unseed_seed:
  assumes "seed_saas rows db = Inr db1" and "\<forall>r \<in> set (sd_rows db). cr_source r \<noteq> ''seeded''"
    and "\<forall>row \<in> set rows. map_of row ''source'' = Some (Some ''seeded'')"
  shows "sd_rows (unseed_saas db1) = sd_rows db"
proof -
  have "filter (\<lambda>r. cr_source r \<noteq> ''seeded'') (sd_rows db1) = filter (\<lambda>r. cr_source r \<noteq> ''seeded'') (sd_rows db)"
    using assms(1,3)
  proof (induction rows arbitrary: db)
    case (Cons row rows)
    then obtain db2 where s: "seed_one db row = Inr db2" "seed_saas rows db2 = Inr db1"
      by (auto simp: seed_saas_def bind_r_Inr)
    have "filter (\<lambda>r. cr_source r \<noteq> ''seeded'') (sd_rows db2) = filter (\<lambda>r. cr_source r \<noteq> ''seeded'') (sd_rows db)"
      using s(1) Cons.prems(2) by (auto simp: seed_one_def seed_row_def bind_r_Inr lookup_r_def split: if_splits option.splits)
    with Cons.IH[OF s(2)] Cons.prems(2) show ?case by simp
  qed (simp add: seed_saas_def)
  then show ?thesis using assms(2) by (simp add: unseed_saas_def)
qed

end
