(* ===== verification/Resolver_Main.thy ===== *)
theory Resolver_Main
  imports Resolver_Worker Saas_Catalog
begin

text \<open>
  The resolver process: \<open>resolver/src/resolver/main.py\<close>. \<open>sock\<close> is \<open>socket.gethostbyaddr\<close> (\<open>None\<close> when it raises). The state is
  the worker, the keys it shares with the correlator in Redis, the queue of addresses and the table \<open>dns_cache\<close>.
\<close>

section \<open>Parts\<close>

definition std_ptr_resolver :: "(string \<Rightarrow> (string \<times> string list \<times> string list) option) \<Rightarrow> string \<Rightarrow> string option option" where
  "std_ptr_resolver sock ip = (case sock ip of None \<Rightarrow> None | Some (hostname, aliases, addrs) \<Rightarrow> Some (Some hostname))"

record dns_row =
  dr_ptr :: "string option"
  dr_resolved_at :: rat
  dr_source :: string

definition pg_upsert :: "rat \<Rightarrow> string \<Rightarrow> string option \<Rightarrow> string option \<Rightarrow> (string, dns_row) dict \<Rightarrow> (string, dns_row) dict" where
  "pg_upsert now dst_ip ptr source db =
     AList.update dst_ip \<lparr>dr_ptr = ptr, dr_resolved_at = now, dr_source = (case source of None \<Rightarrow> ''ptr'' | Some s \<Rightarrow> s)\<rparr> db"

definition resolver_dsn :: "string \<Rightarrow> string" where
  "resolver_dsn url =
     replace (replace url ''postgresql+asyncpg://'' ''postgresql://'') ''postgresql+psycopg://'' ''postgresql://''"

record resolver_settings =
  rv_rate_per_s :: rat
  rv_ptr_ttl_s :: int
  rv_saas_ttl_s :: int

definition default_resolver_settings :: resolver_settings where
  "default_resolver_settings = \<lparr>rv_rate_per_s = 50, rv_ptr_ttl_s = 3600, rv_saas_ttl_s = 3600\<rparr>"

section \<open>The process\<close>

record resolver_proc =
  rp_worker :: resolver_worker
  rp_keys :: "string \<Rightarrow> string option"
  rp_queue :: "string list"
  rp_dns :: "(string, dns_row) dict"

text \<open>\<open>_run\<close>: the catalogue is loaded once, then the worker loops.\<close>

definition start_resolver :: "resolver_settings \<Rightarrow> catalog_row list \<Rightarrow> rat \<Rightarrow> (string \<Rightarrow> string option) \<Rightarrow> string list \<Rightarrow>
    (string, dns_row) dict \<Rightarrow> resolver_proc" where
  "start_resolver s rows now keys queue dns =
     \<lparr>rp_worker = new_resolver_worker (load_saas rows) (rv_rate_per_s s) (rv_ptr_ttl_s s) (rv_saas_ttl_s s) now,
      rp_keys = keys, rp_queue = queue, rp_dns = dns\<rparr>"

fun apply_upsert :: "rat \<Rightarrow> (string, dns_row) dict \<Rightarrow> worker_effect \<Rightarrow> (string, dns_row) dict" where
  "apply_upsert now db (Upsert ip p s) = pg_upsert now ip p (Some s) db"
| "apply_upsert now db (SetEx k v ttl) = db"

text \<open>A turn of the loop, with the time it starts, the time after its sleep, and whether the database takes the row.\<close>

definition resolver_turn :: "(string \<Rightarrow> string option option) \<Rightarrow> resolver_proc \<Rightarrow> rat \<times> rat \<times> bool \<Rightarrow> resolver_proc" where
  "resolver_turn dns rp t = (case t of (now, woke, pg_ok) \<Rightarrow>
     let item = (case rp_queue rp of [] \<Rightarrow> None | ip # _ \<Rightarrow> Some ip) in
     case worker_turn (rp_worker rp) (rp_keys rp) dns pg_ok now woke item of
       (w, effs) \<Rightarrow> \<lparr>rp_worker = w, rp_keys = foldl apply_effect (rp_keys rp) effs, rp_queue = tl (rp_queue rp),
         rp_dns = foldl (apply_upsert woke) (rp_dns rp) effs\<rparr>)"

section \<open>The two caches\<close>

definition saas_answer :: "saas_row list \<Rightarrow> string \<Rightarrow> string option" where
  "saas_answer table n = (if n = [] then None else map_option (\<lambda>r. show_int (sr_id r)) (match table n))"

text \<open>Redis knows what the table knows, and the label of a name is the one its catalogue gives.\<close>

definition caches_agree :: "saas_row list \<Rightarrow> (string \<Rightarrow> string option) \<Rightarrow> (string, dns_row) dict \<Rightarrow> string \<Rightarrow> bool" where
  "caches_agree table keys dns ip =
     (case keys (''dns:ptr:'' @ ip) of
        None \<Rightarrow> map_of dns ip = None \<and> keys (''dns:saas:'' @ ip) = None
      | Some n \<Rightarrow> (\<exists>r. map_of dns ip = Some r \<and> dr_ptr r = (if n = [] then None else Some n) \<and> dr_source r = ''ptr'') \<and>
          keys (''dns:saas:'' @ ip) = saas_answer table n)"

definition resolver_ok :: "resolver_proc \<Rightarrow> bool" where
  "resolver_ok rp \<longleftrightarrow> tb_rate (rw_bucket (rp_worker rp)) \<noteq> 0 \<and> (\<forall>ip. caches_agree (rw_saas (rp_worker rp)) (rp_keys rp) (rp_dns rp) ip)"

lemma take_rate: "take_token b now woke = (d, r) \<Longrightarrow> tb_rate d = tb_rate b"
  by (auto simp: take_token_def Let_def split: if_splits sum.splits)

text \<open>The three outcomes of a turn.\<close>

lemma turn_cases:
  assumes "tb_rate (rw_bucket (rp_worker rp)) \<noteq> 0"
  obtains (idle) "rp_queue rp = []" "resolver_turn dns rp (now, woke, pg_ok) = rp"
  | (known) ip n where "rp_queue rp \<noteq> []" "hd (rp_queue rp) = ip" "rp_keys rp (''dns:ptr:'' @ ip) = Some n"
      "resolver_turn dns rp (now, woke, pg_ok) = rp\<lparr>rp_queue := tl (rp_queue rp)\<rparr>"
  | (asked) ip d where "rp_queue rp \<noteq> []" "hd (rp_queue rp) = ip" "rp_keys rp (''dns:ptr:'' @ ip) = None"
      "tb_rate d = tb_rate (rw_bucket (rp_worker rp))"
      "resolver_turn dns rp (now, woke, pg_ok) =
        (let n = ptr_name dns ip; keys = (rp_keys rp)(''dns:ptr:'' @ ip \<mapsto> n) in
         \<lparr>rp_worker = (rp_worker rp)\<lparr>rw_bucket := d\<rparr>,
          rp_keys = (if \<not> pg_ok then keys else case saas_answer (rw_saas (rp_worker rp)) n of None \<Rightarrow> keys
            | Some v \<Rightarrow> keys(''dns:saas:'' @ ip \<mapsto> v)),
          rp_queue = tl (rp_queue rp),
          rp_dns = (if \<not> pg_ok then rp_dns rp else pg_upsert woke ip (if n = [] then None else Some n) (Some ''ptr'') (rp_dns rp))\<rparr>)"
proof (cases "rp_queue rp")
  case Nil
  then show thesis using idle by (simp add: resolver_turn_def worker_turn_def)
next
  case (Cons ip q)
  show thesis
  proof (cases "rp_keys rp (''dns:ptr:'' @ ip)")
    case (Some n)
    then show thesis using known[of ip n] Cons by (simp add: resolver_turn_def worker_turn_def process_one_def)
  next
    case None
    obtain d where d: "take_token (rw_bucket (rp_worker rp)) now woke = (d, Inr ())" using take_ok[OF assms] by blast
    show thesis
      by (rule asked[of ip d])
        (use Cons None d take_rate[OF d] in \<open>auto simp: resolver_turn_def worker_turn_def process_one_def Let_def saas_answer_def split: option.splits\<close>)
  qed
qed

lemma turn_keeps_ok:
  assumes "resolver_ok rp"
  shows "resolver_ok (resolver_turn dns rp (now, woke, True))"
proof -
  have rate: "tb_rate (rw_bucket (rp_worker rp)) \<noteq> 0" using assms by (simp add: resolver_ok_def)
  then show ?thesis
  proof (cases rule: turn_cases[where dns = dns and now = now and woke = woke and pg_ok = True])
    case (asked ip d)
    let ?n = "ptr_name dns ip" and ?t = "rw_saas (rp_worker rp)"
    let ?rp = "resolver_turn dns rp (now, woke, True)"
    have "caches_agree ?t (rp_keys ?rp) (rp_dns ?rp) ip'" for ip'
    proof (cases "ip' = ip")
      case True
      have "caches_agree ?t (rp_keys rp) (rp_dns rp) ip" using assms by (simp add: resolver_ok_def)
      then have "rp_keys rp (''dns:saas:'' @ ip) = None" using asked(3) by (simp add: caches_agree_def)
      then show ?thesis
        by (auto simp: True asked(5) Let_def caches_agree_def pg_upsert_def update_conv' split: option.split)
    next
      case False
      have "caches_agree ?t (rp_keys rp) (rp_dns rp) ip'" using assms by (simp add: resolver_ok_def)
      moreover have "rp_keys ?rp (''dns:ptr:'' @ ip') = rp_keys rp (''dns:ptr:'' @ ip')"
        "rp_keys ?rp (''dns:saas:'' @ ip') = rp_keys rp (''dns:saas:'' @ ip')" "map_of (rp_dns ?rp) ip' = map_of (rp_dns rp) ip'"
        using False by (simp_all add: asked(5) Let_def pg_upsert_def update_conv' split: option.split)
      ultimately show ?thesis unfolding caches_agree_def by (simp only:)
    qed
    then show ?thesis using rate asked(4) by (simp add: resolver_ok_def asked(5) Let_def)
  qed (use assms in \<open>simp_all add: resolver_ok_def\<close>)
qed

section \<open>Properties\<close>



text \<open>
  A failed upsert hides the label. When the database refuses the row of an address that was not known, Redis keeps its name,
  and as long as that key lives no later turn looks the address up again: it gets no row and no SaaS key, although its name matches
  the catalogue.
\<close>

theorem failed_upsert_hides_label:
  assumes "rp_queue rp = ip # q" and "rp_keys rp (''dns:ptr:'' @ ip) = None" and "rp_keys rp (''dns:saas:'' @ ip) = None"
    and "map_of (rp_dns rp) ip = None" and "tb_rate (rw_bucket (rp_worker rp)) \<noteq> 0"
    and "rp1 = foldl (resolver_turn dns) (resolver_turn dns rp (now, woke, False)) turns"
  shows "rp_keys rp1 (''dns:ptr:'' @ ip) = Some (ptr_name dns ip) \<and> rp_keys rp1 (''dns:saas:'' @ ip) = None \<and> map_of (rp_dns rp1) ip = None"
proof -
  define lost where "lost q \<longleftrightarrow> tb_rate (rw_bucket (rp_worker q)) \<noteq> 0 \<and> rp_keys q (''dns:ptr:'' @ ip) = Some (ptr_name dns ip) \<and>
    rp_keys q (''dns:saas:'' @ ip) = None \<and> map_of (rp_dns q) ip = None" for q :: resolver_proc
  have step: "lost (resolver_turn dns q t)" if l: "lost q" for q t
  proof -
    obtain a b c where t: "t = (a, b, c)" by (cases t)
    have r: "tb_rate (rw_bucket (rp_worker q)) \<noteq> 0" using l by (simp add: lost_def)
    from r have "lost (resolver_turn dns q (a, b, c))"
    proof (cases rule: turn_cases[where dns = dns and now = a and woke = b and pg_ok = c])
      case (asked ip' d)
      have "ip' \<noteq> ip" using asked(3) l by (auto simp: lost_def)
      then show "lost (resolver_turn dns q (a, b, c))"
        using l asked(4) by (auto simp: lost_def asked(5) Let_def pg_upsert_def update_conv' split: option.split)
    qed (use l in \<open>simp_all add: lost_def\<close>)
    then show ?thesis by (simp add: t)
  qed
  have "lost (resolver_turn dns rp (now, woke, False))"
    by (cases rule: turn_cases[OF assms(5), where dns = dns and now = now and woke = woke and pg_ok = False])
      (use assms in \<open>auto simp: lost_def Let_def\<close>)
  moreover have "lost q \<Longrightarrow> lost (foldl (resolver_turn dns) q turns)" for q :: resolver_proc by (induction turns arbitrary: q) (simp_all add: step)
  ultimately show ?thesis using assms(6) by (simp add: lost_def)
qed

end
