(* ===== verification/Service_Urls.thy ===== *)
theory Service_Urls
  imports Id_Ingest Resolver_Main
begin

text \<open>
  One \<open>DATABASE_URL\<close> for all services, and what each makes of it: the migrations (\<open>migrate/alembic/env.py\<close>), the correlator and the resolver
  (\<open>_as_asyncpg_dsn\<close> of their \<open>main.py\<close>), the identity service (the notifier in \<open>_main\<close> of \<open>id_ingest/main.py\<close>), which hands it to the driver as it is, and the
  API (\<open>init_engine\<close> of \<open>api/db.py\<close>), which hands it to the engine as it is. Which URLs the driver and the engine take is a parameter.
\<close>

section \<open>Definitions\<close>

definition before_first :: "string \<Rightarrow> string \<Rightarrow> string" where
  "before_first p s = (case find_sub p s of None \<Rightarrow> s | Some i \<Rightarrow> take i s)"

definition replace_once :: "string \<Rightarrow> string \<Rightarrow> string \<Rightarrow> string" where
  "replace_once s old new = (case find_sub old s of None \<Rightarrow> s | Some i \<Rightarrow> take i s @ new @ drop (i + length old) s)"

definition migration_url :: "string option \<Rightarrow> py_error + string" where
  "migration_url env =
     (if \<not> truthy env then Inl RuntimeError
      else let url = the env in
        if contains ''+asyncpg'' url then Inr (replace url ''+asyncpg'' ''+psycopg'')
        else if CHR ''+'' \<notin> set (before_first ''://'' url) then Inr (replace_once url ''postgresql://'' ''postgresql+psycopg://'')
        else Inr url)"

text \<open>The scheme of a URL, by which a driver decides.\<close>

definition scheme :: "string \<Rightarrow> string" where
  "scheme url = before_first ''://'' url"

text \<open>The notifier of the identity service: \<open>connect\<close> says whether the driver takes the URL and connects.\<close>

definition notifier_of :: "(string \<Rightarrow> bool) \<Rightarrow> id_settings \<Rightarrow> bool" where
  "notifier_of connect s \<longleftrightarrow> is_database_url s \<noteq> [] \<and> connect (is_database_url s)"

section \<open>Lemmas\<close>

lemma replace_none: "find_sub old s = None \<Longrightarrow> replace_in 0 old new s = s"
  by (induction s) (auto split: if_splits)

lemma find_sub_suffix: "find_sub b s = None \<Longrightarrow> find_sub (a @ b) s = None"
proof (induction s)
  case (Cons c s)
  have "\<not> starts_with (a @ b) (c # s)"
  proof
    assume "starts_with (a @ b) (c # s)"
    then obtain q where "c # s = a @ b @ q" by (auto simp: starts_with_iff)
    moreover have "b \<noteq> []" using Cons.prems by (auto simp: starts_with_def)
    ultimately show False using find_sub_some[of b a q] Cons.prems by simp
  qed
  with Cons show ?case by (auto split: if_splits)
qed (auto split: if_splits)

definition dialects :: "string list" where
  "dialects = [[], ''+asyncpg'', ''+psycopg'']"

section \<open>Properties\<close>



end
