(* ===== verification/Id_Process.thy ===== *)
theory Id_Process
  imports Identity_Path Service_Urls "HOL-Library.Sublist"
begin

text \<open>
  The identity service as a process: \<open>_main\<close> and \<open>run_once\<close> of \<open>id_ingest/main.py\<close>, and the \<open>run\<close> loops of its adapters with the polling loop of
  \<open>entra_signin_adapter.py\<close>. Its adapters run as tasks of one \<open>asyncio.gather\<close>, share the producer and the worker of the group synchronisation, and the first
  exception that leaves a task ends the process. The inputs of the process say which task runs next and what Redis and the directories
  answer to it.
\<close>

section \<open>Adapters\<close>

text \<open>
  A lane is an adapter at work: a syslog adapter with its receiver, or the polling adapter with the events that its current poll has
  still to yield.
\<close>

record id_lane =
  ln_adapter :: id_adapter
  ln_receiver :: receiver
  ln_pending :: "identity_event list"

datatype lane_input =
    Message message
  | Turn instant
  | Poll "py_error + string" "string \<Rightarrow> string \<Rightarrow> py_error + signin page"

text \<open>
  \<open>Poll\<close>: \<open>run\<close> of the polling adapter, which catches the exceptions of a poll. The events up to the exception are yielded; a poll that does not
  return keeps the adapter waiting.
\<close>

definition entra_poll :: "py_error + string \<Rightarrow> (string \<Rightarrow> string \<Rightarrow> py_error + signin page) \<Rightarrow> entra_adapter \<Rightarrow> id_lane \<Rightarrow> id_lane" where
  "entra_poll token fetch a l = (case poll_once token fetch a of
     None \<Rightarrow> l | Some ((a1, evs), _) \<Rightarrow> l\<lparr>ln_adapter := EntraSignin a1, ln_pending := evs\<rparr>)"

definition lane_step :: "lane_input \<Rightarrow> id_lane \<Rightarrow> id_lane \<times> identity_event option" where
  "lane_step li l = (case (ln_adapter l, li) of
      (EntraSignin a, Poll token fetch) \<Rightarrow> (if ln_pending l = [] then entra_poll token fetch a l else l, None)
    | (EntraSignin a, Turn now) \<Rightarrow> (case ln_pending l of [] \<Rightarrow> (l, None) | ev # evs \<Rightarrow> (l\<lparr>ln_pending := evs\<rparr>, Some ev))
    | (EntraSignin a, Message msg) \<Rightarrow> (l, None)
    | (_, Message msg) \<Rightarrow> (l\<lparr>ln_receiver := enqueue (ln_receiver l) msg\<rparr>, None)
    | (_, Turn now) \<Rightarrow> (case id_adapter_turn now (ln_adapter l) (ln_receiver l) of (rc, ev) \<Rightarrow> (l\<lparr>ln_receiver := rc\<rparr>, ev))
    | (_, Poll token fetch) \<Rightarrow> (l, None))"

fun lane_run :: "id_lane \<Rightarrow> lane_input list \<Rightarrow> id_lane \<times> identity_event list" where
  "lane_run l [] = (l, [])"
| "lane_run l (li # lis) = (case lane_step li l of (l1, ev) \<Rightarrow>
     case lane_run l1 lis of (l2, evs) \<Rightarrow> (l2, (case ev of None \<Rightarrow> evs | Some e \<Rightarrow> e # evs)))"

section \<open>The process\<close>

text \<open>\<open>sv_sent\<close> records the commands with the adapter that sent them, \<open>sv_failed\<close> the exception that ended the process.\<close>

record id_service =
  sv_lanes :: "id_lane list"
  sv_worker :: group_sync_worker
  sv_sent :: "(nat \<times> xadd_cmd) list"
  sv_effects :: "sync_effect list"
  sv_failed :: "py_error option"

text \<open>\<open>Lane i\<close>: a step of the \<open>i\<close>-th adapter. \<open>BindFailed\<close>: \<open>start\<close> of its receiver raises. \<open>Cycle\<close>: the scheduled full synchronisation, whose exceptions the scheduler logs.\<close>

datatype id_input =
    Lane nat lane_input "xadd_cmd list \<Rightarrow> py_error option" "directory list"
  | BindFailed nat py_error
  | Cycle "string \<Rightarrow> py_error option" "directory list"

definition start_service :: "(string \<Rightarrow> bool) \<Rightarrow> id_settings \<Rightarrow> string list \<Rightarrow> id_service" where
  "start_service connect s names =
     \<lparr>sv_lanes = map (\<lambda>a. \<lparr>ln_adapter = a, ln_receiver = new_receiver 10000, ln_pending = []\<rparr>) (build_adapters s names),
      sv_worker = new_group_sync_worker (notifier_of connect s), sv_sent = [], sv_effects = [], sv_failed = None\<rparr>"

text \<open>The body of \<open>_run_adapter\<close> for an event of the \<open>i\<close>-th adapter.\<close>

definition handle_event :: "(xadd_cmd list \<Rightarrow> py_error option) \<Rightarrow> directory list \<Rightarrow> nat \<Rightarrow> identity_event \<Rightarrow> id_service \<Rightarrow> id_service" where
  "handle_event exec dirs i ev s = (case run_adapter_event exec dirs (sv_worker s) ev of (w, cmds, effs, r) \<Rightarrow>
     s\<lparr>sv_worker := w, sv_sent := sv_sent s @ map (Pair i) cmds, sv_effects := sv_effects s @ effs,
       sv_failed := (case r of Inl e \<Rightarrow> Some e | Inr _ \<Rightarrow> None)\<rparr>)"

definition service_step :: "id_service \<Rightarrow> id_input \<Rightarrow> id_service" where
  "service_step s inp =
     (if sv_failed s \<noteq> None then s
      else case inp of
        Lane i li exec dirs \<Rightarrow>
          if i < length (sv_lanes s)
          then (case lane_step li (sv_lanes s ! i) of (l, ev) \<Rightarrow>
            let s1 = s\<lparr>sv_lanes := (sv_lanes s)[i := l]\<rparr> in
            (case ev of None \<Rightarrow> s1 | Some e \<Rightarrow> handle_event exec dirs i e s1))
          else s
      | BindFailed i e \<Rightarrow> s\<lparr>sv_failed := Some e\<rparr>
      | Cycle sql dirs \<Rightarrow> if dirs = [] then s else s\<lparr>sv_effects := sv_effects s @ fst (full_cycle sql dirs (sv_worker s))\<rparr>)"

definition service_run :: "id_service \<Rightarrow> id_input list \<Rightarrow> id_service" where
  "service_run s ins = foldl service_step s ins"

text \<open>\<open>run_once\<close>, the idle service of a process without adapters: it waits for a signal or for the time-out and returns in both cases.\<close>

definition run_once :: "rat option \<Rightarrow> rat \<Rightarrow> rat \<times> bool" where
  "run_once signal_at timeout_s = (case signal_at of None \<Rightarrow> timeout_s | Some t \<Rightarrow> min t timeout_s, True)"

section \<open>Projections\<close>

definition publication :: "identity_event \<Rightarrow> xadd_cmd" where
  "publication ev = \<lparr>xa_stream = ''identity.events'', xa_payload = jsonify_identity ev, xa_maxlen = Some 1000000\<rparr>"

definition sent_by :: "nat \<Rightarrow> id_service \<Rightarrow> xadd_cmd list" where
  "sent_by i s = map snd (filter (\<lambda>p. fst p = i) (sv_sent s))"

definition inputs_of :: "nat \<Rightarrow> id_input list \<Rightarrow> lane_input list" where
  "inputs_of i ins = List.map_filter (\<lambda>inp. case inp of Lane j li exec dirs \<Rightarrow> if j = i then Some li else None | _ \<Rightarrow> None) ins"

lemma inputs_of_snoc: "inputs_of i (ins @ [x]) = inputs_of i ins @ (case x of Lane j li exec dirs \<Rightarrow> if j = i then [li] else [] | _ \<Rightarrow> [])"
  by (auto simp: inputs_of_def List.map_filter_def split: id_input.splits)

lemma lane_run_snoc:
  "lane_run l (lis @ [li]) = (case lane_run l lis of (l1, evs) \<Rightarrow>
     case lane_step li l1 of (l2, ev) \<Rightarrow> (l2, evs @ (case ev of None \<Rightarrow> [] | Some e \<Rightarrow> [e])))"
  by (induction lis arbitrary: l) (auto split: prod.splits option.splits)

lemma run_event_sent: "run_adapter_event exec dirs w ev = (w1, cmds, effs, r) \<Longrightarrow> cmds = [publication ev]"
  using run_event_cmds[of exec dirs w ev w1 cmds effs r] by (simp add: xadd_identity_def make_producer_def Let_def publication_def)

lemma handle_event_view:
  "sv_lanes (handle_event exec dirs i ev s) = sv_lanes s"
  "sent_by j (handle_event exec dirs i ev s) = sent_by j s @ (if i = j then [publication ev] else [])"
  using run_event_sent by (fastforce simp: handle_event_def sent_by_def split: prod.splits)+

lemma service_run_snoc: "service_run s (ins @ [x]) = service_step (service_run s ins) x"
  by (simp add: service_run_def)

lemma failed_stays: "sv_failed s \<noteq> None \<Longrightarrow> service_run s ins = s"
  by (induction ins) (simp_all add: service_run_def service_step_def)

section \<open>Independence\<close>

text \<open>What the \<open>i\<close>-th adapter yields alone.\<close>

definition alone :: "id_service \<Rightarrow> nat \<Rightarrow> id_input list \<Rightarrow> id_lane \<times> identity_event list" where
  "alone s i ins = lane_run (sv_lanes s ! i) (inputs_of i ins)"

definition follows :: "id_service \<Rightarrow> id_input list \<Rightarrow> id_service \<Rightarrow> bool" where
  "follows s0 ins s \<longleftrightarrow> length (sv_lanes s) = length (sv_lanes s0) \<and>
     (\<forall>i < length (sv_lanes s0). prefix (sent_by i s) (sent_by i s0 @ map publication (snd (alone s0 i ins))) \<and>
       (sv_failed s = None \<longrightarrow> sv_lanes s ! i = fst (alone s0 i ins) \<and> sent_by i s = sent_by i s0 @ map publication (snd (alone s0 i ins))))"

lemma alone_snoc:
  "alone s i (ins @ [x]) = (case x of
      Lane j li exec dirs \<Rightarrow> if j = i then (case lane_step li (fst (alone s i ins)) of
          (l, ev) \<Rightarrow> (l, snd (alone s i ins) @ (case ev of None \<Rightarrow> [] | Some e \<Rightarrow> [e]))) else alone s i ins
    | _ \<Rightarrow> alone s i ins)"
  by (auto simp: alone_def inputs_of_snoc lane_run_snoc split: id_input.splits prod.splits)

lemma alone_grows: "prefix (snd (alone s i ins)) (snd (alone s i (ins @ [x])))"
  by (auto simp: alone_snoc split: id_input.splits prod.splits)

lemma step_follows:
  assumes "follows s0 ins s"
  shows "follows s0 (ins @ [x]) (service_step s x)"
proof (cases "sv_failed s")
  case (Some e)
  then have "service_step s x = s" by (simp add: service_step_def)
  moreover have "prefix (sent_by i s) (sent_by i s0 @ map publication (snd (alone s0 i (ins @ [x]))))" if "i < length (sv_lanes s0)" for i
    using assms that alone_grows[of s0 i ins x] unfolding follows_def by (meson map_mono_prefix prefix_order.trans same_prefix_prefix)
  ultimately show ?thesis using assms Some by (simp add: follows_def)
next
  case None
  then have len: "length (sv_lanes s) = length (sv_lanes s0)"
    and at: "sv_lanes s ! i = fst (alone s0 i ins)" "sent_by i s = sent_by i s0 @ map publication (snd (alone s0 i ins))"
    if "i < length (sv_lanes s0)" for i
    using assms that by (simp_all add: follows_def)
  show ?thesis
  proof (cases x)
    case (Lane j li exec dirs)
    show ?thesis
    proof (cases "j < length (sv_lanes s)")
      case True
      obtain l ev where st: "lane_step li (sv_lanes s ! j) = (l, ev)" by fastforce
      let ?s1 = "s\<lparr>sv_lanes := (sv_lanes s)[j := l]\<rparr>"
      have step: "service_step s x = (case ev of None \<Rightarrow> ?s1 | Some e \<Rightarrow> handle_event exec dirs j e ?s1)"
        using None True st by (simp add: service_step_def Lane Let_def)
      have v: "sv_lanes (service_step s x) = (sv_lanes s)[j := l]"
        "sent_by i (service_step s x) = sent_by i s @ (if i = j then (case ev of None \<Rightarrow> [] | Some e \<Rightarrow> [publication e]) else [])" for i
        by (auto simp: step handle_event_view split: option.splits) (simp_all add: sent_by_def)
      have al: "alone s0 j (ins @ [x]) = (l, snd (alone s0 j ins) @ (case ev of None \<Rightarrow> [] | Some e \<Rightarrow> [e]))"
        using True st at(1)[of j] assms by (simp add: alone_snoc Lane follows_def)
      have "sv_lanes (service_step s x) ! i = fst (alone s0 i (ins @ [x])) \<and>
        sent_by i (service_step s x) = sent_by i s0 @ map publication (snd (alone s0 i (ins @ [x])))" if i: "i < length (sv_lanes s0)" for i
      proof (cases "i = j")
        case True
        then show ?thesis unfolding al[folded True] v using at(2)[OF i] i len[OF i] by (cases ev) simp_all
      next
        case False
        then have "alone s0 i (ins @ [x]) = alone s0 i ins" by (simp add: alone_snoc Lane)
        then show ?thesis unfolding v using False at[OF i] by simp
      qed
      then show ?thesis using assms by (simp add: follows_def v)
    next
      case False
      then have "service_step s x = s" using None by (simp add: service_step_def Lane)
      moreover have "alone s0 i (ins @ [x]) = alone s0 i ins" if "i < length (sv_lanes s0)" for i
        using False that assms by (auto simp: alone_snoc Lane follows_def)
      ultimately show ?thesis using assms by (simp add: follows_def)
    qed
  next
    case (BindFailed i e)
    then show ?thesis using assms None by (simp add: service_step_def follows_def alone_snoc sent_by_def)
  next
    case (Cycle sql dirs)
    then show ?thesis using assms None by (simp add: service_step_def follows_def alone_snoc sent_by_def)
  qed
qed

lemma run_follows: "sv_failed s0 = None \<Longrightarrow> follows s0 ins (service_run s0 ins)"
proof (induction ins rule: rev_induct)
  case Nil
  then show ?case by (simp add: follows_def service_run_def alone_def inputs_of_def List.map_filter_def)
next
  case (snoc x ins)
  then show ?case by (simp add: service_run_snoc step_follows)
qed

section \<open>Failure\<close>

text \<open>The inputs that end a running service with an exception: a port in use, Redis, or the directories at the first sight of a user.\<close>

definition ends_with_error :: "id_service \<Rightarrow> id_input \<Rightarrow> py_error \<Rightarrow> bool" where
  "ends_with_error s x e \<longleftrightarrow> (case x of
      Lane i li exec dirs \<Rightarrow> i < length (sv_lanes s) \<and> (\<exists>ev. snd (lane_step li (sv_lanes s ! i)) = Some ev \<and>
        (exec [publication ev] = Some e \<or> exec [publication ev] = None \<and> ie_user_upn ev \<noteq> [] \<and> ie_user_upn ev \<notin> gw_seen_upns (sv_worker s) \<and>
          snd (call_syncs (\<lambda>d. dir_sync_user d (ie_user_upn ev)) (\<lambda>k. SyncUser k (ie_user_upn ev)) 0 dirs) = Inl e))
    | BindFailed i f \<Rightarrow> f = e
    | Cycle sql dirs \<Rightarrow> False)"

lemma event_fails:
  assumes "run_adapter_event exec dirs w ev = (w1, cmds, effs, r)"
  shows "r = Inl e \<longleftrightarrow> exec [publication ev] = Some e \<or> exec [publication ev] = None \<and> ie_user_upn ev \<noteq> [] \<and> ie_user_upn ev \<notin> gw_seen_upns w \<and>
    snd (call_syncs (\<lambda>d. dir_sync_user d (ie_user_upn ev)) (\<lambda>k. SyncUser k (ie_user_upn ev)) 0 dirs) = Inl e"
proof -
  let ?C = "call_syncs (\<lambda>d. dir_sync_user d (ie_user_upn ev)) (\<lambda>k. SyncUser k (ie_user_upn ev)) 0"
  have x: "xadd_identity exec make_producer ev = (case exec [publication ev] of None \<Rightarrow> Inr () | Some e \<Rightarrow> Inl e, [publication ev])"
    by (simp add: xadd_identity_def make_producer_def publication_def Let_def)
  show ?thesis
  proof (cases "exec [publication ev]")
    case (Some f)
    then show ?thesis using assms by (auto simp: run_adapter_event_def x)
  next
    case None
    then show ?thesis using assms
      by (cases "?C dirs"; cases "dirs = []") (auto simp: run_adapter_event_def x on_new_upn_def split: if_splits)
  qed
qed

lemma step_fails:
  assumes "sv_failed s = None"
  shows "sv_failed (service_step s x) = Some e \<longleftrightarrow> ends_with_error s x e"
proof (cases x)
  case (Lane i li exec dirs)
  have "sv_failed (handle_event exec dirs i ev t) = Some e \<longleftrightarrow> exec [publication ev] = Some e \<or> exec [publication ev] = None \<and> ie_user_upn ev \<noteq> [] \<and>
      ie_user_upn ev \<notin> gw_seen_upns (sv_worker t) \<and>
      snd (call_syncs (\<lambda>d. dir_sync_user d (ie_user_upn ev)) (\<lambda>k. SyncUser k (ie_user_upn ev)) 0 dirs) = Inl e" for ev t
  proof -
    obtain w1 cmds effs r where "run_adapter_event exec dirs (sv_worker t) ev = (w1, cmds, effs, r)" by (metis prod_cases4)
    with event_fails[OF this, of e] show ?thesis by (auto simp: handle_event_def split: sum.splits)
  qed
  then show ?thesis using assms
    by (cases "lane_step li (sv_lanes s ! i)") (auto simp: service_step_def ends_with_error_def Lane Let_def split: option.splits)
qed (use assms in \<open>auto simp: service_step_def ends_with_error_def\<close>)

lemma service_run_append: "service_run s (xs @ ys) = service_run (service_run s xs) ys"
  by (simp add: service_run_def)

lemma failure_point:
  assumes "sv_failed s0 = None" and "sv_failed (service_run s0 ins) = Some e"
  shows "\<exists>pre x post. ins = pre @ x # post \<and> sv_failed (service_run s0 pre) = None \<and> ends_with_error (service_run s0 pre) x e \<and>
    service_run s0 ins = service_run s0 (pre @ [x])"
  using assms(2)
proof (induction ins rule: rev_induct)
  case Nil
  then show ?case using assms(1) by (simp add: service_run_def)
next
  case (snoc y ins)
  show ?case
  proof (cases "sv_failed (service_run s0 ins)")
    case None
    with snoc.prems step_fails[OF None] show ?thesis by (auto simp: service_run_snoc)
  next
    case (Some f)
    then have same: "service_run s0 (ins @ [y]) = service_run s0 ins" by (simp add: service_run_snoc service_step_def)
    with snoc.IH snoc.prems obtain pre x post where p: "ins = pre @ x # post" "sv_failed (service_run s0 pre) = None"
      "ends_with_error (service_run s0 pre) x e" "service_run s0 ins = service_run s0 (pre @ [x])" by auto
    have "service_run s0 (ins @ [y]) = service_run s0 (pre @ [x])" using same p(4) by simp
    then show ?thesis unfolding p(1) using p(2,3) by (intro exI[of _ pre] exI[of _ x] exI[of _ "post @ [y]"]) simp
  qed
qed

section \<open>Properties\<close>


definition unreachable_directory :: directory where
  "unreachable_directory = \<lparr>dir_sync_user = (\<lambda>_. Inl RuntimeError), dir_sync_all = Inl RuntimeError\<rparr>"

definition demo_inputs :: "id_input list" where
  "demo_inputs = map (\<lambda>(i, li). Lane i li (\<lambda>_. None) [unreachable_directory])
     [(0, Message (''10.0.0.9'', radius_start)), (1, Message (''10.0.0.9'', radius_start)), (0, Turn 7), (1, Turn 8)]"


end
