(* ===== verification/Entra_Polling.thy ===== *)
theory Entra_Polling
  imports Identity_Path
begin

text \<open>
  The polling loop of the Entra adapter (\<open>_token\<close> and \<open>run\<close> of \<open>id_ingest/adapters/entra_signin_adapter.py\<close>, and the same \<open>_token\<close> in \<open>group_sync/entra_sync.py\<close>) and what
  repeated polls do to the identity index. \<open>post\<close> is an HTTP request with the check of its status: the body of the answer, or an exception.
\<close>

section \<open>Definitions\<close>

definition auth_base :: string where "auth_base = ''https://login.microsoftonline.com''"

definition client_token :: "(string \<Rightarrow> (string \<times> string) list \<Rightarrow> py_error + (string, string) dict) \<Rightarrow> string \<Rightarrow> string \<Rightarrow> string \<Rightarrow> py_error + string" where
  "client_token post tenant client secret = bind_r
     (post (auth_base @ ''/'' @ tenant @ ''/oauth2/v2.0/token'')
       [(''grant_type'', ''client_credentials''), (''client_id'', client), (''client_secret'', secret),
        (''scope'', ''https://graph.microsoft.com/.default'')])
     (\<lambda>body. lookup_r body ''access_token'')"

definition entra_token :: "(string \<Rightarrow> (string \<times> string) list \<Rightarrow> py_error + (string, string) dict) \<Rightarrow> entra_adapter \<Rightarrow> py_error + string" where
  "entra_token post a = client_token post (ea_tenant a) (ea_client a) (ea_secret a)"

record entra_group_sync =
  eg_tenant_id :: string
  eg_client_id :: string
  eg_client_secret :: string

definition group_sync_token :: "(string \<Rightarrow> (string \<times> string) list \<Rightarrow> py_error + (string, string) dict) \<Rightarrow> entra_group_sync \<Rightarrow> py_error + string" where
  "group_sync_token post g = client_token post (eg_tenant_id g) (eg_client_id g) (eg_client_secret g)"

text \<open>\<open>run\<close>: the answers of the services at each poll. The exceptions of a poll are logged, the next poll comes after a pause. A poll that does not end is \<open>None\<close>.\<close>

record graph_answers =
  gr_post :: "string \<Rightarrow> (string \<times> string) list \<Rightarrow> py_error + (string, string) dict"
  gr_get :: "string \<Rightarrow> string \<Rightarrow> py_error + signin page"

definition entra_turn :: "graph_answers \<Rightarrow> entra_adapter \<Rightarrow> ((entra_adapter \<times> identity_event list) \<times> (py_error + unit)) option" where
  "entra_turn g a = poll_once (entra_token (gr_post g) a) (gr_get g) a"

fun entra_run :: "entra_adapter \<Rightarrow> graph_answers list \<Rightarrow> (entra_adapter \<times> identity_event list) option" where
  "entra_run a [] = Some (a, [])"
| "entra_run a (g # gs) = Option.bind (entra_turn g a) (\<lambda>((a1, evs), _).
     map_option (\<lambda>(a2, evs2). (a2, evs @ evs2)) (entra_run a1 gs))"

section \<open>Polls that are cut off\<close>

text \<open>The service answers a request as the listing has it, or fails.\<close>

definition cut_of :: "(string \<Rightarrow> py_error + 'i page) \<Rightarrow> (string \<Rightarrow> py_error + 'i page) \<Rightarrow> bool" where
  "cut_of full fetch \<longleftrightarrow> (\<forall>u. fetch u = full u \<or> (\<exists>e. fetch u = Inl e))"

abbreviation readable :: "entra_adapter \<Rightarrow> signin page list \<Rightarrow> bool" where
  "readable a ps \<equiv> \<forall>p \<in> set ps. \<forall>i \<in> set (pg_value p). \<exists>r. signin_event (ea_cidrs a) i = Inr r"

definition page_events :: "entra_adapter \<Rightarrow> signin page list \<Rightarrow> identity_event list" where
  "page_events a ps = concat (map (item_events (ea_cidrs a)) (concat (map pg_value ps)))"

lemma page_events_Cons: "page_events a (p # ps) = concat (map (item_events (ea_cidrs a)) (pg_value p)) @ page_events a ps"
  by (simp add: page_events_def)

lemma paged_cut:
  assumes "listing full url ps" and "readable a ps" and "cut_of full fetch"
  shows "\<exists>a1 qs r. paged fetch poll_page url (a, out) = Some ((a1, out @ page_events a qs), r) \<and> set qs \<subseteq> set ps \<and>
    (case r of Inl _ \<Rightarrow> a1 = a | Inr _ \<Rightarrow> qs = ps)"
  using assms
proof (induction arbitrary: out rule: listing.induct)
  case (end_of url)
  then show ?case by (subst paged.simps) (auto simp: page_events_def intro!: exI[of _ "[]"])
next
  case (link u p ps)
  show ?case
  proof (cases "fetch u")
    case (Inl e)
    then show ?thesis using link.hyps(1) by (subst paged.simps) (auto simp: truthy_def page_events_def intro!: exI[of _ "[]"])
  next
    case (Inr p1)
    then have f: "fetch u = Inr p" using link.prems(2) link.hyps(2) by (auto simp: cut_of_def dest: spec[of _ u])
    have y: "yield_items (ea_cidrs a) (pg_value p) = (concat (map (item_events (ea_cidrs a)) (pg_value p)), Inr ())"
      using link.prems(1) by (intro yield_items_ok) simp
    show ?thesis
    proof (cases "truthy (pg_next p)")
      case True
      have st: "poll_page (a, out) p = Some ((a, out @ concat (map (item_events (ea_cidrs a)) (pg_value p))), Inr ())"
        using y True by (simp add: poll_page_def)
      from link.IH[of "out @ concat (map (item_events (ea_cidrs a)) (pg_value p))"] link.prems obtain a1 qs r where
        "paged fetch poll_page (pg_next p) (a, out @ concat (map (item_events (ea_cidrs a)) (pg_value p))) =
           Some ((a1, (out @ concat (map (item_events (ea_cidrs a)) (pg_value p))) @ page_events a qs), r)"
        "set qs \<subseteq> set ps" "case r of Inl _ \<Rightarrow> a1 = a | Inr _ \<Rightarrow> qs = ps" by auto
      then show ?thesis using link.hyps(1) f st
        by (subst paged.simps) (auto simp: truthy_def page_events_Cons intro!: exI[of _ "p # qs"] split: sum.splits)
    next
      case False
      then have "ps = []" using link.hyps(3) by (auto elim: listing.cases)
      with False y link.hyps(1) f show ?thesis
        by (subst paged.simps, subst paged.simps) (auto simp: truthy_def poll_page_def page_events_def intro!: exI[of _ "[p]"])
    qed
  qed
qed

lemma turn_cut:
  assumes "listing full (py_or (ea_delta_link a) (Some graph_signins)) ps" and "readable a ps"
    and "\<And>tok. entra_token (gr_post g) a = Inr tok \<Longrightarrow> cut_of full (gr_get g tok)"
  shows "\<exists>a1 qs r. entra_turn g a = Some ((a1, page_events a qs), r) \<and> set qs \<subseteq> set ps \<and> (case r of Inl _ \<Rightarrow> a1 = a | Inr _ \<Rightarrow> qs = ps)"
proof (cases "entra_token (gr_post g) a")
  case (Inl e)
  then show ?thesis by (auto simp: entra_turn_def poll_once_def page_events_def intro!: exI[of _ "[]"])
next
  case (Inr tok)
  from paged_cut[OF assms(1,2) assms(3)[OF Inr], of "[]"] show ?thesis by (simp add: entra_turn_def poll_once_def Inr)
qed

lemma entra_run_append: "entra_run a (gs @ hs) = Option.bind (entra_run a gs) (\<lambda>(a1, evs). map_option (\<lambda>(a2, evs2). (a2, evs @ evs2)) (entra_run a1 hs))"
proof (induction gs arbitrary: a)
  case Nil
  then show ?case by (cases "entra_run a hs") auto
next
  case (Cons g gs)
  show ?case
  proof (cases "entra_turn g a")
    case (Some x)
    obtain a1 evs r where x: "x = ((a1, evs), r)" by (metis surj_pair)
    show ?thesis
    proof (cases "entra_run a1 gs")
      case None
      then show ?thesis using Cons[of a1] by (simp add: Some x)
    next
      case (Some y)
      obtain a2 evs2 where y: "y = (a2, evs2)" by fastforce
      show ?thesis using Cons[of a1] \<open>entra_turn g a = Some x\<close> by (cases "entra_run a2 hs") (simp_all add: Some x y split: prod.splits)
    qed
  qed simp
qed

lemma failing_polls:
  assumes "listing full (py_or (ea_delta_link a) (Some graph_signins)) ps" and "readable a ps"
    and "\<forall>g \<in> set gs. (\<forall>tok. entra_token (gr_post g) a = Inr tok \<longrightarrow> cut_of full (gr_get g tok)) \<and>
      (\<forall>x. entra_turn g a \<noteq> Some (x, Inr ()))"
  shows "\<exists>evs. entra_run a gs = Some (a, evs) \<and> set evs \<subseteq> set (page_events a ps)"
  using assms(3)
proof (induction gs)
  case (Cons g gs)
  from turn_cut[OF assms(1,2), of g] Cons.prems obtain a1 qs r where
    t: "entra_turn g a = Some ((a1, page_events a qs), r)" "set qs \<subseteq> set ps" "case r of Inl _ \<Rightarrow> a1 = a | Inr _ \<Rightarrow> qs = ps" by auto
  with Cons.prems have "a1 = a" by (auto split: sum.splits)
  moreover have "set (page_events a qs) \<subseteq> set (page_events a ps)" using t(2) by (auto simp: page_events_def)
  moreover obtain evs where "entra_run a gs = Some (a, evs)" "set evs \<subseteq> set (page_events a ps)" using Cons by auto
  ultimately show ?case using t(1) by simp
qed simp

section \<open>Repeated events\<close>

text \<open>A sign-in adds its binding, so the bindings after some sign-ins do not depend on their order nor on how often they come.\<close>

definition signin_binding :: "identity_event \<Rightarrow> interval" where
  "signin_binding ev = \<lparr>iv_begin = ie_ts ev, iv_end = ie_ts ev + ie_ttl_seconds ev * us_per_s,
     iv_data = \<lparr>b_user_upn = ie_user_upn ev, b_confidence = ie_confidence ev, b_source = ie_source ev, b_t_start = ie_ts ev\<rparr>\<rparr>"

lemma page_events_signins: "ev \<in> set (page_events a ps) \<Longrightarrow> ie_event_type ev = ''logon'' \<and> ie_ttl_seconds ev = 3600"
  by (auto simp: page_events_def item_events_def signin_event_def signin_ttl_s_def split: if_splits option.splits sum.splits)

lemma signin_inserted:
  assumes "ie_event_type ev = ''logon''" and "ie_ttl_seconds ev = 3600"
  shows "spec_insert (index_event ev) S = S(ie_src_ip ev := insert (signin_binding ev) (S (ie_src_ip ev)))"
  using assms by (simp add: spec_insert_def index_event_def wire_dict_def ev_ts_def key_r_def is_stop_def ev_binding_def signin_binding_def)

lemma signins_inserted:
  assumes "\<forall>ev \<in> set evs. ie_event_type ev = ''logon'' \<and> ie_ttl_seconds ev = 3600"
  shows "foldl (\<lambda>S ev. spec_insert (index_event ev) S) S evs ip = S ip \<union> signin_binding ` {ev \<in> set evs. ie_src_ip ev = ip}"
  using assms by (induction evs arbitrary: S) (auto simp: signin_inserted)

section \<open>Properties\<close>

text \<open>
  C37: polls that fail lose nothing. When the token request or any of the page requests of some polls fail, and then a poll succeeds,
  the loop has yielded every event of the listing from the last delta link on, in order at the end; a failed poll leaves the delta link, so
  its events may come again, but after all of them the bindings of the identity index are those of the undisturbed listing; and the next
  poll starts from the new delta link.
\<close>

theorem failed_polls_lose_nothing:
  assumes "listing full (py_or (ea_delta_link a) (Some graph_signins)) ps" and "readable a ps"
    and "\<forall>g \<in> set gs. (\<forall>tok. entra_token (gr_post g) a = Inr tok \<longrightarrow> cut_of full (gr_get g tok)) \<and> (\<forall>x. entra_turn g a \<noteq> Some (x, Inr ()))"
    and "entra_token (gr_post h) a = Inr tok" and "gr_get h tok = full"
  shows "\<exists>a1 dup. entra_run a (gs @ [h]) = Some (a1, dup @ page_events a ps) \<and>
    ea_delta_link a1 = (if truthy (pg_delta (last ps)) then pg_delta (last ps) else ea_delta_link a) \<and>
    foldl (\<lambda>S ev. spec_insert (index_event ev) S) S (dup @ page_events a ps) = foldl (\<lambda>S ev. spec_insert (index_event ev) S) S (page_events a ps)"
proof -
  obtain dup where d: "entra_run a gs = Some (a, dup)" "set dup \<subseteq> set (page_events a ps)"
    using failing_polls[OF assms(1-3)] by blast
  have ne: "ps \<noteq> []"
    using assms(1) by (auto elim!: listing.cases simp: py_or_def graph_signins_def split: if_splits)
  have "entra_turn h a = fold_pages poll_page (a, []) ps"
    using paged_listing[OF assms(1)] by (simp add: entra_turn_def poll_once_def assms(4,5))
  then obtain a1 where t: "entra_turn h a = Some ((a1, page_events a ps), Inr ())"
    "ea_delta_link a1 = (if truthy (pg_delta (last ps)) then pg_delta (last ps) else ea_delta_link a)"
    using fold_poll_pages[OF assms(1,2), of "[]"] ne by (simp add: page_events_def)
  have r: "entra_run a (gs @ [h]) = Some (a1, dup @ page_events a ps)" by (simp add: entra_run_append d(1) t(1))
  have "foldl (\<lambda>S ev. spec_insert (index_event ev) S) S (dup @ page_events a ps) ip =
      foldl (\<lambda>S ev. spec_insert (index_event ev) S) S (page_events a ps) ip" for ip
    using d(2) page_events_signins[of _ a ps] by (subst (1 2) signins_inserted) auto
  with r t(2) show ?thesis by blast
qed

definition answering :: "(string \<Rightarrow> py_error + signin page) \<Rightarrow> graph_answers" where
  "answering fetch = \<lparr>gr_post = (\<lambda>_ _. Inr [(''access_token'', ''tok'')]), gr_get = (\<lambda>_. fetch)\<rparr>"

theorem failed_polls_lose_nothing_witness:
  "\<exists>a1 dup. entra_run demo_entra [answering (\<lambda>_. Inl RuntimeError), answering (\<lambda>_. Inr demo_signins)] = Some (a1, dup @ page_events demo_entra [demo_signins]) \<and>
     ea_delta_link a1 = Some ''d''"
proof -
  have l: "listing (\<lambda>_. Inr demo_signins) (py_or (ea_delta_link demo_entra) (Some graph_signins)) [demo_signins]"
    by (auto simp: py_or_def demo_entra_def graph_signins_def demo_signins_def intro!: listing.intros)
  have t: "fromisoformat (replace ''2026-04-22T10:00:00Z'' ''Z'' ''+00:00'') = Some 1776852000000000" by code_simp
  have i: "readable demo_entra [demo_signins]" using t by (simp add: demo_signins_def signin_event_def)
  have k: "entra_token (gr_post (answering f)) a = Inr ''tok''" for f a
    by (simp add: entra_token_def client_token_def answering_def lookup_r_def)
  have f: "entra_turn (answering (\<lambda>_. Inl RuntimeError)) demo_entra = Some ((demo_entra, []), Inl RuntimeError)"
    unfolding entra_turn_def poll_once_def k
    by (simp, subst paged.simps) (simp add: answering_def demo_entra_def py_or_def truthy_def graph_signins_def)
  have "\<forall>g \<in> set [answering (\<lambda>_. Inl RuntimeError)]. (\<forall>tok. entra_token (gr_post g) demo_entra = Inr tok \<longrightarrow>
      cut_of (\<lambda>_. Inr demo_signins) (gr_get g tok)) \<and> (\<forall>x. entra_turn g demo_entra \<noteq> Some (x, Inr ()))"
    using f by (simp add: cut_of_def answering_def)
  moreover have "gr_get (answering (\<lambda>_. Inr demo_signins)) ''tok'' = (\<lambda>_. Inr demo_signins)" by (simp add: answering_def)
  ultimately obtain a1 dup where "entra_run demo_entra ([answering (\<lambda>_. Inl RuntimeError)] @ [answering (\<lambda>_. Inr demo_signins)]) =
      Some (a1, dup @ page_events demo_entra [demo_signins])"
    "ea_delta_link a1 = (if truthy (pg_delta (last [demo_signins])) then pg_delta (last [demo_signins]) else ea_delta_link demo_entra)"
    using failed_polls_lose_nothing[OF l i _ k, where S = "\<lambda>_. {}"] by blast
  moreover have "pg_delta (last [demo_signins]) = Some ''d''" by (simp add: demo_signins_def)
  ultimately show ?thesis by (intro exI[of _ a1] exI[of _ dup]) (simp only: append_Cons append_Nil, simp add: truthy_def)
qed

end
