(* ===== verification/Mock_Generator.thy ===== *)
theory Mock_Generator
  imports Flow_Ingest
begin

text \<open>
  The traffic generators: \<open>mock-syslog-generator/src/mockgen\<close> and \<open>loadtest/generators\<close>. The random draws of a line are
  the arguments of its definition. The theorems say what the adapters of this repository make of the lines.
\<close>

section \<open>Mock generator\<close>

record pan_draw =
  pd_src :: int
  pd_dst :: int
  pd_sport :: int
  pd_dport :: int
  pd_app :: string
  pd_bytes :: int
  pd_pkts :: int

record fgt_draw =
  fd_src :: int
  fd_dst :: int
  fd_sport :: int
  fd_dport :: int
  fd_sent :: int
  fd_rcvd :: int
  fd_spkt :: int
  fd_rpkt :: int
  fd_app :: string
  fd_fqdn :: string

definition apps_pan :: "string list" where
  "apps_pan = [''ms-office365'', ''ms-teams'', ''github'', ''salesforce'', ''zoom'', ''slack'']"

definition apps_fgt :: "string list" where
  "apps_fgt = [''SharePoint'', ''Teams'', ''GitHub'', ''Salesforce'', ''Zoom'', ''Slack'']"

definition fqdns :: "string list" where
  "fqdns = [''outlook.office365.com'', ''teams.microsoft.com'', ''api.github.com'', ''login.salesforce.com'', ''zoom.us'',
     ''wss-mobile.slack.com'']"

text \<open>What \<open>random\<close> can draw.\<close>

definition pan_drawn :: "pan_draw \<Rightarrow> bool" where
  "pan_drawn d \<longleftrightarrow> pd_src d \<in> {1..250} \<and> pd_dst d \<in> {1..250} \<and> pd_sport d \<in> {10000..60000} \<and> pd_dport d \<in> {443, 80, 22, 53} \<and>
     pd_app d \<in> set apps_pan \<and> pd_bytes d \<in> {500..50000} \<and> pd_pkts d \<in> {1..100}"

definition fgt_drawn :: "fgt_draw \<Rightarrow> bool" where
  "fgt_drawn d \<longleftrightarrow> fd_src d \<in> {1..250} \<and> fd_dst d \<in> {1..250} \<and> fd_sport d \<in> {10000..60000} \<and> fd_dport d \<in> {443, 80, 22, 53} \<and>
     fd_sent d \<in> {500..50000} \<and> fd_rcvd d \<in> {500..50000} \<and> fd_spkt d \<in> {1..100} \<and> fd_rpkt d \<in> {1..100} \<and>
     fd_app d \<in> set apps_fgt \<and> fd_fqdn d \<in> set fqdns"

definition pan_line :: "instant \<Rightarrow> pan_draw \<Rightarrow> string" where
  "pan_line now d = (let ts = strftime ''%Y/%m/%d %H:%M:%S'' (utc_fields now) in
     ''1,'' @ ts @ '',001801000000,TRAFFIC,end,2560,'' @ ts @ '','' @
     (''10.0.0.'' @ show_int (pd_src d)) @ '','' @ (''52.97.1.'' @ show_int (pd_dst d)) @ '',,,allow-all,,,'' @ pd_app d @
     '',vsys1,trust,untrust,ae1,ae2,,,,,'' @
     show_int (pd_sport d) @ '','' @ show_int (pd_dport d) @ '',,,0x400000,tcp,allow,'' @ show_int (pd_bytes d) @ '','' @ show_int (pd_pkts d))"

definition fgt_line :: "instant \<Rightarrow> fgt_draw \<Rightarrow> string" where
  "fgt_line now d = (let q = [CHR 0x22] in
     ''<189>date='' @ strftime ''%Y-%m-%d'' (utc_fields now) @ '' time='' @ strftime ''%H:%M:%S'' (utc_fields now) @
     '' devname='' @ q @ ''fw02'' @ q @ '' logid='' @ q @ ''0000000013'' @ q @
     '' type='' @ q @ ''traffic'' @ q @ '' subtype='' @ q @ ''forward'' @ q @ '' eventtype='' @ q @ ''forward'' @ q @
     '' level='' @ q @ ''notice'' @ q @ '' vd='' @ q @ ''root'' @ q @
     '' srcip='' @ (''10.0.1.'' @ show_int (fd_src d)) @ '' srcport='' @ show_int (fd_sport d) @
     '' dstip='' @ (''52.97.2.'' @ show_int (fd_dst d)) @ '' dstport='' @ show_int (fd_dport d) @ '' proto=6 action='' @ q @ ''close'' @ q @
     '' sentbyte='' @ show_int (fd_sent d) @ '' rcvdbyte='' @ show_int (fd_rcvd d) @
     '' sentpkt='' @ show_int (fd_spkt d) @ '' rcvdpkt='' @ show_int (fd_rpkt d) @
     '' appcat='' @ q @ ''Collaboration'' @ q @ '' app='' @ q @ fd_app d @ q @ '' status='' @ q @ ''close'' @ q @
     '' hostname='' @ q @ fd_fqdn d @ q)"

text \<open>The choice of the vendor and the payload of one turn of the loop.\<close>

definition mock_vendors :: "string \<Rightarrow> string list" where
  "mock_vendors s = filter (\<lambda>v. v \<noteq> []) (map strip (split_on CHR '','' s))"

definition mock_payload :: "string list \<Rightarrow> nat \<Rightarrow> string \<Rightarrow> string \<Rightarrow> py_error + string" where
  "mock_payload vendors i pan fgt =
     (if vendors = [] then Inl IndexError
      else Inr ((if vendors ! (i mod length vendors) = ''palo_alto'' then pan else fgt) @ [CHR 0x0A]))"

text \<open>\<open>MockSettings\<close> and \<open>_run\<close>: a turn sends a line and sleeps, a second longer when the send raised an \<open>OSError\<close>.\<close>

record mock_settings =
  mk_target_host :: string
  mk_target_port :: int
  mk_rate_per_s :: int
  mk_vendors :: string

definition default_mock_settings :: mock_settings where
  "default_mock_settings = \<lparr>mk_target_host = ''traefik'', mk_target_port = 514, mk_rate_per_s = 100, mk_vendors = ''palo_alto,fortigate''\<rparr>"

datatype mock_effect = SendTo string int string | Sleep rat

definition mock_interval :: "mock_settings \<Rightarrow> rat" where
  "mock_interval s = 1 / of_int (max 1 (mk_rate_per_s s))"

text \<open>The draws of a turn: the vendor, a line of each, and whether the send succeeds.\<close>

type_synonym mock_draw = "nat \<times> string \<times> string \<times> bool"

definition mock_turn :: "mock_settings \<Rightarrow> mock_draw \<Rightarrow> py_error + mock_effect list" where
  "mock_turn s d = (case d of (i, pan, fgt, ok) \<Rightarrow>
     bind_r (mock_payload (mock_vendors (mk_vendors s)) i pan fgt) (\<lambda>line.
       Inr (SendTo (mk_target_host s) (mk_target_port s) line # (if ok then [] else [Sleep 1]) @ [Sleep (mock_interval s)])))"

fun mock_run :: "mock_settings \<Rightarrow> mock_draw list \<Rightarrow> mock_effect list \<times> py_error option" where
  "mock_run s [] = ([], None)"
| "mock_run s (d # ds) = (case mock_turn s d of Inl e \<Rightarrow> ([], Some e)
     | Inr effs \<Rightarrow> (case mock_run s ds of (effs2, r) \<Rightarrow> (effs @ effs2, r)))"

fun slept :: "mock_effect \<Rightarrow> rat" where
  "slept (Sleep t) = t" | "slept _ = 0"

fun is_send :: "mock_effect \<Rightarrow> bool" where
  "is_send (SendTo _ _ _) = True" | "is_send _ = False"

text \<open>With a vendor the generator never ends, and it never sends faster than its rate; with none it ends at the first line.\<close>

lemma mock_run_rate:
  assumes "mock_vendors (mk_vendors s) \<noteq> []" and "mock_run s ds = (effs, r)"
  shows "r = None \<and> length (filter is_send effs) = length ds \<and>
    of_nat (length ds) \<le> of_int (max 1 (mk_rate_per_s s)) * sum_list (map slept effs)"
  using assms(2)
proof (induction ds arbitrary: effs r)
  case (Cons d ds)
  obtain i pan fgt ok where d: "d = (i, pan, fgt, ok)" by (cases d)
  obtain line where t: "mock_turn s d = Inr (SendTo (mk_target_host s) (mk_target_port s) line # (if ok then [] else [Sleep 1]) @ [Sleep (mock_interval s)])"
    using assms(1) by (auto simp: mock_turn_def d mock_payload_def)
  obtain effs2 where e: "mock_run s ds = (effs2, r)"
    "effs = SendTo (mk_target_host s) (mk_target_port s) line # (if ok then [] else [Sleep 1]) @ [Sleep (mock_interval s)] @ effs2"
    using Cons.prems t by (auto split: prod.splits)
  have m: "(0::rat) < of_int (max 1 (mk_rate_per_s s))" by simp
  then have i: "of_int (max 1 (mk_rate_per_s s)) * mock_interval s = 1" by (simp add: mock_interval_def)
  have "of_int (max 1 (mk_rate_per_s s)) * sum_list (map slept effs) =
      (if ok then 0 else of_int (max 1 (mk_rate_per_s s))) + 1 + of_int (max 1 (mk_rate_per_s s)) * sum_list (map slept effs2)"
    by (simp add: e(2) distrib_left i)
  then show ?case using Cons.IH[OF e(1)] m by (auto simp: e(2))
qed simp

lemma mock_run_no_vendor: "mock_vendors (mk_vendors s) = [] \<Longrightarrow> mock_run s (d # ds) = ([], Some IndexError)"
  by (simp add: mock_turn_def mock_payload_def split: prod.splits)

section \<open>The lines are understood\<close>

lemma pad_not: "\<not> is_digit c \<Longrightarrow> c \<notin> set (pad w n)"
  using pad_digit by blast

text \<open>A time of day has colons, but none before a blank.\<close>

lemma stamp_no_mark: "find_sub '': '' r = None \<Longrightarrow> find_sub '': '' (strftime stamp_format d @ r) = None"
proof -
  assume r: "find_sub '': '' r = None"
  have dig: "\<not> is_digit (CHR '':'')" by (simp add: is_digit_def code_def)
  have sk: "find_sub '': '' (CHR '':'' # pad 2 n @ s) = None \<longleftrightarrow> find_sub '': '' s = None" for n s
  proof -
    have b: "is_space (CHR '' '')" by (simp add: is_space_def code_def)
    obtain x t where x: "pad 2 n @ s = x # t" "x \<noteq> CHR '' ''"
      using pad_starts[of 2 n s] b by (cases "pad 2 n @ s") auto
    have "find_sub '': '' (CHR '':'' # x # t) = None \<longleftrightarrow> find_sub '': '' (x # t) = None" using x(2) by (simp add: starts_with_def)
    then show ?thesis using find_sub_skip[OF pad_not[OF dig], of "'' ''" 2 n s] by (simp only: x(1))
  qed
  have eq: "strftime stamp_format d @ r = (show_int (dt_year d) @ ''/'' @ pad 2 (dt_month d) @ ''/'' @ pad 2 (dt_day d) @ '' '' @
      pad 2 (dt_hour d)) @ CHR '':'' # pad 2 (dt_minute d) @ CHR '':'' # pad 2 (dt_second d) @ r" by (simp add: stamp_format_def)
  have ni: "CHR '':'' \<notin> set (show_int (dt_year d) @ ''/'' @ pad 2 (dt_month d) @ ''/'' @ pad 2 (dt_day d) @ '' '' @ pad 2 (dt_hour d))"
    using pad_not[OF dig] show_int_not[OF dig] by simp
  show ?thesis unfolding eq find_sub_skip[OF ni] sk by (rule r)
qed

lemma drop_microseconds:
  assumes "representable t" and "0 \<le> t"
  shows "strptime_utc stamp_format (strftime stamp_format (utc_fields t)) = Some (t - t mod us_per_s)"
proof -
  let ?d = "(utc_fields t)\<lparr>dt_microsecond := 0\<rparr>"
  have "strftime f (utc_fields t) = strftime f ?d" for f by (induction f "utc_fields t" rule: strftime.induct) auto
  moreover have "fields_ok ?d" "1000 \<le> dt_year ?d"
    using utc_fields_ok(1)[OF assms(1)] year_after_epoch[OF assms] by (simp_all add: fields_ok_def)
  moreover have "utc_instant ?d = t - dt_microsecond (utc_fields t)"
    using utc_fields_ok(2)[OF assms(1)] by (simp add: utc_instant_def)
  moreover have "dt_microsecond (utc_fields t) = t mod us_per_s"
    by (simp add: utc_fields_def Let_def us_per_day_def us_per_s_def mod_mod_cancel split: prod.splits)
  ultimately show ?thesis using strptime_strftime[of ?d] by simp
qed

definition pan_columns :: "instant \<Rightarrow> pan_draw \<Rightarrow> string list" where
  "pan_columns now d = (let ts = strftime stamp_format (utc_fields now) in
     [''1'', ts, ''001801000000'', ''TRAFFIC'', ''end'', ''2560'', ts, ''10.0.0.'' @ show_int (pd_src d), ''52.97.1.'' @ show_int (pd_dst d),
      [], [], ''allow-all'', [], [], pd_app d, ''vsys1'', ''trust'', ''untrust'', ''ae1'', ''ae2'', [], [], [], [],
      show_int (pd_sport d), show_int (pd_dport d), [], [], ''0x400000'', ''tcp'', ''allow'', show_int (pd_bytes d), show_int (pd_pkts d)])"

lemma pan_line_row: "pan_line now d = write_row (map (Pair False) (pan_columns now d))"
  by (simp add: pan_line_def pan_columns_def write_row_def write_field_def Let_def stamp_format_def del: strftime.simps)

text \<open>The characters of a line of the generator.\<close>

lemma stamp_chars: "c \<in> set (strftime stamp_format d) \<Longrightarrow> is_digit c \<or> c \<in> {CHR ''/'', CHR '' '', CHR '':'', CHR ''-''}"
  using pad_digit show_int_not by (auto simp: stamp_format_def)

lemma pan_app_chars: "a \<in> set apps_pan \<Longrightarrow> c \<in> set a \<Longrightarrow> c \<notin> {CHR '':'', CHR ''L'', CHR '','', csv_q, csv_nl, csv_cr}"
  by (auto simp: apps_pan_def csv_q_def csv_nl_def csv_cr_def)

lemma pan_line_chars:
  assumes "pd_app d \<in> set apps_pan"
  shows "find_sub '': '' (pan_line now d) = None" and "find_sub ''LEEF:'' (pan_line now d) = None"
    and "find_sub ''TRAFFIC'' (pan_line now d) \<noteq> None"
proof -
  let ?ts = "strftime stamp_format (utc_fields now)"
  let ?rest = "'','' @ (''10.0.0.'' @ show_int (pd_src d)) @ '','' @ (''52.97.1.'' @ show_int (pd_dst d)) @ '',,,allow-all,,,'' @ pd_app d @
     '',vsys1,trust,untrust,ae1,ae2,,,,,'' @ show_int (pd_sport d) @ '','' @ show_int (pd_dport d) @ '',,,0x400000,tcp,allow,'' @
     show_int (pd_bytes d) @ '','' @ show_int (pd_pkts d)"
  let ?mid = "'',001801000000,TRAFFIC,end,2560,''"
  have l: "pan_line now d = ''1,'' @ ?ts @ ?mid @ ?ts @ ?rest"
    by (simp add: pan_line_def Let_def stamp_format_def del: strftime.simps)
  have dg: "\<not> is_digit (CHR '':'')" "\<not> is_digit (CHR ''L'')" by (simp_all add: is_digit_def code_def)
  have "CHR '':'' \<notin> set ?rest" "CHR ''L'' \<notin> set ?rest"
    using pan_app_chars[OF assms] show_int_not[OF dg(1)] show_int_not[OF dg(2)] by auto
  note no = this
  have "find_sub '': '' ?rest = None" by (rule find_sub_none[OF _ no(1)]) simp
  then have m: "find_sub '': '' (?mid @ ?ts @ ?rest) = None"
    using find_sub_skip[of "CHR '':''" ?mid "'' ''" "?ts @ ?rest"] stamp_no_mark by simp
  show "find_sub '': '' (pan_line now d) = None"
    using stamp_no_mark[OF m, of "utc_fields now"] find_sub_skip[of "CHR '':''" "''1,''" "'' ''" "?ts @ ?mid @ ?ts @ ?rest"]
    unfolding l by simp
  have "CHR ''L'' \<notin> set ?ts" using stamp_chars[of "CHR ''L''" "utc_fields now"] dg(2) by auto
  then have "CHR ''L'' \<notin> set (pan_line now d)" using no(2) unfolding l by auto
  then show "find_sub ''LEEF:'' (pan_line now d) = None" by (rule find_sub_none[rotated]) simp
  show "find_sub ''TRAFFIC'' (pan_line now d) \<noteq> None"
    using find_sub_some[of "''TRAFFIC''" "''1,'' @ ?ts @ '',001801000000,''" "'',end,2560,'' @ ?ts @ ?rest"] unfolding l by simp
qed

lemma bare_ok_stamp: "bare_ok (strftime stamp_format d)"
  using stamp_chars unfolding bare_ok_def by (fastforce simp: csv_q_def csv_nl_def csv_cr_def is_digit_def code_def)

lemma length_stamp: "fields_ok f \<Longrightarrow> length (strftime stamp_format f) \<le> 5000"
proof -
  assume f: "fields_ok f"
  have "dt_day f < 100" using f month_cases[of "dt_month f"] by (auto simp: fields_ok_def date_ok_def split: if_splits)
  then have "length (pad 2 (dt_month f)) = 2" "length (pad 2 (dt_day f)) = 2" "length (pad 2 (dt_hour f)) = 2"
    "length (pad 2 (dt_minute f)) = 2" "length (pad 2 (dt_second f)) = 2"
    using f by (simp_all add: length_pad fields_ok_def date_ok_def)
  moreover have "length (show_int (dt_year f)) \<le> 4300" by (rule length_int) (use f in \<open>simp add: fields_ok_def date_ok_def\<close>)
  ultimately show ?thesis by (simp add: stamp_format_def)
qed

lemma int_or_0_show: "\<bar>i\<bar> < 10 ^ 30 \<Longrightarrow> int_or_0 (show_int i) = Some i"
  using py_int_show_int[OF show_int_short, of i] by (simp add: int_or_0_def show_int_def)

lemma pan_columns_ok:
  assumes "pan_drawn d" and "representable now"
  shows "\<forall>p \<in> set (map (Pair False) (pan_columns now d)). field_ok p"
proof -
  have a: "bare_ok (pd_app d)" using assms(1) pan_app_chars[of "pd_app d"] by (auto simp: pan_drawn_def bare_ok_def)
  moreover have "length (pd_app d) \<le> csv_limit" using assms(1) by (auto simp: pan_drawn_def apps_pan_def csv_limit_def)
  moreover have "list_all (\<lambda>n. length (show_int n) \<le> 4300) [pd_src d, pd_dst d, pd_sport d, pd_dport d, pd_bytes d, pd_pkts d]"
    using assms(1) length_int by (auto simp: pan_drawn_def)
  ultimately show ?thesis
    using bare_ok_int bare_ok_stamp length_stamp[OF utc_fields_ok(1)[OF assms(2)]]
    by (simp add: pan_columns_def Let_def field_ok_def) (simp add: bare_ok_def csv_limit_def csv_q_def csv_nl_def csv_cr_def)
qed

text \<open>The flow that a line of the mock generator describes.\<close>

definition pan_flow :: "instant \<Rightarrow> pan_draw \<Rightarrow> flow_event" where
  "pan_flow now d = \<lparr>fe_ts = now - now mod us_per_s, fe_src_ip = ''10.0.0.'' @ show_int (pd_src d), fe_src_port = pd_sport d,
     fe_dst_ip = ''52.97.1.'' @ show_int (pd_dst d), fe_dst_port = pd_dport d, fe_proto = 6, fe_bytes = pd_bytes d,
     fe_packets = pd_pkts d, fe_action = Some ''allow'', fe_fqdn = None, fe_app_id = Some (pd_app d),
     fe_source = ''palo_alto'', fe_raw_id = None\<rparr>"

definition fgt_flow :: "instant \<Rightarrow> fgt_draw \<Rightarrow> flow_event" where
  "fgt_flow at d = \<lparr>fe_ts = at, fe_src_ip = ''10.0.1.'' @ show_int (fd_src d), fe_src_port = fd_sport d,
     fe_dst_ip = ''52.97.2.'' @ show_int (fd_dst d), fe_dst_port = fd_dport d, fe_proto = 6, fe_bytes = fd_sent d + fd_rcvd d,
     fe_packets = fd_spkt d + fd_rpkt d, fe_action = Some ''close'', fe_fqdn = Some (fd_fqdn d), fe_app_id = Some (fd_app d),
     fe_source = ''fortigate'', fe_raw_id = Some ''0000000013''\<rparr>"

lemma pan_line_parsed:
  assumes "pan_drawn d" and "representable now" and "0 \<le> now"
  shows "palo_alto_parse at (pan_line now d) = Inr (Some (pan_flow now d))"
proof -
  let ?ps = "map (Pair False) (pan_columns now d)"
  have app: "pd_app d \<in> set apps_pan" using assms(1) by (simp add: pan_drawn_def)
  note ch = pan_line_chars[OF app, of now]
  have "length ?ps = 33" by (simp add: pan_columns_def Let_def)
  then have row: "csv_first (pan_line now d) = Inr (Some (pan_columns now d))"
    using csv_first_row[OF pan_columns_ok[OF assms(1,2)]] by (simp add: pan_line_row comp_def)
  have ints: "int_or_0 (show_int (pd_sport d)) = Some (pd_sport d)" "int_or_0 (show_int (pd_dport d)) = Some (pd_dport d)"
    "int_or_0 (show_int (pd_bytes d)) = Some (pd_bytes d)" "int_or_0 (show_int (pd_pkts d)) = Some (pd_pkts d)"
    using assms(1) by (auto intro!: int_or_0_show simp: pan_drawn_def)
  have tcp: "proto_of ''tcp'' = 6" by code_simp
  have ts: "pan_ts at (strftime stamp_format (utc_fields now)) = now - now mod us_per_s"
    using drop_microseconds[OF assms(2,3)] by (simp add: pan_ts_def stamp_format_def del: strftime.simps)
  have "csv_event at (pan_columns now d) = Some (pan_flow now d)"
    using app by (auto simp: csv_event_def pan_columns_def Let_def ints tcp ts pan_flow_def nonempty_def apps_pan_def)
  moreover have "pan_columns now d ! 3 = ''TRAFFIC''" "pan_columns now d ! 4 = ''end''" "length (pan_columns now d) = 33"
    by (simp_all add: pan_columns_def Let_def)
  ultimately show ?thesis
    using ch row by (simp add: palo_alto_parse_def parse_csv_def after_first_def min_pan_csv_fields_def)
qed

definition fgt_quoted :: "string \<Rightarrow> bool" where
  "fgt_quoted k \<longleftrightarrow> k \<in> {''devname'', ''logid'', ''type'', ''subtype'', ''eventtype'', ''level'', ''vd'', ''action'', ''appcat'', ''app'',
     ''status'', ''hostname''}"

definition fgt_fields :: "instant \<Rightarrow> fgt_draw \<Rightarrow> (string \<times> string) list" where
  "fgt_fields now d = [(''date'', strftime ''%Y-%m-%d'' (utc_fields now)), (''time'', strftime ''%H:%M:%S'' (utc_fields now)),
     (''devname'', ''fw02''), (''logid'', ''0000000013''), (''type'', ''traffic''), (''subtype'', ''forward''), (''eventtype'', ''forward''),
     (''level'', ''notice''), (''vd'', ''root''), (''srcip'', ''10.0.1.'' @ show_int (fd_src d)), (''srcport'', show_int (fd_sport d)),
     (''dstip'', ''52.97.2.'' @ show_int (fd_dst d)), (''dstport'', show_int (fd_dport d)), (''proto'', ''6''), (''action'', ''close''),
     (''sentbyte'', show_int (fd_sent d)), (''rcvdbyte'', show_int (fd_rcvd d)), (''sentpkt'', show_int (fd_spkt d)),
     (''rcvdpkt'', show_int (fd_rpkt d)), (''appcat'', ''Collaboration''), (''app'', fd_app d), (''status'', ''close''), (''hostname'', fd_fqdn d)]"

lemma fgt_quoted_keys:
  "\<not> fgt_quoted ''date'' \<and> \<not> fgt_quoted ''time'' \<and> fgt_quoted ''devname'' \<and> fgt_quoted ''logid'' \<and> fgt_quoted ''type'' \<and>
   fgt_quoted ''subtype'' \<and> fgt_quoted ''eventtype'' \<and> fgt_quoted ''level'' \<and> fgt_quoted ''vd'' \<and> \<not> fgt_quoted ''srcip'' \<and>
   \<not> fgt_quoted ''srcport'' \<and> \<not> fgt_quoted ''dstip'' \<and> \<not> fgt_quoted ''dstport'' \<and> \<not> fgt_quoted ''proto'' \<and>
   fgt_quoted ''action'' \<and> \<not> fgt_quoted ''sentbyte'' \<and> \<not> fgt_quoted ''rcvdbyte'' \<and> \<not> fgt_quoted ''sentpkt'' \<and>
   \<not> fgt_quoted ''rcvdpkt'' \<and> fgt_quoted ''appcat'' \<and> fgt_quoted ''app'' \<and> fgt_quoted ''status'' \<and> fgt_quoted ''hostname''"
  by code_simp

lemma fgt_line_fields: "fgt_line now d = log_line fgt_quoted 189 (fgt_fields now d)"
proof -
  have "show_nat 189 = ''189''" by code_simp
  then show ?thesis
    by (simp add: fgt_line_def log_line_def render_def render_pair_def fgt_fields_def fgt_quoted_keys Let_def dquote_def del: strftime.simps)
qed

lemma bare_append [simp]: "bare_value (a @ b) \<longleftrightarrow> bare_value a \<and> bare_value b"
  by (simp add: bare_value_def)

lemma bare_mark: "bare_value (CHR ''-'' # s) \<longleftrightarrow> bare_value s" "bare_value (CHR '':'' # s) \<longleftrightarrow> bare_value s"
  by (simp_all add: bare_value_def is_space_def sh_white_def sh_quote_def dquote_def squote_def backslash_def code_def)

lemma bare_pad: "bare_value (pad w n)"
  using pad_digit[of _ w n] unfolding bare_value_def list_all_iff
  by (fastforce simp: is_digit_def is_space_def sh_white_def sh_quote_def dquote_def squote_def backslash_def code_def)

lemma fgt_fields_ok:
  assumes "fgt_drawn d"
  shows "\<forall>p \<in> set (fgt_fields now d). pair_ok fgt_quoted p"
proof -
  have "list_all plain_value apps_fgt" "list_all plain_value fqdns"
    by (simp_all add: apps_fgt_def fqdns_def plain_value_def dquote_def backslash_def)
  then have "plain_value (fd_app d)" "plain_value (fd_fqdn d)" using assms by (simp_all add: fgt_drawn_def list_all_iff)
  moreover have "bare_value ''6''" "bare_value ''10.0.1.''" "bare_value ''52.97.2.''" by (simp_all add: word_classes)
  moreover have "bare_value (strftime ''%Y-%m-%d'' e)" "bare_value (strftime ''%H:%M:%S'' e)" for e
    using show_int_bare bare_pad bare_append[of "''-''"] bare_append[of "'':''"] by (simp_all add: bare_mark)
  ultimately have "list_all (\<lambda>p. if fgt_quoted (fst p) then plain_value (snd p) else bare_value (snd p)) (fgt_fields now d)"
    using show_int_bare bare_append[of "''10.0.1.''"] bare_append[of "''52.97.2.''"]
    by (simp add: fgt_fields_def fgt_quoted_keys del: strftime.simps) (simp add: plain_value_def dquote_def backslash_def)
  moreover have "list_all (\<lambda>p. plain_key (fst p)) (fgt_fields now d)" by (simp add: fgt_fields_def) (simp add: word_classes)
  ultimately show ?thesis by (auto simp: pair_ok_def list_all_iff)
qed

lemma fgt_line_parsed:
  assumes "fgt_drawn d"
  shows "fortigate_parse at (fgt_line now d) = Some (fgt_flow at d)"
proof -
  have "show_int 6 = ''6''" by code_simp
  then have "set (traffic_fields (fgt_flow at d) (fd_sent d) (fd_spkt d)) \<subseteq> set (fgt_fields now d)"
    by (simp add: traffic_fields_def fgt_flow_def fgt_fields_def del: strftime.simps)
  moreover have "[] \<notin> set fqdns" "[] \<notin> set apps_fgt" by (simp_all add: fqdns_def apps_fgt_def)
  then have "event_ok (fgt_flow at d)"
    using assms by (auto simp: event_ok_def fgt_flow_def fgt_drawn_def)
  moreover have "distinct (map fst (fgt_fields now d))" by (simp add: fgt_fields_def)
  moreover have "list_all (\<lambda>i. \<bar>i\<bar> < 10 ^ 30) [fe_src_port (fgt_flow at d), fe_dst_port (fgt_flow at d), fe_proto (fgt_flow at d),
      fd_sent d, fe_bytes (fgt_flow at d) - fd_sent d, fd_spkt d, fe_packets (fgt_flow at d) - fd_spkt d]"
    using assms by (auto simp: fgt_flow_def fgt_drawn_def)
  ultimately show ?thesis
    using log_line_read[OF _ _ _ fgt_fields_ok[OF assms]] by (simp add: fgt_line_fields fgt_flow_def)
qed

section \<open>Properties\<close>

text \<open>
  The adapters understand the mock generator. Every line it can draw is accepted by the adapter of its vendor as the flow
  it describes: addresses, ports, protocol, volume, application and host name; the Palo Alto line carries its instant (to the second),
  the FortiGate line gets the instant of its arrival.
\<close>

theorem mock_lines_understood:
  assumes "representable now" and "0 \<le> now"
  shows "(pan_drawn d \<longrightarrow> accept_message at \<lparr>ad_kind = PaloAlto, ad_allow = None\<rparr> (peer, pan_line now d) = Some (pan_flow now d)) \<and>
    (fgt_drawn e \<longrightarrow> accept_message at \<lparr>ad_kind = FortiGate, ad_allow = None\<rparr> (peer, fgt_line now e) = Some (fgt_flow at e))"
  using pan_line_parsed[OF _ assms] fgt_line_parsed by (simp add: accept_message_eq parse_line_def)

definition demo_pan :: pan_draw where
  "demo_pan = \<lparr>pd_src = 7, pd_dst = 9, pd_sport = 50000, pd_dport = 443, pd_app = ''zoom'', pd_bytes = 900, pd_pkts = 9\<rparr>"

theorem mock_lines_understood_witness:
  "accept_message 5 \<lparr>ad_kind = PaloAlto, ad_allow = None\<rparr> (''10.9.9.9'', pan_line 86400000000 demo_pan) =
     Some (pan_flow 86400000000 demo_pan)"
  using mock_lines_understood[of 86400000000 demo_pan 5 "''10.9.9.9''" undefined]
  by (simp add: representable_def epoch_ord_def us_per_day_def pan_drawn_def demo_pan_def apps_pan_def)

end
