(* ===== verification/Load_Test.thy ===== *)
theory Load_Test
  imports Mock_Generator Signin_Adapters
begin

text \<open>
  The line generators of the load test, \<open>loadtest/generators\<close>, and what the adapters make of their lines. The
  random draws are arguments; the receiver has cut the line end off before an adapter sees a line.
\<close>

section \<open>Generators\<close>

definition rand_ip :: "string \<Rightarrow> int \<Rightarrow> int \<Rightarrow> string" where
  "rand_ip prefix a b = prefix @ ''.'' @ show_int a @ ''.'' @ show_int b"

text \<open>\<open>t\<close> is the broken-down time of \<open>time.gmtime(now or time.time())\<close>.\<close>

definition pan_traffic_line :: "datetime \<Rightarrow> string \<Rightarrow> string \<Rightarrow> int \<Rightarrow> int \<Rightarrow> string" where
  "pan_traffic_line t src dst port b = (let ts = strftime ''%Y/%m/%d %H:%M:%S'' t in
     ''<14>'' @ ts @ '' FW01 1,2026/04/22 10:00:00,001,TRAFFIC,end,'' @
     ''1,2026/04/22 10:00:00,'' @ src @ '','' @ dst @ '',0.0.0.0,0.0.0.0,rule1,user,'' @
     ''app,vsys1,trust,untrust,ethernet1/1,ethernet1/2,Logs,'' @ ts @ '','' @
     ''12345,1,12345,'' @ show_int port @ '',0,0,0x0,tcp,allow,'' @ show_int b @ '','' @ show_int (b div 2) @ '','' @
     show_int (b div 2) @ '',10,'' @ ts @ '',0,any,0,1,0x0,US,US,,0,0'' @ [nl])"

definition fortigate_traffic_line :: "datetime \<Rightarrow> string \<Rightarrow> string \<Rightarrow> int \<Rightarrow> int \<Rightarrow> int \<Rightarrow> string" where
  "fortigate_traffic_line t src dst port sent rcvd =
     ''<134>date='' @ strftime ''%Y-%m-%dT%H:%M:%SZ'' t @ '' devname=fw02 type=traffic subtype=forward '' @
     ''status=close srcip='' @ src @ '' dstip='' @ dst @ '' dstport='' @ show_int port @ '' '' @
     ''proto=6 sentbyte='' @ show_int sent @ '' '' @ ''rcvdbyte='' @ show_int rcvd @ '' app=HTTPS.WEB'' @ [nl]"

definition ise_accounting_line :: "string \<Rightarrow> int \<Rightarrow> string" where
  "ise_accounting_line ip n =
     ''<14>CISE_RADIUS_Accounting Acct-Status-Type=Start '' @
     ''User-Name=svc'' @ show_int n @ ''@example.com '' @ ''Framed-IP-Address='' @ ip @ [nl]"

definition ad_4624_line :: "string \<Rightarrow> string \<Rightarrow> int \<Rightarrow> string" where
  "ad_4624_line ip upn logon_type =
     ''<14>EventID=4624 TargetUserName='' @ upn @ '' IpAddress='' @ ip @ '' LogonType='' @ show_int logon_type @ [nl]"

section \<open>Users\<close>

text \<open>\<open>locustfile.py\<close>: its settings from the environment, and its users with the weights of their tasks.\<close>

record load_settings =
  le_syslog_host :: string
  le_firewall_port :: int
  le_ad_port :: int
  le_ise_port :: int
  le_scenario :: string

definition env_int :: "(string \<Rightarrow> string option) \<Rightarrow> string \<Rightarrow> string \<Rightarrow> py_error + int" where
  "env_int env k d = (case py_int (case env k of None \<Rightarrow> d | Some v \<Rightarrow> v) of None \<Rightarrow> Inl ValueError | Some n \<Rightarrow> Inr n)"

definition load_env :: "(string \<Rightarrow> string option) \<Rightarrow> py_error + load_settings" where
  "load_env env = bind_r (env_int env ''FIREWALL_PORT'' ''514'') (\<lambda>f. bind_r (env_int env ''AD_PORT'' ''516'') (\<lambda>a.
     bind_r (env_int env ''ISE_PORT'' ''517'') (\<lambda>i.
       Inr \<lparr>le_syslog_host = (case env ''SYSLOG_HOST'' of None \<Rightarrow> ''traefik'' | Some h \<Rightarrow> h), le_firewall_port = f, le_ad_port = a,
            le_ise_port = i, le_scenario = (case env ''LOAD_SCENARIO'' of None \<Rightarrow> ''sustained'' | Some s \<Rightarrow> s)\<rparr>)))"

datatype load_task = PanTask | FortigateTask | AdTask | IseTask

definition flow_sender :: "(nat \<times> load_task) list" where
  "flow_sender = [(2, PanTask), (1, FortigateTask)]"

definition identity_sender :: "(nat \<times> load_task) list" where
  "identity_sender = [(1, AdTask), (1, IseTask)]"

fun task_port :: "load_settings \<Rightarrow> load_task \<Rightarrow> int" where
  "task_port e PanTask = le_firewall_port e"
| "task_port e FortigateTask = le_firewall_port e"
| "task_port e AdTask = le_ad_port e"
| "task_port e IseTask = le_ise_port e"

definition task_datagram :: "load_settings \<Rightarrow> load_task \<Rightarrow> string \<Rightarrow> (string \<times> int) \<times> string" where
  "task_datagram e t payload = ((le_syslog_host e, task_port e t), payload)"

definition announce :: "load_settings \<Rightarrow> string" where
  "announce e = ''Load test scenario='' @ le_scenario e @ '' host='' @ le_syslog_host e"

text \<open>The numbers of \<open>scenarios/\<close>, which nothing reads.\<close>

record scenario =
  sc_users :: int
  sc_spawn_rate :: int
  sc_duration_s :: int
  sc_scenario :: string

definition sustained :: scenario where
  "sustained = \<lparr>sc_users = 200, sc_spawn_rate = 200, sc_duration_s = 600, sc_scenario = ''sustained''\<rparr>"

definition burst :: scenario where
  "burst = \<lparr>sc_users = 500, sc_spawn_rate = 500, sc_duration_s = 180, sc_scenario = ''burst''\<rparr>"

definition identity_surge :: scenario where
  "identity_surge = \<lparr>sc_users = 100, sc_spawn_rate = 100, sc_duration_s = 120, sc_scenario = ''identity_surge''\<rparr>"

text \<open>The scenario of the environment changes what is announced and nothing that is sent.\<close>

lemma scenario_only_announced:
  assumes "load_env env = Inr e" and "load_env (env(''LOAD_SCENARIO'' \<mapsto> s)) = Inr e1"
  shows "task_datagram e1 t payload = task_datagram e t payload \<and> announce e1 = ''Load test scenario='' @ s @ '' host='' @ le_syslog_host e"
  using assms by (cases t) (auto simp: load_env_def env_int_def bind_r_Inr task_datagram_def announce_def split: option.splits)

section \<open>Flow lines\<close>

definition received :: "string \<Rightarrow> string" where
  "received line = rstrip_where (\<lambda>c. c = cr \<or> c = nl) line"

lemma received_line: "line \<noteq> [] \<Longrightarrow> last line \<notin> {cr, nl} \<Longrightarrow> received (line @ [nl]) = line"
  by (cases line rule: rev_cases) (simp_all add: received_def rstrip_where_def)

definition pan_load_columns :: "datetime \<Rightarrow> string \<Rightarrow> string \<Rightarrow> int \<Rightarrow> int \<Rightarrow> string list" where
  "pan_load_columns t src dst port b = (let ts = strftime stamp_format t in
     [''<14>'' @ ts @ '' FW01 1'', ''2026/04/22 10:00:00'', ''001'', ''TRAFFIC'', ''end'', ''1'', ''2026/04/22 10:00:00'', src, dst,
      ''0.0.0.0'', ''0.0.0.0'', ''rule1'', ''user'', ''app'', ''vsys1'', ''trust'', ''untrust'', ''ethernet1/1'', ''ethernet1/2'', ''Logs'', ts,
      ''12345'', ''1'', ''12345'', show_int port, ''0'', ''0'', ''0x0'', ''tcp'', ''allow'', show_int b, show_int (b div 2), show_int (b div 2),
      ''10'', ts, ''0'', ''any'', ''0'', ''1'', ''0x0'', ''US'', ''US'', [], ''0'', ''0''])"

lemma pan_load_row: "received (pan_traffic_line t src dst port b) = write_row (map (Pair False) (pan_load_columns t src dst port b))"
proof -
  let ?l = "write_row (map (Pair False) (pan_load_columns t src dst port b))"
  have "pan_traffic_line t src dst port b = ?l @ [nl]"
    by (simp add: pan_traffic_line_def pan_load_columns_def write_row_def write_field_def Let_def stamp_format_def del: strftime.simps)
  moreover have "?l \<noteq> []" "last ?l = CHR ''0''"
    by (simp_all add: pan_load_columns_def write_row_def write_field_def Let_def)
  ultimately show ?thesis using received_line[of ?l] by (simp add: cr_def nl_def)
qed

lemma rand_ip_chars: "c \<in> set (rand_ip p a b) \<Longrightarrow> c \<in> set p \<or> c = CHR ''.'' \<or> c = CHR ''-'' \<or> is_digit c"
  using show_int_not by (auto simp: rand_ip_def)

text \<open>A text of digits, dots and signs, short enough for the CSV reader, such as an address.\<close>

definition dotted :: "string \<Rightarrow> bool" where
  "dotted s \<longleftrightarrow> length s \<le> csv_limit \<and> (\<forall>c \<in> set s. is_digit c \<or> c \<in> {CHR ''.'', CHR ''-''})"

lemma dotted_not: "dotted s \<Longrightarrow> \<not> is_digit c \<Longrightarrow> c \<notin> {CHR ''.'', CHR ''-''} \<Longrightarrow> c \<notin> set s"
  by (auto simp: dotted_def)

lemma pan_load_chars:
  assumes "dotted src" and "dotted dst"
  shows "find_sub '': '' (received (pan_traffic_line t src dst port b)) = None"
    and "find_sub ''LEEF:'' (received (pan_traffic_line t src dst port b)) = None"
    and "find_sub ''TRAFFIC'' (received (pan_traffic_line t src dst port b)) \<noteq> None"
proof -
  let ?ts = "strftime stamp_format t"
  let ?a = "'' FW01 1,2026/04/22 10:00:00,001,TRAFFIC,end,1,2026/04/22 10:00:00,''"
  let ?b = "src @ '','' @ dst @ '',0.0.0.0,0.0.0.0,rule1,user,app,vsys1,trust,untrust,ethernet1/1,ethernet1/2,Logs,''"
  let ?c = "'',12345,1,12345,'' @ show_int port @ '',0,0,0x0,tcp,allow,'' @ show_int b @ '','' @ show_int (b div 2) @ '','' @
    show_int (b div 2) @ '',10,''"
  let ?d = "'',0,any,0,1,0x0,US,US,,0,0''"
  have l: "received (pan_traffic_line t src dst port b) = ''<14>'' @ ?ts @ ?a @ ?b @ ?ts @ ?c @ ?ts @ ?d"
    by (simp add: pan_load_row pan_load_columns_def write_row_def write_field_def Let_def del: strftime.simps)
  have dg: "\<not> is_digit (CHR '':'')" "\<not> is_digit (CHR ''E'')" by (simp_all add: is_digit_def code_def)
  have no: "CHR '':'' \<notin> set ?b" "CHR ''E'' \<notin> set ?b" "CHR '':'' \<notin> set ?c" "CHR ''E'' \<notin> set ?c"
    using dotted_not[OF assms(1)] dotted_not[OF assms(2)] show_int_not dg by auto
  have "find_sub '': '' ?d = None" by (simp add: starts_with_def)
  then have "find_sub '': '' (?c @ ?ts @ ?d) = None" using stamp_no_mark by (simp only: find_sub_skip[OF no(3)])
  then have "find_sub '': '' (?b @ ?ts @ ?c @ ?ts @ ?d) = None" using stamp_no_mark by (simp only: find_sub_skip[OF no(1)])
  then have "find_sub '': '' (?a @ ?b @ ?ts @ ?c @ ?ts @ ?d) = None" by (simp add: starts_with_def)
  from stamp_no_mark[OF this, of t]
  show "find_sub '': '' (received (pan_traffic_line t src dst port b)) = None" unfolding l by (simp add: starts_with_def)
  have "CHR ''E'' \<notin> set ?ts" using stamp_chars[of "CHR ''E''" t] dg(2) by auto
  then have "CHR ''E'' \<notin> set (received (pan_traffic_line t src dst port b))" using no unfolding l by auto
  then show "find_sub ''LEEF:'' (received (pan_traffic_line t src dst port b)) = None" by (rule find_sub_none[rotated]) simp
  show "find_sub ''TRAFFIC'' (received (pan_traffic_line t src dst port b)) \<noteq> None"
    using find_sub_some[of "''TRAFFIC''" "''<14>'' @ ?ts @ '' FW01 1,2026/04/22 10:00:00,001,''"
        "'',end,1,2026/04/22 10:00:00,'' @ ?b @ ?ts @ ?c @ ?ts @ ?d"] unfolding l by simp
qed

definition pan_load_flow :: "string \<Rightarrow> string \<Rightarrow> int \<Rightarrow> int \<Rightarrow> flow_event" where
  "pan_load_flow src dst port b = \<lparr>fe_ts = 1776852000 * us_per_s, fe_src_ip = src, fe_src_port = port, fe_dst_ip = dst, fe_dst_port = 0,
     fe_proto = 0, fe_bytes = b div 2, fe_packets = b div 2, fe_action = Some (show_int b), fe_fqdn = None, fe_app_id = Some ''vsys1'',
     fe_source = ''palo_alto'', fe_raw_id = None\<rparr>"

lemma pan_load_parsed:
  assumes "dotted src" and "dotted dst" and "\<bar>port\<bar> < 10 ^ 30" and "0 \<le> b" and "b < 10 ^ 30" and "fields_ok t"
  shows "palo_alto_parse at (received (pan_traffic_line t src dst port b)) = Inr (Some (pan_load_flow src dst port b))"
proof -
  let ?cs = "pan_load_columns t src dst port b"
  have bd: "\<bar>b div 2\<bar> < 10 ^ 30" "\<bar>b\<bar> < 10 ^ 30" using assms(4,5) by auto
  have "bare_ok src" "bare_ok dst" "length src \<le> csv_limit" "length dst \<le> csv_limit"
    using assms(1,2) by (auto simp: dotted_def bare_ok_def csv_q_def csv_nl_def csv_cr_def is_digit_def code_def)
  then have "\<forall>p \<in> set (map (Pair False) ?cs). field_ok p"
    using bare_ok_int bare_ok_stamp[of t] length_stamp[OF assms(6)] length_int[OF assms(3)] length_int[OF bd(1)] length_int[OF bd(2)]
    by (simp add: pan_load_columns_def Let_def field_ok_def) (simp add: bare_ok_def csv_limit_def csv_q_def csv_nl_def csv_cr_def)
  moreover have l: "length ?cs = 45" by (simp add: pan_load_columns_def Let_def)
  ultimately have row: "csv_first (received (pan_traffic_line t src dst port b)) = Inr (Some ?cs)"
    using csv_first_row[of "map (Pair False) ?cs"] by (simp add: pan_load_row comp_def)
  have c: "proto_of ''allow'' = 0" "int_or_0 ''0'' = Some 0" by code_simp+
  have ts: "pan_ts at ''2026/04/22 10:00:00'' = 1776852000 * us_per_s"
  proof -
    have "strptime_utc ''%Y/%m/%d %H:%M:%S'' ''2026/04/22 10:00:00'' = Some (1776852000 * us_per_s)" by code_simp
    then show ?thesis by (simp add: pan_ts_def)
  qed
  have "csv_event at ?cs = Some (pan_load_flow src dst port b)"
    by (simp add: csv_event_def pan_load_columns_def Let_def c ts int_or_0_show[OF assms(3)] int_or_0_show[OF bd(1)] pan_load_flow_def nonempty_def)
  moreover have "?cs ! 3 = ''TRAFFIC''" "?cs ! 4 = ''end''" by (simp_all add: pan_load_columns_def Let_def)
  ultimately show ?thesis
    using pan_load_chars[OF assms(1,2), of t port b] row l by (simp add: palo_alto_parse_def parse_csv_def after_first_def min_pan_csv_fields_def)
qed

section \<open>Identity lines\<close>

lemma ise_load_unread:
  assumes "dotted ip" and "ip \<noteq> []"
  shows "ise_parse now (received (ise_accounting_line ip n)) = None"
proof -
  let ?v = "''Start User-Name=svc'' @ show_int n @ ''@example.com Framed-IP-Address='' @ ip"
  let ?h = "''<14>CISE_RADIUS_Accounting ''"
  have "last (?h @ ''Acct-Status-Type='' @ ?v) = last ip" using assms(2) by simp
  then have "last (?h @ ''Acct-Status-Type='' @ ?v) \<notin> {cr, nl}"
    using last_in_set[OF assms(2)] dotted_not[OF assms(1), of cr] dotted_not[OF assms(1), of nl]
    by (auto simp: cr_def nl_def is_digit_def code_def)
  then have l: "received (ise_accounting_line ip n) = ?h @ ''Acct-Status-Type='' @ ?v"
    using received_line[of "?h @ ''Acct-Status-Type='' @ ?v"] by (simp add: ise_accounting_line_def)
  have c: "CHR '','' \<notin> set ?v"
    using dotted_not[OF assms(1), of "CHR '',''"] show_int_not[of "CHR '',''" n] by (auto simp: is_digit_def code_def)
  then have v: "takeWhile (\<lambda>c. c \<noteq> CHR '','') ?v = ?v" "dropWhile (\<lambda>c. c \<noteq> CHR '','') ?v = []" by auto
  have "ise_match (''Acct-Status-Type='' @ ?v) = Some ((''Acct-Status-Type'', ?v), [])"
    using v by (simp add: ise_match_def key_char_def is_alpha_def is_digit_def is_space_def code_def)
  then have m: "finditer ise_match (''Acct-Status-Type='' @ ?v) = [(''Acct-Status-Type'', ?v)]"
    using finditer_hit[of ise_match "''Acct-Status-Type='' @ ?v"] by simp
  have "finditer ise_match (?h @ ''Acct-Status-Type='' @ ?v) = finditer ise_match (''Acct-Status-Type='' @ ?v)"
    by (simp add: ise_match_def key_char_def is_alpha_def is_digit_def is_space_def code_def)
  with m have "ise_kv (received (ise_accounting_line ip n)) = [(''Acct-Status-Type'', strip ?v)]"
    by (simp add: l ise_kv_def dict_of_matches_def)
  then show ?thesis by (simp add: ise_parse_def Let_def)
qed

definition ad_upns :: "string list" where
  "ad_upns = [''alice@example.com'', ''bob@example.com'', ''carol@example.com'']"

lemma ad_load_unread:
  assumes "dotted ip" and "upn \<in> set ad_upns"
  shows "ad_parse (received (ad_4624_line ip upn k)) = None"
proof -
  let ?r = "''14>EventID=4624 TargetUserName='' @ upn @ '' IpAddress='' @ ip @ '' LogonType='' @ show_int k"
  have dg: "\<not> is_digit cr" "\<not> is_digit nl" "\<not> is_digit (CHR '':'')" by (simp_all add: cr_def nl_def is_digit_def code_def)
  have "last (show_int k) \<in> set (show_int k)" by (simp add: show_int_def)
  then have "last (show_int k) \<notin> {cr, nl}"
    using show_int_not[OF dg(1), of k] show_int_not[OF dg(2), of k] by (auto simp: cr_def nl_def)
  then have l: "received (ad_4624_line ip upn k) = CHR ''<'' # ?r"
    using received_line[of "CHR ''<'' # ?r"] by (simp add: ad_4624_line_def show_int_def)
  have "CHR '':'' \<notin> set (CHR ''<'' # ?r)"
    using assms(2) dotted_not[OF assms(1) dg(3)] show_int_not[OF dg(3)] by (auto simp: ad_upns_def)
  then have "find_sub '': '' (CHR ''<'' # ?r) = None" by (rule find_sub_none[rotated]) simp
  then have "ad_payload (CHR ''<'' # ?r) = CHR ''<'' # ?r" by (simp add: ad_payload_def after_first_def del: find_sub.simps)
  moreover have "loads (CHR ''<'' # ?r) = None"
    by (simp add: loads_def is_json_space_def scan_number_def scan_const_def json_consts_def starts_with_def is_digit_def code_def)
  ultimately show ?thesis by (simp add: ad_parse_def winlog_loads_def l)
qed

definition fgt_load_fields :: "datetime \<Rightarrow> string \<Rightarrow> string \<Rightarrow> int \<Rightarrow> int \<Rightarrow> int \<Rightarrow> (string \<times> string) list" where
  "fgt_load_fields t src dst port sent rcvd =
     [(''date'', strftime ''%Y-%m-%dT%H:%M:%SZ'' t), (''devname'', ''fw02''), (''type'', ''traffic''), (''subtype'', ''forward''),
      (''status'', ''close''), (''srcip'', src), (''dstip'', dst), (''dstport'', show_int port), (''proto'', ''6''),
      (''sentbyte'', show_int sent), (''rcvdbyte'', show_int rcvd), (''app'', ''HTTPS.WEB'')]"

lemma fgt_load_received:
  "received (fortigate_traffic_line t src dst port sent rcvd) = log_line (\<lambda>_. False) 134 (fgt_load_fields t src dst port sent rcvd)"
proof -
  let ?l = "log_line (\<lambda>_. False) 134 (fgt_load_fields t src dst port sent rcvd)"
  have "show_nat 134 = ''134''" by code_simp
  then have "fortigate_traffic_line t src dst port sent rcvd = ?l @ [nl]"
    by (simp add: fortigate_traffic_line_def log_line_def render_def render_pair_def fgt_load_fields_def del: strftime.simps)
  moreover have "last ?l = CHR ''B''" "?l \<noteq> []" by (simp_all add: log_line_def render_def render_pair_def fgt_load_fields_def)
  ultimately show ?thesis using received_line[of ?l] by (simp add: cr_def nl_def)
qed

definition fgt_load_flow :: "instant \<Rightarrow> string \<Rightarrow> string \<Rightarrow> int \<Rightarrow> int \<Rightarrow> flow_event" where
  "fgt_load_flow at src dst port b = \<lparr>fe_ts = at, fe_src_ip = src, fe_src_port = 0, fe_dst_ip = dst, fe_dst_port = port,
     fe_proto = 6, fe_bytes = b, fe_packets = 0, fe_action = Some ''close'', fe_fqdn = None, fe_app_id = Some ''HTTPS.WEB'',
     fe_source = ''fortigate'', fe_raw_id = None\<rparr>"

lemma dotted_bare: "dotted s \<Longrightarrow> bare_value s"
  unfolding dotted_def bare_value_def list_all_iff
  by (fastforce simp: is_digit_def is_space_def sh_white_def sh_quote_def dquote_def squote_def backslash_def code_def)

lemma fgt_load_parsed:
  assumes "dotted src" and "dotted dst" and "\<bar>port\<bar> < 10 ^ 30" and "\<bar>sent\<bar> < 10 ^ 30" and "\<bar>rcvd\<bar> < 10 ^ 30"
  shows "fortigate_parse at (received (fortigate_traffic_line t src dst port sent rcvd)) = Some (fgt_load_flow at src dst port (sent + rcvd))"
proof -
  let ?fs = "fgt_load_fields t src dst port sent rcvd"
  have t: "bare_value (CHR ''T'' # s) \<longleftrightarrow> bare_value s" "bare_value ''Z''" for s
    by (simp_all add: bare_value_def is_space_def sh_white_def sh_quote_def dquote_def squote_def backslash_def code_def)
  have "list_all bare_value [''fw02'', ''traffic'', ''forward'', ''close'', ''6'', ''HTTPS.WEB'']" by (simp add: word_classes)
  moreover have "bare_value (strftime ''%Y-%m-%dT%H:%M:%SZ'' t)" by (simp add: bare_mark bare_pad show_int_bare t)
  ultimately have "list_all (\<lambda>p. bare_value (snd p)) ?fs"
    using show_int_bare dotted_bare[OF assms(1)] dotted_bare[OF assms(2)] by (simp add: fgt_load_fields_def del: strftime.simps)
  moreover have "list_all (\<lambda>p. plain_key (fst p)) ?fs" by (simp add: fgt_load_fields_def) (simp add: word_classes)
  ultimately have "\<forall>p \<in> set ?fs. pair_ok (\<lambda>_. False) p" by (auto simp: pair_ok_def list_all_iff)
  then obtain d where d: "kv (log_line (\<lambda>_. False) 134 ?fs) = Some d"
    "\<And>k. map_of d k = map_option snd (find (\<lambda>p. fst p = k) (rev ?fs))"
    using kv_tagged[of ?fs "\<lambda>_. False" 134] by (auto simp: log_line_def fgt_load_fields_def)
  have six: "py_int ''6'' = Some 6" by code_simp
  have "int_field d ''srcport'' = Some 0" "int_field d ''dstport'' = Some port" "int_field d ''proto'' = Some 6"
    "int_field d ''sentbyte'' = Some sent" "int_field d ''rcvdbyte'' = Some rcvd" "int_field d ''sentpkt'' = Some 0" "int_field d ''rcvdpkt'' = Some 0"
    unfolding int_field_def d(2) using assms(3-5) by (simp_all add: fgt_load_fields_def py_int_show_int show_int_short six)
  moreover have "map_of d ''type'' = Some ''traffic''" "map_of d ''subtype'' = Some ''forward''" "map_of d ''status'' = Some ''close''"
    "map_of d ''srcip'' = Some src" "map_of d ''dstip'' = Some dst" "map_of d ''action'' = None" "map_of d ''hostname'' = None"
    "map_of d ''app'' = Some ''HTTPS.WEB''" "map_of d ''logid'' = None"
    unfolding d(2) by (simp_all add: fgt_load_fields_def)
  ultimately show ?thesis
    using d(1) by (simp add: fgt_load_received fortigate_parse_def fortigate_event_def dict_get_def or_none_def fgt_load_flow_def)
qed

section \<open>Properties\<close>

text \<open>
  What the load test exercises. Whatever it draws, no identity line of the load test is understood (the ISE line has no commas
  between its fields, the Windows line is no JSON), and its Palo Alto line, which misses one column, is read as a flow of protocol 0 to
  port 0 at a fixed instant, with half the bytes, the byte count as the action and the virtual system as the application; the FortiGate line
  is read with its destination and bytes, but without source port and packets.
\<close>

theorem load_test_lines:
  assumes "dotted src" and "dotted dst" and "src \<noteq> []" and "0 \<le> b" and "list_all (\<lambda>i. \<bar>i\<bar> < 10 ^ 30) [port, b, sent, rcvd]"
    and "fields_ok t" and "upn \<in> set ad_upns"
  shows "ise_parse at (received (ise_accounting_line src k)) = None \<and>
    ad_parse (received (ad_4624_line src upn k)) = None \<and>
    palo_alto_parse at (received (pan_traffic_line t src dst port b)) = Inr (Some (pan_load_flow src dst port b)) \<and>
    fortigate_parse at (received (fortigate_traffic_line t src dst port sent rcvd)) = Some (fgt_load_flow at src dst port (sent + rcvd))"
  using assms ise_load_unread ad_load_unread pan_load_parsed fgt_load_parsed by simp

theorem load_test_lines_witness:
  "ise_parse 0 (received (ise_accounting_line ''10.3.1.2'' 7)) = None \<and>
   fe_dst_port (pan_load_flow ''10.0.1.2'' ''203.0.1.2'' 443 900) = 0 \<and>
   palo_alto_parse 0 (received (pan_traffic_line (utc_fields 0) ''10.3.1.2'' ''203.0.1.2'' 443 900)) =
     Inr (Some (pan_load_flow ''10.3.1.2'' ''203.0.1.2'' 443 900))"
proof -
  have "dotted ''10.3.1.2''" "dotted ''203.0.1.2''" by (simp_all add: dotted_def csv_limit_def is_digit_def code_def)
  moreover have "fields_ok (utc_fields 0)" by (rule utc_fields_ok(1)) (simp add: representable_def epoch_ord_def us_per_day_def)
  ultimately show ?thesis
    using load_test_lines[of "''10.3.1.2''" "''203.0.1.2''" 900 443 5 5 "utc_fields 0" "''bob@example.com''" 0 7]
    by (simp add: ad_upns_def pan_load_flow_def)
qed

end
