(* ===== verification/Api_Login.thy ===== *)
theory Api_Login
  imports Api_Auth
begin

text \<open>
  Logging in and out with a browser: \<open>login\<close>, the response of \<open>callback\<close>, \<open>logout\<close> and \<open>me\<close> of \<open>api/src/api/auth/router.py\<close>, the secret
  files of \<open>api/src/api/settings.py\<close>, and the test login of \<open>api/src/api/main.py\<close>. The browser keeps cookies by name until they
  expire. \<open>state\<close> and \<open>fresh\<close> are the texts that \<open>secrets.token_urlsafe\<close> draws.
\<close>

section \<open>Settings from files\<close>

text \<open>\<open>file p\<close> is the content of a file, \<open>None\<close> when \<open>p\<close> is no file.\<close>

definition secret_from :: "(string \<Rightarrow> string option) \<Rightarrow> (string \<Rightarrow> string option) \<Rightarrow> string \<Rightarrow> string \<Rightarrow> string" where
  "secret_from env file name old =
     (if \<not> truthy (env name) then old else case file (the (env name)) of None \<Rightarrow> old | Some body \<Rightarrow> strip body)"

definition api_load_from_files :: "(string \<Rightarrow> string option) \<Rightarrow> (string \<Rightarrow> string option) \<Rightarrow> api_settings \<Rightarrow> api_settings" where
  "api_load_from_files env file s =
     s\<lparr>as_oidc_client_secret := secret_from env file ''OIDC_CLIENT_SECRET_FILE'' (as_oidc_client_secret s),
       as_session_secret := secret_from env file ''SESSION_SECRET_FILE'' (as_session_secret s),
       as_database_url := secret_from env file ''DATABASE_URL_FILE'' (as_database_url s)\<rparr>"

section \<open>Cookies\<close>

record cookie =
  ck_value :: string
  ck_http_only :: bool
  ck_secure :: bool
  ck_same_site :: string
  ck_expires :: int

type_synonym jar = "(string, cookie) dict"

datatype cookie_cmd = SetCookie string cookie | DeleteCookie string

fun apply_cookie :: "jar \<Rightarrow> cookie_cmd \<Rightarrow> jar" where
  "apply_cookie j (SetCookie n c) = AList.update n c j"
| "apply_cookie j (DeleteCookie n) = AList.delete n j"

definition cookie_at :: "jar \<Rightarrow> int \<Rightarrow> string \<Rightarrow> string option" where
  "cookie_at j now n = (case map_of j n of None \<Rightarrow> None | Some c \<Rightarrow> if now \<le> ck_expires c then Some (ck_value c) else None)"

text \<open>A request of the browser: the cookies that live, and the header its script sets.\<close>

definition browser_request :: "jar \<Rightarrow> int \<Rightarrow> string \<Rightarrow> string option \<Rightarrow> request" where
  "browser_request j now meth header =
     \<lparr>rq_method = meth, rq_authorization = '''', rq_session = cookie_at j now ''session'', rq_csrf_cookie = cookie_at j now ''csrf_token'',
      rq_csrf_header = header, rq_oidc_state = cookie_at j now ''oidc_state'', rq_forwarded_uri = ''''\<rparr>"

section \<open>Endpoints\<close>

definition login :: "api_settings \<Rightarrow> string \<Rightarrow> int \<Rightarrow> string \<times> cookie_cmd list" where
  "login s state now =
     (rstrip_where (\<lambda>c. c = CHR ''/'') (as_oidc_issuer s) @ ''/authorize'' @ ''?response_type=code&client_id='' @ as_oidc_client_id s @
        ''&redirect_uri='' @ as_oidc_redirect_uri s @ ''&scope=openid+profile+email'' @ ''&state='' @ state,
      [SetCookie ''oidc_state'' \<lparr>ck_value = state, ck_http_only = True, ck_secure = True, ck_same_site = ''lax'', ck_expires = now + 600\<rparr>])"

definition callback_response :: "api_settings \<Rightarrow> session_data serializer \<Rightarrow> (string \<Rightarrow> py_error + claims) \<Rightarrow> string \<Rightarrow> int \<Rightarrow>
    request \<Rightarrow> string \<Rightarrow> string \<Rightarrow> api_error + string \<times> cookie_cmd list" where
  "callback_response s Z exchange fresh now r code1 state =
     bind_r (callback s Z exchange fresh now r code1 state) (\<lambda>(tok, csrf). Inr (''/'',
       [SetCookie ''session'' \<lparr>ck_value = tok, ck_http_only = True, ck_secure = True, ck_same_site = ''strict'', ck_expires = now + 28800\<rparr>,
        SetCookie ''csrf_token'' \<lparr>ck_value = csrf, ck_http_only = False, ck_secure = True, ck_same_site = ''strict'', ck_expires = now + 28800\<rparr>,
        DeleteCookie ''oidc_state'']))"

definition logout :: "int \<times> cookie_cmd list" where
  "logout = (204, [DeleteCookie ''session'', DeleteCookie ''csrf_token''])"

definition me :: "user \<Rightarrow> string \<times> role list" where
  "me u = (us_user_upn u, filter (\<lambda>r. r \<in> us_roles u) [Admin, Editor, Viewer])"

text \<open>\<open>_test_login_as\<close>, which exists only when \<open>MOCK_SESSION\<close> is set.\<close>

definition test_login_as :: "api_settings \<Rightarrow> session_data serializer \<Rightarrow> string \<Rightarrow> int \<Rightarrow> string \<Rightarrow> role set \<Rightarrow>
    api_error + string \<times> string" where
  "test_login_as s Z fresh now upn roles =
     (if \<not> as_mock_session_enabled s then Inl (Http 404)
      else case session_encode Z (as_session_secret s) now
          \<lparr>sd_user_upn = upn, sd_roles = roles, sd_csrf = fresh, sd_exp = now + 3600\<rparr> of
        Inl e \<Rightarrow> Inl (Raised e) | Inr tok \<Rightarrow> Inr (tok, fresh))"

section \<open>Properties\<close>

lemma cookies_after_login:
  assumes "callback_response s Z exchange fresh t r code1 state = Inr (url, cmds)"
    and "callback s Z exchange fresh t r code1 state = Inr (tok, csrf)"
  shows "cookie_at (foldl apply_cookie j cmds) now ''session'' = (if now \<le> t + 28800 then Some tok else None)"
    and "cookie_at (foldl apply_cookie j cmds) now ''csrf_token'' = (if now \<le> t + 28800 then Some csrf else None)"
    and "cookie_at (foldl apply_cookie j cmds) now ''oidc_state'' = None"
  using assms by (auto simp: callback_response_def cookie_at_def update_conv' delete_conv')

lemma no_session_refused:
  assumes "rq_session r = None" and "rq_authorization r = ''''"
  shows "guarded s Z verify now role r = Inl (Http 401)"
proof -
  have "csrf_dispatch r" using assms(1) by (simp add: csrf_dispatch_def)
  then show ?thesis using assms by (simp add: guarded_def current_user_def starts_with_def lower_def)
qed

text \<open>
  A browser session from login to logout. After a login and a return from the provider within ten minutes, with the state
  that was sent and a user whose claims have a name, the callback succeeds and the state cookie is gone. From
  then on a request of the browser that only reads, or that repeats the CSRF token, is let in exactly while both the session and
  its cookie last and when a group of the user carries the role; otherwise the answer is 401 or 403. After a logout every request is
  answered 401. A return with another state, or after ten minutes, is refused with 400.
\<close>

theorem browser_session_lifecycle:
  fixes j :: jar and state :: string
  assumes "serializer_laws Z" and "exchange code1 = Inr c" and "cl_upn c = Some u" and "min_secret_bytes \<le> length (as_session_secret s)"
    and "fresh \<noteq> []" and "t0 \<le> t"
  defines "j1 \<equiv> foldl apply_cookie j (snd (login s state t0))"
  defines "cb \<equiv> (\<lambda>st. callback_response s Z exchange fresh t (browser_request j1 t ''GET'' None) code1 st)"
  shows "(if t \<le> t0 + 600 then \<exists>cmds. cb state = Inr (''/'', cmds) \<and>
      (let j2 = foldl apply_cookie j1 cmds; j3 = foldl apply_cookie j2 (snd logout) in
       cookie_at j2 now ''oidc_state'' = None \<and>
       (meth \<in> {''GET'', ''HEAD'', ''OPTIONS''} \<or> header = Some fresh \<longrightarrow>
        guarded s Z verify now role (browser_request j2 now meth header) =
          (if now \<le> t + min (as_access_token_ttl_s s) 28800
           then if set (cl_groups c) \<inter> role_groups (role_map_of s) role \<noteq> {}
             then Inr \<lparr>us_user_upn = u, us_roles = roles_from_groups (cl_groups c) (role_map_of s)\<rparr> else Inl (Http 403)
           else Inl (Http 401))) \<and>
       guarded s Z verify now role (browser_request j3 now meth header) = Inl (Http 401))
     else cb state = Inl (Http 400)) \<and>
    (st \<noteq> state \<longrightarrow> cb st = Inl (Http 400))"
proof -
  have st: "cookie_at j1 t ''oidc_state'' = (if t \<le> t0 + 600 then Some state else None)"
    by (simp add: j1_def login_def cookie_at_def update_conv')
  have bad: "cb x = Inl (Http 400)" if "x \<noteq> state \<or> \<not> t \<le> t0 + 600" for x
    using that st by (auto simp: cb_def callback_response_def callback_def browser_request_def)
  have good: "\<exists>cmds. cb state = Inr (''/'', cmds) \<and>
      (let j2 = foldl apply_cookie j1 cmds; j3 = foldl apply_cookie j2 (snd logout) in
       cookie_at j2 now ''oidc_state'' = None \<and>
       (meth \<in> {''GET'', ''HEAD'', ''OPTIONS''} \<or> header = Some fresh \<longrightarrow>
        guarded s Z verify now role (browser_request j2 now meth header) =
          (if now \<le> t + min (as_access_token_ttl_s s) 28800
           then if set (cl_groups c) \<inter> role_groups (role_map_of s) role \<noteq> {}
             then Inr \<lparr>us_user_upn = u, us_roles = roles_from_groups (cl_groups c) (role_map_of s)\<rparr> else Inl (Http 403)
           else Inl (Http 401))) \<and>
       guarded s Z verify now role (browser_request j3 now meth header) = Inl (Http 401))" if t: "t \<le> t0 + 600"
  proof -
    let ?r0 = "browser_request j1 t ''GET'' None"
    obtain tok where cb1: "callback s Z exchange fresh t ?r0 code1 state = Inr (tok, fresh)"
      using assms(2-4) st t by (auto simp: callback_def session_encode_def browser_request_def)
    then obtain cmds where cb2: "cb state = Inr (''/'', cmds)" by (simp add: cb_def callback_response_def)
    define j2 where "j2 = foldl apply_cookie j1 cmds"
    note ck = cookies_after_login[OF cb2[unfolded cb_def] cb1, of j1 now, folded j2_def]
    have served: "guarded s Z verify now role (browser_request j2 now meth header) =
          (if now \<le> t + min (as_access_token_ttl_s s) 28800
           then if set (cl_groups c) \<inter> role_groups (role_map_of s) role \<noteq> {}
             then Inr \<lparr>us_user_upn = u, us_roles = roles_from_groups (cl_groups c) (role_map_of s)\<rparr> else Inl (Http 403)
           else Inl (Http 401))" if m: "meth \<in> {''GET'', ''HEAD'', ''OPTIONS''} \<or> header = Some fresh"
    proof (cases "now \<le> t + 28800")
      case True
      have "csrf_dispatch (browser_request j2 now meth header)"
        using m ck True assms(5) by (auto simp: csrf_dispatch_def browser_request_def truthy_def)
      from guarded_session[OF assms(1) cb1 assms(2,3) _ _ this] ck True show ?thesis
        by (simp add: browser_request_def starts_with_def lower_def)
    next
      case False
      then have "\<not> now \<le> t + min (as_access_token_ttl_s s) 28800" by linarith
      with False show ?thesis using no_session_refused[of "browser_request j2 now meth header"] ck by (simp add: browser_request_def)
    qed
    have "guarded s Z verify now role (browser_request (foldl apply_cookie j2 (snd logout)) now meth header) = Inl (Http 401)"
      by (rule no_session_refused) (simp_all add: browser_request_def logout_def cookie_at_def delete_conv')
    then show ?thesis
      unfolding Let_def by (intro exI[of _ cmds] conjI impI) (use served ck(3) cb2 in \<open>simp_all only: flip: j2_def\<close>)
  qed
  from bad good show ?thesis by auto
qed

theorem browser_session_lifecycle_witness:
  "\<exists>cmds. callback_response demo_api tally_serializer (\<lambda>_. Inr \<lparr>cl_upn = Some ''ann'', cl_sub = None, cl_groups = [''g3'']\<rparr>) ''c'' 110
      (browser_request (foldl apply_cookie [] (snd (login demo_api ''st'' 100))) 110 ''GET'' None) ''code'' ''st'' = Inr (''/'', cmds)"
  using browser_session_lifecycle[OF tally_laws, of "\<lambda>_. Inr \<lparr>cl_upn = Some ''ann'', cl_sub = None, cl_groups = [''g3'']\<rparr>" "''code''"
      "\<lparr>cl_upn = Some ''ann'', cl_sub = None, cl_groups = [''g3'']\<rparr>" "''ann''" demo_api "''c''" 100 110 "[]" "''st''" 120 "''GET''" None
      "\<lambda>_. Inl InvalidToken" Viewer "''other''"]
  by (auto simp: demo_api_def min_secret_bytes_def)

end
