(* ===== verification/Api_App.thy ===== *)
theory Api_App
  imports Api_Login Api_Status Saas_Catalog
begin

text \<open>
  The assembly of the API: \<open>build_app\<close> of \<open>api/src/api/main.py\<close> with the decorators and dependencies of its routers, the order of the two
  middlewares, and the way of a request through them. Every endpoint is modelled in a theory of its own; here a request reaches its name. The routes
  that the framework adds for its documentation and the web socket, whose handshake is in \<open>Api_Ws\<close>, are left out.
\<close>

section \<open>Routes\<close>

datatype seg = Lit string | Var

text \<open>\<open>ro_login\<close>: the endpoint depends on \<open>current_user\<close>; \<open>ro_roles\<close>: the roles it requires, in the order of the checks.\<close>

record route =
  ro_method :: string
  ro_path :: "seg list"
  ro_endpoint :: string
  ro_login :: bool
  ro_roles :: "role list"

definition open_route :: "string \<Rightarrow> string list \<Rightarrow> string \<Rightarrow> route" where
  "open_route meth path ep = \<lparr>ro_method = meth, ro_path = map Lit path, ro_endpoint = ep, ro_login = False, ro_roles = []\<rparr>"

definition user_route :: "string \<Rightarrow> string list \<Rightarrow> string \<Rightarrow> route" where
  "user_route meth path ep = \<lparr>ro_method = meth, ro_path = map Lit path, ro_endpoint = ep, ro_login = True, ro_roles = []\<rparr>"

definition viewer_route :: "string \<Rightarrow> seg list \<Rightarrow> string \<Rightarrow> route" where
  "viewer_route meth path ep = \<lparr>ro_method = meth, ro_path = path, ro_endpoint = ep, ro_login = True, ro_roles = [Viewer]\<rparr>"

definition editor_route :: "string \<Rightarrow> seg list \<Rightarrow> string \<Rightarrow> route" where
  "editor_route meth path ep = \<lparr>ro_method = meth, ro_path = path, ro_endpoint = ep, ro_login = True, ro_roles = [Viewer, Editor]\<rparr>"

definition auth_routes :: "route list" where
  "auth_routes = [open_route ''GET'' [''api'', ''auth'', ''login''] ''login'', open_route ''GET'' [''api'', ''auth'', ''callback''] ''callback'',
     open_route ''POST'' [''api'', ''auth'', ''logout''] ''logout'', user_route ''GET'' [''api'', ''auth'', ''me''] ''me'',
     user_route ''GET'' [''auth'', ''verify''] ''verify'']"

definition flow_routes :: "route list" where
  "flow_routes = [viewer_route ''GET'' [Lit ''api'', Lit ''flows'', Lit ''sankey''] ''sankey'', viewer_route ''GET'' [Lit ''api'', Lit ''flows'', Lit ''raw''] ''raw'']"

definition application_routes :: "route list" where
  "application_routes = (let p = [Lit ''api'', Lit ''applications''] in
     [viewer_route ''GET'' p ''list_apps'', editor_route ''POST'' p ''create_app'', editor_route ''PUT'' (p @ [Var]) ''update_app'',
      editor_route ''DELETE'' (p @ [Var]) ''delete_app'', viewer_route ''GET'' (p @ [Var, Lit ''audit'']) ''get_audit''])"

definition saas_routes :: "route list" where
  "saas_routes = (let p = [Lit ''api'', Lit ''saas''] in
     [viewer_route ''GET'' p ''list_saas'', editor_route ''POST'' p ''create_saas'', editor_route ''PUT'' (p @ [Var]) ''update_saas'',
      editor_route ''DELETE'' (p @ [Var]) ''delete_saas''])"

definition status_routes :: "route list" where
  "status_routes = [viewer_route ''GET'' [Lit ''api'', Lit ''adapters''] ''adapters'', viewer_route ''GET'' [Lit ''api'', Lit ''stats''] ''stats'']"

definition identity_routes :: "route list" where
  "identity_routes = [viewer_route ''GET'' [Lit ''api'', Lit ''identity'', Lit ''resolve''] ''resolve'']"

definition group_routes :: "route list" where
  "group_routes = [viewer_route ''GET'' [Lit ''api'', Lit ''groups'', Var] ''get_group'']"

definition test_routes :: "route list" where
  "test_routes = [open_route ''POST'' [''api'', ''test'', ''login-as''] ''_test_login_as'', open_route ''POST'' [''api'', ''test'', ''seed''] ''_test_seed'']"

text \<open>\<open>build_app\<close>, in the order of registration.\<close>

definition routes :: "bool \<Rightarrow> route list" where
  "routes mock = [open_route ''GET'' [''health'', ''live''] ''live'', open_route ''GET'' [''health'', ''ready''] ''ready'',
       open_route ''GET'' [''metrics''] ''metrics_endpoint''] @
     auth_routes @ flow_routes @ application_routes @ saas_routes @ status_routes @ identity_routes @ group_routes @
     (if mock then test_routes else [])"

fun seg_match :: "seg list \<Rightarrow> string list \<Rightarrow> bool" where
  "seg_match [] [] = True"
| "seg_match (Lit l # ps) (s # ss) = (l = s \<and> seg_match ps ss)"
| "seg_match (Var # ps) (s # ss) = (s \<noteq> [] \<and> seg_match ps ss)"
| "seg_match _ _ = False"

definition find_route :: "bool \<Rightarrow> string \<Rightarrow> string list \<Rightarrow> route option" where
  "find_route mock meth path = find (\<lambda>ro. ro_method ro = meth \<and> seg_match (ro_path ro) path) (routes mock)"

definition path_known :: "bool \<Rightarrow> string list \<Rightarrow> bool" where
  "path_known mock path \<longleftrightarrow> (\<exists>ro \<in> set (routes mock). seg_match (ro_path ro) path)"

text \<open>The path with a slash added at its end, or taken away.\<close>

definition toggled :: "string list \<Rightarrow> string list" where
  "toggled path = (if path \<noteq> [] \<and> last path = [] then butlast path else path @ [[]])"

section \<open>The way of a request\<close>

datatype reply = Reply int | Crash py_error | Reached string "user option"

definition check_roles :: "user \<Rightarrow> route \<Rightarrow> reply" where
  "check_roles u ro = (case find (\<lambda>r. r \<notin> us_roles u) (ro_roles ro) of
     Some _ \<Rightarrow> Reply 403 | None \<Rightarrow> Reached (ro_endpoint ro) (Some u))"

definition dispatch_route :: "api_settings \<Rightarrow> session_data serializer \<Rightarrow> (string \<Rightarrow> token_error + claims) \<Rightarrow> bool \<Rightarrow> int \<Rightarrow>
    string list \<Rightarrow> request \<Rightarrow> reply" where
  "dispatch_route s Z verify static now path r =
     (case find_route (as_mock_session_enabled s) (rq_method r) path of
        Some ro \<Rightarrow>
          if \<not> ro_login ro then Reached (ro_endpoint ro) None
          else (case current_user s Z verify now r of
              Inl (Http c) \<Rightarrow> Reply c
            | Inl (Raised e) \<Rightarrow> Crash e
            | Inr u \<Rightarrow> check_roles u ro)
      | None \<Rightarrow>
          if static then Reached ''static'' None
          else if path_known (as_mock_session_enabled s) path then Reply 405
          else if path \<noteq> [[]] \<and> path_known (as_mock_session_enabled s) (toggled path) then Reply 307 else Reply 404)"

text \<open>The middleware added last is the outermost: the check of the CSRF token comes before the counter.\<close>

definition serve_app :: "api_settings \<Rightarrow> session_data serializer \<Rightarrow> (string \<Rightarrow> token_error + claims) \<Rightarrow> bool \<Rightarrow> int \<Rightarrow>
    string list \<Rightarrow> request \<Rightarrow> reply" where
  "serve_app s Z verify static now path r = (if \<not> csrf_dispatch r then Reply 403 else dispatch_route s Z verify static now path r)"

section \<open>Routes do not overlap\<close>

fun overlap :: "seg list \<Rightarrow> seg list \<Rightarrow> bool" where
  "overlap [] [] = True"
| "overlap (Lit a # ps) (Lit b # qs) = (a = b \<and> overlap ps qs)"
| "overlap (Lit a # ps) (Var # qs) = (a \<noteq> [] \<and> overlap ps qs)"
| "overlap (Var # ps) (Lit b # qs) = (b \<noteq> [] \<and> overlap ps qs)"
| "overlap (Var # ps) (Var # qs) = overlap ps qs"
| "overlap _ _ = False"

lemma overlap_if_match: "seg_match ps ss \<Longrightarrow> seg_match qs ss \<Longrightarrow> overlap ps qs"
proof (induction ps qs arbitrary: ss rule: overlap.induct)
  case (2 a ps b qs ss) then show ?case by (cases ss) auto
next
  case (3 a ps qs ss) then show ?case by (cases ss) auto
next
  case (4 ps b qs ss) then show ?case by (cases ss) auto
next
  case (5 ps qs ss) then show ?case by (cases ss) auto
qed (auto elim: seg_match.elims)

lemma routes_disjoint:
  "list_all (\<lambda>mock. list_all (\<lambda>a. list_all (\<lambda>b. ro_method a = ro_method b \<and> overlap (ro_path a) (ro_path b) \<longrightarrow> a = b) (routes mock)) (routes mock))
     [True, False]"
  by code_simp

lemma route_found:
  assumes "ro \<in> set (routes mock)" and "seg_match (ro_path ro) path"
  shows "find_route mock (ro_method ro) path = Some ro"
proof -
  obtain ro1 where f: "find_route mock (ro_method ro) path = Some ro1"
    using assms by (cases "find_route mock (ro_method ro) path") (auto simp: find_route_def find_None_iff)
  then have "ro1 \<in> set (routes mock)" "ro_method ro1 = ro_method ro" "seg_match (ro_path ro1) path"
    by (auto simp: find_route_def find_Some_iff)
  moreover have "\<forall>a \<in> set (routes mock). \<forall>b \<in> set (routes mock). ro_method a = ro_method b \<and> overlap (ro_path a) (ro_path b) \<longrightarrow> a = b"
    using routes_disjoint by (cases mock) (simp_all add: list_all_iff)
  ultimately have "ro = ro1" using assms overlap_if_match[of "ro_path ro" path "ro_path ro1"] by metis
  then show ?thesis using f by simp
qed

section \<open>Properties\<close>

definition open_endpoints :: "string set" where
  "open_endpoints = {''live'', ''ready'', ''metrics_endpoint'', ''login'', ''callback'', ''logout'', ''static''}"

definition test_endpoints :: "string set" where
  "test_endpoints = {''_test_login_as'', ''_test_seed''}"

definition writers :: "string set" where
  "writers = {''create_app'', ''update_app'', ''delete_app'', ''create_saas'', ''update_saas'', ''delete_saas''}"

lemma routes_guard:
  "list_all (\<lambda>mock. list_all (\<lambda>ro.
     (\<not> ro_login ro \<longrightarrow> ro_endpoint ro \<in> open_endpoints \<or> mock \<and> ro_endpoint ro \<in> test_endpoints) \<and>
     (ro_login ro \<longrightarrow> ro_endpoint ro \<in> {''me'', ''verify''} \<or> Viewer \<in> set (ro_roles ro)) \<and>
     (ro_endpoint ro \<in> writers \<longrightarrow> Editor \<in> set (ro_roles ro)) \<and> (ro_roles ro \<noteq> [] \<longrightarrow> ro_login ro)) (routes mock)) [True, False]"
  by code_simp

lemma reached_roles: "check_roles u ro = Reached ep v \<Longrightarrow> ep = ro_endpoint ro \<and> v = Some u \<and> set (ro_roles ro) \<subseteq> us_roles u"
  by (auto simp: check_roles_def find_None_iff split: option.splits)


definition editor_claims :: claims where
  "editor_claims = \<lparr>cl_upn = Some ''ann'', cl_sub = None, cl_groups = [''g3'']\<rparr>"

definition demo_post :: request where
  "demo_post = demo_request\<lparr>rq_method := ''POST'', rq_authorization := ''Bearer t''\<rparr>"


end
