(* ===== verification/Api_Ws.thy ===== *)
theory Api_Ws
  imports Api_Flows Api_Auth
begin

text \<open>
  The live stream of the API: \<open>api/src/api/routers/ws.py\<close> (one connection per user) and
  \<open>api/src/api/ws_fanout.py\<close> (filtered broadcast of the published deltas). A connection has a number; \<open>send_ok\<close>
  says whether sending to it succeeds.
\<close>

section \<open>Clients\<close>

text \<open>The filter of a client is what it sent last: an object, or some other JSON value, on which \<open>get\<close> raises.\<close>

datatype client_filter = FilterObject "string option" "string option" | FilterOther

record ws_client =
  wc_id :: nat
  wc_filters :: client_filter

definition client_matches :: "client_filter \<Rightarrow> link \<Rightarrow> py_error + bool" where
  "client_matches f lk =
     (case f of
        FilterOther \<Rightarrow> Inl TypeError
      | FilterObject src_cidr dst_app \<Rightarrow> Inr (
          (truthy src_cidr \<longrightarrow>
            (case ip_address (removeprefix ''ip:'' (ln_src lk)) of None \<Rightarrow> False | Some a \<Rightarrow>
             case ip_network False (the src_cidr) of None \<Rightarrow> False | Some net \<Rightarrow> ip_in a net)) \<and>
          \<not> (truthy dst_app \<and> ln_dst lk \<noteq> ''app:'' @ the dst_app)))"

fun match_links :: "client_filter \<Rightarrow> link list \<Rightarrow> py_error + link list" where
  "match_links f [] = Inr []"
| "match_links f (lk # lks) = bind_r (client_matches f lk) (\<lambda>b.
     bind_r (match_links f lks) (\<lambda>out. Inr (if b then lk # out else out)))"

section \<open>Broadcast\<close>

definition remove_client :: "nat \<Rightarrow> ws_client list \<Rightarrow> ws_client list" where
  "remove_client i cs = filter (\<lambda>c. wc_id c \<noteq> i) cs"

text \<open>
  \<open>_dispatch\<close> over a copy of the client list: what was sent to whom, and the clients left. An exception of a
  filter leaves the loop.
\<close>

fun dispatch_each :: "(nat \<Rightarrow> bool) \<Rightarrow> link list \<Rightarrow> ws_client list \<Rightarrow> ws_client list \<Rightarrow>
    (nat \<times> link list) list \<times> ws_client list \<times> (py_error + unit)" where
  "dispatch_each send_ok links cs [] = ([], cs, Inr ())"
| "dispatch_each send_ok links cs (c # todo) =
     (case match_links (wc_filters c) links of
        Inl e \<Rightarrow> ([], cs, Inl e)
      | Inr ls \<Rightarrow>
          if send_ok (wc_id c)
          then (case dispatch_each send_ok links cs todo of (sent, cs1, r) \<Rightarrow> ((wc_id c, ls) # sent, cs1, r))
          else dispatch_each send_ok links (remove_client (wc_id c) cs) todo)"

section \<open>Connections\<close>

record ws_state =
  ws_active_upns :: "string set"
  ws_handlers :: "(nat, string) dict"
  ws_clients :: "ws_client list"
  ws_fanout_alive :: bool

definition new_ws_state :: ws_state where
  "new_ws_state = \<lparr>ws_active_upns = {}, ws_handlers = [], ws_clients = [], ws_fanout_alive = True\<rparr>"

text \<open>
  \<open>ws_sankey\<close> up to its loop: the session decides the user (\<open>None\<close>: no session or no viewer), then the set of
  active users, then \<open>accept\<close>, which raises when the peer has gone. The result is the close code, if any.
\<close>

definition resolve_cookie_user :: "session_data serializer \<Rightarrow> string \<Rightarrow> int \<Rightarrow> string option \<Rightarrow> string option" where
  "resolve_cookie_user Z secret now cookie =
     (if \<not> truthy cookie then None
      else case session_decode Z secret now (the cookie) of
        Inl _ \<Rightarrow> None
      | Inr d \<Rightarrow> if Viewer \<in> sd_roles d then Some (sd_user_upn d) else None)"

definition ws_connect :: "nat \<Rightarrow> string option \<Rightarrow> bool \<Rightarrow> ws_state \<Rightarrow> ws_state \<times> int option" where
  "ws_connect i user1 accept_ok st =
     (case user1 of
        None \<Rightarrow> (st, Some 1008)
      | Some upn \<Rightarrow>
          if upn \<in> ws_active_upns st then (st, Some 1008)
          else let st1 = st\<lparr>ws_active_upns := insert upn (ws_active_upns st)\<rparr> in
            if \<not> accept_ok then (st1, None)
            else (st1\<lparr>ws_handlers := (i, upn) # ws_handlers st,
                     ws_clients := ws_clients st @ [\<lparr>wc_id = i, wc_filters = FilterObject None None\<rparr>]\<rparr>, None))"

definition ws_filter :: "nat \<Rightarrow> client_filter \<Rightarrow> ws_state \<Rightarrow> ws_state" where
  "ws_filter i f st = st\<lparr>ws_clients := map (\<lambda>c. if wc_id c = i then c\<lparr>wc_filters := f\<rparr> else c) (ws_clients st)\<rparr>"

definition ws_disconnect :: "nat \<Rightarrow> ws_state \<Rightarrow> ws_state" where
  "ws_disconnect i st =
     (case map_of (ws_handlers st) i of
        None \<Rightarrow> st
      | Some upn \<Rightarrow> st\<lparr>ws_clients := remove_client i (ws_clients st), ws_active_upns := ws_active_upns st - {upn},
          ws_handlers := AList.delete i (ws_handlers st)\<rparr>)"

text \<open>A message on the channel: an exception ends the task of the fan-out.\<close>

definition ws_broadcast :: "(nat \<Rightarrow> bool) \<Rightarrow> link list \<Rightarrow> ws_state \<Rightarrow> ws_state \<times> (nat \<times> link list) list" where
  "ws_broadcast send_ok links st =
     (if \<not> ws_fanout_alive st then (st, [])
      else case dispatch_each send_ok links (ws_clients st) (ws_clients st) of
        (sent, cs, Inr _) \<Rightarrow> (st\<lparr>ws_clients := cs\<rparr>, sent)
      | (sent, cs, Inl e) \<Rightarrow> (st\<lparr>ws_clients := cs, ws_fanout_alive := False\<rparr>, sent))"

inductive ws_step :: "ws_state \<Rightarrow> ws_state \<Rightarrow> bool" where
  connect: "i \<notin> fst ` set (ws_handlers st) \<Longrightarrow> ws_step st (fst (ws_connect i user1 ok st))"
| message: "i \<in> fst ` set (ws_handlers st) \<Longrightarrow> ws_step st (ws_filter i f st)"
| disconnect: "ws_step st (ws_disconnect i st)"
| broadcast: "ws_step st (fst (ws_broadcast send_ok links st))"

abbreviation ws_reachable :: "ws_state \<Rightarrow> ws_state \<Rightarrow> bool" where
  "ws_reachable \<equiv> ws_step\<^sup>*\<^sup>*"

section \<open>Invariant\<close>

definition ws_inv :: "ws_state \<Rightarrow> bool" where
  "ws_inv st \<longleftrightarrow> distinct (map fst (ws_handlers st)) \<and> distinct (map snd (ws_handlers st)) \<and>
     snd ` set (ws_handlers st) \<subseteq> ws_active_upns st \<and>
     distinct (map wc_id (ws_clients st)) \<and> wc_id ` set (ws_clients st) \<subseteq> fst ` set (ws_handlers st)"

lemma remove_client_ids: "map wc_id (remove_client i cs) = filter (\<lambda>j. j \<noteq> i) (map wc_id cs)"
  by (simp add: remove_client_def filter_map comp_def)

lemma dispatch_clients:
  "dispatch_each send_ok links cs todo = (sent, cs1, r) \<Longrightarrow>
   \<exists>P. cs1 = filter P cs"
proof (induction todo arbitrary: cs sent)
  case Nil
  then show ?case by (intro exI[of _ "\<lambda>_. True"]) simp
next
  case (Cons c todo)
  show ?case
  proof (cases "match_links (wc_filters c) links")
    case (Inl e)
    then show ?thesis using Cons.prems by (intro exI[of _ "\<lambda>_. True"]) simp
  next
    case (Inr ls)
    show ?thesis
    proof (cases "send_ok (wc_id c)")
      case True
      then show ?thesis using Cons Inr by (auto split: prod.splits)
    next
      case False
      then obtain P where "cs1 = filter P (remove_client (wc_id c) cs)" using Cons Inr by fastforce
      then show ?thesis by (auto simp: remove_client_def)
    qed
  qed
qed

lemma filter_clients_inv:
  "ws_inv st \<Longrightarrow> ws_inv (st\<lparr>ws_clients := filter P (ws_clients st)\<rparr>)"
  "ws_inv st \<Longrightarrow> ws_inv (st\<lparr>ws_clients := filter P (ws_clients st), ws_fanout_alive := b\<rparr>)"
  by (auto simp: ws_inv_def distinct_map_filter)

lemma ws_broadcast_inv: "ws_inv st \<Longrightarrow> ws_inv (fst (ws_broadcast send_ok links st))"
proof -
  assume i: "ws_inv st"
  obtain sent cs r where d: "dispatch_each send_ok links (ws_clients st) (ws_clients st) = (sent, cs, r)"
    by (cases "dispatch_each send_ok links (ws_clients st) (ws_clients st)")
  from dispatch_clients[OF d] obtain P where P: "cs = filter P (ws_clients st)" by blast
  show ?thesis
    using i filter_clients_inv(1)[OF i, where P = P] filter_clients_inv(2)[OF i, where P = P] d P
    by (cases r) (auto simp: ws_broadcast_def)
qed

lemma ws_disconnect_inv: "ws_inv st \<Longrightarrow> ws_inv (ws_disconnect i st)"
proof (cases "map_of (ws_handlers st) i")
  case (Some upn)
  assume inv: "ws_inv st"
  have m: "(i, upn) \<in> set (ws_handlers st)" using Some by (rule map_of_SomeD)
  have s: "set (AList.delete i (ws_handlers st)) = {p \<in> set (ws_handlers st). fst p \<noteq> i}"
    by (auto simp: AList.delete_eq)
  have "distinct (map snd (AList.delete i (ws_handlers st)))" "distinct (map fst (AList.delete i (ws_handlers st)))"
    using inv by (simp_all add: AList.delete_eq distinct_map_filter ws_inv_def)
  moreover have "snd ` {p \<in> set (ws_handlers st). fst p \<noteq> i} \<subseteq> ws_active_upns st - {upn}"
  proof (intro image_subsetI DiffI)
    fix p assume p: "p \<in> {p \<in> set (ws_handlers st). fst p \<noteq> i}"
    then show "snd p \<in> ws_active_upns st" using inv by (auto simp: ws_inv_def)
    have "inj_on snd (set (ws_handlers st))" using inv by (simp add: ws_inv_def distinct_map)
    then show "snd p \<notin> {upn}" using p m inj_onD[of snd "set (ws_handlers st)" p "(i, upn)"] by (cases p) auto
  qed
  moreover have "wc_id ` set (remove_client i (ws_clients st)) \<subseteq> fst ` {p \<in> set (ws_handlers st). fst p \<noteq> i}"
  proof
    have sub: "wc_id ` set (ws_clients st) \<subseteq> fst ` set (ws_handlers st)" using inv by (simp add: ws_inv_def)
    fix j assume "j \<in> wc_id ` set (remove_client i (ws_clients st))"
    then have j: "j \<in> wc_id ` set (ws_clients st)" "j \<noteq> i" by (auto simp: remove_client_def)
    with sub obtain p where "p \<in> set (ws_handlers st)" "j = fst p" by blast
    then show "j \<in> fst ` {p \<in> set (ws_handlers st). fst p \<noteq> i}" using j(2) by simp
  qed
  moreover have "distinct (map wc_id (remove_client i (ws_clients st)))"
    using inv by (simp add: remove_client_def distinct_map_filter ws_inv_def)
  ultimately show ?thesis unfolding ws_disconnect_def Some ws_inv_def by (simp add: s)
qed (simp add: ws_disconnect_def)

lemma same_ids_inv:
  assumes "ws_inv st" and "map wc_id cs = map wc_id (ws_clients st)"
  shows "ws_inv (st\<lparr>ws_clients := cs\<rparr>)"
proof -
  have "wc_id ` set cs = wc_id ` set (ws_clients st)" using assms(2) by (metis list.set_map)
  then show ?thesis using assms by (simp add: ws_inv_def)
qed

lemma ws_step_inv: "ws_step st st1 \<Longrightarrow> ws_inv st \<Longrightarrow> ws_inv st1"
proof (induction rule: ws_step.induct)
  case (connect i st user1 ok)
  then show ?case by (auto simp: ws_connect_def ws_inv_def Let_def split: option.splits)
next
  case (message i st f)
  have "map wc_id (map (\<lambda>c. if wc_id c = i then c\<lparr>wc_filters := f\<rparr> else c) cs) = map wc_id cs" for cs
    by (induction cs) auto
  then show ?case using same_ids_inv message.prems unfolding ws_filter_def by blast
qed (simp_all add: ws_disconnect_inv ws_broadcast_inv)

lemma ws_reachable_inv: "ws_reachable st st1 \<Longrightarrow> ws_inv st \<Longrightarrow> ws_inv st1"
  by (induction rule: rtranclp_induct) (auto intro: ws_step_inv)

section \<open>Properties\<close>

text \<open>
  C29: one live stream per user. In every state that connects, filter messages, disconnects and broadcasts
  can lead to, no user has two connections, the user of every connection is marked active, and every client of
  the fan-out belongs to exactly one connection that is still open.
\<close>

theorem one_stream_per_user:
  assumes "ws_reachable new_ws_state st"
  shows "distinct (map snd (ws_handlers st)) \<and> snd ` set (ws_handlers st) \<subseteq> ws_active_upns st \<and>
    distinct (map wc_id (ws_clients st)) \<and>
    (\<forall>c \<in> set (ws_clients st). \<exists>!upn. (wc_id c, upn) \<in> set (ws_handlers st))"
proof -
  have "ws_inv new_ws_state" by (simp add: ws_inv_def new_ws_state_def)
  with assms have i: "ws_inv st" by (rule ws_reachable_inv)
  have "\<exists>!upn. (wc_id c, upn) \<in> set (ws_handlers st)" if "c \<in> set (ws_clients st)" for c
  proof -
    have "wc_id c \<in> fst ` set (ws_handlers st)" using i that by (auto simp: ws_inv_def)
    then obtain upn where "(wc_id c, upn) \<in> set (ws_handlers st)" by auto
    then show ?thesis using i eq_key_imp_eq_value unfolding ws_inv_def by metis
  qed
  with i show ?thesis by (simp add: ws_inv_def)
qed

theorem one_stream_per_user_witness:
  "distinct (map snd (ws_handlers (fst (ws_connect 1 (Some ''ann'') True (fst (ws_connect 0 (Some ''ann'') True new_ws_state))))))"
proof -
  let ?st = "fst (ws_connect 0 (Some ''ann'') True new_ws_state)"
  have "ws_step new_ws_state ?st" by (rule connect) (simp add: new_ws_state_def)
  moreover have "ws_step ?st (fst (ws_connect 1 (Some ''ann'') True ?st))"
    by (rule connect) (simp add: ws_connect_def new_ws_state_def)
  ultimately have "ws_reachable new_ws_state (fst (ws_connect 1 (Some ''ann'') True ?st))" by auto
  from one_stream_per_user[OF this] show ?thesis by blast
qed

text \<open>
  A user whose handshake fails is locked out. When the peer is gone by the time of \<open>accept\<close>, the user
  stays marked active although there is no connection; from then on, whatever happens, every connection attempt
  of that user is closed with code 1008, until the process restarts.
\<close>

theorem failed_accept_locks_out:
  assumes "ws_inv st" and "upn \<notin> ws_active_upns st"
    and "ws_reachable (fst (ws_connect i (Some upn) False st)) st1"
  shows "ws_connect j (Some upn) ok st1 = (st1, Some 1008)"
proof -
  let ?L = "\<lambda>s. ws_inv s \<and> upn \<in> ws_active_upns s \<and> upn \<notin> snd ` set (ws_handlers s)"
  have start: "?L (fst (ws_connect i (Some upn) False st))"
    using assms(1,2) by (auto simp: ws_connect_def ws_inv_def)
  have pres: "?L s1" if s: "ws_step s s1" and l: "?L s" for s s1
  proof -
    have "upn \<in> ws_active_upns s1 \<and> upn \<notin> snd ` set (ws_handlers s1)"
      using s l
    proof (induction rule: ws_step.induct)
      case (connect i st user1 ok)
      then show ?case by (auto simp: ws_connect_def Let_def split: option.splits)
    next
      case (disconnect st i)
      then have "map_of (ws_handlers st) i \<noteq> Some upn" by (force dest: map_of_SomeD)
      with disconnect show ?case
        by (auto simp: ws_disconnect_def AList.delete_eq split: option.splits)
    qed (auto simp: ws_filter_def ws_broadcast_def split: prod.splits sum.splits if_splits)
    with ws_step_inv[OF s] l show ?thesis by blast
  qed
  from assms(3) start have "?L st1"
  proof (induction rule: rtranclp_induct)
    case (step y z)
    from pres[OF step.hyps(2) step.IH[OF step.prems]] show ?case .
  qed
  then show ?thesis by (simp add: ws_connect_def)
qed

theorem failed_accept_locks_out_witness:
  "ws_connect 1 (Some ''ann'') True (fst (ws_connect 0 (Some ''ann'') False new_ws_state)) =
     (fst (ws_connect 0 (Some ''ann'') False new_ws_state), Some 1008)"
  by (rule failed_accept_locks_out[where st = new_ws_state and i = 0]) (simp_all add: ws_inv_def new_ws_state_def)

text \<open>
  A filter that is not an object stops the stream for everybody: once a client has sent one, the next message
  with a link ends the fan-out, and nobody receives anything after it.
\<close>

lemma match_links_other: "links \<noteq> [] \<Longrightarrow> match_links FilterOther links = Inl TypeError"
  by (cases links) (simp_all add: client_matches_def)

lemma dispatch_bad_filter:
  "links \<noteq> [] \<Longrightarrow> c \<in> set todo \<Longrightarrow> wc_filters c = FilterOther \<Longrightarrow>
   \<exists>sent cs1 e. dispatch_each send_ok links cs todo = (sent, cs1, Inl e)"
proof (induction todo arbitrary: cs)
  case (Cons d todo)
  show ?case
  proof (cases "match_links (wc_filters d) links")
    case (Inr ls)
    then have "c \<in> set todo" using Cons.prems match_links_other by auto
    note ih = Cons.IH[OF Cons.prems(1) this Cons.prems(3)]
    show ?thesis using Inr ih[of cs] ih[of "remove_client (wc_id d) cs"] by (auto split: prod.splits)
  qed simp
qed simp

theorem bad_filter_stops_fanout:
  assumes "c \<in> set (ws_clients st)" and "wc_filters c = FilterOther" and "links \<noteq> []"
  shows "\<not> ws_fanout_alive (fst (ws_broadcast send_ok links st)) \<and>
    snd (ws_broadcast send_ok1 links1 (fst (ws_broadcast send_ok links st))) = []"
  using dispatch_bad_filter[OF assms(3,1,2), of send_ok "ws_clients st"] by (auto simp: ws_broadcast_def)

end
