(* ===== verification/Logging_Pii.thy ===== *)
theory Logging_Pii
  imports Prelude Py_String
begin

text \<open>
  The log filter shared by the services: \<open>common/src/ztna_common/logging_config.py\<close> (and its copy in
  \<open>api/src/api/logging_config.py\<close>). The hash function is the parameter \<open>sha\<close>.
\<close>

datatype extra_value = Text string | Other

definition pii_keys :: "string list" where
  "pii_keys = [''upn'', ''src_ip'', ''user_upn'', ''ip'']"

definition set_trace_id :: "string \<Rightarrow> string" where
  "set_trace_id traceparent =
     (let parts = split_on CHR ''-'' traceparent in if 2 \<le> length parts then parts ! 1 else traceparent)"

definition hash_value :: "(string \<Rightarrow> string) \<Rightarrow> string \<Rightarrow> string" where
  "hash_value sha v = ''sha256:'' @ take 16 (sha v)"

definition hash_field :: "(string \<Rightarrow> string) \<Rightarrow> string \<Rightarrow> extra_value \<Rightarrow> extra_value" where
  "hash_field sha k v =
     (case v of Text t \<Rightarrow> if k \<in> set pii_keys then Text (hash_value sha t) else v | Other \<Rightarrow> v)"

definition log_processor :: "(string \<Rightarrow> string) \<Rightarrow> string \<Rightarrow> string \<Rightarrow> (string, extra_value) dict \<Rightarrow> (string, extra_value) dict" where
  "log_processor sha trace level extra =
     (let extra1 = AList.update ''trace_id'' (Text trace) extra in
      if level \<in> {''INFO'', ''WARNING'', ''ERROR'', ''CRITICAL''}
      then map (\<lambda>p. (fst p, hash_field sha (fst p) (snd p))) extra1
      else extra1)"

text \<open>
  Personal data leaves the process hashed: at the levels from \<open>INFO\<close> up, a text under a personal key is
  its hash, and every other field is unchanged.
\<close>

theorem personal_data_hashed:
  assumes "level \<in> {''INFO'', ''WARNING'', ''ERROR'', ''CRITICAL''}"
  shows "map_of (log_processor sha trace level extra) k =
    (if k = ''trace_id'' then Some (Text trace)
     else case map_of extra k of
       Some (Text t) \<Rightarrow> Some (Text (if k \<in> set pii_keys then hash_value sha t else t))
     | other \<Rightarrow> other)"
proof -
  have m: "map_of (map (\<lambda>p. (fst p, f (fst p) (snd p))) d) k = map_option (f k) (map_of d k)"
    for d :: "(string, extra_value) dict" and f
    by (induction d) auto
  have "map_of (log_processor sha trace level extra) k =
      map_option (hash_field sha k) (map_of (AList.update ''trace_id'' (Text trace) extra) k)"
    using assms by (simp only: log_processor_def Let_def if_True m)
  then show ?thesis
    by (auto simp: update_conv' pii_keys_def hash_field_def split: option.splits extra_value.splits)
qed

theorem trace_id_of_traceparent:
  assumes "CHR ''-'' \<notin> set version" and "CHR ''-'' \<notin> set tid"
  shows "set_trace_id (version @ ''-'' @ tid @ ''-'' @ rest) = tid"
  using assms by (simp add: set_trace_id_def split_on_append Let_def)

section \<open>The sink\<close>

text \<open>
  \<open>configure\<close> replaces all sinks by one. \<open>levels\<close> gives the severity of a level name, as the logging library knows it; adding a sink with another
  name raises. \<open>backtrace\<close> and \<open>diagnose\<close>, which show the values of variables under an exception, are on unless they are switched off.
\<close>

record sink =
  sk_level :: string
  sk_serialize :: bool
  sk_backtrace :: bool
  sk_diagnose :: bool

definition upper_char :: "char \<Rightarrow> char" where
  "upper_char c = (if 97 \<le> code c \<and> code c \<le> 122 then char_of (code c - 32) else c)"

definition add_sink :: "(string \<Rightarrow> nat option) \<Rightarrow> sink \<Rightarrow> sink list \<Rightarrow> sink list \<times> (py_error + unit)" where
  "add_sink levels sk sinks = (case levels (sk_level sk) of None \<Rightarrow> (sinks, Inl ValueError) | Some _ \<Rightarrow> (sinks @ [sk], Inr ()))"

definition configure :: "(string \<Rightarrow> nat option) \<Rightarrow> string \<Rightarrow> sink list \<Rightarrow> sink list \<times> (py_error + unit)" where
  "configure levels level sinks =
     add_sink levels \<lparr>sk_level = map upper_char level, sk_serialize = True, sk_backtrace = False, sk_diagnose = False\<rparr> []"

text \<open>The copy in the API.\<close>

definition api_set_trace_id :: "string \<Rightarrow> string" where
  "api_set_trace_id traceparent =
     (let parts = split_on CHR ''-'' traceparent in if 2 \<le> length parts then parts ! 1 else traceparent)"

definition api_log_processor :: "(string \<Rightarrow> string) \<Rightarrow> string \<Rightarrow> string \<Rightarrow> (string, extra_value) dict \<Rightarrow> (string, extra_value) dict" where
  "api_log_processor sha trace level extra =
     (let extra1 = AList.update ''trace_id'' (Text trace) extra in
      if level \<in> {''INFO'', ''WARNING'', ''ERROR'', ''CRITICAL''}
      then map (\<lambda>(k, v). (k, case v of
          Text t \<Rightarrow> if k \<in> {''upn'', ''src_ip'', ''user_upn'', ''ip''} then Text (''sha256:'' @ take 16 (sha t)) else v
        | Other \<Rightarrow> v)) extra1
      else extra1)"

definition api_configure_logging :: "(string \<Rightarrow> nat option) \<Rightarrow> string \<Rightarrow> sink list \<Rightarrow> sink list \<times> (py_error + unit)" where
  "api_configure_logging levels level sinks =
     add_sink levels \<lparr>sk_level = level, sk_serialize = True, sk_backtrace = True, sk_diagnose = True\<rparr> []"

text \<open>What a process writes of a record: one entry for every sink whose level the record reaches.\<close>

definition log_write :: "(string \<Rightarrow> nat option) \<Rightarrow> ((string, extra_value) dict \<Rightarrow> (string, extra_value) dict) \<Rightarrow> sink list \<Rightarrow> string \<Rightarrow>
    (string, extra_value) dict \<Rightarrow> (string, extra_value) dict list" where
  "log_write levels filt sinks level extra =
     map (\<lambda>sk. filt extra) (filter (\<lambda>sk. case (levels level, levels (sk_level sk)) of (Some n, Some m) \<Rightarrow> m \<le> n | _ \<Rightarrow> False) sinks)"

lemma api_copy_agrees: "api_set_trace_id = set_trace_id" "api_log_processor = log_processor"
  by (auto simp: fun_eq_iff api_set_trace_id_def set_trace_id_def api_log_processor_def log_processor_def Let_def hash_field_def
      hash_value_def pii_keys_def split: extra_value.splits)

text \<open>
  The two services differ in the sink only: both leave exactly one, whatever was installed before; a level in small letters is accepted by the one and
  refused by the other, which then logs nowhere; and the API shows the values of variables in tracebacks.
\<close>

theorem configured_sinks:
  assumes "levels (map upper_char level) = Some m"
  shows "(\<exists>sk. configure levels level sinks = ([sk], Inr ()) \<and> sk_level sk = map upper_char level \<and> \<not> sk_diagnose sk) \<and>
    (levels level \<noteq> None \<longrightarrow> (\<exists>sk. api_configure_logging levels level sinks = ([sk], Inr ()) \<and> sk_level sk = level \<and> sk_diagnose sk)) \<and>
    (levels level = None \<longrightarrow> api_configure_logging levels level sinks = ([], Inl ValueError))"
  using assms by (auto simp: configure_def api_configure_logging_def add_sink_def)

text \<open>
  Every record that a configured service writes at a level of the list has its personal fields hashed, and it is written once, when it reaches
  the level of the configuration.
\<close>

theorem records_written_hashed:
  assumes "level \<in> {''INFO'', ''WARNING'', ''ERROR'', ''CRITICAL''}" and "configure levels min_level old = (sinks, Inr ())"
  shows "log_write levels (log_processor sha trace level) sinks level extra =
    (if (case (levels level, levels (map upper_char min_level)) of (Some n, Some m) \<Rightarrow> m \<le> n | _ \<Rightarrow> False)
     then [log_processor sha trace level extra] else []) \<and>
    (\<forall>k t. map_of extra k = Some (Text t) \<and> k \<in> set pii_keys \<longrightarrow>
      map_of (log_processor sha trace level extra) k = Some (Text (hash_value sha t)))"
proof -
  have "map_of (log_processor sha trace level extra) k = Some (Text (hash_value sha t))"
    if "map_of extra k = Some (Text t)" "k \<in> set pii_keys" for k t
  proof -
    have "k \<noteq> ''trace_id''" using that(2) by (auto simp: pii_keys_def)
    then show ?thesis using personal_data_hashed[OF assms(1), of sha trace extra k] that by simp
  qed
  moreover have "sinks = [\<lparr>sk_level = map upper_char min_level, sk_serialize = True, sk_backtrace = False, sk_diagnose = False\<rparr>]"
    using assms(2) by (auto simp: configure_def add_sink_def split: option.splits)
  ultimately show ?thesis by (auto simp: log_write_def split: option.splits)
qed

end
