(* ===== verification/Api_Process.thy ===== *)
theory Api_Process
  imports Api_App Api_Ws Logging_Pii
begin

text \<open>
  The start of the API process: \<open>_lifespan\<close> of \<open>api/src/api/main.py\<close> with the module variables of \<open>db.py\<close>, \<open>redis.py\<close> and \<open>routers/ws.py\<close>, through which every
  endpoint gets its session, its client and its fan-out. \<open>engine_ok\<close> says which URLs the engine takes.
\<close>

section \<open>Module variables\<close>

record api_process =
  pr_sinks :: "sink list"
  pr_engine :: "string option"
  pr_client :: "string option"
  pr_fanout :: "bool option"

definition new_api_process :: api_process where
  "new_api_process = \<lparr>pr_sinks = [], pr_engine = None, pr_client = None, pr_fanout = None\<rparr>"

definition init_engine :: "(string \<Rightarrow> bool) \<Rightarrow> string \<Rightarrow> api_process \<Rightarrow> api_process \<times> (py_error + unit)" where
  "init_engine engine_ok url p = (if engine_ok url then (p\<lparr>pr_engine := Some url\<rparr>, Inr ()) else (p, Inl RuntimeError))"

definition get_session :: "api_process \<Rightarrow> py_error + string" where
  "get_session p = (case pr_engine p of None \<Rightarrow> Inl RuntimeError | Some url \<Rightarrow> Inr url)"

definition ping_db :: "(string \<Rightarrow> bool) \<Rightarrow> api_process \<Rightarrow> bool" where
  "ping_db answers p = (case pr_engine p of None \<Rightarrow> False | Some url \<Rightarrow> answers url)"

definition init_redis :: "string \<Rightarrow> api_process \<Rightarrow> api_process" where
  "init_redis url p = p\<lparr>pr_client := Some url\<rparr>"

definition get_redis :: "api_process \<Rightarrow> py_error + string" where
  "get_redis p = (case pr_client p of None \<Rightarrow> Inl RuntimeError | Some url \<Rightarrow> Inr url)"

definition ping_redis :: "(string \<Rightarrow> bool) \<Rightarrow> api_process \<Rightarrow> bool" where
  "ping_redis answers p = (case pr_client p of None \<Rightarrow> False | Some url \<Rightarrow> answers url)"

text \<open>\<open>startup\<close> and \<open>shutdown\<close> of \<open>ws.py\<close>: the fan-out exists, and its task runs or has been cancelled.\<close>

definition ws_startup :: "api_process \<Rightarrow> api_process \<times> (py_error + unit)" where
  "ws_startup p = (case get_redis p of Inl e \<Rightarrow> (p, Inl e) | Inr _ \<Rightarrow> (p\<lparr>pr_fanout := Some True\<rparr>, Inr ()))"

definition ws_shutdown :: "api_process \<Rightarrow> api_process" where
  "ws_shutdown p = (case pr_fanout p of None \<Rightarrow> p | Some _ \<Rightarrow> p\<lparr>pr_fanout := Some False\<rparr>)"

text \<open>The first test of \<open>ws_sankey\<close>.\<close>

definition ws_open :: "nat \<Rightarrow> string option \<Rightarrow> bool \<Rightarrow> api_process \<Rightarrow> ws_state \<Rightarrow> ws_state \<times> int option" where
  "ws_open i user1 accept_ok p st = (if pr_fanout p = None then (st, Some 1011) else ws_connect i user1 accept_ok st)"

text \<open>\<open>_lifespan\<close> up to its \<open>yield\<close>: an exception keeps the application from starting.\<close>

definition lifespan :: "(string \<Rightarrow> nat option) \<Rightarrow> (string \<Rightarrow> bool) \<Rightarrow> string \<Rightarrow> string \<Rightarrow> string \<Rightarrow> api_process \<Rightarrow> api_process \<times> (py_error + unit)" where
  "lifespan levels engine_ok level db_url redis_url p =
     (case api_configure_logging levels level (pr_sinks p) of
        (sinks, Inl e) \<Rightarrow> (p\<lparr>pr_sinks := sinks\<rparr>, Inl e)
      | (sinks, Inr _) \<Rightarrow> (case init_engine engine_ok db_url (p\<lparr>pr_sinks := sinks\<rparr>) of
          (p1, Inl e) \<Rightarrow> (p1, Inl e)
        | (p1, Inr _) \<Rightarrow> ws_startup (init_redis redis_url p1)))"

definition health_ready :: "(string \<Rightarrow> bool) \<Rightarrow> (string \<Rightarrow> bool) \<Rightarrow> api_process \<Rightarrow> int \<times> string \<times> bool \<times> bool" where
  "health_ready db_answers redis_answers p =
     (let db_ok = ping_db db_answers p; redis_ok = ping_redis redis_answers p; healthy = db_ok \<and> redis_ok in
      (if healthy then 200 else 503, if healthy then ''ok'' else ''degraded'', db_ok, redis_ok))"

section \<open>Lemmas\<close>

lemma lifespan_cases:
  "lifespan levels engine_ok level db_url redis_url p =
     (if levels level = None then (p\<lparr>pr_sinks := []\<rparr>, Inl ValueError)
      else let p1 = p\<lparr>pr_sinks := [\<lparr>sk_level = level, sk_serialize = True, sk_backtrace = True, sk_diagnose = True\<rparr>]\<rparr> in
        if \<not> engine_ok db_url then (p1, Inl RuntimeError)
        else (p1\<lparr>pr_engine := Some db_url, pr_client := Some redis_url, pr_fanout := Some True\<rparr>, Inr ()))"
  by (auto simp: lifespan_def api_configure_logging_def add_sink_def init_engine_def ws_startup_def get_redis_def init_redis_def Let_def
      split: option.splits)

section \<open>Properties\<close>

text \<open>
  The start decides what the endpoints find. When \<open>_lifespan\<close> succeeds, every session and client comes from the settings, the web socket does not
  refuse with 1011, and readiness is 200 exactly when both services answer. It fails exactly on an unknown level or a URL the engine does not take, and in a
  process that has not started every session and client raises, the web socket closes with 1011 and readiness is 503.
\<close>

theorem api_start:
  assumes "lifespan levels engine_ok level db_url redis_url new_api_process = (p, r)"
  shows "(r = Inr () \<longleftrightarrow> levels level \<noteq> None \<and> engine_ok db_url) \<and>
    (if r = Inr ()
     then get_session p = Inr db_url \<and> get_redis p = Inr redis_url \<and> ws_open i u b p st = ws_connect i u b st \<and>
       (fst (health_ready db_answers redis_answers p) = 200 \<longleftrightarrow> db_answers db_url \<and> redis_answers redis_url)
     else get_session p = Inl RuntimeError \<and> get_redis p = Inl RuntimeError \<and> ws_open i u b p st = (st, Some 1011) \<and>
       fst (health_ready db_answers redis_answers p) = 503)"
  using assms unfolding lifespan_cases
  by (auto simp: new_api_process_def get_session_def get_redis_def ws_open_def health_ready_def ping_db_def ping_redis_def Let_def split: if_splits)

lemma ready_agrees: "health_ready db_answers redis_answers p = ready (pr_engine p \<noteq> None) (db_answers (the (pr_engine p))) (pr_client p \<noteq> None) (redis_answers (the (pr_client p)))"
  by (auto simp: health_ready_def ready_def ping_def ping_db_def ping_redis_def Let_def split: option.splits)

end
