(* ===== verification/Seeding.thy ===== *)
theory Seeding
  imports Saas_Catalog Csv
begin

text \<open>
  The data that a fresh database gets: the migration \<open>migrate/alembic/versions/0004_seed_saas_and_ports.py\<close>, from the texts of its two CSV files to
  the rows, and the way of a port default from there to the label in the correlator. The catalogue part of the migration is in \<open>Saas_Catalog\<close>.
\<close>

section \<open>Port defaults\<close>

record port_row =
  po_port :: int
  po_proto :: int
  po_name :: string
  po_source :: string

definition int_key :: "(string, string option) dict \<Rightarrow> string \<Rightarrow> py_error + int" where
  "int_key row k = bind_r (lookup_r row k) (\<lambda>v.
     case v of None \<Rightarrow> Inl TypeError | Some t \<Rightarrow> (case py_int t of None \<Rightarrow> Inl ValueError | Some i \<Rightarrow> Inr i))"

text \<open>The row of an insertion; \<open>RuntimeError\<close> stands for the exceptions of the database.\<close>

definition seed_port :: "(string, string option) dict \<Rightarrow> py_error + port_row" where
  "seed_port row =
     bind_r (int_key row ''port'') (\<lambda>port. bind_r (int_key row ''proto'') (\<lambda>proto. bind_r (lookup_r row ''name'') (\<lambda>name.
       case name of
         None \<Rightarrow> Inl RuntimeError
       | Some n \<Rightarrow> if - (2 ^ 31) \<le> port \<and> port < 2 ^ 31 \<and> - (2 ^ 15) \<le> proto \<and> proto < 2 ^ 15
           then Inr \<lparr>po_port = port, po_proto = proto, po_name = n, po_source = ''seeded''\<rparr> else Inl RuntimeError)))"

definition port_key :: "port_row \<Rightarrow> int \<times> int" where
  "port_key p = (po_port p, po_proto p)"

definition insert_port :: "port_row list \<Rightarrow> port_row \<Rightarrow> port_row list" where
  "insert_port db p = (if port_key p \<in> set (map port_key db) then db else db @ [p])"

definition seed_ports :: "(string, string option) dict list \<Rightarrow> port_row list \<Rightarrow> py_error + port_row list" where
  "seed_ports rows db = fold_r (\<lambda>db row. bind_r (seed_port row) (\<lambda>p. Inr (insert_port db p))) db rows"

definition unseed_ports :: "port_row list \<Rightarrow> port_row list" where
  "unseed_ports db = filter (\<lambda>p. po_source p \<noteq> ''seeded'') db"

section \<open>The migration\<close>

definition upgrade_0004 :: "string \<Rightarrow> string \<Rightarrow> saas_db \<times> port_row list \<Rightarrow> py_error + saas_db \<times> port_row list" where
  "upgrade_0004 saas_csv ports_csv db =
     bind_r (dict_reader saas_csv) (\<lambda>srows. bind_r (seed_saas srows (fst db)) (\<lambda>saas.
     bind_r (dict_reader ports_csv) (\<lambda>prows. bind_r (seed_ports prows (snd db)) (\<lambda>ports. Inr (saas, ports)))))"

definition downgrade_0004 :: "saas_db \<times> port_row list \<Rightarrow> saas_db \<times> port_row list" where
  "downgrade_0004 db = (unseed_saas (fst db), unseed_ports (snd db))"

text \<open>The query \<open>SELECT port, proto, name FROM port_defaults\<close> of the correlator.\<close>

definition load_ports :: "port_row list \<Rightarrow> port_default list" where
  "load_ports db = map (\<lambda>p. \<lparr>pd_port = po_port p, pd_proto = po_proto p, pd_name = po_name p\<rparr>) db"

section \<open>From the file to the label\<close>

text \<open>A line of \<open>port_defaults.csv\<close>, its name in quotes or not.\<close>

record port_seed =
  ps_port :: int
  ps_proto :: int
  ps_name :: string
  ps_quoted :: bool

definition seed_fields :: "port_seed \<Rightarrow> (bool \<times> string) list" where
  "seed_fields s = [(False, show_int (ps_port s)), (False, show_int (ps_proto s)), (ps_quoted s, ps_name s)]"

definition seed_ok :: "port_seed \<Rightarrow> bool" where
  "seed_ok s \<longleftrightarrow> - (2 ^ 31) \<le> ps_port s \<and> ps_port s < 2 ^ 31 \<and> - (2 ^ 15) \<le> ps_proto s \<and> ps_proto s < 2 ^ 15 \<and> field_ok (ps_quoted s, ps_name s)"

definition ports_file :: "port_seed list \<Rightarrow> string" where
  "ports_file seeds = write_rows (map (Pair False) [''port'', ''proto'', ''name''] # map seed_fields seeds)"

definition row_of_seed :: "port_seed \<Rightarrow> port_row" where
  "row_of_seed s = \<lparr>po_port = ps_port s, po_proto = ps_proto s, po_name = ps_name s, po_source = ''seeded''\<rparr>"

lemma seed_fields_ok: "seed_ok s \<Longrightarrow> 2 \<le> length (seed_fields s) \<and> (\<forall>p \<in> set (seed_fields s). field_ok p)"
proof -
  assume s: "seed_ok s"
  then have "length (show_int (ps_port s)) \<le> 4300" "length (show_int (ps_proto s)) \<le> 4300"
    by (auto simp: seed_ok_def intro!: length_int)
  with s show ?thesis by (auto simp: seed_ok_def seed_fields_def field_ok_def bare_ok_int csv_limit_def)
qed

lemma file_read:
  assumes "\<forall>s \<in> set seeds. seed_ok s"
  shows "dict_reader (ports_file seeds) = Inr (map (\<lambda>s. dict_row [''port'', ''proto'', ''name''] (map snd (seed_fields s))) seeds)"
proof -
  have "csv_rows (ports_file seeds) = Inr ([''port'', ''proto'', ''name''] # map (\<lambda>s. map snd (seed_fields s)) seeds)"
    unfolding ports_file_def using assms seed_fields_ok
    by (subst csv_rows_back) (auto simp: field_ok_def bare_ok_def csv_limit_def csv_q_def csv_nl_def csv_cr_def)
  moreover have "map snd (seed_fields s) \<noteq> []" for s by (simp add: seed_fields_def)
  ultimately show ?thesis by (simp add: dict_reader_def comp_def)
qed

lemma seed_port_row:
  assumes "seed_ok s"
  shows "seed_port (dict_row [''port'', ''proto'', ''name''] (map snd (seed_fields s))) = Inr (row_of_seed s)"
proof -
  have "py_int (show_int (ps_port s)) = Some (ps_port s)" "py_int (show_int (ps_proto s)) = Some (ps_proto s)"
    using assms by (auto simp: seed_ok_def intro!: py_int_show_int show_int_short)
  then show ?thesis using assms
    by (simp add: seed_port_def dict_row_def seed_fields_def int_key_def lookup_r_def row_of_seed_def seed_ok_def)
qed

lemma seed_ports_file:
  assumes "\<forall>s \<in> set seeds. seed_ok s"
  shows "bind_r (dict_reader (ports_file seeds)) (\<lambda>rows. seed_ports rows db) = Inr (foldl insert_port db (map row_of_seed seeds))"
  using assms
proof -
  have "seed_ports (map (\<lambda>s. dict_row [''port'', ''proto'', ''name''] (map snd (seed_fields s))) seeds) db =
      Inr (foldl insert_port db (map row_of_seed seeds))"
    using assms by (induction seeds arbitrary: db) (simp_all add: seed_ports_def seed_port_row)
  then show ?thesis using file_read[OF assms] by simp
qed

text \<open>An insertion is refused for a key that is there, so the first row of a key stays.\<close>

lemma find_insert: "find (\<lambda>p. port_key p = k) (foldl insert_port db ps) =
    (case find (\<lambda>p. port_key p = k) db of Some p \<Rightarrow> Some p | None \<Rightarrow> find (\<lambda>p. port_key p = k) ps)"
proof (induction ps arbitrary: db)
  case (Cons p ps)
  have "find (\<lambda>p. port_key p = k) (insert_port db p) =
      (case find (\<lambda>p. port_key p = k) db of Some q \<Rightarrow> Some q | None \<Rightarrow> if port_key p = k then Some p else None)"
  proof (cases "port_key p \<in> set (map port_key db)")
    case True
    then have "find (\<lambda>p. port_key p = k) db \<noteq> None" if "port_key p = k" using that by (auto simp: find_None_iff image_iff)
    with True show ?thesis by (auto simp: insert_port_def split: option.splits)
  next
    case False
    then show ?thesis by (induction db) (auto simp: insert_port_def)
  qed
  with Cons show ?case by (simp split: option.splits)
qed (simp split: option.splits)

lemma insert_distinct: "distinct (map port_key db) \<Longrightarrow> distinct (map port_key (foldl insert_port db ps))"
  by (induction ps arbitrary: db) (auto simp: insert_port_def)

lemma find_rev_key: "distinct (map port_key db) \<Longrightarrow> find (\<lambda>p. port_key p = k) (rev db) = find (\<lambda>p. port_key p = k) db"
proof (induction db rule: rev_induct)
  case (snoc p db)
  have "find (\<lambda>p. port_key p = k) db = None" if "port_key p = k"
    using snoc.prems that by (auto simp: find_None_iff image_iff)
  with snoc show ?case by (auto simp: find_append split: option.splits)
qed simp

section \<open>Properties\<close>

text \<open>
  A port in the seed file becomes a label. For any file of port seeds (names in quotes or not) and any table with unique keys, the
  migration reads the file and succeeds; then a flow to a port that nothing else labels gets the name that the table gave the port before,
  or else that of its first line in the file, or else the raw label; and undoing the migration restores a table that held no seeded rows.
\<close>

theorem seeded_ports_label:
  assumes "\<forall>s \<in> set seeds. seed_ok s" and "distinct (map port_key db)" and "seed_saas srows sdb = Inr sdb1"
    and "dict_reader saas_csv = Inr srows"
  shows "\<exists>db1. upgrade_0004 saas_csv (ports_file seeds) (sdb, db) = Inr (sdb1, db1) \<and>
    ((\<forall>p \<in> set db. po_source p \<noteq> ''seeded'') \<longrightarrow> snd (downgrade_0004 (sdb1, db1)) = db) \<and>
    (\<forall>rs manual saas rs1 ip port proto. load_tables rs manual saas (load_ports db1) = Inr rs1 \<longrightarrow>
      port_or_raw rs1 ip port proto =
        (case find (\<lambda>p. port_key p = (port, proto)) (db @ map row_of_seed seeds) of
           Some p \<Rightarrow> \<lparr>ac_label_kind = Port, ac_label = po_name p, ac_app_id = None\<rparr>
         | None \<Rightarrow> \<lparr>ac_label_kind = Raw, ac_label = ip @ '':'' @ show_int port, ac_app_id = None\<rparr>))"
proof -
  let ?db1 = "foldl insert_port db (map row_of_seed seeds)"
  have up: "upgrade_0004 saas_csv (ports_file seeds) (sdb, db) = Inr (sdb1, ?db1)"
    using seed_ports_file[OF assms(1), of db] assms(3,4) by (auto simp: upgrade_0004_def bind_r_Inr)
  have down: "filter (\<lambda>p. po_source p \<noteq> ''seeded'') (foldl insert_port db (map row_of_seed seeds)) =
      filter (\<lambda>p. po_source p \<noteq> ''seeded'') db" for db
    by (induction seeds arbitrary: db) (simp_all add: insert_port_def row_of_seed_def)
  have f: "find (\<lambda>p. port_key p = k) ?db1 = find (\<lambda>p. port_key p = k) (db @ map row_of_seed seeds)" for k
    by (simp add: find_insert find_append)
  have label: "map_of (rs_port_defaults rs1) (port, proto) =
      map_option (\<lambda>p. \<lparr>pd_port = po_port p, pd_proto = po_proto p, pd_name = po_name p\<rparr>)
        (find (\<lambda>p. port_key p = (port, proto)) (db @ map row_of_seed seeds))"
    if "load_tables rs manual saas (load_ports ?db1) = Inr rs1" for rs manual saas rs1 port proto
  proof -
    have "map_of (rs_port_defaults rs1) (port, proto) =
        find (\<lambda>p. (pd_port p, pd_proto p) = (port, proto)) (rev (load_ports ?db1))"
      using that map_of_update_fold[of "\<lambda>p. (pd_port p, pd_proto p)" id "load_ports ?db1" "(port, proto)"]
      by (auto simp: load_tables_ok option.map_id)
    also have "\<dots> = map_option (\<lambda>p. \<lparr>pd_port = po_port p, pd_proto = po_proto p, pd_name = po_name p\<rparr>)
        (find (\<lambda>p. port_key p = (port, proto)) (rev ?db1))"
      by (simp add: load_ports_def rev_map find_map comp_def port_key_def)
    finally show ?thesis using find_rev_key[OF insert_distinct[OF assms(2)]] f by simp
  qed
  show ?thesis
    using up down assms(2) by (intro exI[of _ ?db1]) (auto simp: downgrade_0004_def unseed_ports_def port_or_raw_def label split: option.splits)
qed

definition ssh_seed :: port_seed where
  "ssh_seed = \<lparr>ps_port = 22, ps_proto = 6, ps_name = ''SSH'', ps_quoted = True\<rparr>"

theorem seeded_ports_label_witness:
  "\<exists>sdb1 db1 rs1. upgrade_0004 [] (ports_file [ssh_seed]) (empty_saas_db, []) = Inr (sdb1, db1) \<and>
     load_tables new_app_resolver [] [] (load_ports db1) = Inr rs1 \<and> ac_label (port_or_raw rs1 ''10.0.0.1'' 22 6) = ''SSH''"
proof -
  have s: "\<forall>s \<in> set [ssh_seed]. seed_ok s" by (simp add: seed_ok_def ssh_seed_def field_ok_def csv_limit_def)
  have e: "dict_reader [] = Inr []" "seed_saas [] empty_saas_db = Inr empty_saas_db"
    by (simp_all add: dict_reader_def csv_rows.simps csv_next_def csv_finish_def seed_saas_def)
  have d: "distinct (map port_key [])" by simp
  from seeded_ports_label[OF s d e(2,1)] obtain db1 where
    u: "upgrade_0004 [] (ports_file [ssh_seed]) (empty_saas_db, []) = Inr (empty_saas_db, db1)"
    and l: "\<forall>rs manual saas rs1 ip port proto. load_tables rs manual saas (load_ports db1) = Inr rs1 \<longrightarrow>
      port_or_raw rs1 ip port proto = (case find (\<lambda>p. port_key p = (port, proto)) ([] @ map row_of_seed [ssh_seed]) of
           Some p \<Rightarrow> \<lparr>ac_label_kind = Port, ac_label = po_name p, ac_app_id = None\<rparr>
         | None \<Rightarrow> \<lparr>ac_label_kind = Raw, ac_label = ip @ '':'' @ show_int port, ac_app_id = None\<rparr>)" by (elim exE conjE)
  obtain rs1 where r: "load_tables new_app_resolver [] [] (load_ports db1) = Inr rs1" by (simp add: load_tables_def)
  from l r have "ac_label (port_or_raw rs1 ''10.0.0.1'' 22 6) = ''SSH''" by (simp add: port_key_def row_of_seed_def ssh_seed_def)
  with u r show ?thesis by blast
qed

end
