(* ===== verification/Reload.thy ===== *)
theory Reload
  imports Correlator Seeding
begin

text \<open>
  How a change of the catalogues reaches the correlator: the triggers of \<open>0005_notify_triggers.py\<close>, \<open>_listen_reload\<close> and
  \<open>_load_app_resolver\<close> of \<open>correlator/main.py\<close> (and \<open>listen_for_reload\<close> of \<open>app_resolver.py\<close>), and \<open>listen_for_changes\<close> of \<open>group_index.py\<close>.

  A cache is built from the answers of some queries. A change of the tables notifies the listener, whose callback starts a task; a task
  runs its queries one after the other, each at an instant of its own, and then replaces the cache. Tasks and changes interleave at the awaits.
\<close>

section \<open>Reloading on notification\<close>

text \<open>\<open>rt_tasks\<close> holds for each running task the answers it has got so far, \<open>rt_pending\<close> the number of notifications not yet delivered.\<close>

record ('db, 'r, 'c) reload_state =
  rt_db :: 'db
  rt_listening :: bool
  rt_pending :: nat
  rt_tasks :: "'r list list"
  rt_cache :: 'c

text \<open>
  \<open>change d e b\<close>: the tables go from \<open>d\<close> to \<open>e\<close>, with a notification if \<open>b\<close>; it is lost when nobody listens yet.
  \<open>query k d r\<close>: the \<open>k\<close>-th query may answer \<open>r\<close>. \<open>build\<close> makes the cache from the \<open>n\<close> answers, or raises. In a serial run a task starts when no
  other runs.
\<close>

inductive rt_step :: "('db \<Rightarrow> 'db \<Rightarrow> bool \<Rightarrow> bool) \<Rightarrow> (nat \<Rightarrow> 'db \<Rightarrow> 'r \<Rightarrow> bool) \<Rightarrow> nat \<Rightarrow> ('r list \<Rightarrow> 'c \<Rightarrow> 'c option) \<Rightarrow> bool \<Rightarrow>
    ('db, 'r, 'c) reload_state \<Rightarrow> ('db, 'r, 'c) reload_state \<Rightarrow> bool"
  for change query n build serial where
  listens: "rt_step change query n build serial s (s\<lparr>rt_listening := True\<rparr>)"
| changes: "change (rt_db s) d b \<Longrightarrow>
    rt_step change query n build serial s (s\<lparr>rt_db := d, rt_pending := rt_pending s + (if b \<and> rt_listening s then 1 else 0)\<rparr>)"
| delivers: "rt_pending s = Suc m \<Longrightarrow> serial \<longrightarrow> rt_tasks s = [] \<Longrightarrow>
    rt_step change query n build serial s (s\<lparr>rt_pending := m, rt_tasks := rt_tasks s @ [[]]\<rparr>)"
| fetches: "rt_tasks s = ts @ rs # us \<Longrightarrow> length rs < n \<Longrightarrow> query (length rs) (rt_db s) r \<Longrightarrow>
    rt_step change query n build serial s (s\<lparr>rt_tasks := ts @ (rs @ [r]) # us\<rparr>)"
| replaces: "rt_tasks s = ts @ rs # us \<Longrightarrow> length rs = n \<Longrightarrow> build rs (rt_cache s) = Some c \<Longrightarrow>
    rt_step change query n build serial s (s\<lparr>rt_tasks := ts @ us, rt_cache := c\<rparr>)"
| fails: "rt_tasks s = ts @ rs # us \<Longrightarrow> length rs = n \<Longrightarrow> build rs (rt_cache s) = None \<Longrightarrow>
    rt_step change query n build serial s (s\<lparr>rt_tasks := ts @ us\<rparr>)"

inductive_cases rt_step_elim: "rt_step change query n build serial s s1"

text \<open>The cache is one that the queries give on these tables.\<close>

definition answers :: "(nat \<Rightarrow> 'db \<Rightarrow> 'r \<Rightarrow> bool) \<Rightarrow> 'db \<Rightarrow> 'r list \<Rightarrow> bool" where
  "answers query d rs \<longleftrightarrow> (\<forall>k < length rs. query k d (rs ! k))"

definition built_from :: "(nat \<Rightarrow> 'db \<Rightarrow> 'r \<Rightarrow> bool) \<Rightarrow> nat \<Rightarrow> ('r list \<Rightarrow> 'c \<Rightarrow> 'c option) \<Rightarrow> 'db \<Rightarrow> 'c \<Rightarrow> bool" where
  "built_from query n build d c \<longleftrightarrow> (\<exists>rs c0. length rs = n \<and> answers query d rs \<and> build rs c0 = Some c)"

definition quiet :: "('db, 'r, 'c) reload_state \<Rightarrow> bool" where
  "quiet s \<longleftrightarrow> rt_pending s = 0 \<and> rt_tasks s = []"

text \<open>What a reloaded cache needs of its tables: silent changes do not matter, queries answer, and answers from one state of the tables can be built.\<close>

locale notified_cache =
  fixes change :: "'db \<Rightarrow> 'db \<Rightarrow> bool \<Rightarrow> bool" and query :: "nat \<Rightarrow> 'db \<Rightarrow> 'r \<Rightarrow> bool" and n :: nat
    and build :: "'r list \<Rightarrow> 'c \<Rightarrow> 'c option" and valid :: "'db \<Rightarrow> bool"
  assumes silent: "change d e False \<Longrightarrow> query k d r \<Longrightarrow> query k e r"
    and keeps_valid: "valid d \<Longrightarrow> change d e b \<Longrightarrow> valid e"
    and answered: "valid d \<Longrightarrow> k < n \<Longrightarrow> \<exists>r. query k d r"
    and buildable: "valid d \<Longrightarrow> length rs = n \<Longrightarrow> answers query d rs \<Longrightarrow> \<exists>c1. build rs c = Some c1"
begin

text \<open>In a serial run, with a listener: whatever has been read is current as long as nothing is pending.\<close>

definition serial_inv :: "('db, 'r, 'c) reload_state \<Rightarrow> bool" where
  "serial_inv s \<longleftrightarrow> valid (rt_db s) \<and> rt_listening s \<and> length (rt_tasks s) \<le> 1 \<and>
     (\<forall>rs \<in> set (rt_tasks s). length rs \<le> n \<and> (rt_pending s = 0 \<longrightarrow> answers query (rt_db s) rs)) \<and>
     (quiet s \<longrightarrow> built_from query n build (rt_db s) (rt_cache s))"

lemma answers_silent: "change d e False \<Longrightarrow> answers query d rs \<Longrightarrow> answers query e rs"
  by (auto simp: answers_def intro: silent)

lemma built_silent: "change d e False \<Longrightarrow> built_from query n build d c \<Longrightarrow> built_from query n build e c"
  unfolding built_from_def using answers_silent by blast

lemma one_task: "length (ts @ rs # us) \<le> 1 \<longleftrightarrow> ts = [] \<and> us = []"
  by auto

lemma answers_snoc: "answers query d rs \<Longrightarrow> query (length rs) d r \<Longrightarrow> answers query d (rs @ [r])"
  by (auto simp: answers_def nth_append less_Suc_eq)

lemma step_serial_inv:
  assumes "rt_step change query n build True s s1" and "serial_inv s"
  shows "serial_inv s1"
  using assms(1)
proof (cases rule: rt_step.cases)
  case (changes d b)
  then show ?thesis using assms(2) keeps_valid[of "rt_db s" d b] answers_silent[of "rt_db s" d] built_silent[of "rt_db s" d]
    by (cases b) (auto simp: serial_inv_def quiet_def)
next
  case (delivers m)
  then show ?thesis using assms(2) by (auto simp: serial_inv_def quiet_def answers_def)
next
  case (fetches ts rs us r)
  with assms(2) have "ts = []" "us = []" by (auto simp: serial_inv_def)
  with fetches assms(2) show ?thesis by (auto simp: serial_inv_def quiet_def intro: answers_snoc)
next
  case (replaces ts rs us c)
  with assms(2) have "ts = []" "us = []" by (auto simp: serial_inv_def)
  with replaces assms(2) show ?thesis by (auto simp: serial_inv_def quiet_def built_from_def)
next
  case (fails ts rs us)
  with assms(2) have e: "ts = []" "us = []" "valid (rt_db s)" by (auto simp: serial_inv_def)
  have "rt_pending s \<noteq> 0"
  proof
    assume "rt_pending s = 0"
    then have "answers query (rt_db s) rs" using assms(2) fails(2) by (simp add: serial_inv_def)
    from buildable[OF e(3) fails(3) this, of "rt_cache s"] fails(4) show False by simp
  qed
  with fails assms(2) e show ?thesis by (auto simp: serial_inv_def quiet_def)
qed (use assms(2) in \<open>auto simp: serial_inv_def quiet_def\<close>)

lemma serial_current:
  assumes "(rt_step change query n build True)\<^sup>*\<^sup>* s s1" and "serial_inv s"
  shows "serial_inv s1"
  using assms by (induction rule: rtranclp_induct) (auto intro: step_serial_inv)

text \<open>Nothing blocks the listener: the tasks alone lead to a quiet state.\<close>

lemma task_ends:
  assumes "rt_tasks s = [rs]" and "length rs \<le> n" and "valid (rt_db s)"
  shows "\<exists>c. (rt_step change query n build True)\<^sup>*\<^sup>* s (s\<lparr>rt_tasks := [], rt_cache := c\<rparr>)"
  using assms
proof (induction "n - length rs" arbitrary: s rs)
  case 0
  then have l: "length rs = n" by simp
  show ?case
  proof (cases "build rs (rt_cache s)")
    case None
    have "rt_step change query n build True s (s\<lparr>rt_tasks := [] @ []\<rparr>)" by (rule rt_step.fails[of s "[]" rs]) (simp_all add: 0 l None)
    then show ?thesis by (intro exI[of _ "rt_cache s"]) (simp add: r_into_rtranclp)
  next
    case (Some c)
    have "rt_step change query n build True s (s\<lparr>rt_tasks := [] @ [], rt_cache := c\<rparr>)"
      by (rule rt_step.replaces[of s "[]" rs]) (simp_all add: 0 l Some)
    then show ?thesis by (intro exI[of _ c]) (simp add: r_into_rtranclp)
  qed
next
  case (Suc m)
  then have l: "length rs < n" by simp
  obtain r where r: "query (length rs) (rt_db s) r" using answered[OF Suc.prems(3) l] by blast
  let ?s = "s\<lparr>rt_tasks := [rs @ [r]]\<rparr>"
  have st: "rt_step change query n build True s ?s"
    using rt_step.fetches[of s "[]" rs "[]" n query r change build True] Suc.prems(1) l r by simp
  have "m = n - length (rs @ [r])" using Suc.hyps(2) by simp
  from Suc.hyps(1)[OF this, of ?s] l Suc.prems obtain c where
    "(rt_step change query n build True)\<^sup>*\<^sup>* ?s (?s\<lparr>rt_tasks := [], rt_cache := c\<rparr>)" by auto
  with st show ?case by (intro exI[of _ c]) (simp add: converse_rtranclp_into_rtranclp)
qed

lemma drains:
  assumes "serial_inv s"
  shows "\<exists>s1. (rt_step change query n build True)\<^sup>*\<^sup>* s s1 \<and> quiet s1 \<and> rt_db s1 = rt_db s"
  using assms
proof (induction "rt_pending s" arbitrary: s)
  case 0
  show ?case
  proof (cases "rt_tasks s")
    case Nil
    then show ?thesis using 0 by (auto simp: quiet_def)
  next
    case (Cons rs us)
    then have "rt_tasks s = [rs]" "length rs \<le> n" "valid (rt_db s)" using 0(2) by (auto simp: serial_inv_def)
    from task_ends[OF this] 0(1) show ?thesis by (fastforce simp: quiet_def)
  qed
next
  case (Suc m)
  obtain c where e: "(rt_step change query n build True)\<^sup>*\<^sup>* s (s\<lparr>rt_tasks := [], rt_cache := c\<rparr>)"
  proof (cases "rt_tasks s")
    case Nil
    then have "s = s\<lparr>rt_tasks := [], rt_cache := rt_cache s\<rparr>" by simp
    then show ?thesis using that by (metis rtranclp.rtrancl_refl)
  next
    case (Cons rs us)
    then have "rt_tasks s = [rs]" "length rs \<le> n" "valid (rt_db s)" using Suc(3) by (auto simp: serial_inv_def)
    from task_ends[OF this] that show ?thesis by blast
  qed
  let ?s = "s\<lparr>rt_tasks := [], rt_cache := c\<rparr>" and ?t = "s\<lparr>rt_tasks := [], rt_cache := c, rt_pending := m, rt_tasks := [[]]\<rparr>"
  have d: "rt_step change query n build True ?s ?t"
    using rt_step.delivers[of ?s m True change query n build] Suc.hyps(2) by simp
  have "serial_inv ?t" using step_serial_inv[OF d serial_current[OF e Suc.prems]] .
  from Suc.hyps(1)[of ?t] this obtain s1 where
    "(rt_step change query n build True)\<^sup>*\<^sup>* ?t s1" "quiet s1" "rt_db s1 = rt_db s" by auto
  with e d show ?case by (meson rtranclp.rtrancl_into_rtrancl rtranclp_trans)
qed

end

section \<open>The catalogues\<close>

text \<open>The three tables of \<open>_load_app_resolver\<close>. \<open>net_text\<close> is the text form that the database gives a network.\<close>

record catalogue =
  cg_apps :: app_db
  cg_saas :: saas_db
  cg_ports :: "port_row list"

datatype rows = ManualRows "manual_app list" | SaasRows "saas_entry list" | PortRows "port_default list"

definition manual_of :: "(string \<Rightarrow> string) \<Rightarrow> application \<Rightarrow> manual_app" where
  "manual_of net_text a = \<lparr>ma_id = int (ap_id a), ma_name = ai_name (ap_body a), ma_cidr = net_text (ai_dst_cidr (ap_body a)),
     ma_port_min = ai_dst_port_min (ap_body a), ma_port_max = ai_dst_port_max (ap_body a), ma_proto = ai_proto (ap_body a),
     ma_priority = ai_priority (ap_body a)\<rparr>"

text \<open>A query returns the rows of its table in some order.\<close>

fun table_query :: "(string \<Rightarrow> string) \<Rightarrow> nat \<Rightarrow> catalogue \<Rightarrow> rows \<Rightarrow> bool" where
  "table_query net_text k cg (ManualRows xs) \<longleftrightarrow> k = 0 \<and> mset xs = mset (map (manual_of net_text) (db_apps (cg_apps cg)))"
| "table_query net_text k cg (SaasRows xs) \<longleftrightarrow> k = 1 \<and> mset xs = mset (map entry_of (sd_rows (cg_saas cg)))"
| "table_query net_text k cg (PortRows xs) \<longleftrightarrow> k = 2 \<and> mset xs = mset (load_ports (cg_ports cg))"

fun load_rows :: "rows list \<Rightarrow> app_resolver \<Rightarrow> app_resolver option" where
  "load_rows [ManualRows m, SaasRows s, PortRows p] rs = (case load_app_resolver rs m s p of Inl _ \<Rightarrow> None | Inr rs1 \<Rightarrow> Some rs1)"
| "load_rows _ rs = None"

text \<open>The row trigger on \<open>applications\<close>: one notification per row inserted, updated or deleted.\<close>

definition app_notes :: "app_request \<Rightarrow> app_db \<times> (api_error + 'a) \<Rightarrow> app_db \<Rightarrow> notification list" where
  "app_notes rq res db = (case snd res of Inl _ \<Rightarrow> [] | Inr _ \<Rightarrow>
     [(''applications_changed'', show_int (int (case rq of Create _ _ \<Rightarrow> db_next_id db | Update _ i _ \<Rightarrow> i | Delete i \<Rightarrow> i)))])"

text \<open>A request to the API with the notifications of its transaction.\<close>

datatype catalogue_request = OnApps instant app_request | OnSaas saas_request

fun handle_request :: "(application_in \<Rightarrow> bool) \<Rightarrow> (saas_in \<Rightarrow> bool) \<Rightarrow> catalogue_request \<Rightarrow> catalogue \<Rightarrow> catalogue \<times> notification list" where
  "handle_request app_ok saas_ok (OnApps now rq) cg = (case rq of
      Create u b \<Rightarrow> (case create_app app_ok now u b (cg_apps cg) of (db, r) \<Rightarrow> (cg\<lparr>cg_apps := db\<rparr>, app_notes rq (db, r) (cg_apps cg)))
    | Update u i b \<Rightarrow> (case update_app app_ok now u i b (cg_apps cg) of (db, r) \<Rightarrow> (cg\<lparr>cg_apps := db\<rparr>, app_notes rq (db, r) (cg_apps cg)))
    | Delete i \<Rightarrow> (case delete_app i (cg_apps cg) of (db, r) \<Rightarrow> (cg\<lparr>cg_apps := db\<rparr>, app_notes rq (db, r) (cg_apps cg))))"
| "handle_request app_ok saas_ok (OnSaas rq) cg = (case rq of
      PostSaas u b \<Rightarrow> (case create_saas saas_ok u b (cg_saas cg) of (db, _, ns) \<Rightarrow> (cg\<lparr>cg_saas := db\<rparr>, ns))
    | PutSaas u i b \<Rightarrow> (case update_saas saas_ok u i b (cg_saas cg) of (db, _, ns) \<Rightarrow> (cg\<lparr>cg_saas := db\<rparr>, ns))
    | DeleteSaas u i \<Rightarrow> (case delete_saas u i (cg_saas cg) of (db, _, ns) \<Rightarrow> (cg\<lparr>cg_saas := db\<rparr>, ns))
    | _ \<Rightarrow> (cg, []))"

definition catalogue_change :: "(application_in \<Rightarrow> bool) \<Rightarrow> (saas_in \<Rightarrow> bool) \<Rightarrow> catalogue \<Rightarrow> catalogue \<Rightarrow> bool \<Rightarrow> bool" where
  "catalogue_change app_ok saas_ok cg cg1 b \<longleftrightarrow> (\<exists>rq ns. handle_request app_ok saas_ok rq cg = (cg1, ns) \<and> b = (ns \<noteq> []))"

definition nets_readable :: "(string \<Rightarrow> string) \<Rightarrow> catalogue \<Rightarrow> bool" where
  "nets_readable net_text cg \<longleftrightarrow> (\<forall>a \<in> set (db_apps (cg_apps cg)). ip_network True (net_text (ai_dst_cidr (ap_body a))) \<noteq> None)"

lemma request_silent:
  assumes "handle_request app_ok saas_ok rq cg = (cg1, [])"
  shows "db_apps (cg_apps cg1) = db_apps (cg_apps cg) \<and> sd_rows (cg_saas cg1) = sd_rows (cg_saas cg) \<and> cg_ports cg1 = cg_ports cg"
proof (cases rq)
  case (OnApps now r)
  then show ?thesis using assms
    by (cases r) (auto simp: app_notes_def create_app_def update_app_def delete_app_def Let_def split: prod.splits sum.splits if_splits option.splits)
next
  case (OnSaas r)
  have f: "filter (\<lambda>x. cr_id x \<noteq> i) xs = xs" if "filter (\<lambda>x. cr_id x = i) xs = []" for i and xs :: "catalog_row list"
    using that by (auto simp: filter_empty_conv filter_id_conv)
  show ?thesis using assms OnSaas
    by (cases r) (auto simp: create_saas_def update_saas_def delete_saas_def Let_def f split: prod.splits sum.splits if_splits option.splits)
qed

lemma request_readable:
  assumes "handle_request app_ok saas_ok rq cg = (cg1, ns)" and "nets_readable net_text cg" and "\<And>b. app_ok b \<Longrightarrow> ip_network True (net_text (ai_dst_cidr b)) \<noteq> None"
  shows "nets_readable net_text cg1"
proof (cases rq)
  case (OnApps now r)
  then show ?thesis using assms
    by (cases r) (auto simp: nets_readable_def create_app_def update_app_def delete_app_def Let_def split: prod.splits sum.splits if_splits option.splits)
next
  case (OnSaas r)
  then show ?thesis using assms by (cases r) (auto simp: nets_readable_def split: prod.splits)
qed

lemma query_same:
  assumes "db_apps (cg_apps cg1) = db_apps (cg_apps cg) \<and> sd_rows (cg_saas cg1) = sd_rows (cg_saas cg) \<and> cg_ports cg1 = cg_ports cg"
  shows "table_query net_text k cg r = table_query net_text k cg1 r"
  using assms by (cases r) auto

definition accepting :: "(string \<Rightarrow> string) \<Rightarrow> (application_in \<Rightarrow> bool) \<Rightarrow> application_in \<Rightarrow> bool" where
  "accepting net_text app_ok b \<longleftrightarrow> app_ok b \<and> ip_network True (net_text (ai_dst_cidr b)) \<noteq> None"

definition tables_ok :: "(string \<Rightarrow> string) \<Rightarrow> catalogue \<Rightarrow> bool" where
  "tables_ok net_text cg \<longleftrightarrow> nets_readable net_text cg \<and> saas_inv (cg_saas cg)"

lemma request_saas_inv:
  assumes "handle_request app_ok saas_ok rq cg = (cg1, ns)" and "saas_inv (cg_saas cg)"
  shows "saas_inv (cg_saas cg1)"
proof (cases rq)
  case (OnApps now r)
  then show ?thesis using assms by (cases r) (auto split: prod.splits)
next
  case (OnSaas r)
  then show ?thesis using assms saas_step_inv[of "cg_saas cg" saas_ok r] by (cases r) (auto split: prod.splits)
qed

lemma rows_loaded:
  assumes "nets_readable net_text cg" and "length rs = 3" and "answers (table_query net_text) cg rs"
  obtains m s p where "rs = [ManualRows m, SaasRows s, PortRows p]" "mset m = mset (map (manual_of net_text) (db_apps (cg_apps cg)))"
    "mset s = mset (map entry_of (sd_rows (cg_saas cg)))" "mset p = mset (load_ports (cg_ports cg))" "nets_ok m"
proof -
  obtain x y z where rs: "rs = [x, y, z]" using assms(2) by (auto simp: numeral_3_eq_3 length_Suc_conv)
  have "table_query net_text 0 cg x" "table_query net_text 1 cg y" "table_query net_text 2 cg z"
    using assms(3) by (auto simp: answers_def rs numeral_3_eq_3 numeral_2_eq_2 less_Suc_eq)
  then obtain m s p where q: "x = ManualRows m" "y = SaasRows s" "z = PortRows p" "mset m = mset (map (manual_of net_text) (db_apps (cg_apps cg)))"
    "mset s = mset (map entry_of (sd_rows (cg_saas cg)))" "mset p = mset (load_ports (cg_ports cg))"
    by (cases x; cases y; cases z) auto
  have "set m = manual_of net_text ` set (db_apps (cg_apps cg))" using mset_eq_setD[OF q(4)] by simp
  then have "nets_ok m" using assms(1) by (auto simp: nets_ok_def nets_readable_def manual_of_def)
  with q show ?thesis by (intro that[of m s p]) (simp_all add: rs)
qed

interpretation cat: notified_cache "catalogue_change (accepting net_text app_ok) saas_ok" "table_query net_text" 3 load_rows "tables_ok net_text"
  for net_text app_ok saas_ok
proof
  show "table_query net_text k e r" if c: "catalogue_change (accepting net_text app_ok) saas_ok d e False" "table_query net_text k d r" for d e k r
  proof -
    obtain rq where "handle_request (accepting net_text app_ok) saas_ok rq d = (e, [])" using c(1) by (auto simp: catalogue_change_def)
    from request_silent[OF this] show ?thesis using c(2) query_same by blast
  qed
  show "tables_ok net_text e" if "tables_ok net_text d" "catalogue_change (accepting net_text app_ok) saas_ok d e b" for d e b
    using that request_readable request_saas_inv unfolding tables_ok_def catalogue_change_def accepting_def by blast
  show "\<exists>r. table_query net_text k d r" if "tables_ok net_text d" "k < 3" for d k
  proof -
    have "k = 0 \<or> k = 1 \<or> k = 2" using that(2) by linarith
    then show ?thesis using table_query.simps by metis
  qed
  show "\<exists>c1. load_rows rs c = Some c1" if t: "tables_ok net_text d" "length rs = 3" "answers (table_query net_text) d rs" for d rs c
  proof -
    have "nets_readable net_text d" using t(1) by (simp add: tables_ok_def)
    from rows_loaded[OF this t(2,3)] obtain m s p where r: "rs = [ManualRows m, SaasRows s, PortRows p]" "nets_ok m" by blast
    then show ?thesis by (auto simp: load_app_resolver_def load_tables_def nets_ok_def)
  qed
qed

section \<open>The groups\<close>

text \<open>\<open>listen_for_changes\<close>: one query, and an announced change of the rows.\<close>

definition group_change :: "group_row list \<Rightarrow> group_row list \<Rightarrow> bool \<Rightarrow> bool" where
  "group_change d e b \<longleftrightarrow> b \<or> mset d = mset e"

definition group_query :: "nat \<Rightarrow> group_row list \<Rightarrow> group_row list \<Rightarrow> bool" where
  "group_query k d r \<longleftrightarrow> mset r = mset d"

fun reload_groups :: "group_row list list \<Rightarrow> group_index \<Rightarrow> group_index option" where
  "reload_groups [rows] gi = Some (load gi rows)"
| "reload_groups _ gi = None"

interpretation grp: notified_cache group_change group_query 1 reload_groups "\<lambda>_. True"
  by standard (auto simp: group_change_def group_query_def length_Suc_conv)

section \<open>Properties\<close>

text \<open>
  C11: a change of the catalogues reaches the labels. From a start in which the listener is registered and the tables have been loaded, after any
  requests to the API that interleave with the notifications and with the queries of the reloads in any way, one reload at a time: when
  nothing is pending, every name is labelled with exactly the entry that the catalogue gives it now, and all three tables are those of the
  database up to order; and from every state the listener alone comes to such a point.
\<close>

theorem catalogue_changes_reach_labels:
  assumes "rt_listening s0" and "quiet s0" and "tables_ok net_text (rt_db s0)"
    and "built_from (table_query net_text) 3 load_rows (rt_db s0) (rt_cache s0)"
    and "steps = rt_step (catalogue_change (accepting net_text app_ok) saas_ok) (table_query net_text) 3 load_rows True"
    and "steps\<^sup>*\<^sup>* s0 s1"
  shows "(quiet s1 \<longrightarrow>
      (\<forall>fqdn e. saas_hit (rt_cache s1) fqdn = Some e \<longleftrightarrow> (\<exists>r. catalogue_says (cg_saas (rt_db s1)) fqdn r \<and> e = entry_of r)) \<and>
      (\<exists>rs0 m s p. mset m = mset (map (manual_of net_text) (db_apps (cg_apps (rt_db s1)))) \<and>
        mset s = mset (map entry_of (sd_rows (cg_saas (rt_db s1)))) \<and> mset p = mset (load_ports (cg_ports (rt_db s1))) \<and>
        load_tables rs0 m s p = Inr (rt_cache s1))) \<and>
    (\<exists>s2. steps\<^sup>*\<^sup>* s1 s2 \<and> quiet s2 \<and> rt_db s2 = rt_db s1)"
proof -
  have "cat.serial_inv net_text s0" using assms(1-4) by (simp add: cat.serial_inv_def quiet_def)
  then have inv: "cat.serial_inv net_text s1" using cat.serial_current assms(5,6) by blast
  have "(\<forall>fqdn e. saas_hit (rt_cache s1) fqdn = Some e \<longleftrightarrow> (\<exists>r. catalogue_says (cg_saas (rt_db s1)) fqdn r \<and> e = entry_of r)) \<and>
      (\<exists>rs0 m s p. mset m = mset (map (manual_of net_text) (db_apps (cg_apps (rt_db s1)))) \<and>
        mset s = mset (map entry_of (sd_rows (cg_saas (rt_db s1)))) \<and> mset p = mset (load_ports (cg_ports (rt_db s1))) \<and>
        load_tables rs0 m s p = Inr (rt_cache s1))" if "quiet s1"
  proof -
    obtain rs c0 where b: "length rs = 3" "answers (table_query net_text) (rt_db s1) rs" "load_rows rs c0 = Some (rt_cache s1)"
      and ok: "nets_readable net_text (rt_db s1)" "saas_inv (cg_saas (rt_db s1))"
      using inv \<open>quiet s1\<close> by (auto simp: cat.serial_inv_def built_from_def tables_ok_def)
    from rows_loaded[OF ok(1) b(1,2)] obtain m s p where r: "rs = [ManualRows m, SaasRows s, PortRows p]"
      "mset m = mset (map (manual_of net_text) (db_apps (cg_apps (rt_db s1))))"
      "mset s = mset (map entry_of (sd_rows (cg_saas (rt_db s1))))" "mset p = mset (load_ports (cg_ports (rt_db s1)))" by blast
    have l: "load_tables c0 m s p = Inr (rt_cache s1)" using b(3) by (auto simp: r(1) load_app_resolver_def split: sum.splits)
    have "set s = entry_of ` set (sd_rows (cg_saas (rt_db s1)))" using mset_eq_setD[OF r(3)] by simp
    from loaded_says[OF ok(2) this l] l r show ?thesis by blast
  qed
  moreover have "\<exists>s2. steps\<^sup>*\<^sup>* s1 s2 \<and> quiet s2 \<and> rt_db s2 = rt_db s1" using cat.drains[OF inv] unfolding assms(5) .
  ultimately show ?thesis by blast
qed

definition empty_catalogue :: catalogue where
  "empty_catalogue = \<lparr>cg_apps = empty_app_db, cg_saas = empty_saas_db, cg_ports = []\<rparr>"

definition fresh_listener :: "bool \<Rightarrow> (catalogue, rows, app_resolver) reload_state" where
  "fresh_listener on = \<lparr>rt_db = empty_catalogue, rt_listening = on, rt_pending = 0, rt_tasks = [], rt_cache = new_app_resolver\<rparr>"

lemma fresh_ok: "quiet (fresh_listener on)" "tables_ok net_text (rt_db (fresh_listener on))"
  "built_from (table_query net_text) 3 load_rows (rt_db (fresh_listener on)) (rt_cache (fresh_listener on))"
proof -
  have "load_rows [ManualRows [], SaasRows [], PortRows []] new_app_resolver = Some new_app_resolver"
    by (simp add: load_app_resolver_def load_tables_def new_app_resolver_def)
  then show "built_from (table_query net_text) 3 load_rows (rt_db (fresh_listener on)) (rt_cache (fresh_listener on))"
    unfolding built_from_def
    by (intro exI[of _ "[ManualRows [], SaasRows [], PortRows []]"] exI[of _ new_app_resolver])
      (auto simp: answers_def fresh_listener_def empty_catalogue_def empty_app_db_def empty_saas_db_def load_ports_def less_Suc_eq numeral_3_eq_3)
qed (auto simp: quiet_def fresh_listener_def tables_ok_def nets_readable_def empty_catalogue_def empty_app_db_def empty_saas_db_def saas_inv_def)

text \<open>Two catalogue entries and the tables after the first and the second.\<close>

definition zoom_row :: catalog_row where
  "zoom_row = \<lparr>cr_id = 1, cr_body = demo_saas, cr_source = ''manual''\<rparr>"

definition box_row :: catalog_row where
  "box_row = \<lparr>cr_id = 2, cr_body = demo_saas\<lparr>si_name := ''Box'', si_fqdn_pattern := ''.box.com''\<rparr>, cr_source = ''manual''\<rparr>"

definition with_rows :: "catalog_row list \<Rightarrow> catalogue" where
  "with_rows rows = empty_catalogue\<lparr>cg_saas := \<lparr>sd_rows = rows, sd_next = 1 + int (length rows)\<rparr>\<rparr>"

lemma changed_by: "handle_request app_ok saas_ok rq cg = (cg1, x # ns) \<Longrightarrow> catalogue_change app_ok saas_ok cg cg1 True"
  unfolding catalogue_change_def by blast

lemma posts:
  "catalogue_change app_ok (\<lambda>_. True) empty_catalogue (with_rows [zoom_row]) True"
  "catalogue_change app_ok (\<lambda>_. True) (with_rows [zoom_row]) (with_rows [zoom_row, box_row]) True"
proof -
  have "handle_request app_ok (\<lambda>_. True) (OnSaas (PostSaas demo_editor demo_saas)) empty_catalogue = (with_rows [zoom_row], [saas_notify 1])"
    by (simp add: create_saas_def require_editor_def demo_editor_def saas_in_ok_def demo_saas_def pattern_taken_def empty_catalogue_def
        empty_saas_db_def with_rows_def zoom_row_def Let_def)
  then show "catalogue_change app_ok (\<lambda>_. True) empty_catalogue (with_rows [zoom_row]) True" by (rule changed_by)
  have "handle_request app_ok (\<lambda>_. True) (OnSaas (PostSaas demo_editor (cr_body box_row))) (with_rows [zoom_row]) =
      (with_rows [zoom_row, box_row], [saas_notify 2])"
    by (simp add: create_saas_def require_editor_def demo_editor_def saas_in_ok_def demo_saas_def pattern_taken_def
        with_rows_def zoom_row_def box_row_def Let_def)
  then show "catalogue_change app_ok (\<lambda>_. True) (with_rows [zoom_row]) (with_rows [zoom_row, box_row]) True"
    by (rule changed_by)
qed

abbreviation race_step where
  "race_step serial \<equiv> rt_step (catalogue_change (accepting id (\<lambda>_. True)) (\<lambda>_. True)) (table_query id) 3 load_rows serial"

abbreviation race_state where
  "race_state cg on pending tasks rows \<equiv> \<lparr>rt_db = cg, rt_listening = on, rt_pending = pending, rt_tasks = tasks,
     rt_cache = new_app_resolver\<lparr>rs_saas_sorted := sort_key entry_rank (map entry_of rows)\<rparr>\<rparr>"

theorem catalogue_changes_reach_labels_witness:
  "\<exists>s2. (race_step True)\<^sup>*\<^sup>* (race_state (with_rows [zoom_row]) True 1 [] []) s2 \<and> quiet s2 \<and> rt_db s2 = with_rows [zoom_row]"
proof -
  have f: "fresh_listener True = race_state empty_catalogue True 0 [] []" by (simp add: fresh_listener_def new_app_resolver_def)
  have r: "race_step True (fresh_listener True) (race_state (with_rows [zoom_row]) True 1 [] [])"
    using rt_step.changes[of "catalogue_change (accepting id (\<lambda>_. True)) (\<lambda>_. True)" "fresh_listener True" _ True "table_query id" 3 load_rows True] posts(1)
    by (simp add: f)
  have l: "rt_listening (fresh_listener True)" by (simp add: fresh_listener_def)
  from catalogue_changes_reach_labels[OF l fresh_ok(1,2,3) refl r_into_rtranclp[of "race_step True", OF r]] show ?thesis by simp
qed

lemma stale:
  assumes "mset (map entry_of rows) \<noteq> mset (map entry_of (sd_rows (cg_saas cg)))"
  shows "\<not> built_from (table_query id) 3 load_rows cg (new_app_resolver\<lparr>rs_saas_sorted := sort_key entry_rank (map entry_of rows)\<rparr>)"
proof
  assume "built_from (table_query id) 3 load_rows cg (new_app_resolver\<lparr>rs_saas_sorted := sort_key entry_rank (map entry_of rows)\<rparr>)"
  then obtain rs c0 where r: "answers (table_query id) cg rs"
    "load_rows rs c0 = Some (new_app_resolver\<lparr>rs_saas_sorted := sort_key entry_rank (map entry_of rows)\<rparr>)" by (auto simp: built_from_def)
  from r(2) obtain m es p where q: "rs = [ManualRows m, SaasRows es, PortRows p]" by (cases "(rs, c0)" rule: load_rows.cases) auto
  then have "sort_key entry_rank es = sort_key entry_rank (map entry_of rows)"
    using r(2) by (cases c0) (auto simp: load_app_resolver_def load_tables_ok new_app_resolver_def split: sum.splits)
  then have "mset es = mset (map entry_of rows)" by (metis mset_sort)
  moreover have "mset es = mset (map entry_of (sd_rows (cg_saas cg)))" using r(1) by (auto simp: q answers_def)
  ultimately show False using assms by simp
qed

lemma race_steps:
  "catalogue_change (accepting id (\<lambda>_. True)) (\<lambda>_. True) cg cg1 True \<Longrightarrow>
     race_step b (race_state cg on p ts rows) (race_state cg1 on (p + (if on then 1 else 0)) ts rows)"
  "race_step False (race_state cg on (Suc p) ts rows) (race_state cg on p (ts @ [[]]) rows)"
  "length rs < 3 \<Longrightarrow> table_query id (length rs) cg r \<Longrightarrow>
     race_step b (race_state cg on p (us @ rs # vs) rows) (race_state cg on p (us @ (rs @ [r]) # vs) rows)"
  "race_step b (race_state cg on p (us @ [ManualRows [], SaasRows (map entry_of new), PortRows []] # vs) rows) (race_state cg on p (us @ vs) new)"
  "race_step b (race_state cg on p ts rows) (race_state cg True p ts rows)"
proof -
  show "catalogue_change (accepting id (\<lambda>_. True)) (\<lambda>_. True) cg cg1 True \<Longrightarrow>
     race_step b (race_state cg on p ts rows) (race_state cg1 on (p + (if on then 1 else 0)) ts rows)"
    using rt_step.changes[of "catalogue_change (accepting id (\<lambda>_. True)) (\<lambda>_. True)" "race_state cg on p ts rows" cg1 True] by simp
  show "race_step False (race_state cg on (Suc p) ts rows) (race_state cg on p (ts @ [[]]) rows)"
    using rt_step.delivers[of "race_state cg on (Suc p) ts rows" p False] by simp
  show "length rs < 3 \<Longrightarrow> table_query id (length rs) cg r \<Longrightarrow>
     race_step b (race_state cg on p (us @ rs # vs) rows) (race_state cg on p (us @ (rs @ [r]) # vs) rows)"
    using rt_step.fetches[of "race_state cg on p (us @ rs # vs) rows" us rs vs 3 "table_query id" r] by simp
  have "load_rows [ManualRows [], SaasRows (map entry_of new), PortRows []]
      (new_app_resolver\<lparr>rs_saas_sorted := sort_key entry_rank (map entry_of rows)\<rparr>) =
      Some (new_app_resolver\<lparr>rs_saas_sorted := sort_key entry_rank (map entry_of new)\<rparr>)"
    by (simp add: load_app_resolver_def load_tables_def new_app_resolver_def)
  then show "race_step b (race_state cg on p (us @ [ManualRows [], SaasRows (map entry_of new), PortRows []] # vs) rows)
      (race_state cg on p (us @ vs) new)"
    using rt_step.replaces[of "race_state cg on p (us @ [ManualRows [], SaasRows (map entry_of new), PortRows []] # vs) rows" us
        "[ManualRows [], SaasRows (map entry_of new), PortRows []]" vs 3 load_rows] by simp
  show "race_step b (race_state cg on p ts rows) (race_state cg True p ts rows)"
    using rt_step.listens[of _ _ _ _ b "race_state cg on p ts rows"] by simp
qed


text \<open>The groups follow the announced changes in the same way.\<close>

lemma groups_follow:
  assumes "rt_listening s0" and "quiet s0" and "built_from group_query 1 reload_groups (rt_db s0) (rt_cache s0)"
    and "(rt_step group_change group_query 1 reload_groups True)\<^sup>*\<^sup>* s0 s1" and "quiet s1"
  shows "\<exists>rows gi. mset rows = mset (rt_db s1) \<and> rt_cache s1 = load gi rows"
proof -
  have "grp.serial_inv s0" using assms(1-3) unfolding grp.serial_inv_def quiet_def by simp
  then have "grp.serial_inv s1" by (rule grp.serial_current[OF assms(4)])
  then obtain rs gi where "length rs = 1" "answers group_query (rt_db s1) rs" "reload_groups rs gi = Some (rt_cache s1)"
    using assms(5) unfolding grp.serial_inv_def built_from_def by blast
  then obtain y where "group_query 0 (rt_db s1) y" "reload_groups [y] gi = Some (rt_cache s1)"
    by (auto simp: length_Suc_conv answers_def)
  then have "mset y = mset (rt_db s1) \<and> rt_cache s1 = load gi y" by (simp add: group_query_def)
  then show ?thesis by blast
qed

end
