(* ===== verification/Spec2Isabelle.thy ===== *)
theory Spec2Isabelle
  imports
    Flow_Process
    Api_History
    Metrics
    Pipeline_Progress
    Lifecycle
    Id_Process
    Entra_Polling
    Correlator_Settings
    Load_Test
    Resolver_Main
    Api_Flows
    Api_Services
    Api_Process
    Storage
    Reload
begin

text \<open>
  A verification library for the ZTNA flow discovery services. Firewalls send syslog lines to
  \<open>flow-ingest\<close> and directories and access controllers send logons to \<open>id-ingest\<close>; both publish events on
  Redis streams. The \<open>correlator\<close> reads them, sums flows over time windows, labels each window with the
  application of its destination and the user and groups of its source, publishes Sankey diagrams and
  writes the database that the migrations build. The \<open>resolver\<close> finds names for addresses the correlator could
  not label, and the \<open>api\<close> serves the live and historical views, the catalogues and the login.

  \<^bold>\<open>Theories and sources.\<close> (paths below \<open>src/\<close>)

  \<^item> \<open>Prelude\<close>, \<open>Py_String\<close>, \<open>Datetime\<close>, \<open>Json\<close>, \<open>Codecs\<close>, \<open>Csv\<close>, \<open>Ipaddress\<close>: the Python values and library functions the code
    uses: exceptions as a sum type, insertion-ordered dictionaries, \<open>str\<close> methods and \<open>int\<close>, \<open>datetime\<close> with ISO 8601 and \<open>strptime\<close>,
    \<open>json\<close>, UTF-8 and base64, the \<open>csv\<close> reader, \<open>ipaddress\<close>.
  \<^item> \<open>Bounded_Queue\<close>: \<open>asyncio.Queue\<close> and dropping the oldest entry; \<open>Keyset\<close>: pagination by key.
  \<^item> \<open>Event_Types\<close>, \<open>Event_Json\<close>, \<open>Syslog_Receiver\<close>, \<open>Redis_Bus\<close>, \<open>Logging_Pii\<close>: \<open>common/src/ztna_common\<close>, with the events as the texts
    that travel on Redis.
  \<^item> \<open>Fortigate\<close>, \<open>Palo_Alto\<close>, \<open>Flow_Ingest\<close>, \<open>Flow_Process\<close>: the two firewall parsers (with \<open>shlex\<close>), the competition of the
    adapters for one queue and the process with its tasks, \<open>flow-ingest/src/flow_ingest\<close>.
  \<^item> \<open>Nac_Adapters\<close>, \<open>Signin_Adapters\<close>, \<open>Group_Sync\<close>, \<open>Id_Ingest\<close>, \<open>Entra_Polling\<close>, \<open>Id_Process\<close>: the four identity adapters (with their
    regular expressions), the polling loop, group synchronisation and the process, \<open>id-ingest/src/id_ingest\<close>.
  \<^item> \<open>Windower\<close>, \<open>Identity_Index\<close>, \<open>Group_Index\<close>, \<open>Group_Aggregator\<close>, \<open>Enricher\<close>, \<open>App_Resolver\<close>,
    \<open>Sankey_Publisher\<close>, \<open>Delta_Json\<close>, \<open>Writer\<close>: the modules of \<open>correlator/src/correlator/pipeline\<close>;
    \<open>Correlator\<close>, \<open>Correlator_Settings\<close>: \<open>correlator/main.py\<close> and \<open>settings.py\<close>, the stages connected by bounded queues as a step relation
    whose steps show their effects; \<open>Pipeline_Flow\<close>: the balance of these effects; \<open>Pipeline_Progress\<close>: that nothing gets stuck.
  \<^item> \<open>Saas_Matcher\<close>, \<open>Resolver_Worker\<close>, \<open>Resolver_Main\<close>: \<open>resolver/src/resolver\<close>.
  \<^item> \<open>Schema\<close>, \<open>Seeding\<close>, \<open>Storage\<close>, \<open>Reload\<close>: the migrations (\<open>migrate/alembic/versions\<close>) as statements on a schema, the rows that they seed,
    what the resulting tables accept, and how a change of a table reaches the caches of the correlator.
  \<^item> \<open>Api_Auth\<close>, \<open>Api_Login\<close>, \<open>Api_Cursor\<close>, \<open>Api_Flows\<close>, \<open>Api_History\<close>, \<open>Api_Services\<close>, \<open>Api_Status\<close>, \<open>Api_Ws\<close>, \<open>Api_Applications\<close>, \<open>Saas_Catalog\<close>:
    the parts of \<open>api/src/api\<close>; \<open>Api_App\<close>: its routes, guards and middleware; \<open>Api_Process\<close>: its start.
  \<^item> \<open>Flow_Path\<close>, \<open>Identity_Path\<close>: the ways of a flow and of an identity through the services; \<open>Service_Urls\<close>: one database URL for all of
    them; \<open>Lifecycle\<close>: starting and stopping; \<open>Metrics\<close>: what they report.
  \<^item> \<open>Mock_Generator\<close>, \<open>Load_Test\<close>: \<open>mock-syslog-generator\<close> and \<open>loadtest\<close>, and what the adapters make of their lines.

  Objects with state are records, and their methods are functions from state and arguments to state and
  result; a raised exception is the left side of a sum. Concurrency appears where tasks share state: the
  pipeline of the correlator, the tasks of the two ingest services, the reload tasks and the connections of the live stream
  step from one await to the next, in any order.

  \<^bold>\<open>Interfaces.\<close> \<open>drop_oldest\<close> and its extension \<open>counting_drop_oldest\<close> (the queues of the windower, the demultiplexer and the receiver),
  \<open>keyset\<close> (both paginations of the API), \<open>ranked_table\<close> (the SaaS and manual tables of the resolver and the correlator), \<open>directory\<close> (what the
  aggregation relies on in the group index), \<open>notified_cache\<close> (both caches that are reloaded on a notification) and \<open>balanced\<close>
  (the two sides of the pipeline).

  \<^bold>\<open>What is shown.\<close>

  \<^item> Nothing is lost or invented on the way, except where a theorem says so: bursts of lines reach the correlator; over all interleavings of its
    tasks, what it took is what the table received or what the diagrams showed, plus what queues pushed out, copies refused and what is
    on its way; the windower conserves and the group aggregation is the group-by of its rows; the historical diagram adds up the stored rows;
    the processes account for every event until an exception ends a task.
  \<^item> Inputs are read as they were meant: framing over any segmentation of a TCP stream, the lines of both firewalls and both access controllers,
    events and diagrams as JSON, cursors, and the shipped CSV files are read back exactly; polls and group
    listings through pages end and are complete, also after failed polls.
  \<^item> Labels are right: covering groups are least, applications follow the order of the sources, all services agree on the
    SaaS catalogue, changes of it reach the labels; identities follow the resolution rule, in the index and from the wire to its answer.
  \<^item> The process is safe: queues stay bounded and no stage raises on data that reaches it, and from every state everything can still leave the pipeline; a receiver stops once its senders have left.
  \<^item> The database: migrations are reversible, every statement of the services fits the schema, and a batch is stored as a whole or lost as a whole.
  \<^item> The API lets in exactly who logged in with the right group, on every route; it shows the heaviest wanted links, lists
    group members completely, keeps one stream per user and an audit trail that explains the catalogue.
  \<^item> Where the code does not do what its documentation says, the theorem states what it does: rows lost
    between pages, ranges of groups lost, groups never announced, reloads that race, histories without nodes, drops that are not reported, a service
    ended by a directory that is down.

  \<^bold>\<open>Parameters and hypotheses.\<close> Code outside the repository is an argument: the interval tree with its
  documented laws (\<open>interval_tree_laws\<close>, satisfied by \<open>list_tree\<close>), the signing serializer
  (\<open>serializer_laws\<close>, satisfied by \<open>tally_serializer\<close>), Redis, Postgres, LDAP, HTTP and DNS through what they answer, what the database takes for an
  address and how it writes one, the validation of pydantic where it is not spelled out, UTF-8 decoding with replacement, hashes, log
  levels, binds of sockets, and whether the event loop waits for open connections. Database queries are their filter, grouping, order and
  limit on lists of rows.

  \<^bold>\<open>Conventions and bounds.\<close> Instants are exact microseconds and an instant without a zone is read as UTC, strings are Latin-1, Python integers are
  unbounded; the digit limit of \<open>int\<close> is kept, and hypotheses such as \<open>10 ^ 30\<close> keep numbers below it. A JSON number with a fraction is kept as its
  text. Only the JSON reader has fuel, twice the length of the text and two, which \<open>scan_enough\<close> shows to be enough for every text. Other loops are
  structural or have a measure, and the loops that an outside service could keep
  going (\<open>paged\<close>, \<open>read_memberof\<close>) are partial functions whose return is proved for finite listings. Rates and fractions are rational
  numbers.

  \<^bold>\<open>Not modelled.\<close> The front end in TypeScript and the files of Docker, Traefik, Prometheus and Grafana are other languages. Of the Python code,
  what only hands values to a library is left out: the sockets and event loop below the receiver, the signal handlers, the connection
  pools, the HTTP server of the metrics, the offline mode of the migrations and the bodies of abstract methods. Rounding of
  floating-point time is not covered.
\<close>

end
